(* ===== verification/Acorn_Prelude.thy ===== *)
theory Acorn_Prelude
  imports Main "HOL-Library.Word" "HOL-Library.Monad_Syntax"
begin

text \<open>
  Shared material of the AcornOS development: the machine integer types of the C sources, the
  counting loop \<open>for(i = a; i < n; i++)\<close> over unsigned integers, and the generic lemmas on
  words, lists and folds that the component theories use.

  Conventions of the models. A C function that changes state takes the state and returns the
  new one. A result of type \<open>'a option\<close> is \<^term>\<open>None\<close> exactly where the C code does not
  return to its caller: \<open>kpanic\<close> halts the machine for ever, a corrupt linked list is walked
  for ever, or a pointer that addresses no object is dereferenced. Everything the C code
  reports through its return value (\<open>-1\<close>, \<open>NULL\<close>) is a value of the model too.
\<close>

unbundle bit_operations_syntax

type_synonym u8 = "8 word"
type_synonym u16 = "16 word"
type_synonym u32 = "32 word"
type_synonym u64 = "64 word"

text \<open>Sizes that several components share: the page size of \<open>pmm.h\<close> and the size of the kernel
  heap of \<open>mem.h\<close>.\<close>

abbreviation PAGE_SIZE :: u64 where "PAGE_SIZE \<equiv> 4096"
abbreviation HEAP_SIZE :: u64 where "HEAP_SIZE \<equiv> 16 * 1024 * 1024"

text \<open>Collections: \<open>kdefs\<close> holds the definitions a component unfolds routinely,
  \<open>unat_bounds\<close> the facts that move word arithmetic to \<^typ>\<open>nat\<close>.\<close>

named_theorems kdefs
named_theorems unat_bounds

section \<open>Words as natural numbers\<close>

lemma unat_u8_bound [unat_bounds]: "unat (x :: u8) < 256"
  using unsigned_less [of x, where 'a = nat] by simp

lemma unat_u32_bound [unat_bounds]: "unat (x :: u32) < 2 ^ 32"
  using unsigned_less [of x, where 'a = nat] by simp

lemma unat_u64_bound [unat_bounds]: "unat (x :: u64) < 2 ^ 64"
  using unsigned_less [of x, where 'a = nat] by simp

lemma of_nat_u64_eq_iff: "a < 2 ^ 64 \<Longrightarrow> b < 2 ^ 64 \<Longrightarrow> (of_nat a :: u64) = of_nat b \<longleftrightarrow> a = b"
  by (simp add: word_unat_eq_iff unat_of_nat)

lemma unat_of_nat_u64: "a < 2 ^ 64 \<Longrightarrow> unat (of_nat a :: u64) = a"
  by (simp add: unat_of_nat)

lemma unat_Suc_less:
  fixes i n :: "'a::len word"
  assumes "i < n"
  shows "unat (i + 1) = Suc (unat i)"
proof -
  have "unat i < unat n" using assms by (simp add: word_less_nat_alt)
  moreover have "unat n < 2 ^ LENGTH('a)" by (rule unsigned_less)
  ultimately have "Suc (unat i) < 2 ^ LENGTH('a)" by linarith
  then show ?thesis by (simp add: unat_word_ariths)
qed

lemma word_next_le: "i < n \<Longrightarrow> (i :: 'a::len word) + 1 \<le> n"
  using unat_Suc_less [of i n] by (simp add: word_le_nat_alt word_less_nat_alt)

lemma word_next_le_iff: "i < n \<Longrightarrow> (i :: 'a::len word) + 1 \<le> k \<longleftrightarrow> i \<le> k \<and> k \<noteq> i"
  using unat_Suc_less [of i n] word_unat_eq_iff [of k i]
  by (auto simp: word_le_nat_alt word_less_nat_alt)

lemma sint_u32: "sint (x :: u32) = (if uint x < 2 ^ 31 then uint x else uint x - 2 ^ 32)"
proof -
  have "sint x = (uint x + 2 ^ 31) mod 2 ^ 32 - 2 ^ 31"
    by (simp add: sint_uint signed_take_bit_eq_take_bit_shift take_bit_eq_mod)
  moreover have "0 \<le> uint x" "uint x < 2 ^ 32" using uint_lt2p [of x] by simp_all
  ultimately show ?thesis
    by (cases "uint x < 2 ^ 31") (simp_all add: mod_pos_pos_trivial mod_pos_geq)
qed

section \<open>Counting loops\<close>

function for_loop :: "'a::len word \<Rightarrow> 'a word \<Rightarrow> ('a word \<Rightarrow> 's \<Rightarrow> 's) \<Rightarrow> 's \<Rightarrow> 's" where
  "for_loop i n body s = (if i < n then for_loop (i + 1) n body (body i s) else s)"
  by pat_completeness auto
termination
  by (relation "measure (\<lambda>(i, n, body, s). unat n - unat i)")
    (auto simp: unat_Suc_less word_less_nat_alt diff_less_mono2)

declare for_loop.simps [simp del]

text \<open>The loop is a fold over the indices it visits.\<close>

lemma for_loop_fold:
  "for_loop i n body s = fold (\<lambda>k. body (of_nat k)) [unat i..<unat n] s"
proof (induction i n body s rule: for_loop.induct)
  case (1 i n body s)
  show ?case
  proof (cases "i < n")
    case True
    then have "[unat i..<unat n] = unat i # [unat (i + 1)..<unat n]"
      by (simp add: unat_Suc_less word_less_nat_alt upt_conv_Cons)
    with True 1 show ?thesis by (simp add: for_loop.simps [of i n])
  next
    case False
    then show ?thesis by (simp add: for_loop.simps [of i n] word_less_nat_alt)
  qed
qed

lemma for_loop_done [simp]: "\<not> i < n \<Longrightarrow> for_loop i n body s = s"
  by (simp add: for_loop.simps)

text \<open>Loop invariants: what holds before the loop and is kept by every visited index holds
  after it.\<close>

lemma for_loop_invariant:
  assumes "P s" and "\<And>k t. i \<le> k \<Longrightarrow> k < n \<Longrightarrow> P t \<Longrightarrow> P (body k t)"
  shows "P (for_loop i n body s)"
  using assms
proof (induction i n body s rule: for_loop.induct)
  case (1 i n body s)
  show ?case
  proof (cases "i < n")
    case True
    have "P (body i s)" using 1(3) [of i s] True 1(2) by simp
    moreover have "P (body k t)" if "i + 1 \<le> k" "k < n" "P t" for k t
    proof (rule 1(3) [OF _ that(2,3)])
      show "i \<le> k" using that(1) True unat_Suc_less [OF True]
        by (simp add: word_le_nat_alt)
    qed
    ultimately have "P (for_loop (i + 1) n body (body i s))"
      by (rule 1(1) [OF True])
    with True show ?thesis by (simp add: for_loop.simps [of i n])
  qed (use 1(2) in simp)
qed

lemma for_loop_counting:
  assumes "P i s" and "i \<le> n" and "\<And>k t. i \<le> k \<Longrightarrow> k < n \<Longrightarrow> P k t \<Longrightarrow> P (k + 1) (body k t)"
  shows "P n (for_loop i n body s)"
  using assms
proof (induction i n body s rule: for_loop.induct)
  case (1 i n body s)
  show ?case
  proof (cases "i < n")
    case True
    have "P (i + 1) (body i s)" using 1(4) [of i s] True 1(2) by simp
    moreover have "i + 1 \<le> n" using True by (rule word_next_le)
    moreover have "P (k + 1) (body k t)" if "i + 1 \<le> k" "k < n" "P k t" for k t
      using that True unat_Suc_less [OF True] by (intro 1(4)) (auto simp: word_le_nat_alt)
    ultimately have "P n (for_loop (i + 1) n body (body i s))"
      by (rule 1(1) [OF True])
    with True show ?thesis by (simp add: for_loop.simps [of i n])
  next
    case False
    with 1(2,3) show ?thesis by simp
  qed
qed

section \<open>Lists\<close>

lemma set_update_iff:
  assumes "k < length xs"
  shows "g \<in> set (xs[k := v]) \<longleftrightarrow> g = v \<or> (\<exists>i < length xs. i \<noteq> k \<and> xs ! i = g)"
proof
  assume "g \<in> set (xs[k := v])"
  then obtain i where "i < length xs" "xs[k := v] ! i = g" by (auto simp: in_set_conv_nth)
  then show "g = v \<or> (\<exists>i < length xs. i \<noteq> k \<and> xs ! i = g)"
    using assms by (cases "i = k") auto
next
  assume "g = v \<or> (\<exists>i < length xs. i \<noteq> k \<and> xs ! i = g)"
  then show "g \<in> set (xs[k := v])"
  proof
    assume "\<exists>i < length xs. i \<noteq> k \<and> xs ! i = g"
    then obtain i where i: "i < length xs" "i \<noteq> k" "xs ! i = g" by blast
    then have "xs[k := v] ! i \<in> set (xs[k := v])" by (intro nth_mem) simp
    with i show ?thesis by simp
  qed (simp add: set_update_memI assms)
qed

end
