(* ===== verification/Kheap.thy ===== *)
theory Kheap
  imports Acorn_Prelude
begin

text \<open>
  The kernel heap, \<open>src/kernel/memory/mem.c\<close>: a singly linked list of block headers in address
  order, first-fit allocation with splitting, and release with coalescing of adjacent free
  blocks. Memory is modelled at the granularity of the headers: \<open>hdrs h a\<close> is the
  \<open>block_header_t\<close> at address \<open>a\<close>. The list is walked through the \<open>next\<close> pointers exactly
  as the C code does, so the walks are partial functions; the invariant \<open>kheap_inv\<close> makes them
  total. The abstract view of a heap is the list of its blocks, each a size and a free flag, and
  the operations refine first-fit allocation and release on that list.
\<close>

section \<open>State\<close>

record block_header =
  bh_size :: u64
  bh_free :: u64
  bh_next :: u64

type_synonym hmem = "u64 \<Rightarrow> block_header"

record kheap =
  hdrs :: hmem
  heap_start :: u64
  heap_used :: u32

abbreviation HEADER_SIZE :: u64 where "HEADER_SIZE \<equiv> 24"
abbreviation HEAP_START :: u64 where "HEAP_START \<equiv> 0xFFFF800002200000"

definition mem_init :: "hmem \<Rightarrow> kheap" where
  "mem_init mem =
     \<lparr>hdrs = mem(HEAP_START := \<lparr>bh_size = HEAP_SIZE - HEADER_SIZE, bh_free = 1, bh_next = 0\<rparr>),
      heap_start = HEAP_START,
      heap_used = 0\<rparr>"

section \<open>kmalloc\<close>

definition align4 :: "u64 \<Rightarrow> u64" where
  "align4 nbytes = (if nbytes mod 4 \<noteq> 0 then nbytes + (4 - nbytes mod 4) else nbytes)"

text \<open>The walk: \<^term>\<open>None\<close> is the panic at the end of the list (or an endless walk of a cyclic
  list, which the invariant excludes).\<close>

partial_function (option) kmalloc_find :: "hmem \<Rightarrow> u64 \<Rightarrow> u64 \<Rightarrow> u64 option" where
  "kmalloc_find h nbytes current =
     (if current = 0 then None
      else if bh_free (h current) \<noteq> 0 \<and> bh_size (h current) \<ge> nbytes then Some current
      else kmalloc_find h nbytes (bh_next (h current)))"

definition kmalloc_take :: "hmem \<Rightarrow> u64 \<Rightarrow> u64 \<Rightarrow> hmem" where
  "kmalloc_take h current nbytes =
     (let h1 =
        (if bh_size (h current) > nbytes + HEADER_SIZE + 4
         then let new_block = current + HEADER_SIZE + nbytes;
                  h' = h(new_block := \<lparr>bh_size = bh_size (h current) - nbytes - HEADER_SIZE,
                                       bh_free = 1, bh_next = bh_next (h current)\<rparr>)
              in h'(current := (h' current)\<lparr>bh_size := nbytes, bh_next := new_block\<rparr>)
         else h)
      in h1(current := (h1 current)\<lparr>bh_free := 0\<rparr>))"

definition kmalloc :: "kheap \<Rightarrow> u64 \<Rightarrow> (u64 \<times> kheap) option" where
  "kmalloc s nbytes =
     (if nbytes = 0 then None
      else let n = align4 nbytes in
        do { current \<leftarrow> kmalloc_find (hdrs s) n (heap_start s);
             let h = kmalloc_take (hdrs s) current n in
             Some (current + HEADER_SIZE,
                   s\<lparr>hdrs := h, heap_used := heap_used s + ucast (bh_size (h current))\<rparr>) })"

section \<open>kfree\<close>

partial_function (option) kfree_coalesce :: "hmem \<Rightarrow> u64 \<Rightarrow> hmem option" where
  "kfree_coalesce h current =
     (if current \<noteq> 0 \<and> bh_next (h current) \<noteq> 0
      then let nxt = bh_next (h current) in
        if bh_free (h current) \<noteq> 0 \<and> bh_free (h nxt) \<noteq> 0
        then kfree_coalesce
               (h(current := (h current)\<lparr>bh_size := bh_size (h current) + (HEADER_SIZE + bh_size (h nxt)),
                                         bh_next := bh_next (h nxt)\<rparr>)) current
        else kfree_coalesce h nxt
      else Some h)"

definition kfree :: "kheap \<Rightarrow> u64 \<Rightarrow> kheap option" where
  "kfree s ptr =
     (if ptr = 0 then Some s
      else let block = ptr - HEADER_SIZE;
               h = (hdrs s)(block := (hdrs s block)\<lparr>bh_free := 1\<rparr>) in
        do { h' \<leftarrow> kfree_coalesce h (heap_start s);
             Some (s\<lparr>hdrs := h', heap_used := heap_used s - ucast (bh_size (h block))\<rparr>) })"

section \<open>Statistics\<close>

text \<open>The counting loop of \<open>mem_print_stats\<close>: blocks, free blocks, free bytes.\<close>

partial_function (option) mem_stats_walk :: "hmem \<Rightarrow> u64 \<Rightarrow> u32 \<Rightarrow> u32 \<Rightarrow> u32 \<Rightarrow> (u32 \<times> u32 \<times> u32) option" where
  "mem_stats_walk h current total_blocks free_blocks free_bytes =
     (if current \<noteq> 0
      then if bh_free (h current) \<noteq> 0
           then mem_stats_walk h (bh_next (h current)) (total_blocks + 1) (free_blocks + 1)
                  (free_bytes + ucast (bh_size (h current)))
           else mem_stats_walk h (bh_next (h current)) (total_blocks + 1) free_blocks free_bytes
      else Some (total_blocks, free_blocks, free_bytes))"

definition mem_print_stats :: "kheap \<Rightarrow> (u32 \<times> u32 \<times> u32) option" where
  "mem_print_stats s = mem_stats_walk (hdrs s) (heap_start s) 0 0 0"

section \<open>The abstract heap: a list of blocks\<close>

type_synonym blk = "nat \<times> bool"

fun span :: "blk list \<Rightarrow> nat" where
  "span [] = 0"
| "span ((sz, fr) # xs) = 24 + sz + span xs"

text \<open>First fit from position \<open>p\<close>: the position of the block found and the new block list.\<close>

fun falloc :: "nat \<Rightarrow> nat \<Rightarrow> blk list \<Rightarrow> (nat \<times> blk list) option" where
  "falloc n p [] = None"
| "falloc n p ((sz, fr) # xs) =
     (if fr \<and> n \<le> sz
      then Some (p, if n + 28 < sz then (n, False) # (sz - n - 24, True) # xs else (sz, False) # xs)
      else map_option (\<lambda>(q, ys). (q, (sz, fr) # ys)) (falloc n (p + 24 + sz) xs))"

fun fmark :: "nat \<Rightarrow> nat \<Rightarrow> blk list \<Rightarrow> blk list" where
  "fmark q p [] = []"
| "fmark q p ((sz, fr) # xs) =
     (if q = p then (sz, True) # xs else (sz, fr) # fmark q (p + 24 + sz) xs)"

fun coal :: "blk list \<Rightarrow> blk list" where
  "coal ((s, f) # (t, g) # xs) =
     (if f \<and> g then coal ((s + 24 + t, True) # xs) else (s, f) # coal ((t, g) # xs))"
| "coal xs = xs"

text \<open>The allocated blocks: data address to size.\<close>

fun lives :: "nat \<Rightarrow> blk list \<Rightarrow> (nat \<rightharpoonup> nat)" where
  "lives p [] = Map.empty"
| "lives p ((sz, fr) # xs) =
     (if fr then lives (p + 24 + sz) xs else (lives (p + 24 + sz) xs)(p + 24 \<mapsto> sz))"

definition used_bytes :: "blk list \<Rightarrow> nat" where
  "used_bytes xs = sum_list (map fst (filter (\<lambda>b. \<not> snd b) xs))"

definition free_bytes_of :: "blk list \<Rightarrow> nat" where
  "free_bytes_of xs = sum_list (map fst (filter snd xs))"

section \<open>Representation\<close>

definition hptr :: "nat \<Rightarrow> blk list \<Rightarrow> u64" where
  "hptr p xs = (if xs = [] then 0 else of_nat p)"

fun rep :: "hmem \<Rightarrow> nat \<Rightarrow> blk list \<Rightarrow> bool" where
  "rep h p [] = True"
| "rep h p ((sz, fr) # xs) \<longleftrightarrow>
     h (of_nat p) = \<lparr>bh_size = of_nat sz, bh_free = (if fr then 1 else 0), bh_next = hptr (p + 24 + sz) xs\<rparr> \<and>
     rep h (p + 24 + sz) xs"

text \<open>The word arithmetic of a block list that ends below \<open>2 ^ 64\<close>.\<close>

lemma span_append [simp]: "span (xs @ ys) = span xs + span ys"
  by (induction xs rule: span.induct) auto

lemma rep_update_other:
  assumes "rep h p xs" and "p + span xs < 2 ^ 64" and "q < 2 ^ 64" and "q < p \<or> p + span xs \<le> q"
  shows "rep (h(of_nat q := v)) p xs"
  using assms
proof (induction xs arbitrary: p)
  case (Cons b xs)
  obtain sz fr where b: "b = (sz, fr)" by (cases b)
  have "(of_nat p :: u64) \<noteq> of_nat q"
    using Cons.prems b by (subst of_nat_u64_eq_iff) auto
  moreover have "rep (h(of_nat q := v)) (p + 24 + sz) xs"
    using Cons.prems b by (intro Cons.IH) auto
  ultimately show ?case using Cons.prems b by (simp add: fun_upd_def)
qed simp

lemma hptr_Cons [simp]: "hptr p (b # xs) = of_nat p"
  by (simp add: hptr_def)

lemma hptr_Nil [simp]: "hptr p [] = 0"
  by (simp add: hptr_def)

lemma of_nat_u64_nonzero: "0 < p \<Longrightarrow> p < 2 ^ 64 \<Longrightarrow> (of_nat p :: u64) \<noteq> 0"
  using of_nat_u64_eq_iff [of p 0] by simp

lemma hptr_eq_0: "0 < p \<Longrightarrow> p < 2 ^ 64 \<Longrightarrow> hptr p xs = 0 \<longleftrightarrow> xs = []"
  by (simp add: hptr_def of_nat_u64_nonzero)

section \<open>Refinement of kmalloc\<close>

lemma kmalloc_find_falloc:
  assumes "rep h p xs" and "0 < p" and "p + span xs < 2 ^ 64"
  shows "kmalloc_find h n (hptr p xs) = map_option (\<lambda>(q, ys). of_nat q) (falloc (unat n) p xs)"
  using assms
proof (induction xs arbitrary: p)
  case Nil
  then show ?case by (simp add: kmalloc_find.simps)
next
  case (Cons b xs)
  obtain sz fr where b: "b = (sz, fr)" by (cases b)
  have nz: "(of_nat p :: u64) \<noteq> 0" using Cons.prems b by (intro of_nat_u64_nonzero) auto
  have sz: "bh_size (h (of_nat p)) \<ge> n \<longleftrightarrow> unat n \<le> sz"
    using Cons.prems b by (simp add: word_le_nat_alt unat_of_nat_u64)
  have IH: "kmalloc_find h n (hptr (p + 24 + sz) xs) =
      map_option (\<lambda>(q, ys). of_nat q) (falloc (unat n) (p + 24 + sz) xs)"
    using Cons.prems b by (intro Cons.IH) auto
  show ?case
    using Cons.prems b nz sz IH
    by (simp add: kmalloc_find.simps [of h n "of_nat p"] option.map_comp comp_def case_prod_unfold)
qed

lemma falloc_position: "falloc n p xs = Some (q, ys) \<Longrightarrow> p \<le> q \<and> q + 24 + n \<le> p + span xs"
proof (induction xs arbitrary: p ys)
  case (Cons b xs)
  then show ?case
    by (cases b) (fastforce split: if_splits)
qed simp

lemma falloc_span: "falloc n p xs = Some (q, ys) \<Longrightarrow> span ys = span xs"
proof (induction xs arbitrary: p ys)
  case (Cons b xs)
  then show ?case by (cases b) (auto split: if_splits)
qed simp

lemma falloc_Nil: "falloc n p xs = Some (q, ys) \<Longrightarrow> ys \<noteq> [] \<and> xs \<noteq> []"
  by (cases xs) (auto split: if_splits)

text \<open>Taking the block at the head of a represented list.\<close>

lemma kmalloc_take_head:
  assumes rep: "rep h p ((sz, True) # xs)" and bound: "p + 24 + sz + span xs < 2 ^ 64"
    and p: "28 \<le> p" and le: "n \<le> sz"
  shows "rep (kmalloc_take h (of_nat p) (of_nat n)) p
    (if n + 28 < sz then (n, False) # (sz - n - 24, True) # xs else (sz, False) # xs)"
proof -
  let ?c = "of_nat p :: u64" and ?new = "of_nat (p + 24 + n) :: u64"
  have hp: "h ?c = \<lparr>bh_size = of_nat sz, bh_free = 1, bh_next = hptr (p + 24 + sz) xs\<rparr>"
    and tl: "rep h (p + 24 + sz) xs" using rep by simp_all
  have frame: "rep (h'(of_nat q := v)) (p + 24 + sz) xs"
    if "rep h' (p + 24 + sz) xs" "q < p + 24 + sz" for h' q v
    using that bound by (intro rep_update_other) auto
  have "of_nat n + HEADER_SIZE + 4 = (of_nat (n + 28) :: u64)" by simp
  then have cond: "bh_size (h ?c) > of_nat n + HEADER_SIZE + 4 \<longleftrightarrow> n + 28 < sz"
    using hp bound p le by (simp add: word_less_nat_alt unat_of_nat_u64 del: of_nat_add)
  show ?thesis
  proof (cases "n + 28 < sz")
    case True
    have ne: "?c \<noteq> ?new"
      using bound True by (subst of_nat_u64_eq_iff) auto
    have "of_nat sz - of_nat n - HEADER_SIZE = (of_nat (sz - n - 24) :: u64)"
      using True by (simp add: of_nat_diff)
    then have "kmalloc_take h ?c (of_nat n) =
        h(?new := \<lparr>bh_size = of_nat (sz - n - 24), bh_free = 1, bh_next = hptr (p + 24 + sz) xs\<rparr>,
          ?c := \<lparr>bh_size = of_nat n, bh_free = 0, bh_next = ?new\<rparr>)"
      using cond True hp ne
      by (simp add: kmalloc_take_def Let_def add.assoc fun_upd_twist diff_diff_eq)
    moreover have "rep \<dots> (p + 24 + sz) xs"
      by (intro frame tl) (use True in auto)
    ultimately show ?thesis using True ne by (simp add: add.assoc)
  next
    case False
    then have "kmalloc_take h ?c (of_nat n) = h(?c := \<lparr>bh_size = of_nat sz, bh_free = 0, bh_next = hptr (p + 24 + sz) xs\<rparr>)"
      using cond hp by (simp add: kmalloc_take_def)
    moreover have "rep \<dots> (p + 24 + sz) xs"
      by (intro frame tl) auto
    ultimately show ?thesis using False by simp
  qed
qed

lemma kmalloc_take_other:
  "a \<noteq> c \<Longrightarrow> a \<noteq> c + HEADER_SIZE + n \<Longrightarrow> kmalloc_take h c n a = h a"
  by (simp add: kmalloc_take_def Let_def)

lemma kmalloc_take_falloc:
  assumes "rep h p xs" and "28 \<le> p" and "p + span xs < 2 ^ 64" and "falloc n p xs = Some (q, ys)"
  shows "rep (kmalloc_take h (of_nat q) (of_nat n)) p ys"
  using assms
proof (induction xs arbitrary: p ys)
  case (Cons b xs)
  obtain sz fr where b: "b = (sz, fr)" by (cases b)
  show ?case
  proof (cases "fr \<and> n \<le> sz")
    case True
    with Cons.prems b show ?thesis using kmalloc_take_head [of h p sz xs n] by auto
  next
    case False
    with Cons.prems b obtain zs where zs: "falloc n (p + 24 + sz) xs = Some (q, zs)"
      and ys: "ys = (sz, fr) # zs" by auto
    note pos = falloc_position [OF zs]
    have "rep (kmalloc_take h (of_nat q) (of_nat n)) (p + 24 + sz) zs"
      using Cons.prems b zs by (intro Cons.IH) auto
    moreover have "(of_nat p :: u64) \<noteq> of_nat q" and "(of_nat p :: u64) \<noteq> of_nat (q + 24 + n)"
      using Cons.prems b pos by (subst of_nat_u64_eq_iff; auto)+
    then have "kmalloc_take h (of_nat q) (of_nat n) (of_nat p) = h (of_nat p)"
      by (intro kmalloc_take_other) (simp_all add: add.commute add.left_commute)
    moreover have "hptr (p + 24 + sz) xs = hptr (p + 24 + sz) zs"
      using falloc_Nil [OF zs] by (simp add: hptr_def)
    ultimately show ?thesis using Cons.prems b ys by simp
  qed
qed simp

lemma used_bytes_simps [simp]:
  "used_bytes [] = 0"
  "used_bytes ((sz, fr) # xs) = (if fr then used_bytes xs else sz + used_bytes xs)"
  by (simp_all add: used_bytes_def)

lemma free_bytes_simps [simp]:
  "free_bytes_of [] = 0"
  "free_bytes_of ((sz, fr) # xs) = (if fr then sz + free_bytes_of xs else free_bytes_of xs)"
  by (simp_all add: free_bytes_of_def)

lemma span_bytes: "span xs = used_bytes xs + free_bytes_of xs + 24 * length xs"
  by (induction xs rule: span.induct) auto

text \<open>What first fit does to the live blocks: the block found was not live, is live afterwards
  with at least the requested size, and nothing else changes.\<close>

lemma lives_bounds:
  "lives p xs a = Some m \<Longrightarrow> p + 24 \<le> a \<and> a + m \<le> p + span xs"
proof (induction xs arbitrary: p)
  case (Cons b xs)
  then show ?case by (cases b) (fastforce split: if_splits)
qed simp

lemma falloc_lives:
  assumes "falloc n p xs = Some (q, ys)"
  shows "\<exists>m \<ge> n. lives p ys = (lives p xs)(q + 24 \<mapsto> m) \<and> lives p xs (q + 24) = None \<and>
    used_bytes ys = used_bytes xs + m \<and>
    (\<forall>h. rep h p ys \<longrightarrow> bh_size (h (of_nat q)) = of_nat m)"
  using assms
proof (induction xs arbitrary: p ys)
  case (Cons b xs)
  obtain sz fr where b: "b = (sz, fr)" by (cases b)
  show ?case
  proof (cases "fr \<and> n \<le> sz")
    case True
    have "lives (p + 24 + sz) xs (p + 24) = None"
      using lives_bounds [of "p + 24 + sz" xs "p + 24"] by (cases "lives (p + 24 + sz) xs (p + 24)") auto
    with True Cons.prems b show ?thesis
      by (auto simp: ac_simps intro!: exI [of _ "if n + 28 < sz then n else sz"])
  next
    case False
    with Cons.prems b obtain zs where zs: "falloc n (p + 24 + sz) xs = Some (q, zs)"
      and ys: "ys = (sz, fr) # zs" by auto
    note pos = falloc_position [OF zs]
    from Cons.IH [OF zs] show ?thesis using b ys pos by (auto simp: fun_eq_iff)
  qed
qed simp

section \<open>Refinement of kfree\<close>

lemma fmark_simps [simp]: "span (fmark q p xs) = span xs" "fmark q p xs = [] \<longleftrightarrow> xs = []"
proof -
  show "span (fmark q p xs) = span xs"
    by (induction xs arbitrary: p) auto
  show "fmark q p xs = [] \<longleftrightarrow> xs = []"
    by (cases xs) (auto split: if_splits)
qed

lemma hptr_fmark [simp]: "hptr a (fmark q p xs) = hptr a xs"
  by (simp add: hptr_def)

lemma rep_fmark:
  assumes "rep h p xs" and "p + span xs < 2 ^ 64" and "lives p xs (q + 24) = Some m"
  shows "rep (h(of_nat q := (h (of_nat q))\<lparr>bh_free := 1\<rparr>)) p (fmark q p xs) \<and>
    bh_size (h (of_nat q)) = of_nat m"
  using assms
proof (induction xs arbitrary: p)
  case (Cons b xs)
  obtain sz fr where b: "b = (sz, fr)" by (cases b)
  show ?case
  proof (cases "q = p")
    case True
    have "lives (p + 24 + sz) xs (p + 24) = None"
      using lives_bounds [of "p + 24 + sz" xs "p + 24"] by (cases "lives (p + 24 + sz) xs (p + 24)") auto
    then have "\<not> fr" and "m = sz" using Cons.prems b True by (auto split: if_splits)
    moreover have "rep (h(of_nat p := v)) (p + 24 + sz) xs" for v
      using Cons.prems b by (intro rep_update_other) auto
    ultimately show ?thesis using Cons.prems b True by (simp add: fun_upd_def)
  next
    case False
    then have live: "lives (p + 24 + sz) xs (q + 24) = Some m"
      using Cons.prems b by (auto split: if_splits)
    note pos = lives_bounds [OF live]
    have "(of_nat p :: u64) \<noteq> of_nat q"
      using Cons.prems b pos False by (subst of_nat_u64_eq_iff) auto
    moreover from live have "rep (h(of_nat q := (h (of_nat q))\<lparr>bh_free := 1\<rparr>)) (p + 24 + sz)
        (fmark q (p + 24 + sz) xs) \<and> bh_size (h (of_nat q)) = of_nat m"
      using Cons.prems b by (intro Cons.IH) auto
    ultimately show ?thesis using Cons.prems b False by (simp add: fun_upd_def)
  qed
qed simp

lemma fmark_lives:
  assumes "lives p xs (q + 24) = Some m"
  shows "lives p (fmark q p xs) = (lives p xs)(q + 24 := None) \<and>
    used_bytes xs = used_bytes (fmark q p xs) + m"
  using assms
proof (induction xs arbitrary: p)
  case (Cons b xs)
  obtain sz fr where b: "b = (sz, fr)" by (cases b)
  have none: "lives (p + 24 + sz) xs (p + 24) = None"
    using lives_bounds [of "p + 24 + sz" xs "p + 24"] by (cases "lives (p + 24 + sz) xs (p + 24)") auto
  show ?case
  proof (cases "q = p")
    case True
    with Cons.prems b none show ?thesis by (auto simp: fun_eq_iff split: if_splits)
  next
    case False
    then have "lives (p + 24 + sz) xs (q + 24) = Some m"
      using Cons.prems b by (auto split: if_splits)
    from Cons.IH [OF this] False b show ?thesis by (auto simp: fun_eq_iff)
  qed
qed simp

lemma coal_simps [simp]:
  "span (coal xs) = span xs" "coal xs = [] \<longleftrightarrow> xs = []" "used_bytes (coal xs) = used_bytes xs"
  "lives p (coal xs) = lives p xs"
proof -
  show "span (coal xs) = span xs" by (induction xs rule: coal.induct) auto
  show "coal xs = [] \<longleftrightarrow> xs = []" by (induction xs rule: coal.induct) auto
  show "used_bytes (coal xs) = used_bytes xs" by (induction xs rule: coal.induct) auto
  show "lives p (coal xs) = lives p xs"
    by (induction xs arbitrary: p rule: coal.induct) (auto simp: ac_simps)
qed

text \<open>After coalescing no two neighbours are both free.\<close>

fun coalesced :: "blk list \<Rightarrow> bool" where
  "coalesced ((s, f) # (t, g) # xs) \<longleftrightarrow> \<not> (f \<and> g) \<and> coalesced ((t, g) # xs)"
| "coalesced xs = True"

lemma coal_head: "f = snd b \<Longrightarrow> \<exists>s' ys. coal (b # xs) = (s', f) # ys"
  by (induction "b # xs" arbitrary: b xs rule: coal.induct) (auto split: if_splits)

lemma coalesced_coal [simp]: "coalesced (coal xs)"
proof (induction xs rule: coal.induct)
  case (1 s f t g xs)
  obtain s' ys where "coal ((t, g) # xs) = (s', g) # ys"
    using coal_head [of g "(t, g)" xs] by auto
  with 1 show ?case by auto
qed auto

lemma coal_id: "coalesced xs \<Longrightarrow> coal xs = xs"
  by (induction xs rule: coal.induct) auto

lemma coal_Cons: "coal (b # coal xs) = coal (b # xs)"
proof (induction xs arbitrary: b rule: coal.induct)
  case (1 s f t g xs)
  obtain u e where b: "b = (u, e)" by (cases b)
  show ?case
  proof (cases "f \<and> g")
    case True
    then show ?thesis using "1.IH"(1) [OF True, of b] b by (auto simp: ac_simps)
  next
    case False
    then show ?thesis using "1.IH"(2) [OF False] b by auto
  qed
qed auto

text \<open>First fit keeps the list coalesced, and releasing what it took restores the list.\<close>

lemma coalesced_Cons: "coalesced (b # xs) \<longleftrightarrow> coalesced xs \<and> (xs \<noteq> [] \<longrightarrow> \<not> (snd b \<and> snd (hd xs)))"
  by (cases b; cases xs) auto

lemma falloc_coalesced:
  "falloc n p xs = Some (q, ys) \<Longrightarrow> coalesced xs \<Longrightarrow> coalesced ys \<and> (snd (hd ys) \<longrightarrow> snd (hd xs))"
proof (induction xs arbitrary: p ys)
  case (Cons b xs)
  obtain sz fr where b: "b = (sz, fr)" by (cases b)
  show ?case
  proof (cases "fr \<and> n \<le> sz")
    case True
    with Cons.prems b show ?thesis by (auto simp: coalesced_Cons split: if_splits)
  next
    case False
    with Cons.prems b obtain zs where zs: "falloc n (p + 24 + sz) xs = Some (q, zs)"
      and ys: "ys = (sz, fr) # zs" by auto
    with Cons.IH [OF zs] Cons.prems b falloc_Nil [OF zs] show ?thesis by (auto simp: coalesced_Cons)
  qed
qed simp

lemma falloc_release:
  "falloc n p xs = Some (q, ys) \<Longrightarrow> coalesced xs \<Longrightarrow> coal (fmark q p ys) = xs"
proof (induction xs arbitrary: p ys)
  case (Cons b xs)
  obtain sz fr where b: "b = (sz, fr)" by (cases b)
  show ?case
  proof (cases "fr \<and> n \<le> sz")
    case True
    with Cons.prems b show ?thesis by (auto simp: coal_id split: if_splits)
  next
    case False
    with Cons.prems b obtain zs where zs: "falloc n (p + 24 + sz) xs = Some (q, zs)"
      and ys: "ys = (sz, fr) # zs" by auto
    have "coal (fmark q (p + 24 + sz) zs) = xs"
      using Cons.IH [OF zs] Cons.prems by (simp add: coalesced_Cons)
    then have "coal ((sz, fr) # fmark q (p + 24 + sz) zs) = coal (b # xs)"
      using coal_Cons [of b "fmark q (p + 24 + sz) zs"] b by simp
    then show ?thesis using falloc_position [OF zs] ys coal_id [OF Cons.prems(2)] by simp
  qed
qed simp

lemma kfree_coalesce_rep:
  assumes "rep h p xs" and "0 < p" and "p + span xs < 2 ^ 64"
  shows "\<exists>h'. kfree_coalesce h (hptr p xs) = Some h' \<and> rep h' p (coal xs) \<and>
    (\<forall>q < p. h' (of_nat q) = h (of_nat q))"
  using assms
proof (induction xs arbitrary: h p rule: coal.induct)
  case (1 s f t g xs)
  let ?p1 = "p + 24 + s" and ?p2 = "p + 24 + s + 24 + t"
  have nz: "(of_nat p :: u64) \<noteq> 0" "(of_nat ?p1 :: u64) \<noteq> 0"
    using "1.prems" by (intro of_nat_u64_nonzero; auto)+
  have hp: "h (of_nat p) = \<lparr>bh_size = of_nat s, bh_free = (if f then 1 else 0), bh_next = of_nat ?p1\<rparr>"
    and hn: "h (of_nat ?p1) = \<lparr>bh_size = of_nat t, bh_free = (if g then 1 else 0), bh_next = hptr ?p2 xs\<rparr>"
    and tl: "rep h ?p2 xs"
    using "1.prems" by simp_all
  note unfold = kfree_coalesce.simps [of h "of_nat p"]
  show ?case
  proof (cases "f \<and> g")
    case True
    let ?h = "h(of_nat p := \<lparr>bh_size = of_nat (s + 24 + t), bh_free = 1, bh_next = hptr ?p2 xs\<rparr>)"
    have "rep ?h ?p2 xs" using tl "1.prems" by (intro rep_update_other) auto
    then have merged: "rep ?h p ((s + 24 + t, True) # xs)" by (simp add: ac_simps fun_upd_def)
    have "p + span ((s + 24 + t, True) # xs) < 2 ^ 64" using "1.prems" by simp
    from "1.IH"(1) [OF True merged "1.prems"(2) this] obtain h' where
      h': "kfree_coalesce ?h (of_nat p) = Some h'" "rep h' p (coal ((s + 24 + t, True) # xs))"
        "\<forall>q < p. h' (of_nat q) = ?h (of_nat q)"
      unfolding hptr_Cons by blast
    have "kfree_coalesce h (of_nat p) = Some h'"
      using unfold True nz hp hn h'(1) by (simp add: ac_simps)
    moreover have "?h (of_nat q) = h (of_nat q)" if "q < p" for q
      using that "1.prems" of_nat_u64_eq_iff [of q p] by auto
    ultimately show ?thesis using h' True by auto
  next
    case False
    have "rep h ?p1 ((t, g) # xs)" "0 < ?p1" "?p1 + span ((t, g) # xs) < 2 ^ 64"
      using "1.prems" by simp_all
    from "1.IH"(2) [OF False this] obtain h' where h': "kfree_coalesce h (of_nat ?p1) = Some h'"
      "rep h' ?p1 (coal ((t, g) # xs))" "\<forall>q < ?p1. h' (of_nat q) = h (of_nat q)"
      unfolding hptr_Cons by blast
    have "kfree_coalesce h (of_nat p) = Some h'"
      using unfold False nz hp hn h'(1) by (auto simp: ac_simps)
    moreover have "hptr ?p1 (coal ((t, g) # xs)) = of_nat ?p1"
      by (simp add: hptr_def)
    ultimately show ?thesis using h' False hp by auto
  qed
qed (auto simp: kfree_coalesce.simps)

section \<open>The heap invariant\<close>

text \<open>The abstraction function reads the block list off memory. A heap of 16MB holds at most
  \<open>HEAP_SIZE / 24\<close> headers, which is fuel enough.\<close>

fun read_blocks :: "nat \<Rightarrow> hmem \<Rightarrow> u64 \<Rightarrow> blk list" where
  "read_blocks 0 h a = []"
| "read_blocks (Suc n) h a =
     (if a = 0 then [] else (unat (bh_size (h a)), bh_free (h a) \<noteq> 0) # read_blocks n h (bh_next (h a)))"

definition heap_blocks :: "kheap \<Rightarrow> blk list" where
  "heap_blocks s = read_blocks (unat HEAP_SIZE) (hdrs s) (heap_start s)"

lemma read_blocks_rep:
  assumes "rep h p xs" and "0 < p" and "p + span xs < 2 ^ 64" and "length xs \<le> n"
  shows "read_blocks n h (hptr p xs) = xs"
  using assms
proof (induction xs arbitrary: p n)
  case Nil
  then show ?case by (cases n) auto
next
  case (Cons b xs)
  obtain sz fr where b: "b = (sz, fr)" by (cases b)
  obtain m where n: "n = Suc m" using Cons.prems(4) by (cases n) auto
  have "(of_nat p :: u64) \<noteq> 0" using Cons.prems b by (intro of_nat_u64_nonzero) auto
  moreover have "read_blocks m h (hptr (p + 24 + sz) xs) = xs"
    using Cons.prems b n by (intro Cons.IH) auto
  ultimately show ?case using Cons.prems b n by (simp add: unat_of_nat_u64)
qed

abbreviation HS :: nat where "HS \<equiv> 0xFFFF800002200000"

definition aligned4 :: "blk list \<Rightarrow> bool" where
  "aligned4 xs \<longleftrightarrow> list_all (\<lambda>b. 4 dvd fst b) xs"

definition kheap_rep :: "kheap \<Rightarrow> blk list \<Rightarrow> bool" where
  "kheap_rep s xs \<longleftrightarrow> heap_start s = HEAP_START \<and> rep (hdrs s) HS xs \<and> xs \<noteq> [] \<and>
     span xs = 0x1000000 \<and> aligned4 xs \<and> coalesced xs \<and> heap_used s = of_nat (used_bytes xs)"

definition kheap_inv :: "kheap \<Rightarrow> bool" where
  "kheap_inv s \<longleftrightarrow> kheap_rep s (heap_blocks s)"

lemma length_span: "24 * length xs \<le> span xs"
  by (induction xs rule: span.induct) auto

lemma kheap_rep_hptr: "kheap_rep s xs \<Longrightarrow> heap_start s = hptr HS xs"
  by (simp add: kheap_rep_def hptr_def)

lemma kheap_rep_blocks: "kheap_rep s xs \<Longrightarrow> heap_blocks s = xs"
  using read_blocks_rep [of "hdrs s" HS xs "unat HEAP_SIZE"] length_span [of xs] kheap_rep_hptr [of s xs]
  by (simp add: heap_blocks_def kheap_rep_def)

lemma kheap_rep_inv: "kheap_rep s xs \<Longrightarrow> kheap_inv s"
  by (simp add: kheap_inv_def kheap_rep_blocks)

lemma mem_init_rep: "kheap_rep (mem_init mem) [(0xFFFFE8, True)]"
  by (simp add: kheap_rep_def mem_init_def aligned4_def)

lemma falloc_aligned4:
  "falloc n p xs = Some (q, ys) \<Longrightarrow> aligned4 xs \<Longrightarrow> 4 dvd n \<Longrightarrow> 4 dvd p \<Longrightarrow> aligned4 ys \<and> 4 dvd q"
proof (induction xs arbitrary: p ys)
  case (Cons b xs)
  obtain sz fr where b: "b = (sz, fr)" by (cases b)
  have d: "4 dvd sz" using Cons.prems b by (simp add: aligned4_def)
  show ?case
  proof (cases "fr \<and> n \<le> sz")
    case True
    moreover have "4 dvd sz - n - 24" using d Cons.prems(3) by (auto intro!: dvd_diff_nat)
    ultimately show ?thesis using Cons.prems b by (auto simp: aligned4_def split: if_splits)
  next
    case False
    with Cons.prems b obtain zs where zs: "falloc n (p + 24 + sz) xs = Some (q, zs)"
      and ys: "ys = (sz, fr) # zs" by auto
    have "4 dvd p + 24 + sz" using d Cons.prems(4) by auto
    with Cons.IH [OF zs] Cons.prems b ys d show ?thesis by (auto simp: aligned4_def)
  qed
qed simp

lemma fmark_aligned4: "aligned4 xs \<Longrightarrow> aligned4 (fmark q p xs)"
  unfolding aligned4_def by (induction xs arbitrary: p) (auto split: if_splits)

lemma coal_aligned4: "aligned4 xs \<Longrightarrow> aligned4 (coal xs)"
  unfolding aligned4_def by (induction xs rule: coal.induct) auto

text \<open>Rounding up does not wrap around for sizes up to \<open>2 ^ 64 - 4\<close>.\<close>

lemma align4_dvd: "4 dvd unat (align4 n)"
proof (cases "n mod 4 = 0")
  case True
  have "unat n mod 4 = unat (n mod 4)" by (simp add: unat_mod)
  also have "\<dots> = 0" using True by simp
  finally show ?thesis using True by (simp add: align4_def dvd_eq_mod_eq_0)
next
  case False
  let ?r = "unat n mod 4"
  have r: "unat (n mod 4) = ?r" "0 < ?r" "?r < 4"
    using False by (auto simp: unat_mod word_unat_eq_iff)
  have "unat (4 - n mod 4) = 4 - ?r"
    using r by (simp add: unat_sub word_le_nat_alt)
  then have "unat (align4 n) = (unat n + (4 - ?r)) mod 2 ^ 64"
    using False by (simp add: align4_def unat_word_ariths)
  moreover have "4 dvd unat n + (4 - ?r)"
    using r(2,3) by presburger
  moreover have "4 dvd (2 ^ 64 :: nat)" by simp
  ultimately show ?thesis by (simp add: dvd_mod)
qed

lemma align4_ge:
  assumes "unat n \<le> 2 ^ 64 - 4"
  shows "unat n \<le> unat (align4 n) \<and> unat (align4 n) < unat n + 4"
proof (cases "n mod 4 = 0")
  case False
  let ?r = "unat n mod 4"
  have r: "unat (n mod 4) = ?r" "0 < ?r" "?r < 4"
    using False by (auto simp: unat_mod word_unat_eq_iff)
  have "unat (4 - n mod 4) = 4 - ?r"
    using r by (simp add: unat_sub word_le_nat_alt)
  moreover have "unat n + (4 - ?r) < 2 ^ 64"
    using assms r(2,3) by (cases "unat n = 2 ^ 64 - 4") auto
  ultimately have "unat (align4 n) = unat n + (4 - ?r)"
    using False by (simp add: align4_def unat_word_ariths)
  with r show ?thesis by simp
qed (simp add: align4_def)

section \<open>The operations on represented heaps\<close>

lemma kheap_rep_bound: "kheap_rep s xs \<Longrightarrow> HS + span xs < 2 ^ 64"
  by (simp add: kheap_rep_def)

lemma ucast_of_nat_u32: "n < 2 ^ 64 \<Longrightarrow> (ucast (of_nat n :: u64) :: u32) = of_nat n"
  by (simp add: unsigned_of_nat take_bit_nat_eq_self)

lemma kmalloc_rep:
  assumes r: "kheap_rep s xs" and n: "n \<noteq> 0"
  shows "case falloc (unat (align4 n)) HS xs of
      None \<Rightarrow> kmalloc s n = None
    | Some (q, ys) \<Rightarrow> \<exists>s'. kmalloc s n = Some (of_nat (q + 24), s') \<and> kheap_rep s' ys"
proof -
  have rep: "rep (hdrs s) HS xs" using r by (simp add: kheap_rep_def)
  have find: "kmalloc_find (hdrs s) (align4 n) (heap_start s) =
      map_option (\<lambda>(q, ys). of_nat q) (falloc (unat (align4 n)) HS xs)"
    using kmalloc_find_falloc [OF rep] kheap_rep_bound [OF r] kheap_rep_hptr [OF r] by simp
  show ?thesis
  proof (cases "falloc (unat (align4 n)) HS xs")
    case None
    with find n show ?thesis by (simp add: kmalloc_def)
  next
    case (Some res)
    obtain q ys where res: "res = (q, ys)" by (cases res)
    let ?h = "kmalloc_take (hdrs s) (of_nat q) (align4 n)"
    have fa: "falloc (unat (align4 n)) HS xs = Some (q, ys)" using Some res by simp
    have rep': "rep ?h HS ys"
      using kmalloc_take_falloc [OF rep _ _ fa] kheap_rep_bound [OF r] by simp
    obtain m where m: "used_bytes ys = used_bytes xs + m" "bh_size (?h (of_nat q)) = of_nat m"
      using falloc_lives [OF fa] rep' by blast
    have "m < 2 ^ 64"
      using m(1) span_bytes [of ys] falloc_span [OF fa] r by (simp add: kheap_rep_def)
    then have used: "heap_used s + ucast (bh_size (?h (of_nat q))) = of_nat (used_bytes ys)"
      using m r by (simp add: kheap_rep_def ucast_of_nat_u32)
    have "kmalloc s n = Some (of_nat (q + 24), s\<lparr>hdrs := ?h, heap_used := of_nat (used_bytes ys)\<rparr>)"
      using find fa n used by (simp add: kmalloc_def Let_def add.commute)
    moreover have "kheap_rep (s\<lparr>hdrs := ?h, heap_used := of_nat (used_bytes ys)\<rparr>) ys"
      using r rep' falloc_span [OF fa] falloc_Nil [OF fa] falloc_aligned4 [OF fa _ align4_dvd]
        falloc_coalesced [OF fa]
      by (simp add: kheap_rep_def)
    ultimately show ?thesis using fa by simp
  qed
qed

lemma kfree_rep:
  assumes r: "kheap_rep s xs" and live: "lives HS xs (q + 24) = Some m"
  shows "\<exists>s'. kfree s (of_nat (q + 24)) = Some s' \<and> kheap_rep s' (coal (fmark q HS xs))"
proof -
  note b = kheap_rep_bound [OF r] and pos = lives_bounds [OF live]
  let ?h = "(hdrs s)(of_nat q := (hdrs s (of_nat q))\<lparr>bh_free := 1\<rparr>)"
  have rep: "rep ?h HS (fmark q HS xs)" and m: "bh_size (hdrs s (of_nat q)) = of_nat m"
    using rep_fmark [OF _ b live] r by (simp_all add: kheap_rep_def)
  have hs: "hptr HS (fmark q HS xs) = heap_start s"
    using kheap_rep_hptr [OF r] by simp
  obtain h' where h': "kfree_coalesce ?h (heap_start s) = Some h'" "rep h' HS (coal (fmark q HS xs))"
    using kfree_coalesce_rep [OF rep] b unfolding hs by auto
  have ptr: "(of_nat (q + 24) :: u64) - HEADER_SIZE = of_nat q" "(of_nat (q + 24) :: u64) \<noteq> 0"
    using pos b by (simp, intro of_nat_u64_nonzero) auto
  have "m < 2 ^ 64" using pos b by simp
  then have used: "heap_used s - ucast (bh_size (hdrs s (of_nat q))) = of_nat (used_bytes (fmark q HS xs))"
    using m r fmark_lives [OF live] by (simp add: kheap_rep_def ucast_of_nat_u32)
  have "kfree s (of_nat (q + 24)) = Some (s\<lparr>hdrs := h', heap_used := of_nat (used_bytes (fmark q HS xs))\<rparr>)"
    using h' ptr used by (simp only: kfree_def Let_def if_False) simp
  moreover have "kheap_rep (s\<lparr>hdrs := h', heap_used := of_nat (used_bytes (fmark q HS xs))\<rparr>) (coal (fmark q HS xs))"
    using r h'(2) coal_aligned4 [OF fmark_aligned4] by (simp add: kheap_rep_def)
  ultimately show ?thesis by blast
qed

text \<open>Allocated blocks of a heap, by data pointer.\<close>

definition kheap_live :: "kheap \<Rightarrow> u64 \<Rightarrow> nat option" where
  "kheap_live s p = lives HS (heap_blocks s) (unat p)"

lemma lives_disjoint:
  "lives p xs a = Some m \<Longrightarrow> lives p xs b = Some k \<Longrightarrow> a \<noteq> b \<Longrightarrow> a + m + 24 \<le> b \<or> b + k + 24 \<le> a"
proof (induction xs arbitrary: p)
  case (Cons c xs)
  obtain sz fr where c: "c = (sz, fr)" by (cases c)
  show ?case
    using Cons c lives_bounds [of "p + 24 + sz" xs a m] lives_bounds [of "p + 24 + sz" xs b k]
    by (auto split: if_splits)
qed simp

section \<open>The allocator interface\<close>

text \<open>What the clients of \<open>kmalloc\<close>/\<open>kfree\<close> rely on: a fresh, non-null pointer to a block of at
  least the requested size; release of a live block always returns; live blocks never
  overlap.\<close>

locale allocator =
  fixes malloc :: "'s \<Rightarrow> u64 \<Rightarrow> (u64 \<times> 's) option"
    and mfree :: "'s \<Rightarrow> u64 \<Rightarrow> 's option"
    and live :: "'s \<Rightarrow> u64 \<Rightarrow> nat option"
    and invar :: "'s \<Rightarrow> bool"
  assumes malloc_Some: "invar s \<Longrightarrow> malloc s n = Some (p, s') \<Longrightarrow> unat n \<le> 2 ^ 64 - 4 \<Longrightarrow>
      invar s' \<and> p \<noteq> 0 \<and> live s p = None \<and> (\<exists>m \<ge> unat n. live s' = (live s)(p \<mapsto> m))"
    and mfree_Some: "invar s \<Longrightarrow> live s p = Some m \<Longrightarrow>
      \<exists>s'. mfree s p = Some s' \<and> invar s' \<and> live s' = (live s)(p := None)"
    and live_disjoint: "invar s \<Longrightarrow> live s p = Some m \<Longrightarrow> live s q = Some k \<Longrightarrow> p \<noteq> q \<Longrightarrow>
      unat p + m \<le> unat q \<or> unat q + k \<le> unat p"
begin

lemma malloc_invar: "invar s \<Longrightarrow> malloc s n = Some (p, s') \<Longrightarrow> unat n \<le> 2 ^ 64 - 4 \<Longrightarrow> invar s'"
  using malloc_Some by blast

lemma malloc_dom: "invar s \<Longrightarrow> malloc s n = Some (p, s') \<Longrightarrow> unat n \<le> 2 ^ 64 - 4 \<Longrightarrow>
    p \<noteq> 0 \<and> p \<notin> dom (live s) \<and> dom (live s') = insert p (dom (live s))"
  using malloc_Some by (fastforce simp: domIff)

lemma mfree_dom: "invar s \<Longrightarrow> p \<in> dom (live s) \<Longrightarrow>
    \<exists>s'. mfree s p = Some s' \<and> invar s' \<and> dom (live s') = dom (live s) - {p}"
  using mfree_Some by (fastforce simp: domIff)

lemma malloc_separate:
  assumes "invar s" and "malloc s n = Some (p, s')" and "unat n \<le> 2 ^ 64 - 4" and "live s q = Some k"
  shows "q \<noteq> p \<and> (\<exists>m. live s' p = Some m \<and> unat n \<le> m \<and> (unat p + m \<le> unat q \<or> unat q + k \<le> unat p))"
proof -
  obtain m where m: "unat n \<le> m" "live s' = (live s)(p \<mapsto> m)" and p: "live s p = None" and inv: "invar s'"
    using malloc_Some [OF assms(1-3)] by blast
  have "q \<noteq> p" using p assms(4) by auto
  moreover from this have "live s' q = Some k" using m assms(4) by simp
  ultimately show ?thesis using live_disjoint [OF inv, of p m q k] m by auto
qed

lemma malloc_mfree_live:
  assumes "invar s" and "malloc s n = Some (p, s')" and "unat n \<le> 2 ^ 64 - 4"
  shows "\<exists>s''. mfree s' p = Some s'' \<and> invar s'' \<and> live s'' = live s"
proof -
  obtain m where m: "live s' = (live s)(p \<mapsto> m)" and p: "live s p = None" and inv: "invar s'"
    using malloc_Some [OF assms] by blast
  from mfree_Some [OF inv, of p m] m obtain s'' where "mfree s' p = Some s''" "invar s''"
    "live s'' = (live s')(p := None)" by auto
  then show ?thesis using m p by (auto simp: fun_eq_iff)
qed

end

lemma kmalloc_zero: "kmalloc s 0 = None"
  by (simp add: kmalloc_def)

lemma kmalloc_Some_rep:
  assumes "kheap_inv s" and "kmalloc s n = Some (p, s')"
  obtains q ys where "falloc (unat (align4 n)) HS (heap_blocks s) = Some (q, ys)" "p = of_nat (q + 24)"
    "kheap_rep s' ys" "unat p = q + 24"
proof -
  have n: "n \<noteq> 0" using assms(2) kmalloc_zero by auto
  have r: "kheap_rep s (heap_blocks s)" using assms(1) by (simp add: kheap_inv_def)
  from kmalloc_rep [OF r n] assms(2) obtain q ys where
    q: "falloc (unat (align4 n)) HS (heap_blocks s) = Some (q, ys)" "p = of_nat (q + 24)" "kheap_rep s' ys"
    by (auto split: option.splits)
  moreover have "q + 24 < 2 ^ 64"
    using falloc_position [OF q(1)] kheap_rep_bound [OF r] by simp
  then have "unat p = q + 24" unfolding q(2) by (rule unat_of_nat_u64)
  ultimately show ?thesis using that by blast
qed

lemma kheap_live_eq: "kheap_rep s xs \<Longrightarrow> kheap_live s = (\<lambda>p. lives HS xs (unat p))"
  by (simp add: fun_eq_iff kheap_live_def kheap_rep_blocks)

interpretation kh: allocator kmalloc kfree kheap_live kheap_inv
proof (unfold_locales, goal_cases)
  case (1 s n p s')
  then obtain q ys where q: "falloc (unat (align4 n)) HS (heap_blocks s) = Some (q, ys)"
    "kheap_rep s' ys" "unat p = q + 24" by (auto elim: kmalloc_Some_rep)
  obtain m where m: "unat (align4 n) \<le> m" "lives HS ys = (lives HS (heap_blocks s))(q + 24 \<mapsto> m)"
    "lives HS (heap_blocks s) (q + 24) = None" using falloc_lives [OF q(1)] by blast
  have "kheap_live s' = (kheap_live s)(p \<mapsto> m)"
    using m(2) q by (auto simp: fun_eq_iff kheap_live_eq kheap_live_def word_unat_eq_iff)
  moreover have "p \<noteq> 0" using q(3) by auto
  moreover have "unat n \<le> m" using m(1) align4_ge [OF 1(3)] by simp
  ultimately show ?case using m(3) q by (auto simp: kheap_live_def intro: kheap_rep_inv)
next
  case (2 s p m)
  let ?q = "unat p - 24"
  have r: "kheap_rep s (heap_blocks s)" using 2 by (simp add: kheap_inv_def)
  have live: "lives HS (heap_blocks s) (?q + 24) = Some m" and p: "p = of_nat (?q + 24)"
    using 2(2) lives_bounds [of HS "heap_blocks s" "unat p" m] by (simp_all add: kheap_live_def)
  obtain s' where s': "kfree s p = Some s'" "kheap_rep s' (coal (fmark ?q HS (heap_blocks s)))"
    using kfree_rep [OF r live] p by auto
  have "kheap_live s' = (kheap_live s)(p := None)"
    using fmark_lives [OF live] p 2(2) lives_bounds [of HS "heap_blocks s" "unat p" m]
    by (auto simp: fun_eq_iff kheap_live_eq [OF s'(2)] kheap_live_def word_unat_eq_iff)
  with s' show ?case by (auto intro: kheap_rep_inv)
next
  case (3 s p m q k)
  then show ?case
    using lives_disjoint [of HS "heap_blocks s" "unat p" m "unat q" k]
    by (auto simp: kheap_live_def word_unat_eq_iff)
qed

section \<open>Allocation succeeds while there is room\<close>

text \<open>A free block of at least \<open>k\<close> bytes.\<close>

definition heap_room :: "kheap \<Rightarrow> nat \<Rightarrow> bool" where
  "heap_room s k \<longleftrightarrow> (\<exists>sz. (sz, True) \<in> set (heap_blocks s) \<and> k \<le> sz)"

lemma falloc_room:
  assumes "(sz, True) \<in> set xs" and "n + 28 < sz"
  shows "\<exists>q ys sz'. falloc n p xs = Some (q, ys) \<and> (sz', True) \<in> set ys \<and> sz - n - 24 \<le> sz'"
  using assms(1)
proof (induction xs arbitrary: p)
  case (Cons b xs)
  obtain t fr where b: "b = (t, fr)" by (cases b)
  show ?case
  proof (cases "fr \<and> n \<le> t")
    case True
    then show ?thesis using Cons.prems b assms(2) by (auto intro: exI [of _ sz])
  next
    case False
    then have "(sz, True) \<in> set xs" using Cons.prems b assms(2) by auto
    from Cons.IH [OF this, of "p + 24 + t"] False b show ?thesis by auto
  qed
qed simp

lemma kmalloc_room:
  assumes inv: "kheap_inv s" and room: "heap_room s k" and n: "n \<noteq> 0" "unat (align4 n) + 28 < k"
  shows "\<exists>p s'. kmalloc s n = Some (p, s') \<and> heap_room s' (k - unat (align4 n) - 24)"
proof -
  obtain sz where sz: "(sz, True) \<in> set (heap_blocks s)" "k \<le> sz" using room by (auto simp: heap_room_def)
  from falloc_room [OF sz(1), of "unat (align4 n)" HS] n sz(2) obtain q ys sz' where
    q: "falloc (unat (align4 n)) HS (heap_blocks s) = Some (q, ys)" "(sz', True) \<in> set ys" "sz - unat (align4 n) - 24 \<le> sz'"
    by auto
  have "kheap_rep s (heap_blocks s)" using inv by (simp add: kheap_inv_def)
  from kmalloc_rep [OF this n(1)] q obtain s' where "kmalloc s n = Some (of_nat (q + 24), s')" "kheap_rep s' ys" by auto
  then show ?thesis using q sz(2) by (auto simp: heap_room_def kheap_rep_blocks intro!: exI [of _ sz'])
qed

text \<open>Releasing a block never makes the largest free block smaller.\<close>

lemma fmark_room: "(sz, True) \<in> set xs \<Longrightarrow> (sz, True) \<in> set (fmark q p xs)"
  by (induction q p xs rule: fmark.induct) auto

lemma coal_room: "(sz, True) \<in> set xs \<Longrightarrow> \<exists>sz' \<ge> sz. (sz', True) \<in> set (coal xs)"
proof (induction xs arbitrary: sz rule: coal.induct)
  case (1 s f t g xs)
  show ?case
  proof (cases "f \<and> g")
    case True
    then consider "(sz, True) \<in> set xs" | "sz \<le> s + 24 + t" using 1(3) by auto
    then show ?thesis
    proof cases
      case 1
      then show ?thesis using "1.IH"(1) [OF True, of sz] True by simp
    next
      case 2
      obtain sz' where "s + 24 + t \<le> sz'" "(sz', True) \<in> set (coal ((s + 24 + t, True) # xs))"
        using "1.IH"(1) [OF True, of "s + 24 + t"] by auto
      then show ?thesis using 2 True by (intro exI [of _ sz']) simp
    qed
  next
    case False
    then show ?thesis using 1(2) [OF False] 1(3) by auto
  qed
qed auto

lemma kfree_room:
  assumes inv: "kheap_inv s" and live: "kheap_live s p = Some m" and room: "heap_room s k" and op: "kfree s p = Some s'"
  shows "heap_room s' k"
proof -
  let ?q = "unat p - 24"
  have r: "kheap_rep s (heap_blocks s)" using inv by (simp add: kheap_inv_def)
  have l: "lives HS (heap_blocks s) (?q + 24) = Some m" and p: "p = of_nat (?q + 24)"
    using live lives_bounds [of HS "heap_blocks s" "unat p" m] by (simp_all add: kheap_live_def)
  have "kheap_rep s' (coal (fmark ?q HS (heap_blocks s)))" using kfree_rep [OF r l] p op by auto
  moreover obtain sz where "(sz, True) \<in> set (heap_blocks s)" "k \<le> sz" using room by (auto simp: heap_room_def)
  ultimately show ?thesis
    using coal_room [OF fmark_room, of sz "heap_blocks s" ?q HS] by (auto simp: heap_room_def kheap_rep_blocks intro: order_trans)
qed

section \<open>Statistics\<close>

lemma mem_stats_walk_rep:
  assumes "rep h p xs" and "0 < p" and "p + span xs < 2 ^ 64"
  shows "mem_stats_walk h (hptr p xs) a b c =
    Some (a + of_nat (length xs), b + of_nat (length (filter snd xs)), c + of_nat (free_bytes_of xs))"
  using assms
proof (induction xs arbitrary: p a b c)
  case Nil
  then show ?case by (simp add: mem_stats_walk.simps)
next
  case (Cons x xs)
  obtain sz fr where x: "x = (sz, fr)" by (cases x)
  have nz: "(of_nat p :: u64) \<noteq> 0" using Cons.prems x by (intro of_nat_u64_nonzero) auto
  have "mem_stats_walk h (hptr (p + 24 + sz) xs) a b c = Some (a + of_nat (length xs),
      b + of_nat (length (filter snd xs)), c + of_nat (free_bytes_of xs))" for a b c
    using Cons.prems x by (intro Cons.IH) auto
  then show ?case
    using Cons.prems x nz
    by (simp add: mem_stats_walk.simps [of h "of_nat p"] ucast_of_nat_u32 add.assoc)
qed

section \<open>Properties of the kernel heap\<close>

lemma kheap_inv_rep: "kheap_inv s \<Longrightarrow> kheap_rep s (heap_blocks s)"
  by (simp add: kheap_inv_def)

lemma mem_init_inv [simp]: "kheap_inv (mem_init mem)"
  using mem_init_rep by (rule kheap_rep_inv)

lemma mem_init_blocks: "heap_blocks (mem_init mem) = [(0xFFFFE8, True)]"
  using mem_init_rep by (rule kheap_rep_blocks)

lemma kmalloc_boot:
  "\<exists>s'. kmalloc (mem_init mem) 10 = Some (HEAP_START + 24, s') \<and> kheap_rep s' [(12, False), (0xFFFFC4, True)]"
proof -
  have "falloc (unat (align4 10)) HS [(0xFFFFE8, True)] = Some (HS, [(12, False), (0xFFFFC4, True)])"
    by (simp add: align4_def)
  then show ?thesis using kmalloc_rep [OF mem_init_rep [of mem], of 10] by simp
qed

text \<open>C7: A successful \<open>kmalloc\<close> on a well-formed heap returns a 4-byte aligned pointer to a block
  of at least the requested size that lies inside the 16MB heap and overlaps no block that was
  live before, and leaves the heap well-formed.\<close>

theorem kmalloc_safe:
  assumes "kheap_inv s" and "kmalloc s n = Some (p, s')" and "unat n \<le> 2 ^ 64 - 4"
  shows "kheap_inv s' \<and> 4 dvd unat p \<and> unat HEAP_START + 24 \<le> unat p \<and>
    (\<exists>m. kheap_live s' p = Some m \<and> unat n \<le> m \<and> unat p + m \<le> unat HEAP_START + unat HEAP_SIZE \<and>
      (\<forall>q k. kheap_live s q = Some k \<longrightarrow> unat p + m \<le> unat q \<or> unat q + k \<le> unat p))"
proof -
  obtain q ys where q: "falloc (unat (align4 n)) HS (heap_blocks s) = Some (q, ys)"
    "kheap_rep s' ys" "unat p = q + 24" using assms by (auto elim: kmalloc_Some_rep)
  obtain m where m: "unat n \<le> m" "kheap_live s' = (kheap_live s)(p \<mapsto> m)"
    using kh.malloc_Some [OF assms] by blast
  then have "lives HS ys (q + 24) = Some m" using kheap_live_eq [OF q(2)] q(3) by (metis fun_upd_same)
  from lives_bounds [OF this] q(2) have "q + 24 + m \<le> HS + 0x1000000"
    by (simp add: kheap_rep_def)
  moreover have "4 dvd q"
    using falloc_aligned4 [OF q(1) _ align4_dvd] kheap_inv_rep [OF assms(1)] by (simp add: kheap_rep_def)
  moreover have "HS \<le> q" using falloc_position [OF q(1)] by simp
  moreover have "unat p + m \<le> unat r \<or> unat r + k \<le> unat p" if "kheap_live s r = Some k" for r k
    using kh.malloc_separate [OF assms that] m(2) by auto
  ultimately show ?thesis using kh.malloc_invar [OF assms] m q(3) by auto
qed

theorem kmalloc_safe_witness: "\<exists>s'. kmalloc (mem_init (\<lambda>_. undefined)) 10 = Some (HEAP_START + 24, s') \<and> kheap_inv s'"
proof -
  from kmalloc_boot obtain s' where s': "kmalloc (mem_init (\<lambda>_. undefined)) 10 = Some (HEAP_START + 24, s')"
    by blast
  have "kheap_inv s'" using kmalloc_safe [OF mem_init_inv s'] by simp
  with s' show ?thesis by blast
qed

text \<open>C15: \<open>kmalloc\<close> refines first-fit allocation on the list of blocks: whenever the list has a free block large enough for a
  non-zero size rounded up to a multiple of four, \<open>kmalloc\<close>
  returns, takes the first such block, splits it when more than 28 bytes would be left over, and returns the address after its
  header; the heap stays well-formed.\<close>

theorem kmalloc_refines_first_fit:
  assumes "kheap_inv s" and "n \<noteq> 0" and "falloc (unat (align4 n)) (unat HEAP_START) (heap_blocks s) = Some (q, ys)"
  shows "\<exists>p s'. kmalloc s n = Some (p, s') \<and> unat p = q + 24 \<and> heap_blocks s' = ys \<and> kheap_inv s'"
proof (cases "kmalloc s n")
  case None
  then show ?thesis
    using kmalloc_rep [OF kheap_inv_rep [OF assms(1)] assms(2)] assms(3) by auto
next
  case (Some r)
  then obtain p s' where r: "kmalloc s n = Some (p, s')" by (cases r) auto
  obtain q' ys' where q: "falloc (unat (align4 n)) HS (heap_blocks s) = Some (q', ys')"
    "kheap_rep s' ys'" "unat p = q' + 24" using assms(1) r by (rule kmalloc_Some_rep)
  then show ?thesis using r assms(3) by (simp add: kheap_rep_blocks kheap_rep_inv)
qed

theorem kmalloc_refines_first_fit_witness:
  "\<exists>p s'. kmalloc (mem_init (\<lambda>_. undefined)) 10 = Some (p, s') \<and> unat p = unat HEAP_START + 24 \<and>
     heap_blocks s' = [(12, False), (0xFFFFC4, True)]"
  using kmalloc_refines_first_fit [OF mem_init_inv, of 10 "\<lambda>_. undefined" "unat HEAP_START" "[(12, False), (0xFFFFC4, True)]"]
  by (auto simp: align4_def mem_init_blocks)

text \<open>When no free block is large enough \<open>kmalloc\<close> panics and does not return; \<open>mem.h\<close> says that it returns a null pointer.\<close>

theorem kmalloc_panics_when_full:
  assumes "kheap_inv s" and "n \<noteq> 0"
  shows "kmalloc s n = None \<longleftrightarrow> falloc (unat (align4 n)) (unat HEAP_START) (heap_blocks s) = None"
  using kmalloc_rep [OF kheap_inv_rep [OF assms(1)] assms(2)] by (auto split: option.splits)

text \<open>C36: \<open>kfree\<close> of any live block returns, removes exactly that block from the live blocks, keeps
  the heap well-formed, and leaves no two neighbouring free blocks.\<close>

theorem kfree_live_block:
  assumes "kheap_inv s" and "kheap_live s p = Some m"
  shows "\<exists>s'. kfree s p = Some s' \<and> kheap_inv s' \<and> kheap_live s' = (kheap_live s)(p := None) \<and>
    coalesced (heap_blocks s')"
proof -
  from kh.mfree_Some [OF assms] obtain s' where
    "kfree s p = Some s'" "kheap_inv s'" "kheap_live s' = (kheap_live s)(p := None)" by blast
  then show ?thesis using kheap_inv_rep [of s'] by (auto simp: kheap_rep_def)
qed

theorem kfree_live_block_witness:
  "\<exists>s s'. kmalloc (mem_init (\<lambda>_. undefined)) 10 = Some (HEAP_START + 24, s) \<and>
     kfree s (HEAP_START + 24) = Some s' \<and> kheap_live s' = (kheap_live s)(HEAP_START + 24 := None)"
proof -
  from kmalloc_boot obtain s where s: "kmalloc (mem_init (\<lambda>_. undefined)) 10 = Some (HEAP_START + 24, s)"
    "kheap_rep s [(12, False), (0xFFFFC4, True)]" by blast
  have "kheap_live s (HEAP_START + 24) = Some 12" by (simp add: kheap_live_eq [OF s(2)])
  from kfree_live_block [OF kheap_rep_inv [OF s(2)] this] s(1) show ?thesis by blast
qed

text \<open>Freeing the block just obtained from \<open>kmalloc\<close> undoes the allocation: the heap has the
  same blocks as before (the split is coalesced away) and the same usage count.\<close>

theorem kfree_undoes_kmalloc:
  assumes "kheap_inv s" and "kmalloc s n = Some (p, s')"
  shows "\<exists>s''. kfree s' p = Some s'' \<and> heap_blocks s'' = heap_blocks s \<and> heap_used s'' = heap_used s"
proof -
  have r: "kheap_rep s (heap_blocks s)" using assms(1) by (rule kheap_inv_rep)
  obtain q ys where q: "falloc (unat (align4 n)) HS (heap_blocks s) = Some (q, ys)" "p = of_nat (q + 24)"
    "kheap_rep s' ys" using assms by (auto elim: kmalloc_Some_rep)
  obtain m where "lives HS ys (q + 24) = Some m" using falloc_lives [OF q(1)] by fastforce
  from kfree_rep [OF q(3) this] obtain s'' where s'': "kfree s' p = Some s''"
    "kheap_rep s'' (coal (fmark q HS ys))" unfolding q(2) by blast
  have "coal (fmark q HS ys) = heap_blocks s"
    using falloc_release [OF q(1)] r by (simp add: kheap_rep_def)
  with s'' r show ?thesis by (auto simp: kheap_rep_blocks kheap_rep_def)
qed

theorem kfree_undoes_kmalloc_witness:
  "\<exists>s s'. kmalloc (mem_init (\<lambda>_. undefined)) 10 = Some (HEAP_START + 24, s) \<and>
     kfree s (HEAP_START + 24) = Some s' \<and> heap_blocks s' = [(0xFFFFE8, True)]"
proof -
  from kmalloc_boot obtain s where s: "kmalloc (mem_init (\<lambda>_. undefined)) 10 = Some (HEAP_START + 24, s)"
    by blast
  from kfree_undoes_kmalloc [OF mem_init_inv s] s show ?thesis unfolding mem_init_blocks by blast
qed

text \<open>The counters of \<open>mem_print_stats\<close> account for the whole heap: bytes in use, free bytes
  and one 24-byte header per block add up to the heap size.\<close>

theorem mem_print_stats_conservation:
  assumes "kheap_inv s"
  shows "\<exists>total fr bytes. mem_print_stats s = Some (total, fr, bytes) \<and>
    unat total = length (heap_blocks s) \<and> fr \<le> total \<and>
    unat (heap_used s) + unat bytes + 24 * unat total = unat HEAP_SIZE"
proof -
  let ?xs = "heap_blocks s"
  have r: "kheap_rep s ?xs" using assms by (rule kheap_inv_rep)
  have stats: "mem_print_stats s =
      Some (of_nat (length ?xs), of_nat (length (filter snd ?xs)), of_nat (free_bytes_of ?xs))"
    using mem_stats_walk_rep [of "hdrs s" HS ?xs 0 0 0] kheap_rep_bound [OF r] kheap_rep_hptr [OF r] r
    by (simp add: mem_print_stats_def kheap_rep_def)
  have "used_bytes ?xs + free_bytes_of ?xs + 24 * length ?xs = 0x1000000"
    using span_bytes [of ?xs] r by (simp add: kheap_rep_def)
  moreover have "length (filter snd ?xs) mod 4294967296 \<le> length ?xs"
    by (rule order_trans [OF mod_less_eq_dividend length_filter_le])
  ultimately show ?thesis
    using r by (simp add: stats kheap_rep_def unat_of_nat word_le_nat_alt)
qed

theorem mem_print_stats_conservation_witness:
  "\<exists>total fr bytes. mem_print_stats (mem_init (\<lambda>_. undefined)) = Some (total, fr, bytes) \<and> unat total = 1"
  using mem_print_stats_conservation [OF mem_init_inv, of "\<lambda>_. undefined"]
  by (auto simp: mem_init_blocks)

text \<open>The round-up to a multiple of four wraps around at the top of the range: a request for
  the largest 64-bit size becomes a request for zero bytes, which \<open>kmalloc\<close> grants with an empty
  block instead of panicking.\<close>

theorem kmalloc_size_wraps:
  "\<exists>s'. kmalloc (mem_init mem) 0xFFFFFFFFFFFFFFFF = Some (HEAP_START + 24, s') \<and>
     kheap_live s' (HEAP_START + 24) = Some 0"
proof -
  have "falloc (unat (align4 0xFFFFFFFFFFFFFFFF)) HS [(0xFFFFE8, True)] = Some (HS, [(0, False), (0xFFFFD0, True)])"
    by (simp add: align4_def)
  then obtain s' where "kmalloc (mem_init mem) 0xFFFFFFFFFFFFFFFF = Some (HEAP_START + 24, s')"
    "kheap_rep s' [(0, False), (0xFFFFD0, True)]"
    using kmalloc_rep [OF mem_init_rep [of mem], of "0xFFFFFFFFFFFFFFFF"] by auto
  then show ?thesis by (simp add: kheap_live_eq)
qed

end
