(* ===== verification/KString.thy ===== *)
theory KString
  imports Acorn_Prelude
begin

text \<open>
  Strings and memory blocks: the kernel's \<open>src/include/kernel/core/string.h\<close> and the C library's
  \<open>src/libc/src/string.c\<close>, on a byte-addressed memory. Every loop is written as the C code has
  it, over pointers that wrap around at \<open>2 ^ 64\<close>; loops that stop only at a NUL byte are
  partial functions. A counter of type \<open>int\<close> that would pass \<open>INT_MAX\<close> is undefined
  behaviour, so \<^term>\<open>None\<close>. The lemmas relate each function to what it computes on the character
  list that is stored at a pointer (\<open>cstr\<close>), which is how the other components see strings.
\<close>

type_synonym mem = "u64 \<Rightarrow> u8"

section \<open>The kernel's string.h\<close>

function kstrcpy_loop :: "mem \<Rightarrow> u64 \<Rightarrow> u64 \<Rightarrow> int \<Rightarrow> int \<Rightarrow> mem" where
  "kstrcpy_loop m dst src maxn i =
     (if m (src + of_int i) \<noteq> 0 \<and> i < maxn - 1
      then kstrcpy_loop (m(dst + of_int i := m (src + of_int i))) dst src maxn (i + 1)
      else m(dst + of_int i := 0))"
  by pat_completeness auto
termination
  by (relation "measure (\<lambda>(m, dst, src, maxn, i). nat (maxn - 1 - i))") auto

definition kstrcpy :: "mem \<Rightarrow> u64 \<Rightarrow> u64 \<Rightarrow> int \<Rightarrow> mem" where
  "kstrcpy m dst src maxn = kstrcpy_loop m dst src maxn 0"

text \<open>\<open>char\<close> is signed on x86-64, so the difference is taken of the signed values.\<close>

partial_function (option) kstrcmp :: "mem \<Rightarrow> u64 \<Rightarrow> u64 \<Rightarrow> int option" where
  "kstrcmp m a b =
     (if m a \<noteq> 0 \<and> m b \<noteq> 0
      then if m a \<noteq> m b then Some (sint (m a) - sint (m b)) else kstrcmp m (a + 1) (b + 1)
      else Some (sint (m a) - sint (m b)))"

definition kstreq :: "mem \<Rightarrow> u64 \<Rightarrow> u64 \<Rightarrow> bool option" where
  "kstreq m a b = map_option (\<lambda>d. d = 0) (kstrcmp m a b)"

partial_function (option) kstrlen_loop :: "mem \<Rightarrow> u64 \<Rightarrow> int \<Rightarrow> int option" where
  "kstrlen_loop m s i =
     (if m (s + of_int i) \<noteq> 0
      then if i = 2 ^ 31 - 1 then None else kstrlen_loop m s (i + 1)
      else Some i)"

definition kstrlen :: "mem \<Rightarrow> u64 \<Rightarrow> int option" where
  "kstrlen m s = kstrlen_loop m s 0"

definition kmemcpy :: "mem \<Rightarrow> u64 \<Rightarrow> u64 \<Rightarrow> u32 \<Rightarrow> mem" where
  "kmemcpy m dst src n = for_loop 0 n (\<lambda>i m. m(dst + ucast i := m (src + ucast i))) m"

definition kmemset :: "mem \<Rightarrow> u64 \<Rightarrow> u8 \<Rightarrow> u32 \<Rightarrow> mem" where
  "kmemset m dst val n = for_loop 0 n (\<lambda>i m. m(dst + ucast i := val)) m"

function kmemcmp_loop :: "mem \<Rightarrow> u64 \<Rightarrow> u64 \<Rightarrow> u32 \<Rightarrow> u32 \<Rightarrow> int" where
  "kmemcmp_loop m a b n i =
     (if i < n
      then if m (a + ucast i) \<noteq> m (b + ucast i)
           then uint (m (a + ucast i)) - uint (m (b + ucast i))
           else kmemcmp_loop m a b n (i + 1)
      else 0)"
  by pat_completeness auto
termination
  by (relation "measure (\<lambda>(m, a, b, n, i). unat n - unat i)")
    (auto simp: unat_Suc_less word_less_nat_alt diff_less_mono2)

definition kmemcmp :: "mem \<Rightarrow> u64 \<Rightarrow> u64 \<Rightarrow> u32 \<Rightarrow> int" where
  "kmemcmp m a b n = kmemcmp_loop m a b n 0"

section \<open>The C library's string.c\<close>

partial_function (option) strlen_loop :: "mem \<Rightarrow> u64 \<Rightarrow> u64 \<Rightarrow> u64 option" where
  "strlen_loop m str len = (if m (str + len) \<noteq> 0 then strlen_loop m str (len + 1) else Some len)"

definition strlen :: "mem \<Rightarrow> u64 \<Rightarrow> u64 option" where
  "strlen m str = strlen_loop m str 0"

partial_function (option) strcpy :: "mem \<Rightarrow> u64 \<Rightarrow> u64 \<Rightarrow> mem option" where
  "strcpy m dst src =
     (let c = m src; m' = m(dst := c) in
      if c \<noteq> 0 then strcpy m' (dst + 1) (src + 1) else Some m')"

partial_function (option) strcmp :: "mem \<Rightarrow> u64 \<Rightarrow> u64 \<Rightarrow> int option" where
  "strcmp m a b =
     (if m a \<noteq> 0 \<and> m a = m b then strcmp m (a + 1) (b + 1)
      else Some (uint (m a) - uint (m b)))"

function strncmp :: "mem \<Rightarrow> u64 \<Rightarrow> u64 \<Rightarrow> u64 \<Rightarrow> int" where
  "strncmp m a b n =
     (if n > 0 \<and> m a \<noteq> 0 \<and> m a = m b then strncmp m (a + 1) (b + 1) (n - 1)
      else if n = 0 then 0
      else uint (m a) - uint (m b))"
  by pat_completeness auto
termination
  by (relation "measure (\<lambda>(m, a, b, n). unat n)") (auto simp: unat_minus_one word_gt_0 unat_gt_0)

definition memset :: "mem \<Rightarrow> u64 \<Rightarrow> u32 \<Rightarrow> u64 \<Rightarrow> mem" where
  "memset m dst val count = for_loop 0 count (\<lambda>i m. m(dst + i := ucast val)) m"

definition memcpy :: "mem \<Rightarrow> u64 \<Rightarrow> u64 \<Rightarrow> u64 \<Rightarrow> mem" where
  "memcpy m dst src count = for_loop 0 count (\<lambda>i m. m(dst + i := m (src + i))) m"

function memcmp_loop :: "mem \<Rightarrow> u64 \<Rightarrow> u64 \<Rightarrow> u64 \<Rightarrow> u64 \<Rightarrow> int" where
  "memcmp_loop m a b count i =
     (if i < count
      then if m (a + i) \<noteq> m (b + i) then uint (m (a + i)) - uint (m (b + i))
           else memcmp_loop m a b count (i + 1)
      else 0)"
  by pat_completeness auto
termination
  by (relation "measure (\<lambda>(m, a, b, n, i). unat n - unat i)")
    (auto simp: unat_Suc_less word_less_nat_alt diff_less_mono2)

definition memcmp :: "mem \<Rightarrow> u64 \<Rightarrow> u64 \<Rightarrow> u64 \<Rightarrow> int" where
  "memcmp m a b count = memcmp_loop m a b count 0"

declare kstrcpy_loop.simps [simp del] kmemcmp_loop.simps [simp del] strncmp.simps [simp del]
  memcmp_loop.simps [simp del]

section \<open>The string stored at a pointer\<close>

fun cstr :: "mem \<Rightarrow> u64 \<Rightarrow> string \<Rightarrow> bool" where
  "cstr m p [] \<longleftrightarrow> m p = 0"
| "cstr m p (c # cs) \<longleftrightarrow> m p = of_char c \<and> of_char c \<noteq> (0 :: u8) \<and> cstr m (p + 1) cs"

lemma of_char_u8_inj [simp]: "(of_char c :: u8) = of_char d \<longleftrightarrow> c = d"
proof -
  have *: "(of_char c :: u8) = of_nat (of_char c)" for c by (simp add: of_char_def)
  show ?thesis
    unfolding * using nat_of_char_less_256 [of c] nat_of_char_less_256 [of d]
    by (simp add: word_unat_eq_iff unat_of_nat)
qed

lemma cstr_nth: "cstr m p s \<Longrightarrow> i < length s \<Longrightarrow> m (p + of_nat i) = of_char (s ! i) \<and> of_char (s ! i) \<noteq> (0 :: u8)"
proof (induction s arbitrary: p i)
  case (Cons c cs)
  show ?case
  proof (cases i)
    case (Suc n)
    then show ?thesis using Cons.prems Cons.IH [of "p + 1" n] by (simp add: ac_simps)
  qed (use Cons.prems in simp)
qed simp

lemma cstr_end: "cstr m p s \<Longrightarrow> m (p + of_nat (length s)) = 0"
proof (induction s arbitrary: p)
  case (Cons c cs)
  then show ?case using Cons.IH [of "p + 1"] by (simp add: ac_simps)
qed simp

lemma cstr_intro:
  assumes "\<And>i. i < length s \<Longrightarrow> m (p + of_nat i) = of_char (s ! i) \<and> of_char (s ! i) \<noteq> (0 :: u8)"
    and "m (p + of_nat (length s)) = 0"
  shows "cstr m p s"
  using assms
proof (induction s arbitrary: p)
  case (Cons c cs)
  have "cstr m (p + 1) cs"
  proof (rule Cons.IH)
    show "m (p + 1 + of_nat i) = of_char (cs ! i) \<and> of_char (cs ! i) \<noteq> (0 :: u8)" if "i < length cs" for i
      using Cons.prems(1) [of "Suc i"] that by (simp add: add.assoc)
    show "m (p + 1 + of_nat (length cs)) = 0"
      using Cons.prems(2) by (simp add: add.assoc)
  qed
  then show ?case using Cons.prems(1) [of 0] by simp
qed simp

lemma cstr_unique: "cstr m p s \<Longrightarrow> cstr m p t \<Longrightarrow> s = t"
proof (induction s arbitrary: p t)
  case Nil
  then show ?case by (cases t) auto
next
  case (Cons c cs)
  then show ?case by (cases t) auto
qed

section \<open>What the kernel functions compute\<close>

lemma kstrlen_loop_cstr:
  assumes "cstr m (s + of_nat i) xs" and "i + length xs < 2 ^ 31"
  shows "kstrlen_loop m s (int i) = Some (int (i + length xs))"
  using assms
proof (induction xs arbitrary: i)
  case Nil
  then show ?case by (simp add: kstrlen_loop.simps [of m s "int i"])
next
  case (Cons c cs)
  have "kstrlen_loop m s (int (Suc i)) = Some (int (Suc i + length cs))"
    using Cons.prems by (intro Cons.IH) (simp_all add: ac_simps)
  then show ?case using Cons.prems by (simp add: kstrlen_loop.simps [of m s "int i"] add.commute)
qed

lemma sint_u8_0 [simp]: "sint (x :: u8) = 0 \<longleftrightarrow> x = 0"
  by (metis signed_0 signed_word_eqI)

lemma uint_u8_eq [simp]: "uint (x :: u8) = uint y \<longleftrightarrow> x = y" "uint (x :: u8) = 0 \<longleftrightarrow> x = 0"
  by (simp_all add: word_uint_eq_iff)

lemma sint_u8_eq [simp]: "sint (x :: u8) = sint y \<longleftrightarrow> x = y"
  by (auto intro: signed_word_eqI)

lemma kstrcmp_cstr: "cstr m a s \<Longrightarrow> cstr m b t \<Longrightarrow> \<exists>d. kstrcmp m a b = Some d \<and> (d = 0 \<longleftrightarrow> s = t)"
proof (induction s arbitrary: a b t)
  case Nil
  then show ?case by (cases t) (auto simp: kstrcmp.simps)
next
  case (Cons c cs)
  show ?case
  proof (cases t)
    case Nil
    then show ?thesis using Cons.prems by (auto simp: kstrcmp.simps)
  next
    case (Cons d ds)
    with Cons.prems Cons.IH [of "a + 1" "b + 1" ds] show ?thesis
      by (cases "c = d") (auto simp: kstrcmp.simps [of m a b])
  qed
qed

lemma kstrcpy_loop_cstr:
  assumes "cstr m (src + of_nat i) xs" and "int i \<le> maxn - 1"
    and "\<And>j k. i \<le> j \<Longrightarrow> j \<le> i + length xs \<Longrightarrow> int k < maxn \<Longrightarrow> k \<le> i + length xs \<Longrightarrow> src + of_nat j \<noteq> dst + of_nat k"
    and "i + length xs < 2 ^ 63"
  shows "(\<forall>j < length (take (nat (maxn - 1) - i) xs). kstrcpy_loop m dst src maxn (int i) (dst + of_nat (i + j)) = of_char (xs ! j)) \<and>
    kstrcpy_loop m dst src maxn (int i) (dst + of_nat (i + length (take (nat (maxn - 1) - i) xs))) = 0 \<and>
    (\<forall>a. (\<forall>j \<le> length (take (nat (maxn - 1) - i) xs). a \<noteq> dst + of_nat (i + j)) \<longrightarrow>
       kstrcpy_loop m dst src maxn (int i) a = m a)"
  using assms
proof (induction xs arbitrary: m i)
  case Nil
  then show ?case by (simp add: kstrcpy_loop.simps)
next
  case (Cons c cs)
  show ?case
  proof (cases "int i < maxn - 1")
    case False
    then have "nat (maxn - 1) - i = 0" by simp
    with False show ?thesis by (simp add: kstrcpy_loop.simps [of m])
  next
    case True
    let ?m = "m(dst + of_nat i := of_char c)"
    let ?L = "nat (maxn - 1) - i"
    have step: "kstrcpy_loop m dst src maxn (int i) = kstrcpy_loop ?m dst src maxn (int (Suc i))"
      using Cons.prems True by (auto simp: kstrcpy_loop.simps [of m] add.commute)
    have L: "?L = Suc (nat (maxn - 1) - Suc i)" using True by simp
    have src: "cstr ?m (src + of_nat (Suc i)) cs"
    proof (rule cstr_intro)
      have other: "?m (src + of_nat (Suc i) + of_nat j) = m (src + of_nat (Suc i + j))" if "j \<le> length cs" for j
        using Cons.prems(3) [of "Suc i + j" i] that True by (simp add: ac_simps)
      have tl: "cstr m (src + of_nat (Suc i)) cs" using Cons.prems(1) by (simp add: ac_simps)
      show "?m (src + of_nat (Suc i) + of_nat j) = of_char (cs ! j) \<and> of_char (cs ! j) \<noteq> (0 :: u8)" if "j < length cs" for j
        using cstr_nth [OF tl that] other [of j] that by (simp add: ac_simps)
      show "?m (src + of_nat (Suc i) + of_nat (length cs)) = 0"
        using cstr_end [OF tl] other [of "length cs"] by (simp add: ac_simps)
    qed
    have IH: "(\<forall>j < length (take (nat (maxn - 1) - Suc i) cs). kstrcpy_loop ?m dst src maxn (int (Suc i)) (dst + of_nat (Suc i + j)) = of_char (cs ! j)) \<and>
      kstrcpy_loop ?m dst src maxn (int (Suc i)) (dst + of_nat (Suc i + length (take (nat (maxn - 1) - Suc i) cs))) = 0 \<and>
      (\<forall>a. (\<forall>j \<le> length (take (nat (maxn - 1) - Suc i) cs). a \<noteq> dst + of_nat (Suc i + j)) \<longrightarrow>
        kstrcpy_loop ?m dst src maxn (int (Suc i)) a = ?m a)"
      using Cons.prems True by (intro Cons.IH src) auto
    have here: "kstrcpy_loop ?m dst src maxn (int (Suc i)) (dst + of_nat i) = of_char c"
    proof -
      have "dst + of_nat i \<noteq> dst + of_nat (Suc i + j)" if "j \<le> length cs" for j
        using that Cons.prems(4) of_nat_u64_eq_iff [of i "Suc i + j"] by simp
      then show ?thesis using IH by simp
    qed
    show ?thesis
      unfolding step L take_Suc_Cons list.size
    proof (intro conjI allI impI, goal_cases)
      case (1 j)
      then show ?case using IH here by (cases j) auto
    next
      case 2
      then show ?case using IH by simp
    next
      case (3 a)
      have "a \<noteq> dst + of_nat (Suc i + j)" if "j \<le> length (take (nat (maxn - 1) - Suc i) cs)" for j
        using 3 [rule_format, of "Suc j"] that by simp
      moreover have "a \<noteq> dst + of_nat i" using 3 [rule_format, of 0] by simp
      ultimately show ?case using IH by simp
    qed
  qed
qed

section \<open>Block copies\<close>

text \<open>Two ranges of \<open>n\<close> bytes that do not overlap.\<close>

definition separate :: "u64 \<Rightarrow> u64 \<Rightarrow> u64 \<Rightarrow> bool" where
  "separate a b n \<longleftrightarrow> (\<forall>i < n. \<forall>j < n. a + i \<noteq> b + j)"

lemma separateI:
  assumes "unat a + unat n \<le> unat b" and "unat b + unat n \<le> 2 ^ 64"
  shows "separate b a n"
  unfolding separate_def
proof (intro allI impI)
  fix i j assume "i < n" "j < n"
  then have "unat (b + i) = unat b + unat i" "unat (a + j) = unat a + unat j"
    using assms by (simp_all add: unat_word_ariths word_less_nat_alt)
  then show "b + i \<noteq> a + j" using assms \<open>j < n\<close> by (auto simp: word_less_nat_alt)
qed

lemma minus_eq_iff_plus: "(x :: u64) - d = k \<longleftrightarrow> x = d + k"
  by (auto simp: algebra_simps)

lemma less_next_iff: "k < n \<Longrightarrow> (x :: u64) < k + 1 \<longleftrightarrow> x < k \<or> x = k"
  using unat_Suc_less [of k n] by (auto simp: word_less_nat_alt word_unat_eq_iff)

lemma copy_loop:
  assumes "separate dst src n"
  shows "for_loop 0 n (\<lambda>i m. m(dst + i := m (src + i))) m =
    (\<lambda>a. if a - dst < n then m (src + (a - dst)) else m a)"
proof -
  let ?P = "\<lambda>k t. t = (\<lambda>a. if a - dst < k then m (src + (a - dst)) else m a)"
  have "?P n (for_loop 0 n (\<lambda>i m. m(dst + i := m (src + i))) m)"
  proof (rule for_loop_counting [where P = ?P], goal_cases)
    case (3 k t)
    have "src + k - dst \<noteq> j" if "j < k" for j
      using assms [unfolded separate_def, rule_format, of j k] 3(2) that
      by (metis add_diff_cancel_left' add.commute diff_add_cancel order.strict_trans)
    then have "\<not> src + k - dst < k" by blast
    with 3 show ?case by (auto simp: fun_eq_iff less_next_iff [OF 3(2)] minus_eq_iff_plus)
  qed auto
  then show ?thesis by simp
qed

lemma ucast_u32_next: "k < n \<Longrightarrow> (ucast (k + 1 :: u32) :: u64) = ucast k + 1"
proof -
  assume k: "k < n"
  have "unat (ucast (k + 1) :: u64) = unat (ucast k + 1 :: u64)"
    using unat_Suc_less [OF k] unat_u32_bound [of k] unat_u32_bound [of n] k
    by (simp add: unsigned_ucast_eq unat_word_ariths take_bit_nat_def word_less_nat_alt)
  then show ?thesis by (simp only: word_unat_eq_iff)
qed

lemma for_loop_ucast:
  assumes "i \<le> n"
  shows "for_loop (i :: u32) n (\<lambda>i. f (ucast i)) s = for_loop (ucast i :: u64) (ucast n) f s"
  using assms
proof (induction "unat n - unat i" arbitrary: i s rule: less_induct)
  case (less i s)
  have lt: "(ucast i :: u64) < ucast n \<longleftrightarrow> i < n"
    using unat_u32_bound [of i] unat_u32_bound [of n]
    by (simp add: word_less_nat_alt unsigned_ucast_eq take_bit_nat_def)
  show ?case
  proof (cases "i < n")
    case True
    then have "unat n - unat (i + 1) < unat n - unat i"
      using unat_Suc_less [OF True] by (simp add: word_less_nat_alt)
    with True show ?thesis
      using less.hyps [OF _ word_next_le [OF True]]
      by (simp add: for_loop.simps [of i n] for_loop.simps [of "ucast i" "ucast n"] lt ucast_u32_next [OF True])
  next
    case False
    then show ?thesis by (simp add: lt)
  qed
qed

lemma kmemcpy_memcpy: "kmemcpy m dst src n = memcpy m dst src (ucast n)"
  using for_loop_ucast [of 0 n "\<lambda>i m. m(dst + i := m (src + i))" m]
  by (simp add: kmemcpy_def memcpy_def)

lemma kmemset_memset: "kmemset m dst (ucast v) n = memset m dst v (ucast n)"
  using for_loop_ucast [of 0 n "\<lambda>i m. m(dst + i := ucast v)" m]
  by (simp add: kmemset_def memset_def)

lemma fill_loop: "for_loop 0 n (\<lambda>i m. m((dst :: u64) + i := v)) m = (\<lambda>a. if a - dst < n then v else m a)"
proof -
  let ?P = "\<lambda>k t. t = (\<lambda>a. if a - dst < k then v else m a)"
  have "?P n (for_loop 0 n (\<lambda>i m. m(dst + i := v)) m)"
  proof (rule for_loop_counting [where P = ?P], goal_cases)
    case (3 k t)
    then show ?case by (auto simp: fun_eq_iff less_next_iff [OF 3(2)] minus_eq_iff_plus)
  qed auto
  then show ?thesis by simp
qed

lemma memcmp_loop_eq:
  "memcmp_loop m a b count i = 0 \<longleftrightarrow> (\<forall>j. i \<le> j \<longrightarrow> j < count \<longrightarrow> m (a + j) = m (b + j))"
proof (induction m a b count i rule: memcmp_loop.induct)
  case (1 m a b count i)
  show ?case
  proof (cases "i < count \<and> m (a + i) = m (b + i)")
    case True
    then have "i \<le> j \<longleftrightarrow> i = j \<or> i + 1 \<le> j" for j
      using word_next_le_iff [of i count j] by auto
    with True 1 show ?thesis by (auto simp: memcmp_loop.simps [of m a b count i])
  next
    case False
    then show ?thesis by (auto simp: memcmp_loop.simps [of m a b count i])
  qed
qed

section \<open>Library comparisons\<close>

lemma strcmp_cstr: "cstr m a s \<Longrightarrow> cstr m b t \<Longrightarrow> \<exists>d. strcmp m a b = Some d \<and> (d = 0 \<longleftrightarrow> s = t)"
proof (induction s arbitrary: a b t)
  case Nil
  then show ?case by (cases t) (auto simp: strcmp.simps)
next
  case (Cons c cs)
  show ?case
  proof (cases t)
    case Nil
    then show ?thesis using Cons.prems by (auto simp: strcmp.simps)
  next
    case (Cons d ds)
    with Cons.prems Cons.IH [of "a + 1" "b + 1" ds] show ?thesis
      by (cases "c = d") (auto simp: strcmp.simps [of m a b])
  qed
qed

lemma strncmp_cstr: "cstr m a s \<Longrightarrow> cstr m b t \<Longrightarrow> strncmp m a b n = 0 \<longleftrightarrow> take (unat n) s = take (unat n) t"
proof (induction s arbitrary: a b t n)
  case Nil
  then show ?case by (cases t) (auto simp: strncmp.simps unat_eq_0)
next
  case (Cons c cs)
  show ?case
  proof (cases t)
    case Nil
    then show ?thesis using Cons.prems by (auto simp: strncmp.simps unat_eq_0)
  next
    case (Cons d ds)
    show ?thesis
    proof (cases "n = 0")
      case True
      then show ?thesis by (simp add: strncmp.simps)
    next
      case False
      then have n: "unat n = Suc (unat (n - 1))" by (simp add: unat_minus_one unat_gt_0)
      from False Cons.prems Cons Cons.IH [of "a + 1" "b + 1" ds "n - 1"] show ?thesis
        unfolding n by (auto simp: strncmp.simps [of m a b] word_gt_0)
    qed
  qed
qed

section \<open>Library strings\<close>

text \<open>The string found at a pointer depends only on the bytes it occupies.\<close>

lemma cstr_cong:
  assumes "cstr m p s" and "\<And>i. i \<le> length s \<Longrightarrow> m' (p + of_nat i) = m (p + of_nat i)"
  shows "cstr m' p s"
  using cstr_nth [OF assms(1)] cstr_end [OF assms(1)] assms(2) by (intro cstr_intro) auto

lemma strlen_loop_cstr: "cstr m (p + n) s \<Longrightarrow> strlen_loop m p n = Some (n + of_nat (length s))"
proof (induction s arbitrary: n)
  case Nil
  then show ?case by (simp add: strlen_loop.simps)
next
  case (Cons c cs)
  have "strlen_loop m p (n + 1) = Some (n + 1 + of_nat (length cs))" using Cons.prems by (intro Cons.IH) (simp add: add.assoc)
  then show ?case using Cons.prems by (subst strlen_loop.simps) (simp add: add.assoc)
qed

lemma strlen_cstr: "cstr m p s \<Longrightarrow> strlen m p = Some (of_nat (length s))"
  using strlen_loop_cstr [of m p 0 s] by (simp add: strlen_def)

text \<open>\<open>strcpy\<close> to a place that does not overlap the source returns, copies the string and changes nothing else.\<close>

lemma strcpy_cstr:
  assumes "cstr m src s" and "\<And>i j. i \<le> length s \<Longrightarrow> j \<le> length s \<Longrightarrow> src + of_nat i \<noteq> dst + of_nat j" and "length s < 2 ^ 63"
  shows "\<exists>m'. strcpy m dst src = Some m' \<and> cstr m' dst s \<and> (\<forall>a. (\<forall>j \<le> length s. a \<noteq> dst + of_nat j) \<longrightarrow> m' a = m a)"
  using assms
proof (induction s arbitrary: m src dst)
  case Nil
  then show ?case by (subst strcpy.simps) (auto simp: Let_def)
next
  case (Cons c cs)
  let ?m = "m(dst := of_char c)"
  have c: "m src = of_char c" "(of_char c :: u8) \<noteq> 0" "cstr m (src + 1) cs" using Cons.prems(1) by auto
  have src: "cstr ?m (src + 1) cs"
  proof (rule cstr_cong [OF c(3)])
    fix i assume "i \<le> length cs"
    then show "?m (src + 1 + of_nat i) = m (src + 1 + of_nat i)"
      using Cons.prems(2) [of "Suc i" 0] by (simp add: ac_simps)
  qed
  have sep: "src + 1 + of_nat i \<noteq> dst + 1 + of_nat j" if "i \<le> length cs" "j \<le> length cs" for i j
    using Cons.prems(2) [of "Suc i" "Suc j"] that by (simp add: ac_simps)
  have "length cs < 2 ^ 63" using Cons.prems(3) by simp
  with Cons.IH [OF src sep] obtain m' where m: "strcpy ?m (dst + 1) (src + 1) = Some m'" "cstr m' (dst + 1) cs"
      "\<And>a. (\<forall>j \<le> length cs. a \<noteq> dst + 1 + of_nat j) \<Longrightarrow> m' a = ?m a"
    by blast
  have "dst \<noteq> dst + 1 + of_nat j" if "j \<le> length cs" for j
    using that Cons.prems(3) of_nat_u64_eq_iff [of 0 "Suc j"] by (simp add: add.assoc)
  then have "m' dst = of_char c" using m(3) [of dst] by simp
  moreover have "m' a = m a" if a: "\<forall>j \<le> length (c # cs). a \<noteq> dst + of_nat j" for a
    using m(3) [of a] a [rule_format, of 0] a [rule_format, of "Suc j" for j] by (simp add: ac_simps)
  ultimately show ?case using c m(1,2) by (subst strcpy.simps) (simp add: Let_def)
qed

section \<open>Properties\<close>

text \<open>\<open>kstrcpy\<close> into a buffer that does not overlap the source leaves there the first
  \<open>max - 1\<close> characters of the source, always NUL-terminated, and writes no byte outside the
  \<open>max\<close> bytes of the buffer.\<close>

theorem kstrcpy_truncates:
  assumes src: "cstr m src xs" and pos: "0 < maxn" and len: "length xs < 2 ^ 63"
    and sep: "\<forall>j \<le> length xs. \<forall>k < nat maxn. src + of_nat j \<noteq> dst + of_nat k"
  shows "cstr (kstrcpy m dst src maxn) dst (take (nat (maxn - 1)) xs) \<and>
    (\<forall>a. (\<forall>k < nat maxn. a \<noteq> dst + of_nat k) \<longrightarrow> kstrcpy m dst src maxn a = m a)"
proof -
  let ?ys = "take (nat (maxn - 1)) xs" and ?m = "kstrcpy m dst src maxn"
  have loop: "(\<forall>j < length ?ys. ?m (dst + of_nat j) = of_char (xs ! j)) \<and> ?m (dst + of_nat (length ?ys)) = 0 \<and>
    (\<forall>a. (\<forall>j \<le> length ?ys. a \<noteq> dst + of_nat j) \<longrightarrow> ?m a = m a)"
    using kstrcpy_loop_cstr [of m src 0 xs maxn dst] assms by (simp add: kstrcpy_def)
  have "cstr ?m dst ?ys"
    using loop cstr_nth [OF src] by (intro cstr_intro) auto
  moreover have "j < nat maxn" if "j \<le> length ?ys" for j
    using that pos by auto
  ultimately show ?thesis using loop by blast
qed

theorem kstrcpy_truncates_witness:
  "cstr (kstrcpy ((\<lambda>_. 0)(0x100 := 97, 0x101 := 98, 0x102 := 99)) 0x200 0x100 3) 0x200 ''ab''"
proof -
  let ?m = "(\<lambda>_. 0)(0x100 := 97, 0x101 := 98, 0x102 := 99) :: mem"
  have "cstr ?m 0x100 ''abc''" by simp
  moreover have "\<forall>j \<le> length ''abc''. \<forall>k < nat 3. 0x100 + of_nat j \<noteq> (0x200 :: u64) + of_nat k"
  proof (intro allI impI)
    fix j k assume "j \<le> length ''abc''" "k < nat 3"
    then have "(of_nat (0x100 + j) :: u64) \<noteq> of_nat (0x200 + k)"
      by (subst of_nat_u64_eq_iff) auto
    then show "0x100 + of_nat j \<noteq> (0x200 :: u64) + of_nat k" by simp
  qed
  ultimately show ?thesis
    using kstrcpy_truncates [of ?m "0x100" "''abc''" 3 "0x200"] by simp
qed

text \<open>String equality is decided correctly: on two NUL-terminated strings \<open>kstreq\<close> and the
  library's \<open>strcmp\<close> always return, and report equality exactly when the strings are equal;
  \<open>strncmp\<close> reports it exactly when their first \<open>n\<close> characters agree.\<close>

theorem string_equality:
  assumes "cstr m a s" and "cstr m b t"
  shows "kstreq m a b = Some (s = t) \<and> (\<exists>d. strcmp m a b = Some d \<and> (d = 0 \<longleftrightarrow> s = t)) \<and>
    (strncmp m a b n = 0 \<longleftrightarrow> take (unat n) s = take (unat n) t)"
  using kstrcmp_cstr [OF assms] strcmp_cstr [OF assms] strncmp_cstr [OF assms]
  by (auto simp: kstreq_def)

theorem string_equality_witness:
  "kstreq ((\<lambda>_. 0)(0x100 := 97, 0x102 := 97, 0x103 := 98)) 0x100 0x102 = Some False"
  using string_equality [of "(\<lambda>_. 0)(0x100 := 97, 0x102 := 97, 0x103 := 98)" "0x100" "''a''" "0x102" "''ab''" 0]
  by simp

text \<open>\<open>kmemcpy\<close> between ranges that do not overlap copies every byte and changes nothing
  outside the destination; a \<open>memcmp\<close> of source and destination is zero afterwards.\<close>

theorem kmemcpy_copies:
  assumes "separate dst src (ucast n)"
  shows "kmemcpy m dst src n = (\<lambda>a. if a - dst < ucast n then m (src + (a - dst)) else m a) \<and>
    memcmp (kmemcpy m dst src n) src dst (ucast n) = 0"
proof -
  have eq: "kmemcpy m dst src n = (\<lambda>a. if a - dst < ucast n then m (src + (a - dst)) else m a)"
    using copy_loop [OF assms] by (simp add: kmemcpy_memcpy memcpy_def)
  have "\<not> src + j - dst < ucast n" if "j < ucast n" for j
    using assms [unfolded separate_def, rule_format, of "src + j - dst" j] that by auto
  then have "memcmp_loop (kmemcpy m dst src n) src dst (ucast n) 0 = 0"
    unfolding memcmp_loop_eq eq by simp
  with eq show ?thesis by (simp add: memcmp_def)
qed

theorem kmemcpy_copies_witness: "memcmp (kmemcpy (\<lambda>a. ucast a) 0x200 0x100 2) 0x100 0x200 2 = 0"
proof -
  have "separate 0x200 0x100 (ucast (2 :: u32))" by (rule separateI) simp_all
  from kmemcpy_copies [OF this, of "\<lambda>a. ucast a"] have "memcmp (kmemcpy (\<lambda>a. ucast a) 0x200 0x100 2) 0x100 0x200 (ucast (2 :: u32)) = 0"
    by blast
  then show ?thesis by simp
qed

end
