(* ===== verification/Kobjects.thy ===== *)
theory Kobjects
  imports Kheap KString
begin

text \<open>
  The objects the file systems keep on the kernel heap: the structures of
  \<open>src/include/file_system/vfs.h\<close>, \<open>shadowfs.h\<close>, \<open>devfs.c\<close> and \<open>procfs.h\<close>, in one
  typed store over the heap model. \<open>objs w a\<close> is the object at address \<open>a\<close>; its
  constructor is the C type of the object, so following a pointer at another type, or a pointer to
  released memory, finds no object and is undefined behaviour (\<^term>\<open>None\<close>). Allocation and
  release go through \<open>kmalloc\<close> and \<open>kfree\<close>; the invariant \<open>obj_inv\<close> says that every object
  lies in a live heap block of sufficient size, so distinct objects never overlap.
\<close>

section \<open>Structures\<close>

text \<open>The three operations tables of the kernel; a pointer to one of them is its name. A
  superblock pointer is an index of the mount table. \<open>0\<close> is the NULL pointer.\<close>

datatype fs_kind = SHADOWFS | DEVFS | PROCFS

record inode =
  inode_num :: u32
  i_type :: u32
  i_size :: u32
  permissions :: u32
  uid :: u32
  gid :: u32
  created :: u32
  modified :: u32
  accessed :: u32
  link_count :: u32
  i_ops :: "fs_kind option"
  i_sb :: "nat option"
  i_private :: u64

record file_t =
  f_inode :: u64
  f_position :: u32
  f_flags :: u32
  f_ref_count :: u32
  f_private :: u64

record dentry =
  d_name :: string
  d_inode :: u64
  d_type :: u32

record shadowfs_block =
  b_data :: u64
  b_used :: u32
  b_next :: u64

record shadowfs_dentry =
  e_name :: string
  e_inode :: u64
  e_next :: u64

text \<open>The union of \<open>file\<close> and \<open>dir\<close>: both members are a pointer followed by a counter, so
  \<open>blocks\<close> and \<open>entries\<close> are the same word of memory, as are \<open>block_count\<close> and \<open>count\<close>.\<close>

record shadowfs_inode =
  si_head :: u64
  si_count :: u32

record shadowfs_mount =
  quota :: u32
  m_used :: u32
  next_inode_num :: u32
  root_inode :: u64

text \<open>A devFS inode points to an entry of the device table, or is the root directory.\<close>

record devfs_inode =
  di_device :: "nat option"

datatype procfs_inode_type = PROCFS_ROOT | PROCFS_PID_DIR | PROCFS_PID_FILE | PROCFS_INFO_FILE

record procfs_inode =
  pi_type :: procfs_inode_type
  pi_pid :: u64
  pi_name :: string

datatype obj =
    OInode inode
  | OFile file_t
  | OBlock shadowfs_block
  | ODentry shadowfs_dentry
  | OSInode shadowfs_inode
  | OSMount shadowfs_mount
  | ODevInode devfs_inode
  | OProcInode procfs_inode

fun sizeof :: "obj \<Rightarrow> u64" where
  "sizeof (OInode _) = 64"
| "sizeof (OFile _) = 32"
| "sizeof (OBlock _) = 24"
| "sizeof (ODentry _) = 80"
| "sizeof (OSInode _) = 16"
| "sizeof (OSMount _) = 24"
| "sizeof (ODevInode _) = 8"
| "sizeof (OProcInode _) = 24"

section \<open>The object store\<close>

record kost =
  heap :: kheap
  objs :: "u64 \<rightharpoonup> obj"

definition inodes :: "'a kost_scheme \<Rightarrow> u64 \<Rightarrow> inode option" where
  "inodes w a = (case objs w a of Some (OInode x) \<Rightarrow> Some x | _ \<Rightarrow> None)"

definition files :: "'a kost_scheme \<Rightarrow> u64 \<Rightarrow> file_t option" where
  "files w a = (case objs w a of Some (OFile x) \<Rightarrow> Some x | _ \<Rightarrow> None)"

definition sblocks :: "'a kost_scheme \<Rightarrow> u64 \<Rightarrow> shadowfs_block option" where
  "sblocks w a = (case objs w a of Some (OBlock x) \<Rightarrow> Some x | _ \<Rightarrow> None)"

definition sdents :: "'a kost_scheme \<Rightarrow> u64 \<Rightarrow> shadowfs_dentry option" where
  "sdents w a = (case objs w a of Some (ODentry x) \<Rightarrow> Some x | _ \<Rightarrow> None)"

definition sinodes :: "'a kost_scheme \<Rightarrow> u64 \<Rightarrow> shadowfs_inode option" where
  "sinodes w a = (case objs w a of Some (OSInode x) \<Rightarrow> Some x | _ \<Rightarrow> None)"

definition smounts :: "'a kost_scheme \<Rightarrow> u64 \<Rightarrow> shadowfs_mount option" where
  "smounts w a = (case objs w a of Some (OSMount x) \<Rightarrow> Some x | _ \<Rightarrow> None)"

definition devinodes :: "'a kost_scheme \<Rightarrow> u64 \<Rightarrow> devfs_inode option" where
  "devinodes w a = (case objs w a of Some (ODevInode x) \<Rightarrow> Some x | _ \<Rightarrow> None)"

definition procinodes :: "'a kost_scheme \<Rightarrow> u64 \<Rightarrow> procfs_inode option" where
  "procinodes w a = (case objs w a of Some (OProcInode x) \<Rightarrow> Some x | _ \<Rightarrow> None)"

lemmas access_defs = inodes_def files_def sblocks_def sdents_def sinodes_def smounts_def
  devinodes_def procinodes_def

definition put :: "u64 \<Rightarrow> obj \<Rightarrow> 'a kost_scheme \<Rightarrow> 'a kost_scheme" where
  "put a x w = w\<lparr>objs := (objs w)(a \<mapsto> x)\<rparr>"

definition new :: "obj \<Rightarrow> 'a kost_scheme \<Rightarrow> (u64 \<times> 'a kost_scheme) option" where
  "new x w =
     (case kmalloc (heap w) (sizeof x) of
        None \<Rightarrow> None
      | Some (p, h) \<Rightarrow> Some (p, w\<lparr>heap := h, objs := (objs w)(p \<mapsto> x)\<rparr>))"

text \<open>\<open>kfree\<close> of an object; releasing anything that is no object is undefined behaviour.\<close>

definition release :: "u64 \<Rightarrow> 'a kost_scheme \<Rightarrow> 'a kost_scheme option" where
  "release p w =
     (if p = 0 then Some w
      else case objs w p of
          None \<Rightarrow> None
        | Some x \<Rightarrow>
            (case kfree (heap w) p of
               None \<Rightarrow> None
             | Some h \<Rightarrow> Some (w\<lparr>heap := h, objs := (objs w)(p := None)\<rparr>)))"

text \<open>Release at the type the code frees the object at.\<close>

definition release_as :: "('a kost_scheme \<Rightarrow> u64 \<Rightarrow> 'x option) \<Rightarrow> u64 \<Rightarrow> 'a kost_scheme \<Rightarrow> 'a kost_scheme option" where
  "release_as sel p w = (if p = 0 then Some w else if sel w p = None then None else release p w)"

section \<open>The store invariant\<close>

definition obj_inv :: "'a kost_scheme \<Rightarrow> bool" where
  "obj_inv w \<longleftrightarrow> kheap_inv (heap w) \<and>
     (\<forall>a x. objs w a = Some x \<longrightarrow> (\<exists>m. kheap_live (heap w) a = Some m \<and> unat (sizeof x) \<le> m))"

lemma sizeof_bound: "unat (sizeof x) \<le> 2 ^ 64 - 4"
  by (cases x) auto

lemma obj_inv_heap: "obj_inv w \<Longrightarrow> kheap_inv (heap w)"
  by (simp add: obj_inv_def)

lemma new_inv:
  assumes "obj_inv w" and "new x w = Some (p, w')"
  shows "obj_inv w' \<and> p \<noteq> 0 \<and> objs w p = None \<and> objs w' = (objs w)(p \<mapsto> x)"
proof -
  obtain h where h: "kmalloc (heap w) (sizeof x) = Some (p, h)"
    and w': "w' = w\<lparr>heap := h, objs := (objs w)(p \<mapsto> x)\<rparr>"
    using assms(2) by (auto simp: new_def split: option.splits)
  from kh.malloc_Some [OF obj_inv_heap [OF assms(1)] h sizeof_bound] obtain m where
    m: "kheap_inv h" "p \<noteq> 0" "kheap_live (heap w) p = None" "unat (sizeof x) \<le> m"
    "kheap_live h = (kheap_live (heap w))(p \<mapsto> m)" by blast
  then have fresh: "objs w p = None" using assms(1) by (cases "objs w p") (fastforce simp: obj_inv_def)+
  have "obj_inv w'"
    unfolding obj_inv_def
  proof (intro conjI allI impI)
    show "kheap_inv (heap w')" using m w' by simp
    fix a y assume a: "objs w' a = Some y"
    show "\<exists>m. kheap_live (heap w') a = Some m \<and> unat (sizeof y) \<le> m"
      using a m w' assms(1) by (cases "a = p") (auto simp: obj_inv_def)
  qed
  with m fresh w' show ?thesis by simp
qed

lemma release_inv:
  assumes "obj_inv w" and "release p w = Some w'"
  shows "obj_inv w' \<and> (p \<noteq> 0 \<longrightarrow> objs w p \<noteq> None \<and> objs w' = (objs w)(p := None))"
proof (cases "p = 0")
  case True
  then show ?thesis using assms by (simp add: release_def)
next
  case False
  then obtain x h where x: "objs w p = Some x" and h: "kfree (heap w) p = Some h"
    and w': "w' = w\<lparr>heap := h, objs := (objs w)(p := None)\<rparr>"
    using assms(2) by (auto simp: release_def split: option.splits)
  obtain m where "kheap_live (heap w) p = Some m" using assms(1) x by (auto simp: obj_inv_def)
  from kh.mfree_Some [OF obj_inv_heap [OF assms(1)] this] h have
    "kheap_inv h" "kheap_live h = (kheap_live (heap w))(p := None)" by auto
  then show ?thesis using assms(1) x w' by (auto simp: obj_inv_def)
qed

text \<open>Releasing an object always succeeds.\<close>

lemma release_total:
  assumes "obj_inv w" and "objs w p = Some x"
  shows "\<exists>w'. release p w = Some w'"
proof -
  obtain m where "kheap_live (heap w) p = Some m" using assms by (auto simp: obj_inv_def)
  from kh.mfree_Some [OF obj_inv_heap [OF assms(1)] this] show ?thesis
    using assms(2) by (auto simp: release_def)
qed

lemma release_room:
  assumes "obj_inv w" and "release p w = Some w'" and "heap_room (heap w) k"
  shows "heap_room (heap w') k"
proof (cases "p = 0")
  case False
  then obtain x h where x: "objs w p = Some x" "kfree (heap w) p = Some h" "w' = w\<lparr>heap := h, objs := (objs w)(p := None)\<rparr>"
    using assms(2) by (auto simp: release_def split: option.splits)
  obtain m where "kheap_live (heap w) p = Some m" using assms(1) x by (auto simp: obj_inv_def)
  from kfree_room [OF obj_inv_heap [OF assms(1)] this assms(3) x(2)] show ?thesis using x(3) by simp
qed (use assms in \<open>simp add: release_def\<close>)

lemma put_inv: "obj_inv w \<Longrightarrow> objs w a = Some x \<Longrightarrow> sizeof y = sizeof x \<Longrightarrow> obj_inv (put a y w)"
  by (auto simp: obj_inv_def put_def)

lemma put_simps [simp]:
  "heap (put a x w) = heap w" "objs (put a x w) = (objs w)(a \<mapsto> x)"
  "kost.more (put a x w) = kost.more w"
  by (simp_all add: put_def)

lemma new_more: "new x w = Some (p, w') \<Longrightarrow> kost.more w' = kost.more w"
  by (auto simp: new_def split: option.splits)

lemma release_more: "release p w = Some w' \<Longrightarrow> kost.more w' = kost.more w"
  by (auto simp: release_def split: option.splits if_splits)

text \<open>Objects of the store occupy disjoint memory.\<close>

lemma objs_disjoint:
  assumes "obj_inv w" and "objs w a = Some x" and "objs w b = Some y" and "a \<noteq> b"
  shows "unat a + unat (sizeof x) \<le> unat b \<or> unat b + unat (sizeof y) \<le> unat a"
proof -
  obtain m k where "kheap_live (heap w) a = Some m" "unat (sizeof x) \<le> m"
    "kheap_live (heap w) b = Some k" "unat (sizeof y) \<le> k"
    using assms(1-3) unfolding obj_inv_def by meson
  then show ?thesis
    using kh.live_disjoint [OF obj_inv_heap [OF assms(1)], of a m b k] assms(4) by linarith
qed

text \<open>Allocation succeeds while a free block of 109 bytes is left, and takes at most 104.\<close>

lemma sizeof_align: "sizeof x \<noteq> 0 \<and> align4 (sizeof x) = sizeof x \<and> unat (sizeof x) \<le> 80"
  by (cases x) (simp_all add: align4_def)

lemma new_total:
  assumes "obj_inv w" and "heap_room (heap w) k" and "109 \<le> k"
  shows "\<exists>p w'. new x w = Some (p, w') \<and> heap_room (heap w') (k - 104)"
proof -
  have "unat (align4 (sizeof x)) + 28 < k" using sizeof_align [of x] assms(3) by simp
  from kmalloc_room [OF obj_inv_heap [OF assms(1)] assms(2) _ this] sizeof_align [of x] obtain p h where
    "kmalloc (heap w) (sizeof x) = Some (p, h)" "heap_room h (k - unat (sizeof x) - 24)" by auto
  moreover have "k - 104 \<le> k - unat (sizeof x) - 24" using sizeof_align [of x] by linarith
  ultimately show ?thesis by (fastforce simp: new_def heap_room_def)
qed

text \<open>Reading the store: an access finds an object exactly when its constructor is the expected
  one.\<close>

lemma access_iff:
  "inodes w a = Some i \<longleftrightarrow> objs w a = Some (OInode i)"
  "files w a = Some fl \<longleftrightarrow> objs w a = Some (OFile fl)"
  "sblocks w a = Some bl \<longleftrightarrow> objs w a = Some (OBlock bl)"
  "sdents w a = Some de \<longleftrightarrow> objs w a = Some (ODentry de)"
  "sinodes w a = Some si \<longleftrightarrow> objs w a = Some (OSInode si)"
  "smounts w a = Some sm \<longleftrightarrow> objs w a = Some (OSMount sm)"
  "devinodes w a = Some dv \<longleftrightarrow> objs w a = Some (ODevInode dv)"
  "procinodes w a = Some pv \<longleftrightarrow> objs w a = Some (OProcInode pv)"
  by (auto simp: access_defs split: option.splits obj.splits)

end
