(* ===== verification/Vfs.thy ===== *)
theory Vfs
  imports Kobjects "HOL-Library.Sublist"
begin

text \<open>
  The virtual file system, \<open>src/file_system/vfs/vfs.c\<close>: the mount table, the file descriptor
  table, path resolution and the file operations the system calls use. The state \<open>vst\<close> is a
  record over the object store that the file systems extend with their own data. A file system's operations table is a record of optional functions (NULL entries are
  \<^term>\<open>None\<close>), found through the parameter \<open>D\<close> from the \<open>ops\<close> field of an inode.

  Fixed-size character buffers: a copy that runs past the end of its buffer is undefined
  behaviour, so \<^term>\<open>None\<close>. A buffer argument of \<open>read\<close> is a flag (non-NULL) and the bytes
  stored through it are a result; the buffer argument of \<open>write\<close> is the list of its bytes.
\<close>

section \<open>Data\<close>

abbreviation VFS_MAX_MOUNTS :: nat where "VFS_MAX_MOUNTS \<equiv> 16"
abbreviation VFS_MAX_FDS :: nat where "VFS_MAX_FDS \<equiv> 256"
abbreviation VFS_MAX_PATH :: nat where "VFS_MAX_PATH \<equiv> 64"
abbreviation VFS_MAX_NAME :: nat where "VFS_MAX_NAME \<equiv> 64"

abbreviation VFS_TYPE_FILE :: u32 where "VFS_TYPE_FILE \<equiv> 1"
abbreviation VFS_TYPE_DIR :: u32 where "VFS_TYPE_DIR \<equiv> 2"

abbreviation O_RDONLY :: u32 where "O_RDONLY \<equiv> 0"
abbreviation O_WRONLY :: u32 where "O_WRONLY \<equiv> 1"
abbreviation O_CREAT :: u32 where "O_CREAT \<equiv> 4"
abbreviation O_APPEND :: u32 where "O_APPEND \<equiv> 8"
abbreviation O_TRUNC :: u32 where "O_TRUNC \<equiv> 16"

abbreviation slash :: char where "slash \<equiv> CHR ''/''"

record superblock =
  mount_point :: string
  sb_root :: u64
  sb_ops :: "fs_kind option"
  sb_private :: u64
  sb_flags :: u32

record vst = kost +
  mount_table :: "superblock list"
  mount_count :: nat
  file_table :: "u64 list"

text \<open>The operations a file system provides. \<open>seek\<close> and \<open>rmdir\<close> are entries of the C table that
  no caller uses.\<close>

record 'w fs_ops =
  op_lookup :: "('w \<Rightarrow> u64 \<Rightarrow> string \<Rightarrow> (u64 \<times> 'w) option) option"
  op_create :: "('w \<Rightarrow> u64 \<Rightarrow> string \<Rightarrow> u32 \<Rightarrow> (u64 \<times> 'w) option) option"
  op_delete :: "('w \<Rightarrow> u64 \<Rightarrow> string \<Rightarrow> (int \<times> 'w) option) option"
  op_truncate :: "('w \<Rightarrow> u64 \<Rightarrow> u32 \<Rightarrow> (int \<times> 'w) option) option"
  op_open :: "('w \<Rightarrow> u64 \<Rightarrow> u64 \<Rightarrow> (int \<times> 'w) option) option"
  op_close :: "('w \<Rightarrow> u64 \<Rightarrow> u64 \<Rightarrow> (int \<times> 'w) option) option"
  op_read :: "('w \<Rightarrow> u64 \<Rightarrow> bool \<Rightarrow> u32 \<Rightarrow> (int \<times> u8 list \<times> 'w) option) option"
  op_write :: "('w \<Rightarrow> u64 \<Rightarrow> u8 list option \<Rightarrow> u32 \<Rightarrow> (int \<times> 'w) option) option"
  op_readdir :: "('w \<Rightarrow> u64 \<Rightarrow> (int \<times> dentry option \<times> 'w) option) option"
  op_mkdir :: "('w \<Rightarrow> u64 \<Rightarrow> string \<Rightarrow> (int \<times> 'w) option) option"

text \<open>\<open>inode->ops->f\<close>, NULL when the table or the entry is NULL.\<close>

definition inode_op :: "(fs_kind \<Rightarrow> 'w fs_ops) \<Rightarrow> ('w fs_ops \<Rightarrow> 'f option) \<Rightarrow> inode \<Rightarrow> 'f option" where
  "inode_op D sel ino = (case i_ops ino of None \<Rightarrow> None | Some k \<Rightarrow> sel (D k))"

section \<open>Initialisation and mounting\<close>

definition clear_mount :: "superblock \<Rightarrow> superblock" where
  "clear_mount sb = sb\<lparr>mount_point := '''', sb_root := 0, sb_ops := None, sb_private := 0\<rparr>"

definition vfs_init :: "'a vst_scheme \<Rightarrow> 'a vst_scheme" where
  "vfs_init w = w\<lparr>mount_table := map clear_mount (mount_table w),
                  file_table := replicate VFS_MAX_FDS 0,
                  mount_count := 0\<rparr>"

definition vfs_mount :: "'a vst_scheme \<Rightarrow> string \<Rightarrow> fs_kind \<Rightarrow> u64 \<Rightarrow> int \<times> 'a vst_scheme" where
  "vfs_mount w path ops priv =
     (if mount_count w \<ge> VFS_MAX_MOUNTS then (- 1, w)
      else if \<exists>i < mount_count w. mount_point (mount_table w ! i) = path then (- 1, w)
      else let sb = \<lparr>mount_point = take (VFS_MAX_PATH - 1) path, sb_root = 0, sb_ops = Some ops,
                     sb_private = priv, sb_flags = 0\<rparr>
           in (0, w\<lparr>mount_table := (mount_table w)[mount_count w := sb],
                    mount_count := Suc (mount_count w)\<rparr>))"

text \<open>The prefix test, character by character; past the end of \<open>path\<close> the C code compares with its
  NUL byte and stops.\<close>

fun mount_matches :: "string \<Rightarrow> string \<Rightarrow> bool" where
  "mount_matches [] path = True"
| "mount_matches (c # cs) [] = False"
| "mount_matches (c # cs) (d # ds) = (c = d \<and> mount_matches cs ds)"

fun find_mount_loop :: "superblock list \<Rightarrow> nat \<Rightarrow> string \<Rightarrow> nat option \<Rightarrow> int \<Rightarrow> nat option" where
  "find_mount_loop [] i path best best_len = best"
| "find_mount_loop (sb # sbs) i path best best_len =
     (let mlen = int (length (mount_point sb)) in
      if mount_matches (mount_point sb) path \<and> mlen > best_len
      then find_mount_loop sbs (Suc i) path (Some i) mlen
      else find_mount_loop sbs (Suc i) path best best_len)"

definition vfs_find_mount :: "'a vst_scheme \<Rightarrow> string \<Rightarrow> nat option" where
  "vfs_find_mount w path = find_mount_loop (take (mount_count w) (mount_table w)) 0 path None (- 1)"

section \<open>Path resolution\<close>

fun skip_slash :: "string \<Rightarrow> string" where
  "skip_slash [] = []"
| "skip_slash (c # cs) = (if c = slash then cs else c # cs)"

lemma skip_slash_length: "length (skip_slash p) \<le> length p"
  by (cases p) auto

text \<open>The component loop. \<open>component\<close> holds \<^term>\<open>VFS_MAX_NAME\<close> bytes with the terminator.\<close>

function walk_path ::
  "(fs_kind \<Rightarrow> 'a vst_scheme fs_ops) \<Rightarrow> 'a vst_scheme \<Rightarrow> u64 \<Rightarrow> string \<Rightarrow> (u64 \<times> 'a vst_scheme) option" where
  "walk_path D w current path =
     (if path = [] then Some (current, w)
      else let component = takeWhile (\<lambda>c. c \<noteq> slash) path;
               rest = skip_slash (dropWhile (\<lambda>c. c \<noteq> slash) path) in
        if length component \<ge> VFS_MAX_NAME then None
        else if component = [] then walk_path D w current rest
        else case inodes w current of
            None \<Rightarrow> None
          | Some ino \<Rightarrow>
              (case inode_op D op_lookup ino of
                 None \<Rightarrow> Some (0, w)
               | Some lookup \<Rightarrow>
                   (case lookup w current component of
                      None \<Rightarrow> None
                    | Some (nxt, w') \<Rightarrow> if nxt = 0 then Some (0, w') else walk_path D w' nxt rest)))"
  by pat_completeness auto

lemma walk_path_shorter:
  "p \<noteq> [] \<Longrightarrow> length (skip_slash (dropWhile (\<lambda>c. c \<noteq> slash) p)) < length p"
proof (cases p)
  case (Cons c cs)
  have "length (dropWhile (\<lambda>c. c \<noteq> slash) cs) \<le> length cs" by (rule length_dropWhile_le)
  then show ?thesis
    using Cons skip_slash_length [of "dropWhile (\<lambda>c. c \<noteq> slash) cs"]
    by (cases "c = slash") auto
qed simp

termination walk_path
  by (relation "measure (\<lambda>(D, w, current, path). length path)") (auto simp: walk_path_shorter)

declare walk_path.simps [simp del]

definition vfs_resolve_path ::
  "(fs_kind \<Rightarrow> 'a vst_scheme fs_ops) \<Rightarrow> 'a vst_scheme \<Rightarrow> string \<Rightarrow> (u64 \<times> 'a vst_scheme) option" where
  "vfs_resolve_path D w path =
     (case vfs_find_mount w path of
        None \<Rightarrow> Some (0, w)
      | Some i \<Rightarrow>
          let sb = mount_table w ! i; current = sb_root sb in
          if current = 0 then Some (0, w)
          else if path = mount_point sb then Some (current, w)
          else if path = ''/'' then Some (current, w)
          else walk_path D w current (skip_slash (drop (length (mount_point sb)) path)))"

section \<open>File descriptors\<close>

text \<open>The first free descriptor from 3 on.\<close>

function alloc_fd_from :: "u64 list \<Rightarrow> nat \<Rightarrow> int" where
  "alloc_fd_from tbl fd =
     (if fd < VFS_MAX_FDS then if tbl ! fd = 0 then int fd else alloc_fd_from tbl (Suc fd) else - 1)"
  by pat_completeness auto
termination
  by (relation "measure (\<lambda>(tbl, fd). VFS_MAX_FDS - fd)") auto

declare alloc_fd_from.simps [simp del]

definition vfs_alloc_fd :: "'a vst_scheme \<Rightarrow> u64 \<Rightarrow> int \<times> 'a vst_scheme" where
  "vfs_alloc_fd w f =
     (let fd = alloc_fd_from (file_table w) 3 in
      if fd < 0 then (- 1, w) else (fd, w\<lparr>file_table := (file_table w)[nat fd := f]\<rparr>))"

definition vfs_free_fd :: "'a vst_scheme \<Rightarrow> int \<Rightarrow> 'a vst_scheme" where
  "vfs_free_fd w fd =
     (if fd < 0 \<or> fd \<ge> int VFS_MAX_FDS then w
      else w\<lparr>file_table := (file_table w)[nat fd := 0]\<rparr>)"

definition vfs_get_file :: "'a vst_scheme \<Rightarrow> int \<Rightarrow> u64" where
  "vfs_get_file w fd =
     (if fd < 0 \<or> fd \<ge> int VFS_MAX_FDS then 0 else file_table w ! nat fd)"

section \<open>Opening\<close>

text \<open>The position of the last slash, or \<open>-1\<close>.\<close>

fun last_slash_from :: "string \<Rightarrow> nat \<Rightarrow> int" where
  "last_slash_from path 0 = - 1"
| "last_slash_from path (Suc i) = (if path ! i = slash then int i else last_slash_from path i)"

text \<open>The split of a path into the parent's path and the name, shared by the creating and deleting
  operations. An empty path makes the C code read past its terminator.\<close>

definition split_path :: "string \<Rightarrow> (string \<times> string) option" where
  "split_path path =
     (let last_slash = last_slash_from path (length path) in
      if last_slash \<le> 0
      then if path = [] then None else Some (''/'', take (VFS_MAX_NAME - 1) (drop 1 path))
      else if nat last_slash \<ge> VFS_MAX_PATH then None
      else Some (take (nat last_slash) path, take (VFS_MAX_NAME - 1) (drop (nat last_slash + 1) path)))"

text \<open>Step 2 of \<open>vfs_open_file\<close>: create the missing file in its parent directory.\<close>

definition open_create ::
  "(fs_kind \<Rightarrow> 'a vst_scheme fs_ops) \<Rightarrow> 'a vst_scheme \<Rightarrow> string \<Rightarrow> (u64 \<times> 'a vst_scheme) option" where
  "open_create D w path =
     do { (parent_path, filename) \<leftarrow> split_path path;
          (parent, w1) \<leftarrow> vfs_resolve_path D w parent_path;
          if parent = 0 then Some (0, w1)
          else do { ino \<leftarrow> inodes w1 parent;
                    case inode_op D op_create ino of
                      None \<Rightarrow> Some (0, w1)
                    | Some create \<Rightarrow> create w1 parent filename VFS_TYPE_FILE } }"

definition open_truncate ::
  "(fs_kind \<Rightarrow> 'a vst_scheme fs_ops) \<Rightarrow> 'a vst_scheme \<Rightarrow> u64 \<Rightarrow> 'a vst_scheme option" where
  "open_truncate D w inode =
     do { ino \<leftarrow> inodes w inode;
          case inode_op D op_truncate ino of
            None \<Rightarrow> Some w
          | Some trunc \<Rightarrow> map_option snd (trunc w inode 0) }"

definition call_open ::
  "(fs_kind \<Rightarrow> 'a vst_scheme fs_ops) \<Rightarrow> 'a vst_scheme \<Rightarrow> u64 \<Rightarrow> u64 \<Rightarrow> (int \<times> 'a vst_scheme) option" where
  "call_open D w inode f =
     do { ino \<leftarrow> inodes w inode;
          case inode_op D op_open ino of
            None \<Rightarrow> Some (0, w)
          | Some opn \<Rightarrow> opn w inode f }"

text \<open>Steps 3 to 7: build the file object for an inode.\<close>

definition open_inode ::
  "(fs_kind \<Rightarrow> 'a vst_scheme fs_ops) \<Rightarrow> 'a vst_scheme \<Rightarrow> u64 \<Rightarrow> u32 \<Rightarrow> (u64 \<times> 'a vst_scheme) option" where
  "open_inode D w inode flags =
     do { (f, w3) \<leftarrow> new (OFile \<lparr>f_inode = inode, f_position = 0, f_flags = flags,
                               f_ref_count = 1, f_private = 0\<rparr>) w;
          if f = 0 then Some (0, w3)
          else do {
            w4 \<leftarrow> (if flags AND O_TRUNC \<noteq> 0 then open_truncate D w3 inode else Some w3);
            (res, w5) \<leftarrow> call_open D w4 inode f;
            if res < 0 then do { w6 \<leftarrow> release f w5; Some (0, w6) }
            else if flags AND O_APPEND \<noteq> 0
            then do { ino \<leftarrow> inodes w5 inode;
                      fl \<leftarrow> files w5 f;
                      Some (f, put f (OFile (fl\<lparr>f_position := i_size ino\<rparr>)) w5) }
            else Some (f, w5) } }"

definition vfs_open_file ::
  "(fs_kind \<Rightarrow> 'a vst_scheme fs_ops) \<Rightarrow> 'a vst_scheme \<Rightarrow> string \<Rightarrow> u32 \<Rightarrow> (u64 \<times> 'a vst_scheme) option" where
  "vfs_open_file D w path flags =
     do { (found, w1) \<leftarrow> vfs_resolve_path D w path;
          (inode, w2) \<leftarrow> (if found \<noteq> 0 then Some (found, w1)
                         else if flags AND O_CREAT = 0 then Some (0, w1)
                         else open_create D w1 path);
          if inode = 0 then Some (0, w2) else open_inode D w2 inode flags }"

definition vfs_open ::
  "(fs_kind \<Rightarrow> 'a vst_scheme fs_ops) \<Rightarrow> 'a vst_scheme \<Rightarrow> string \<Rightarrow> u32 \<Rightarrow> (int \<times> 'a vst_scheme) option" where
  "vfs_open D w path flags =
     do { (f, w1) \<leftarrow> vfs_open_file D w path flags;
          if f = 0 then Some (- 1, w1)
          else let (fd, w2) = vfs_alloc_fd w1 f in
            if fd < 0 then do { w3 \<leftarrow> release f w2; Some (- 1, w3) }
            else Some (fd, w2) }"

definition vfs_open_at ::
  "(fs_kind \<Rightarrow> 'a vst_scheme fs_ops) \<Rightarrow> 'a vst_scheme \<Rightarrow> string \<Rightarrow> u32 \<Rightarrow> int \<Rightarrow> (int \<times> 'a vst_scheme) option" where
  "vfs_open_at D w path flags fd =
     (if fd < 0 \<or> fd \<ge> int VFS_MAX_FDS then Some (- 1, w)
      else do {
        (f, w1) \<leftarrow> vfs_open_file D w path flags;
        if f = 0 then Some (- 1, w1)
        else do {
          w2 \<leftarrow> (if file_table w1 ! nat fd \<noteq> 0 then release (file_table w1 ! nat fd) w1 else Some w1);
          Some (fd, w2\<lparr>file_table := (file_table w2)[nat fd := f]\<rparr>) } })"

section \<open>Closing, reading, seeking, writing\<close>

definition call_close ::
  "(fs_kind \<Rightarrow> 'a vst_scheme fs_ops) \<Rightarrow> 'a vst_scheme \<Rightarrow> u64 \<Rightarrow> file_t \<Rightarrow> 'a vst_scheme option" where
  "call_close D w f fl =
     (if f_inode fl = 0 then Some w
      else do { ino \<leftarrow> inodes w (f_inode fl);
                case inode_op D op_close ino of
                  None \<Rightarrow> Some w
                | Some cls \<Rightarrow> map_option snd (cls w (f_inode fl) f) })"

definition vfs_close ::
  "(fs_kind \<Rightarrow> 'a vst_scheme fs_ops) \<Rightarrow> 'a vst_scheme \<Rightarrow> int \<Rightarrow> (int \<times> 'a vst_scheme) option" where
  "vfs_close D w fd =
     (let f = vfs_get_file w fd in
      if f = 0 then Some (- 1, w)
      else do {
        fl \<leftarrow> files w f;
        w1 \<leftarrow> call_close D w f fl;
        fl1 \<leftarrow> files w1 f;
        let n = f_ref_count fl1 - 1;
        let w2 = put f (OFile (fl1\<lparr>f_ref_count := n\<rparr>)) w1;
        w3 \<leftarrow> (if n = 0 then release f w2 else Some w2);
        Some (0, vfs_free_fd w3 fd) })"

text \<open>\<open>file->inode->ops->f\<close>: the inner \<^term>\<open>None\<close> is a NULL on the way, the outer one a dangling
  inode pointer.\<close>

definition file_op ::
  "(fs_kind \<Rightarrow> 'a vst_scheme fs_ops) \<Rightarrow> ('a vst_scheme fs_ops \<Rightarrow> 'f option) \<Rightarrow> 'a vst_scheme \<Rightarrow> file_t \<Rightarrow> 'f option option" where
  "file_op D sel w fl =
     (if f_inode fl = 0 then Some None
      else do { ino \<leftarrow> inodes w (f_inode fl); Some (inode_op D sel ino) })"

definition vfs_read ::
  "(fs_kind \<Rightarrow> 'a vst_scheme fs_ops) \<Rightarrow> 'a vst_scheme \<Rightarrow> int \<Rightarrow> bool \<Rightarrow> u32 \<Rightarrow> (int \<times> u8 list \<times> 'a vst_scheme) option" where
  "vfs_read D w fd buf nbytes =
     (let f = vfs_get_file w fd in
      if f = 0 then Some (- 1, [], w)
      else do {
        fl \<leftarrow> files w f;
        if f_flags fl = O_WRONLY then Some (- 1, [], w)
        else do {
          op \<leftarrow> file_op D op_read w fl;
          case op of None \<Rightarrow> Some (- 1, [], w) | Some rd \<Rightarrow> rd w f buf nbytes } })"

definition vfs_seek :: "'a vst_scheme \<Rightarrow> int \<Rightarrow> u32 \<Rightarrow> int \<Rightarrow> (int \<times> 'a vst_scheme) option" where
  "vfs_seek w fd offset whence =
     (let f = vfs_get_file w fd in
      if f = 0 then Some (- 1, w)
      else do {
        fl \<leftarrow> files w f;
        if whence = 0 \<or> whence = 1
        then let pos = f_position fl + offset
             in Some (sint pos, put f (OFile (fl\<lparr>f_position := pos\<rparr>)) w)
        else if whence = 2
        then do { ino \<leftarrow> inodes w (f_inode fl);
                  let pos = i_size ino + offset;
                  Some (sint pos, put f (OFile (fl\<lparr>f_position := pos\<rparr>)) w) }
        else Some (- 1, w) })"

definition vfs_write ::
  "(fs_kind \<Rightarrow> 'a vst_scheme fs_ops) \<Rightarrow> 'a vst_scheme \<Rightarrow> int \<Rightarrow> u8 list option \<Rightarrow> u32 \<Rightarrow> (int \<times> 'a vst_scheme) option" where
  "vfs_write D w fd buf nbytes =
     (let f = vfs_get_file w fd in
      if f = 0 then Some (- 1, w)
      else do {
        fl \<leftarrow> files w f;
        if f_flags fl = O_RDONLY then Some (- 1, w)
        else do {
          op \<leftarrow> file_op D op_write w fl;
          case op of None \<Rightarrow> Some (- 1, w) | Some wr \<Rightarrow> wr w f buf nbytes } })"

section \<open>Directories\<close>

definition vfs_mkdir ::
  "(fs_kind \<Rightarrow> 'a vst_scheme fs_ops) \<Rightarrow> 'a vst_scheme \<Rightarrow> string \<Rightarrow> (int \<times> 'a vst_scheme) option" where
  "vfs_mkdir D w path =
     do { (parent_path, dirname) \<leftarrow> split_path path;
          (parent, w1) \<leftarrow> vfs_resolve_path D w parent_path;
          if parent = 0 then Some (- 1, w1)
          else do {
            ino \<leftarrow> inodes w1 parent;
            if i_type ino \<noteq> VFS_TYPE_DIR then Some (- 1, w1)
            else case inode_op D op_mkdir ino of
                None \<Rightarrow> Some (- 1, w1)
              | Some mkdir \<Rightarrow>
                  do { (res, w2) \<leftarrow> mkdir w1 parent dirname;
                       Some (if res < 0 then - 1 else 0, w2) } } }"

definition vfs_readdir ::
  "(fs_kind \<Rightarrow> 'a vst_scheme fs_ops) \<Rightarrow> 'a vst_scheme \<Rightarrow> int \<Rightarrow> (int \<times> dentry option \<times> 'a vst_scheme) option" where
  "vfs_readdir D w fd =
     (let f = vfs_get_file w fd in
      if f = 0 then Some (- 1, None, w)
      else do {
        fl \<leftarrow> files w f;
        if f_inode fl = 0 then Some (- 1, None, w)
        else do {
          ino \<leftarrow> inodes w (f_inode fl);
          if i_type ino \<noteq> VFS_TYPE_DIR then Some (- 1, None, w)
          else case inode_op D op_readdir ino of
              None \<Rightarrow> Some (- 1, None, w)
            | Some rd \<Rightarrow> rd w f } })"

definition vfs_delete ::
  "(fs_kind \<Rightarrow> 'a vst_scheme fs_ops) \<Rightarrow> 'a vst_scheme \<Rightarrow> string \<Rightarrow> (int \<times> 'a vst_scheme) option" where
  "vfs_delete D w path =
     do { (parent_path, filename) \<leftarrow> split_path path;
          (parent, w1) \<leftarrow> vfs_resolve_path D w parent_path;
          if parent = 0 then Some (- 1, w1)
          else do {
            ino \<leftarrow> inodes w1 parent;
            case inode_op D op_delete ino of
              None \<Rightarrow> Some (- 1, w1)
            | Some delete \<Rightarrow>
                do { (res, w2) \<leftarrow> delete w1 parent filename;
                     Some (if res < 0 then - 1 else 0, w2) } } }"

section \<open>The mount table\<close>

lemma mount_matches_prefix [simp]: "mount_matches m p \<longleftrightarrow> prefix m p"
  by (induction m p rule: mount_matches.induct) auto

text \<open>What the search returns: the first mount point of maximal length among the prefixes.\<close>

definition best_mount :: "superblock list \<Rightarrow> string \<Rightarrow> nat \<Rightarrow> bool" where
  "best_mount sbs path i \<longleftrightarrow> i < length sbs \<and> prefix (mount_point (sbs ! i)) path \<and>
     (\<forall>j < length sbs. prefix (mount_point (sbs ! j)) path \<longrightarrow>
        length (mount_point (sbs ! j)) \<le> length (mount_point (sbs ! i))) \<and>
     (\<forall>j < i. prefix (mount_point (sbs ! j)) path \<longrightarrow>
        length (mount_point (sbs ! j)) < length (mount_point (sbs ! i)))"

definition no_mount :: "superblock list \<Rightarrow> string \<Rightarrow> bool" where
  "no_mount sbs path \<longleftrightarrow> (\<forall>sb \<in> set sbs. \<not> prefix (mount_point sb) path)"

text \<open>The loop state after the table entries \<open>done\<close>.\<close>

definition find_state :: "superblock list \<Rightarrow> string \<Rightarrow> nat option \<Rightarrow> int \<Rightarrow> bool" where
  "find_state sbs path best best_len \<longleftrightarrow>
     (case best of
        None \<Rightarrow> no_mount sbs path \<and> best_len = - 1
      | Some i \<Rightarrow> best_mount sbs path i \<and> best_len = int (length (mount_point (sbs ! i))))"

lemma find_state_take:
  assumes "find_state sbs path best best_len" and "prefix (mount_point sb) path"
    and "int (length (mount_point sb)) > best_len"
  shows "find_state (sbs @ [sb]) path (Some (length sbs)) (int (length (mount_point sb)))"
  using assms
  by (cases best; simp add: find_state_def no_mount_def best_mount_def nth_append less_Suc_eq)
    (auto simp: in_set_conv_nth intro: order.strict_implies_order le_less_trans)

lemma find_state_skip:
  assumes "find_state sbs path best best_len"
    and "\<not> (prefix (mount_point sb) path \<and> int (length (mount_point sb)) > best_len)"
  shows "find_state (sbs @ [sb]) path best best_len"
  using assms
  by (cases best; simp add: find_state_def no_mount_def best_mount_def nth_append less_Suc_eq)
    (auto simp: in_set_conv_nth intro: order.strict_implies_order le_less_trans)

lemma find_mount_loop_state:
  "find_state done path best best_len \<Longrightarrow>
   \<exists>l. find_state (done @ sbs) path (find_mount_loop sbs (length done) path best best_len) l"
proof (induction sbs arbitrary: "done" best best_len)
  case (Cons sb sbs)
  show ?case
  proof (cases "prefix (mount_point sb) path \<and> int (length (mount_point sb)) > best_len")
    case True
    with Cons.IH [OF find_state_take [OF Cons.prems]] show ?thesis by simp
  next
    case False
    with Cons.IH [OF find_state_skip [OF Cons.prems False]] show ?thesis by (auto simp: Let_def)
  qed
qed auto

lemma vfs_find_mount_state:
  "\<exists>l. find_state (take (mount_count w) (mount_table w)) path (vfs_find_mount w path) l"
  using find_mount_loop_state [of "[]" path None "- 1" "take (mount_count w) (mount_table w)"]
  by (simp add: vfs_find_mount_def find_state_def no_mount_def)

lemma best_mount_unique: "best_mount sbs path i \<Longrightarrow> best_mount sbs path j \<Longrightarrow> i = j"
  unfolding best_mount_def by (metis linorder_neqE_nat not_le)

lemma best_mount_not_none: "best_mount sbs path i \<Longrightarrow> \<not> no_mount sbs path"
  using nth_mem unfolding best_mount_def no_mount_def by blast

lemma vfs_find_mount_Some:
  "vfs_find_mount w path = Some i \<longleftrightarrow> best_mount (take (mount_count w) (mount_table w)) path i"
  using vfs_find_mount_state [of w path] best_mount_unique best_mount_not_none
  by (cases "vfs_find_mount w path") (auto simp: find_state_def)

lemma vfs_find_mount_None:
  "vfs_find_mount w path = None \<longleftrightarrow> no_mount (take (mount_count w) (mount_table w)) path"
  using vfs_find_mount_state [of w path] best_mount_not_none
  by (cases "vfs_find_mount w path") (auto simp: find_state_def)

section \<open>Path components\<close>

text \<open>The reference semantics of a path: split at the slashes, drop the empty components, look
  the rest up one after the other.\<close>

fun split_slash :: "string \<Rightarrow> string list" where
  "split_slash [] = [[]]"
| "split_slash (c # cs) =
     (if c = slash then [] # split_slash cs
      else (c # hd (split_slash cs)) # tl (split_slash cs))"

definition components :: "string \<Rightarrow> string list" where
  "components p = filter (\<lambda>c. c \<noteq> []) (split_slash p)"

primrec lookup_all ::
  "(fs_kind \<Rightarrow> 'a vst_scheme fs_ops) \<Rightarrow> string list \<Rightarrow> 'a vst_scheme \<Rightarrow> u64 \<Rightarrow> (u64 \<times> 'a vst_scheme) option" where
  "lookup_all D [] w a = Some (a, w)"
| "lookup_all D (c # cs) w a =
     (if length c \<ge> VFS_MAX_NAME then None
      else do { ino \<leftarrow> inodes w a;
                case inode_op D op_lookup ino of
                  None \<Rightarrow> Some (0, w)
                | Some f \<Rightarrow> do { (b, w') \<leftarrow> f w a c; if b = 0 then Some (0, w') else lookup_all D cs w' b } })"

lemma split_slash_next:
  "split_slash p = takeWhile (\<lambda>c. c \<noteq> slash) p #
     (case dropWhile (\<lambda>c. c \<noteq> slash) p of [] \<Rightarrow> [] | _ # r \<Rightarrow> split_slash r)"
  by (induction p) (auto split: list.splits)

lemma dropWhile_slash: "dropWhile (\<lambda>c. c \<noteq> slash) p = d # r \<Longrightarrow> d = slash"
  using hd_dropWhile [of "\<lambda>c. c \<noteq> slash" p] by auto

lemma components_next:
  assumes "p \<noteq> []"
  shows "components p =
    (let c = takeWhile (\<lambda>c. c \<noteq> slash) p; r = skip_slash (dropWhile (\<lambda>c. c \<noteq> slash) p)
     in if c = [] then components r else c # components r)"
proof (cases "dropWhile (\<lambda>c. c \<noteq> slash) p")
  case Nil
  then show ?thesis using split_slash_next [of p] unfolding components_def Let_def Nil by simp
next
  case (Cons d r)
  then have "d = slash" by (rule dropWhile_slash)
  then show ?thesis using split_slash_next [of p] unfolding components_def Let_def Cons by simp
qed

lemma components_Nil [simp]: "components [] = []"
  by (simp add: components_def)

lemma walk_path_components: "walk_path D w a p = lookup_all D (components p) w a"
proof (induction D w a p rule: walk_path.induct)
  case (1 D w a p)
  let ?c = "takeWhile (\<lambda>c. c \<noteq> slash) p" and ?r = "skip_slash (dropWhile (\<lambda>c. c \<noteq> slash) p)"
  show ?case
  proof (cases "p = []")
    case True
    then show ?thesis by (simp add: walk_path.simps)
  next
    case False
    note comp = components_next [OF False]
    show ?thesis
    proof (cases "?c = []")
      case True
      then show ?thesis
        using "1.IH"(1) [OF False refl refl] False comp by (simp add: walk_path.simps [of D w a p])
    next
      case ne: False
      then show ?thesis
        using "1.IH"(2) [OF False refl refl _ ne] False comp
        by (auto simp: walk_path.simps [of D w a p] Let_def split: option.splits bind_splits)
    qed
  qed
qed

section \<open>The descriptor table\<close>

lemma alloc_fd_from_spec:
  "(alloc_fd_from tbl n = - 1 \<and> (\<forall>i. n \<le> i \<longrightarrow> i < VFS_MAX_FDS \<longrightarrow> tbl ! i \<noteq> 0)) \<or>
   (\<exists>k. alloc_fd_from tbl n = int k \<and> n \<le> k \<and> k < VFS_MAX_FDS \<and> tbl ! k = 0 \<and>
      (\<forall>i. n \<le> i \<longrightarrow> i < k \<longrightarrow> tbl ! i \<noteq> 0))"
proof (induction tbl n rule: alloc_fd_from.induct)
  case (1 tbl n)
  show ?case
  proof (cases "n < VFS_MAX_FDS \<and> tbl ! n \<noteq> 0")
    case True
    then have step: "alloc_fd_from tbl n = alloc_fd_from tbl (Suc n)" by (simp add: alloc_fd_from.simps [of tbl n])
    have ge: "n \<le> i \<longleftrightarrow> i = n \<or> Suc n \<le> i" for i by auto
    show ?thesis unfolding step ge using 1 True by auto
  next
    case False
    then show ?thesis by (auto simp: alloc_fd_from.simps [of tbl n])
  qed
qed

text \<open>What stays the same of a file object during a file system operation, and what such an
  operation leaves alone: the tables and which files exist.\<close>

definition file_core :: "file_t \<Rightarrow> u64 \<times> u32 \<times> u32" where
  "file_core fl = (f_inode fl, f_flags fl, f_ref_count fl)"

definition vfs_frame :: "'a vst_scheme \<Rightarrow> 'a vst_scheme \<Rightarrow> bool" where
  "vfs_frame w w' \<longleftrightarrow> file_table w' = file_table w \<and> mount_table w' = mount_table w \<and>
     mount_count w' = mount_count w \<and>
     (\<forall>f. map_option file_core (files w' f) = map_option file_core (files w f))"

lemma vfs_frame_refl [simp]: "vfs_frame w w"
  by (simp add: vfs_frame_def)

lemma vfs_frame_trans: "vfs_frame w w' \<Longrightarrow> vfs_frame w' w'' \<Longrightarrow> vfs_frame w w''"
  by (simp add: vfs_frame_def)

text \<open>The consistency of the descriptor table: its non-zero entries are exactly the file objects
  that exist, apart from the files \<open>X\<close> that are being opened; no two descriptors share a file, and
  every file has one reference.\<close>

definition vfs_tab :: "'a vst_scheme \<Rightarrow> u64 set \<Rightarrow> bool" where
  "vfs_tab w X \<longleftrightarrow> length (file_table w) = VFS_MAX_FDS \<and> 0 \<notin> X \<and> X \<inter> set (file_table w) = {} \<and>
     (\<forall>f. files w f \<noteq> None \<longleftrightarrow> f \<in> X \<or> f \<in> set (file_table w) \<and> f \<noteq> 0) \<and>
     (\<forall>i < VFS_MAX_FDS. \<forall>j < VFS_MAX_FDS. file_table w ! i = file_table w ! j \<longrightarrow>
        file_table w ! i \<noteq> 0 \<longrightarrow> i = j) \<and>
     (\<forall>f fl. files w f = Some fl \<longrightarrow> f_ref_count fl = 1)"

definition vfs_inv :: "'a vst_scheme \<Rightarrow> bool" where
  "vfs_inv w \<longleftrightarrow> obj_inv w \<and> vfs_tab w {}"

lemma vfs_frame_files:
  assumes "vfs_frame w w'"
  shows "files w' f = None \<longleftrightarrow> files w f = None"
    and "files w' f = Some fl' \<Longrightarrow> \<exists>fl. files w f = Some fl \<and> file_core fl' = file_core fl"
proof -
  have "map_option file_core (files w' f) = map_option file_core (files w f)"
    using assms by (simp add: vfs_frame_def)
  then show "files w' f = None \<longleftrightarrow> files w f = None"
    and "files w' f = Some fl' \<Longrightarrow> \<exists>fl. files w f = Some fl \<and> file_core fl' = file_core fl"
    by (cases "files w f"; cases "files w' f"; simp)+
qed

lemma vfs_frame_tab:
  assumes "vfs_frame w w'" and "vfs_tab w X"
  shows "vfs_tab w' X"
proof -
  have "file_table w' = file_table w" using assms(1) by (simp add: vfs_frame_def)
  moreover have "f_ref_count fl = 1" if "files w' f = Some fl" for f fl
    using vfs_frame_files(2) [OF assms(1) that] assms(2) by (auto simp: vfs_tab_def file_core_def)
  ultimately show ?thesis
    using assms(2) vfs_frame_files(1) [OF assms(1)] by (simp add: vfs_tab_def)
qed

text \<open>How the store operations on file objects change the tables.\<close>

lemma store_tables [simp]:
  "file_table (put a x w) = file_table w" "mount_table (put a x w) = mount_table w"
  "mount_count (put a x w) = mount_count w"
  by (simp_all add: put_def)

lemma new_tables:
  "new x w = Some (p, w') \<Longrightarrow> file_table w' = file_table w \<and> mount_table w' = mount_table w \<and>
     mount_count w' = mount_count w"
  by (auto simp: new_def split: option.splits)

lemma release_tables:
  "release p w = Some w' \<Longrightarrow> file_table w' = file_table w \<and> mount_table w' = mount_table w \<and>
     mount_count w' = mount_count w"
  by (auto simp: release_def split: option.splits if_splits)

lemma files_objs: "objs w' = (objs w)(p \<mapsto> OFile fl) \<Longrightarrow> files w' = (files w)(p \<mapsto> fl)"
  "objs w' = (objs w)(p := None) \<Longrightarrow> files w' = (files w)(p := None)"
  by (auto simp: files_def fun_eq_iff)

lemma files_table_update [simp]:
  "files (w\<lparr>file_table := t\<rparr>) = files w" "obj_inv (w\<lparr>file_table := t\<rparr>) = obj_inv w"
  by (simp_all add: files_def fun_eq_iff obj_inv_def)

lemma new_file_tab:
  assumes "obj_inv w" and "vfs_tab w {}" and "new (OFile fl) w = Some (f, w')" and "f_ref_count fl = 1"
  shows "obj_inv w' \<and> vfs_tab w' {f} \<and> f \<noteq> 0 \<and> files w' = (files w)(f \<mapsto> fl) \<and> files w f = None"
proof -
  note n = new_inv [OF assms(1,3)] and t = new_tables [OF assms(3)]
  have f: "files w' = (files w)(f \<mapsto> fl)" "files w f = None"
    using n files_objs(1) by (auto simp: files_def)
  then have "f \<notin> set (file_table w)" using n assms(2) unfolding vfs_tab_def by blast
  with n t f assms(2,4) have "vfs_tab w' {f}" by (auto simp: vfs_tab_def)
  with n f show ?thesis by simp
qed

lemma release_file_tab:
  assumes "obj_inv w" and "vfs_tab w {f}" and "release f w = Some w'"
  shows "obj_inv w' \<and> vfs_tab w' {} \<and> file_table w' = file_table w"
proof -
  have nz: "f \<noteq> 0" using assms(2) by (auto simp: vfs_tab_def)
  note r = release_inv [OF assms(1,3)] and t = release_tables [OF assms(3)]
  have "files w' = (files w)(f := None)" using r nz files_objs(2) by blast
  with t assms(2) have "vfs_tab w' {}" by (auto simp: vfs_tab_def)
  with r t show ?thesis by simp
qed

lemma put_file_tab:
  assumes "obj_inv w" and "vfs_tab w X" and "files w f = Some fl" and "f_ref_count fl' = 1"
  shows "obj_inv (put f (OFile fl') w) \<and> vfs_tab (put f (OFile fl') w) X"
proof -
  have "files (put f (OFile fl') w) = (files w)(f \<mapsto> fl')" by (rule files_objs) simp
  moreover have "obj_inv (put f (OFile fl') w)"
    using assms(1,3) by (intro put_inv [of w f "OFile fl"]) (auto simp: access_iff)
  ultimately show ?thesis using assms(2-4) by (auto simp: vfs_tab_def)
qed

text \<open>Installing the file being opened in a free slot, and clearing a slot.\<close>

lemma install_tab:
  assumes "vfs_tab w {f}" and "k < VFS_MAX_FDS" and "file_table w ! k = 0"
  shows "vfs_tab (w\<lparr>file_table := (file_table w)[k := f]\<rparr>) {}"
proof -
  have len: "length (file_table w) = VFS_MAX_FDS" and nf: "f \<notin> set (file_table w)" "f \<noteq> 0"
    using assms(1) by (auto simp: vfs_tab_def)
  have ne: "file_table w ! i \<noteq> f" if "i < VFS_MAX_FDS" for i
    using nth_mem [of i "file_table w"] that nf len by auto
  have "g \<in> set ((file_table w)[k := f]) \<and> g \<noteq> 0 \<longleftrightarrow> g = f \<or> g \<in> set (file_table w) \<and> g \<noteq> 0" for g
    using len assms(2,3) nf by (subst set_update_iff) (auto simp: in_set_conv_nth)
  then show ?thesis
    using assms ne len by (auto simp: vfs_tab_def nth_list_update)
qed

lemma clear_tab:
  assumes "vfs_tab w X" and "k < VFS_MAX_FDS" and "file_table w ! k = f" and "f \<noteq> 0"
  shows "vfs_tab (w\<lparr>file_table := (file_table w)[k := 0]\<rparr>) (insert f X) \<and> f \<notin> X"
proof -
  have len: "length (file_table w) = VFS_MAX_FDS"
    and inj: "\<And>i. i < VFS_MAX_FDS \<Longrightarrow> file_table w ! i = f \<Longrightarrow> i = k"
    using assms by (auto simp: vfs_tab_def)
  have nf: "f \<notin> set ((file_table w)[k := 0])"
    using len inj assms(2,4) by (subst set_update_iff) auto
  have mem: "f \<in> set (file_table w)" using assms(2,3) len by auto
  have keep: "g \<in> set ((file_table w)[k := 0]) \<and> g \<noteq> 0 \<longleftrightarrow> g \<noteq> f \<and> g \<in> set (file_table w) \<and> g \<noteq> 0" for g
  proof -
    have "g \<in> set ((file_table w)[k := 0]) \<longleftrightarrow> g = 0 \<or> (\<exists>i < VFS_MAX_FDS. i \<noteq> k \<and> file_table w ! i = g)"
      using assms(2) len by (simp add: set_update_iff)
    moreover have "(\<exists>i < VFS_MAX_FDS. i \<noteq> k \<and> file_table w ! i = g) \<longleftrightarrow> g \<noteq> f \<and> g \<in> set (file_table w)"
      unfolding in_set_conv_nth len using inj assms(3) by blast
    ultimately show ?thesis by blast
  qed
  have "files w g \<noteq> None \<longleftrightarrow> g \<in> insert f X \<or> g \<in> set ((file_table w)[k := 0]) \<and> g \<noteq> 0" for g
    unfolding keep using assms(1,4) mem by (auto simp: vfs_tab_def)
  moreover have "i = j" if "i < VFS_MAX_FDS" "j < VFS_MAX_FDS"
    "(file_table w)[k := 0] ! i = (file_table w)[k := 0] ! j" "(file_table w)[k := 0] ! i \<noteq> 0" for i j
    using that assms(1) len unfolding vfs_tab_def by (cases "i = k"; cases "j = k") auto
  moreover have "insert f X \<inter> set ((file_table w)[k := 0]) = {}"
    using assms(1) nf set_update_subset_insert [of "file_table w" k 0] unfolding vfs_tab_def by auto
  ultimately show ?thesis
    using assms(1,4) mem len unfolding vfs_tab_def by auto
qed

section \<open>The file system interface\<close>

text \<open>What the VFS relies on from a file system: every operation that returns keeps the objects
  well-formed and leaves the descriptor and mount tables and the set of open files alone.\<close>

locale fs_driver =
  fixes D :: "fs_kind \<Rightarrow> 'a vst_scheme fs_ops"
  assumes lookup_frame: "op_lookup (D k) = Some f1 \<Longrightarrow> obj_inv w \<Longrightarrow> f1 w d n = Some (r, w') \<Longrightarrow>
      obj_inv w' \<and> vfs_frame w w'"
    and create_frame: "op_create (D k) = Some f2 \<Longrightarrow> obj_inv w \<Longrightarrow> f2 w d n t = Some (r, w') \<Longrightarrow>
      obj_inv w' \<and> vfs_frame w w'"
    and delete_frame: "op_delete (D k) = Some f3 \<Longrightarrow> obj_inv w \<Longrightarrow> f3 w d n = Some (res, w') \<Longrightarrow>
      obj_inv w' \<and> vfs_frame w w'"
    and truncate_frame: "op_truncate (D k) = Some f4 \<Longrightarrow> obj_inv w \<Longrightarrow> f4 w d sz = Some (res, w') \<Longrightarrow>
      obj_inv w' \<and> vfs_frame w w'"
    and open_frame: "op_open (D k) = Some f5 \<Longrightarrow> obj_inv w \<Longrightarrow> f5 w d g = Some (res, w') \<Longrightarrow>
      obj_inv w' \<and> vfs_frame w w'"
    and close_frame: "op_close (D k) = Some f6 \<Longrightarrow> obj_inv w \<Longrightarrow> f6 w d g = Some (res, w') \<Longrightarrow>
      obj_inv w' \<and> vfs_frame w w'"
    and read_frame: "op_read (D k) = Some f7 \<Longrightarrow> obj_inv w \<Longrightarrow> f7 w g b sz = Some (res, bs, w') \<Longrightarrow>
      obj_inv w' \<and> vfs_frame w w'"
    and write_frame: "op_write (D k) = Some f8 \<Longrightarrow> obj_inv w \<Longrightarrow> f8 w g bs' sz = Some (res, w') \<Longrightarrow>
      obj_inv w' \<and> vfs_frame w w'"
    and readdir_frame: "op_readdir (D k) = Some f9 \<Longrightarrow> obj_inv w \<Longrightarrow> f9 w g = Some (res, de, w') \<Longrightarrow>
      obj_inv w' \<and> vfs_frame w w'"
    and mkdir_frame: "op_mkdir (D k) = Some f10 \<Longrightarrow> obj_inv w \<Longrightarrow> f10 w d n = Some (res, w') \<Longrightarrow>
      obj_inv w' \<and> vfs_frame w w'"
begin

lemma inode_opE:
  assumes "inode_op D sel ino = Some f"
  obtains k where "sel (D k) = Some f"
  using assms by (auto simp: inode_op_def split: option.splits)

lemma lookup_all_frame:
  "obj_inv w \<Longrightarrow> lookup_all D cs w a = Some (r, w') \<Longrightarrow> obj_inv w' \<and> vfs_frame w w'"
proof (induction cs arbitrary: w a)
  case (Cons c cs)
  show ?case
  proof (cases "inodes w a")
    case None
    then show ?thesis using Cons.prems by (simp split: if_splits)
  next
    case (Some ino)
    show ?thesis
    proof (cases "inode_op D op_lookup ino")
      case None
      then show ?thesis using Cons.prems Some by (auto split: if_splits)
    next
      case op: (Some f)
      then obtain b w1 where f: "f w a c = Some (b, w1)"
        and rest: "if b = 0 then r = 0 \<and> w' = w1 else lookup_all D cs w1 b = Some (r, w')"
        using Cons.prems Some by (auto split: if_splits bind_splits)
      from op obtain k where "op_lookup (D k) = Some f" by (rule inode_opE)
      from lookup_frame [OF this Cons.prems(1) f] rest Cons.IH [of w1 b] show ?thesis
        by (cases "b = 0") (auto intro: vfs_frame_trans)
    qed
  qed
qed auto

lemma resolve_frame:
  "obj_inv w \<Longrightarrow> vfs_resolve_path D w path = Some (r, w') \<Longrightarrow> obj_inv w' \<and> vfs_frame w w'"
  using lookup_all_frame
  by (auto simp: vfs_resolve_path_def walk_path_components Let_def split: option.splits if_splits)

lemma open_create_frame:
  assumes "obj_inv w" and "open_create D w path = Some (r, w')"
  shows "obj_inv w' \<and> vfs_frame w w'"
proof -
  obtain pp nm par w1 where res: "vfs_resolve_path D w pp = Some (par, w1)"
    and rest: "(if par = 0 then Some (0, w1)
          else do { ino \<leftarrow> inodes w1 par;
                    case inode_op D op_create ino of
                      None \<Rightarrow> Some (0, w1)
                    | Some create \<Rightarrow> create w1 par nm VFS_TYPE_FILE }) = Some (r, w')"
    using assms(2) by (auto simp: open_create_def split: bind_splits)
  note f1 = resolve_frame [OF assms(1) res]
  show ?thesis
  proof (cases "par = 0")
    case True
    then show ?thesis using rest f1 by auto
  next
    case False
    then obtain ino where ino: "inodes w1 par = Some ino" using rest by (auto split: bind_splits)
    show ?thesis
    proof (cases "inode_op D op_create ino")
      case None
      then show ?thesis using rest f1 False ino by auto
    next
      case (Some f)
      then obtain k where "op_create (D k) = Some f" by (rule inode_opE)
      from create_frame [OF this, of w1] rest Some False ino f1 show ?thesis
        by (auto intro: vfs_frame_trans)
    qed
  qed
qed

lemma open_truncate_frame:
  assumes "obj_inv w" and "open_truncate D w a = Some w'"
  shows "obj_inv w' \<and> vfs_frame w w'"
  using assms truncate_frame
  by (fastforce simp: open_truncate_def split: bind_splits option.splits elim!: inode_opE)

lemma call_open_frame:
  assumes "obj_inv w" and "call_open D w a f = Some (res, w')"
  shows "obj_inv w' \<and> vfs_frame w w'"
  using assms open_frame
  by (fastforce simp: call_open_def split: bind_splits option.splits elim!: inode_opE)

lemma call_close_frame:
  assumes "obj_inv w" and "call_close D w f fl = Some w'"
  shows "obj_inv w' \<and> vfs_frame w w'"
  using assms close_frame
  by (fastforce simp: call_close_def split: bind_splits option.splits if_splits elim!: inode_opE)

end

section \<open>The operations keep the tables consistent\<close>

lemma frame_tables: "vfs_frame w w' \<Longrightarrow> file_table w' = file_table w"
  by (simp add: vfs_frame_def)

context fs_driver
begin

text \<open>Steps 3 to 7 of \<open>vfs_open_file\<close>.\<close>

lemma open_existing:
  assumes "obj_inv w2" and "vfs_tab w2 {}"
    and n: "new (OFile \<lparr>f_inode = inode, f_position = 0, f_flags = flags, f_ref_count = 1, f_private = 0\<rparr>) w2 = Some (f, w3)"
    and t: "(if flags AND O_TRUNC \<noteq> 0 then open_truncate D w3 inode else Some w3) = Some w4"
    and o: "call_open D w4 inode f = Some (res, w5)"
  shows "obj_inv w5 \<and> vfs_tab w5 {f} \<and> file_table w5 = file_table w2 \<and> f \<noteq> 0 \<and>
    (\<exists>fl. files w5 f = Some fl \<and> file_core fl = (inode, flags, 1))"
proof -
  note n' = new_file_tab [OF assms(1,2) n] and nt = new_tables [OF n]
  have f4: "obj_inv w4 \<and> vfs_frame w3 w4"
    using t n' open_truncate_frame [of w3 inode w4] by (auto split: if_splits)
  have f5: "obj_inv w5 \<and> vfs_frame w4 w5" using call_open_frame [OF _ o] f4 by blast
  have fr: "vfs_frame w3 w5" using f4 f5 by (blast intro: vfs_frame_trans)
  have "vfs_tab w5 {f}" using n' vfs_frame_tab [OF fr] by simp
  moreover have "files w5 f \<noteq> None" using vfs_frame_files(1) [OF fr, of f] n' by simp
  then obtain fl where "files w5 f = Some fl" by blast
  moreover from vfs_frame_files(2) [OF fr this] n' have "file_core fl = (inode, flags, 1)"
    by (simp add: file_core_def)
  ultimately show ?thesis using f5 frame_tables [OF fr] nt n' by simp
qed

lemma open_inode_tab:
  assumes inv: "obj_inv w" and tab: "vfs_tab w {}" and op: "open_inode D w inode flags = Some (f, w')"
  shows "obj_inv w' \<and> file_table w' = file_table w \<and> (if f = 0 then vfs_tab w' {} else vfs_tab w' {f})"
proof -
  from op obtain g w3 where
    n: "new (OFile \<lparr>f_inode = inode, f_position = 0, f_flags = flags, f_ref_count = 1, f_private = 0\<rparr>) w = Some (g, w3)"
    by (auto simp: open_inode_def split: bind_splits)
  have g: "g \<noteq> 0" using new_inv [OF inv n] by simp
  from op n g obtain w4 res w5 where
    t: "(if flags AND O_TRUNC \<noteq> 0 then open_truncate D w3 inode else Some w3) = Some w4" and
    o: "call_open D w4 inode g = Some (res, w5)"
    by (auto simp: open_inode_def split: bind_splits)
  note ex = open_existing [OF inv tab n t o]
  have e: "(if res < 0 then do { w6 \<leftarrow> release g w5; Some (0, w6) }
      else if flags AND O_APPEND \<noteq> 0
      then do { ino \<leftarrow> inodes w5 inode;
                fl \<leftarrow> files w5 g;
                Some (g, put g (OFile (fl\<lparr>f_position := i_size ino\<rparr>)) w5) }
      else Some (g, w5)) = Some (f, w')"
    using op n g t o by (simp add: open_inode_def)
  consider "res < 0" | "\<not> res < 0" "flags AND O_APPEND \<noteq> 0" | "\<not> res < 0" "flags AND O_APPEND = 0"
    by blast
  then show ?thesis
  proof cases
    case 1
    then show ?thesis using e ex release_file_tab [of w5 g] by (auto split: bind_splits)
  next
    case 2
    then obtain ino :: inode and fl where "files w5 g = Some fl" "w' = put g (OFile (fl\<lparr>f_position := i_size ino\<rparr>)) w5" "f = g"
      using e by (simp only: if_False if_True Option.bind_eq_Some_conv simp_thms option.inject prod.inject) blast
    then show ?thesis
      using ex g put_file_tab [of w5 "{g}" g fl "fl\<lparr>f_position := i_size ino\<rparr>"]
      by (auto simp: file_core_def)
  next
    case 3
    then show ?thesis using e ex g by auto
  qed
qed

lemma open_file_tab:
  assumes inv: "obj_inv w" and tab: "vfs_tab w {}" and op: "vfs_open_file D w path flags = Some (f, w')"
  shows "obj_inv w' \<and> file_table w' = file_table w \<and> (if f = 0 then vfs_tab w' {} else vfs_tab w' {f})"
proof -
  from op obtain found w1 where r1: "vfs_resolve_path D w path = Some (found, w1)"
    by (auto simp: vfs_open_file_def split: bind_splits)
  from op r1 obtain inode w2 where
    r2: "(if found \<noteq> 0 then Some (found, w1) else if flags AND O_CREAT = 0 then Some (0, w1)
          else open_create D w1 path) = Some (inode, w2)"
    by (auto simp: vfs_open_file_def split: bind_splits)
  have r3: "(if inode = 0 then Some (0, w2) else open_inode D w2 inode flags) = Some (f, w')"
    using op r1 r2 by (simp add: vfs_open_file_def)
  have fr: "obj_inv w2" "vfs_frame w w2"
    using resolve_frame [OF inv r1] r2 open_create_frame [of w1 path inode w2]
    by (auto split: if_splits intro: vfs_frame_trans)
  show ?thesis
    using r3 fr vfs_frame_tab [OF fr(2) tab] frame_tables [OF fr(2)] open_inode_tab [of w2 inode flags f w']
    by (auto split: if_splits)
qed

lemma open_tab:
  assumes inv: "vfs_inv w" and op: "vfs_open D w path flags = Some (fd, w')"
  shows "vfs_inv w' \<and> (fd = - 1 \<and> file_table w' = file_table w \<or>
    (\<exists>k f. fd = int k \<and> 3 \<le> k \<and> k < VFS_MAX_FDS \<and> file_table w ! k = 0 \<and>
      (\<forall>i. 3 \<le> i \<longrightarrow> i < k \<longrightarrow> file_table w ! i \<noteq> 0) \<and>
      f \<noteq> 0 \<and> file_table w' = (file_table w)[k := f]))"
proof -
  from op obtain f w1 where o: "vfs_open_file D w path flags = Some (f, w1)"
    by (auto simp: vfs_open_def split: bind_splits)
  note t = open_file_tab [OF _ _ o] inv [unfolded vfs_inv_def]
  have e: "(if f = 0 then Some (- 1, w1)
      else let (fd, w2) = vfs_alloc_fd w1 f in
        if fd < 0 then do { w3 \<leftarrow> release f w2; Some (- 1, w3) } else Some (fd, w2)) = Some (fd, w')"
    using op o by (simp add: vfs_open_def)
  show ?thesis
  proof (cases "f = 0")
    case True
    then show ?thesis using e t by (auto simp: vfs_inv_def)
  next
    case False
    then have tab: "obj_inv w1" "vfs_tab w1 {f}" "file_table w1 = file_table w" using t by auto
    from alloc_fd_from_spec [of "file_table w1" 3] show ?thesis
    proof (elim disjE exE conjE)
      assume "alloc_fd_from (file_table w1) 3 = - 1"
      then have "vfs_alloc_fd w1 f = (- 1, w1)" by (simp add: vfs_alloc_fd_def)
      then show ?thesis using e False tab release_file_tab [OF tab(1,2)] by (auto simp: vfs_inv_def split: bind_splits)
    next
      fix k assume k: "alloc_fd_from (file_table w1) 3 = int k" "3 \<le> k" "k < VFS_MAX_FDS"
        "file_table w1 ! k = 0" "\<forall>i. 3 \<le> i \<longrightarrow> i < k \<longrightarrow> file_table w1 ! i \<noteq> 0"
      then have "vfs_alloc_fd w1 f = (int k, w1\<lparr>file_table := (file_table w1)[k := f]\<rparr>)"
        by (simp add: vfs_alloc_fd_def)
      then have "fd = int k" "w' = w1\<lparr>file_table := (file_table w1)[k := f]\<rparr>" using e False by auto
      then show ?thesis using k False tab install_tab [OF tab(2) k(3,4)] by (auto simp: vfs_inv_def)
    qed
  qed
qed

lemma close_tab:
  assumes inv: "vfs_inv w" and fd: "0 \<le> fd" "fd < int VFS_MAX_FDS" "file_table w ! nat fd \<noteq> 0"
    and op: "vfs_close D w fd = Some (res, w')"
  shows "vfs_inv w' \<and> res = 0 \<and> file_table w' = (file_table w)[nat fd := 0] \<and>
    files w' (file_table w ! nat fd) = None"
proof -
  let ?f = "file_table w ! nat fd"
  have get: "vfs_get_file w fd = ?f" using fd by (simp add: vfs_get_file_def)
  from op get fd obtain fl w1 where fl: "files w ?f = Some fl" and c: "call_close D w ?f fl = Some w1"
    by (auto simp: vfs_close_def Let_def split: bind_splits)
  note fr = call_close_frame [OF _ c] and i = inv [unfolded vfs_inv_def]
  have tab1: "obj_inv w1" "vfs_tab w1 {}" "file_table w1 = file_table w"
    using fr i vfs_frame_tab frame_tables by blast+
  have len: "length (file_table w) = VFS_MAX_FDS" using i by (simp add: vfs_tab_def)
  then have "?f \<in> set (file_table w)" using fd by (intro nth_mem) auto
  then have "files w1 ?f \<noteq> None" using tab1 fd(3) unfolding vfs_tab_def by simp
  then obtain fl1 where fl1: "files w1 ?f = Some fl1" by blast
  then have one: "f_ref_count fl1 = 1" using tab1 by (auto simp: vfs_tab_def)
  let ?w2 = "put ?f (OFile (fl1\<lparr>f_ref_count := 0\<rparr>)) w1"
  have inv2: "obj_inv ?w2" using tab1 fl1 by (intro put_inv [of w1 ?f "OFile fl1"]) (auto simp: access_iff)
  have "vfs_close D w fd = do { w3 \<leftarrow> release ?f ?w2; Some (0, vfs_free_fd w3 fd) }"
    using get fd fl c fl1 one by (simp add: vfs_close_def Let_def)
  then obtain w3 where r: "release ?f ?w2 = Some w3" and w': "w' = vfs_free_fd w3 fd" "res = 0"
    using op by (auto split: bind_splits)
  have t3: "file_table w3 = file_table w" using release_tables [OF r] tab1 by simp
  have f3: "files w3 = (files w1)(?f := None)"
    using release_inv [OF inv2 r] fd(3) files_objs(2) [of w3 ?w2 ?f] files_objs(1) [of ?w2 w1 ?f] by auto
  have "vfs_tab (w1\<lparr>file_table := (file_table w)[nat fd := 0]\<rparr>) {?f}"
    using clear_tab [of w1 "{}" "nat fd" ?f] tab1 fd by simp
  then have "vfs_tab (w3\<lparr>file_table := (file_table w)[nat fd := 0]\<rparr>) {}"
    using f3 by (auto simp: vfs_tab_def)
  then show ?thesis
    using w' t3 fd release_inv [OF inv2 r] f3 by (simp add: vfs_free_fd_def vfs_inv_def)
qed

lemma open_at_tab:
  assumes inv: "vfs_inv w" and op: "vfs_open_at D w path flags fd = Some (res, w')"
  shows "vfs_inv w' \<and> (res = - 1 \<and> file_table w' = file_table w \<or>
    res = fd \<and> 0 \<le> fd \<and> fd < int VFS_MAX_FDS \<and> (\<exists>f. f \<noteq> 0 \<and> file_table w' = (file_table w)[nat fd := f]))"
proof (cases "fd < 0 \<or> fd \<ge> int VFS_MAX_FDS")
  case True
  then show ?thesis using assms by (simp add: vfs_open_at_def)
next
  case False
  let ?k = "nat fd"
  from False op obtain f w1 where o: "vfs_open_file D w path flags = Some (f, w1)"
    by (auto simp: vfs_open_at_def split: bind_splits)
  note t = open_file_tab [OF _ _ o] inv [unfolded vfs_inv_def]
  show ?thesis
  proof (cases "f = 0")
    case True
    then show ?thesis using op o False t by (auto simp: vfs_open_at_def vfs_inv_def)
  next
    case nz: False
    then have tab: "obj_inv w1" "vfs_tab w1 {f}" "file_table w1 = file_table w" using t by auto
    have k: "?k < VFS_MAX_FDS" using False by auto
    have len: "length (file_table w) = VFS_MAX_FDS" using t by (simp add: vfs_tab_def)
    let ?old = "file_table w ! ?k"
    from op o False nz tab(3) obtain w2 where
      w2: "(if ?old \<noteq> 0 then release ?old w1 else Some w1) = Some w2" and
      w': "w' = w2\<lparr>file_table := (file_table w2)[?k := f]\<rparr>" and res: "res = fd"
      by (simp add: vfs_open_at_def Option.bind_eq_Some_conv split del: if_split cong: if_cong) blast
    have t2: "file_table w2 = file_table w" "obj_inv w2"
      using w2 tab release_tables [of ?old w1 w2] release_inv [of w1 ?old w2] by (auto split: if_splits)
    have "vfs_tab (w2\<lparr>file_table := (file_table w)[?k := 0]\<rparr>) {f}"
    proof (cases "?old = 0")
      case True
      then have "(file_table w)[?k := 0] = file_table w" using list_update_id [of "file_table w" ?k] by simp
      with True w2 tab show ?thesis by (auto simp: vfs_tab_def)
    next
      case old: False
      have c: "vfs_tab (w1\<lparr>file_table := (file_table w)[?k := 0]\<rparr>) {?old, f} \<and> ?old \<notin> {f}"
        using clear_tab [OF tab(2) k _ old] tab(3) by simp
      have "files w2 = (files w1)(?old := None)"
        using w2 old release_inv [OF tab(1), of ?old w2] files_objs(2) [of w2 w1 ?old] by simp
      with c show ?thesis by (auto simp: vfs_tab_def)
    qed
    from install_tab [OF this k] have "vfs_tab (w2\<lparr>file_table := (file_table w)[?k := f]\<rparr>) {}"
      using k len by simp
    then show ?thesis using w' res t2 False nz by (auto simp: vfs_inv_def)
  qed
qed

text \<open>The remaining operations leave the tables alone altogether.\<close>

lemma frame_inv: "vfs_inv w \<Longrightarrow> obj_inv w' \<Longrightarrow> vfs_frame w w' \<Longrightarrow> vfs_inv w' \<and> file_table w' = file_table w"
  using vfs_frame_tab frame_tables by (auto simp: vfs_inv_def)

lemma file_opE:
  assumes "file_op D sel w fl = Some (Some f)"
  obtains k where "sel (D k) = Some f"
  using assms by (auto simp: file_op_def split: if_splits bind_splits elim: inode_opE)

lemma read_tab:
  assumes inv: "vfs_inv w" and op: "vfs_read D w fd b n = Some (res, bs, w')"
  shows "vfs_inv w' \<and> file_table w' = file_table w"
proof (rule frame_inv [OF inv])
  have "obj_inv w' \<and> vfs_frame w w'"
    using op inv read_frame [of _ _ w]
    by (fastforce simp: vfs_read_def Let_def vfs_inv_def split: if_splits bind_splits option.splits elim!: file_opE)
  then show "obj_inv w'" "vfs_frame w w'" by auto
qed

lemma write_tab:
  assumes inv: "vfs_inv w" and op: "vfs_write D w fd b n = Some (res, w')"
  shows "vfs_inv w' \<and> file_table w' = file_table w"
proof (rule frame_inv [OF inv])
  have "obj_inv w' \<and> vfs_frame w w'"
    using op inv write_frame [of _ _ w]
    by (fastforce simp: vfs_write_def Let_def vfs_inv_def split: if_splits bind_splits option.splits elim!: file_opE)
  then show "obj_inv w'" "vfs_frame w w'" by auto
qed

lemma readdir_tab:
  assumes inv: "vfs_inv w" and op: "vfs_readdir D w fd = Some (res, de, w')"
  shows "vfs_inv w' \<and> file_table w' = file_table w"
proof (rule frame_inv [OF inv])
  have "obj_inv w' \<and> vfs_frame w w'"
    using op inv readdir_frame [of _ _ w]
    by (fastforce simp: vfs_readdir_def Let_def vfs_inv_def split: if_splits bind_splits option.splits elim!: inode_opE)
  then show "obj_inv w'" "vfs_frame w w'" by auto
qed

lemma mkdir_tab:
  assumes inv: "vfs_inv w" and op: "vfs_mkdir D w path = Some (res, w')"
  shows "vfs_inv w' \<and> file_table w' = file_table w"
proof -
  have i: "obj_inv w" using inv by (simp add: vfs_inv_def)
  note f1 = resolve_frame [OF i]
  have "obj_inv w' \<and> vfs_frame w w'"
    using op i mkdir_frame
    by (fastforce simp: vfs_mkdir_def split: if_splits bind_splits option.splits elim!: inode_opE
        dest!: f1 intro: vfs_frame_trans)
  then show ?thesis using frame_inv [OF inv] by blast
qed

lemma delete_tab:
  assumes inv: "vfs_inv w" and op: "vfs_delete D w path = Some (res, w')"
  shows "vfs_inv w' \<and> file_table w' = file_table w"
proof -
  have i: "obj_inv w" using inv by (simp add: vfs_inv_def)
  note f1 = resolve_frame [OF i]
  have "obj_inv w' \<and> vfs_frame w w'"
    using op i delete_frame
    by (fastforce simp: vfs_delete_def split: if_splits bind_splits option.splits elim!: inode_opE
        dest!: f1 intro: vfs_frame_trans)
  then show ?thesis using frame_inv [OF inv] by blast
qed

lemma seek_tab:
  assumes inv: "vfs_inv w" and op: "vfs_seek w fd offset whence = Some (res, w')"
  shows "vfs_inv w' \<and> file_table w' = file_table w"
proof -
  have put: "vfs_inv (put f (OFile (fl\<lparr>f_position := p\<rparr>)) w)" if "files w f = Some fl" for f fl p
  proof -
    have "f_ref_count fl = 1" using that inv by (auto simp: vfs_inv_def vfs_tab_def)
    then show ?thesis
      using put_file_tab [OF _ _ that, of "{}" "fl\<lparr>f_position := p\<rparr>"] inv by (simp add: vfs_inv_def)
  qed
  then show ?thesis
    using inv op by (auto simp: vfs_seek_def Let_def split: if_splits bind_splits)
qed

end

section \<open>Properties of the tables and of path resolution\<close>

text \<open>C20: \<open>vfs_find_mount\<close> returns the mount point that is the longest prefix of the path, the
  first one in the table among equals, and NULL exactly when no mount point is a prefix.\<close>

theorem vfs_find_mount_longest_prefix:
  "case vfs_find_mount w path of
     None \<Rightarrow> no_mount (take (mount_count w) (mount_table w)) path
   | Some i \<Rightarrow> best_mount (take (mount_count w) (mount_table w)) path i"
  using vfs_find_mount_Some [of w path] vfs_find_mount_None [of w path] by (auto split: option.splits)

lemma components_skip_slash [simp]: "components (skip_slash p) = components p"
  by (cases p) (auto simp: components_def)

text \<open>C19: Path resolution is component-wise lookup: from the root of the mount that owns the path,
  the components between slashes are looked up one after the other, empty components are
  skipped, and the walk ends with NULL at the first component that is not found. A component of 64
  or more characters overruns the component buffer (undefined behaviour).\<close>

theorem vfs_resolve_path_components:
  "vfs_resolve_path D w path =
     (case vfs_find_mount w path of
        None \<Rightarrow> Some (0, w)
      | Some i \<Rightarrow>
          if sb_root (mount_table w ! i) = 0 then Some (0, w)
          else if path = mount_point (mount_table w ! i) \<or> path = ''/'' then Some (sb_root (mount_table w ! i), w)
          else lookup_all D (components (drop (length (mount_point (mount_table w ! i))) path)) w
                 (sb_root (mount_table w ! i)))"
  by (auto simp: vfs_resolve_path_def walk_path_components Let_def split: option.splits)

text \<open>\<open>vfs_seek\<close> with \<open>SEEK_SET\<close> is \<open>SEEK_CUR\<close>: the offset is added to the current position
  instead of replacing it.\<close>

theorem vfs_seek_set_is_relative: "vfs_seek w fd offset 0 = vfs_seek w fd offset 1"
  by (simp add: vfs_seek_def Let_def)

text \<open>A mount that succeeds appends its superblock to the table.\<close>

lemma vfs_mount_table:
  assumes "length (mount_table w) = VFS_MAX_MOUNTS" and "length path < VFS_MAX_PATH"
    and "vfs_mount w path ops priv = (0, w')"
  shows "take (mount_count w') (mount_table w') = take (mount_count w) (mount_table w) @
      [\<lparr>mount_point = path, sb_root = 0, sb_ops = Some ops, sb_private = priv, sb_flags = 0\<rparr>] \<and>
    mount_count w < VFS_MAX_MOUNTS \<and> mount_count w' = Suc (mount_count w) \<and>
    (\<forall>i < mount_count w. mount_point (mount_table w ! i) \<noteq> path)"
  using assms by (auto simp: vfs_mount_def Let_def take_Suc_conv_app_nth split: if_splits)

lemma vfs_mount_found:
  assumes "length (mount_table w) = VFS_MAX_MOUNTS" and "length path < VFS_MAX_PATH"
    and "vfs_mount w path ops priv = (0, w')"
  shows "vfs_find_mount w' path = Some (mount_count w)"
proof -
  let ?old = "take (mount_count w) (mount_table w)"
  let ?sb = "\<lparr>mount_point = path, sb_root = 0, sb_ops = Some ops, sb_private = priv, sb_flags = 0\<rparr>"
  note t = vfs_mount_table [OF assms]
  have len: "length ?old = mount_count w" using t assms(1) by simp
  have "length (mount_point (?old ! j)) < length path" if "j < mount_count w" "prefix (mount_point (?old ! j)) path" for j
    using that t by (intro prefix_length_less) (auto simp: strict_prefix_def)
  then have "best_mount (?old @ [?sb]) path (mount_count w)"
    using len by (auto simp: best_mount_def nth_append less_Suc_eq dest: prefix_length_le)
  then show ?thesis unfolding vfs_find_mount_Some t [THEN conjunct1] .
qed



end
