(* ===== verification/Pmm.thy ===== *)
theory Pmm
  imports Acorn_Prelude
begin

text \<open>
  The physical memory manager, \<open>src/kernel/memory/pmm.c\<close>: a bitmap with one bit per 4KB page
  (1 = used), the page counters, initialisation from the BIOS E820 map, and the allocation and
  release of single pages. The bitmap is the memory at \<open>PMM_BITMAP_ADDRESS\<close>, a function from
  byte offsets to bytes: the C code indexes it without a bound, and so does the model.
  The theory ends with the interface the rest of the kernel relies on, the locale
  \<open>page_allocator\<close>, and its interpretation on these definitions.
\<close>

section \<open>State\<close>

abbreviation PMM_BITMAP_PHYSICAL :: u64 where "PMM_BITMAP_PHYSICAL \<equiv> 0x200000"
abbreviation HEAP_PHYSICAL_BASE :: u64 where "HEAP_PHYSICAL_BASE \<equiv> 0x2200000"
abbreviation E820_USABLE :: u32 where "E820_USABLE \<equiv> 1"

record e820_entry =
  e820_base :: u64
  e820_length :: u64
  e820_type :: u32
  e820_acpi :: u32

record pmm =
  bitmap :: "u64 \<Rightarrow> u8"
  total_pages :: u64
  used_pages :: u64

section \<open>Bitmap helpers\<close>

definition bitmap_set :: "(u64 \<Rightarrow> u8) \<Rightarrow> u64 \<Rightarrow> (u64 \<Rightarrow> u8)" where
  "bitmap_set bm page =
     bm(page div 8 := bm (page div 8) OR push_bit (unat (page mod 8)) 1)"

definition bitmap_clear :: "(u64 \<Rightarrow> u8) \<Rightarrow> u64 \<Rightarrow> (u64 \<Rightarrow> u8)" where
  "bitmap_clear bm page =
     bm(page div 8 := bm (page div 8) AND NOT (push_bit (unat (page mod 8)) 1))"

definition bitmap_test :: "(u64 \<Rightarrow> u8) \<Rightarrow> u64 \<Rightarrow> bool" where
  "bitmap_test bm page \<longleftrightarrow> bm (page div 8) AND push_bit (unat (page mod 8)) 1 = 0"

text \<open>Every change of the bitmap is paired with a change of the counter.\<close>

definition reserve_page :: "u64 \<Rightarrow> pmm \<Rightarrow> pmm" where
  "reserve_page page s = s\<lparr>bitmap := bitmap_set (bitmap s) page, used_pages := used_pages s + 1\<rparr>"

definition release_page :: "u64 \<Rightarrow> pmm \<Rightarrow> pmm" where
  "release_page page s = s\<lparr>bitmap := bitmap_clear (bitmap s) page, used_pages := used_pages s - 1\<rparr>"

section \<open>Initialisation\<close>

text \<open>\<open>n\<close> pages from page number \<open>first\<close> on: the loops of \<open>pmm_init\<close> over a region.\<close>

definition reserve_pages :: "u64 \<Rightarrow> u64 \<Rightarrow> pmm \<Rightarrow> pmm" where
  "reserve_pages first n s = for_loop 0 n (\<lambda>p. reserve_page (first + p)) s"

definition free_region :: "e820_entry \<Rightarrow> pmm \<Rightarrow> pmm" where
  "free_region e s =
     (if e820_type e = E820_USABLE
      then for_loop 0 (e820_length e div PAGE_SIZE)
             (\<lambda>p. release_page (e820_base e div PAGE_SIZE + p)) s
      else s)"

definition fill_bitmap :: "u64 \<Rightarrow> (u64 \<Rightarrow> u8) \<Rightarrow> (u64 \<Rightarrow> u8)" where
  "fill_bitmap bytes mem = for_loop 0 bytes (\<lambda>i bm. bm(i := 0xFF)) mem"

definition pmm_init :: "(u64 \<Rightarrow> u8) \<Rightarrow> e820_entry list \<Rightarrow> u64 \<Rightarrow> pmm" where
  "pmm_init mem e820_map highest_ram =
     (let total = highest_ram div PAGE_SIZE;
          bitmap_bytes = total div 8 + 1;
          s0 = \<lparr>bitmap = fill_bitmap bitmap_bytes mem, total_pages = total, used_pages = total\<rparr>;
          s1 = fold free_region e820_map s0;
          s2 = reserve_page 0 s1;
          s3 = reserve_page (0x7C00 div PAGE_SIZE) s2;
          s4 = reserve_pages (0x1000 div PAGE_SIZE) ((0x20000 - 0x1000) div PAGE_SIZE) s3;
          bitmap_pages = bitmap_bytes div PAGE_SIZE + 1;
          s5 = reserve_pages (PMM_BITMAP_PHYSICAL div PAGE_SIZE) bitmap_pages s4
      in reserve_pages (HEAP_PHYSICAL_BASE div PAGE_SIZE) (HEAP_SIZE div PAGE_SIZE) s5)"

section \<open>Allocation and release\<close>

function pmm_alloc_from :: "pmm \<Rightarrow> u64 \<Rightarrow> (u64 \<times> pmm) option" where
  "pmm_alloc_from s i =
     (if i < total_pages s
      then if bitmap_test (bitmap s) i
           then Some (i * PAGE_SIZE, reserve_page i s)
           else pmm_alloc_from s (i + 1)
      else None)"
  by pat_completeness auto
termination
  by (relation "measure (\<lambda>(s, i). unat (total_pages s) - unat i)")
    (auto simp: unat_Suc_less word_less_nat_alt diff_less_mono2)

declare pmm_alloc_from.simps [simp del]

definition pmm_alloc :: "pmm \<Rightarrow> (u64 \<times> pmm) option" where
  "pmm_alloc s = pmm_alloc_from s 0"

definition pmm_free :: "pmm \<Rightarrow> u64 \<Rightarrow> pmm" where
  "pmm_free s page = (if page = 0 then s else release_page (page div PAGE_SIZE) s)"

definition pmm_free_pages :: "pmm \<Rightarrow> u64" where
  "pmm_free_pages s = total_pages s - used_pages s"

definition pmm_used_pages :: "pmm \<Rightarrow> u64" where
  "pmm_used_pages s = used_pages s"

section \<open>The bitmap as a set of free pages\<close>

abbreviation page_free :: "pmm \<Rightarrow> u64 \<Rightarrow> bool" where
  "page_free s page \<equiv> bitmap_test (bitmap s) page"

lemma bitmap_test_bit: "bitmap_test bm page \<longleftrightarrow> \<not> bit (bm (page div 8)) (unat (page mod 8))"
  by (simp add: bitmap_test_def push_bit_of_1 and_exp_eq_0_iff_not_bit)

lemma page_bit_less: "unat ((page :: u64) mod 8) < 8"
  by (simp add: unat_mod)

lemma page_slot_eq:
  "(p :: u64) div 8 = q div 8 \<Longrightarrow> unat (p mod 8) = unat (q mod 8) \<Longrightarrow> p = q"
  by (metis div_mult_mod_eq word_unat_eq_iff)

lemma bitmap_test_set [simp]:
  "bitmap_test (bitmap_set bm p) q \<longleftrightarrow> q \<noteq> p \<and> bitmap_test bm q"
  using page_slot_eq [of p q] page_bit_less [of p] page_bit_less [of q]
  by (auto simp: bitmap_test_bit bitmap_set_def bit_simps)

lemma bitmap_test_clear [simp]:
  "bitmap_test (bitmap_clear bm p) q \<longleftrightarrow> q = p \<or> bitmap_test bm q"
  using page_slot_eq [of p q] page_bit_less [of p] page_bit_less [of q]
  by (auto simp: bitmap_test_bit bitmap_clear_def bit_simps)

lemma reserve_page_simps [simp]:
  "page_free (reserve_page p s) q \<longleftrightarrow> q \<noteq> p \<and> page_free s q"
  "total_pages (reserve_page p s) = total_pages s"
  "used_pages (reserve_page p s) = used_pages s + 1"
  by (simp_all add: reserve_page_def)

lemma release_page_simps [simp]:
  "page_free (release_page p s) q \<longleftrightarrow> q = p \<or> page_free s q"
  "total_pages (release_page p s) = total_pages s"
  "used_pages (release_page p s) = used_pages s - 1"
  by (simp_all add: release_page_def)

section \<open>Regions\<close>

text \<open>Page \<open>p\<close> is one of the \<open>n\<close> pages from \<open>first\<close> on (in wrap-around arithmetic, as
  the loop computes page numbers).\<close>

definition in_region :: "u64 \<Rightarrow> u64 \<Rightarrow> u64 \<Rightarrow> bool" where
  "in_region first n p \<longleftrightarrow> p - first < n"

lemma reserve_pages_from:
  "page_free (for_loop i n (\<lambda>p. reserve_page (first + p)) s) q \<longleftrightarrow>
     page_free s q \<and> \<not> (i \<le> q - first \<and> q - first < n)"
proof (induction i n "\<lambda>p. reserve_page (first + p)" s rule: for_loop.induct)
  case (1 i n s)
  then show ?case
    by (cases "i < n") (auto simp: for_loop.simps [of i n] word_next_le_iff)
qed

lemma release_pages_from:
  "page_free (for_loop i n (\<lambda>p. release_page (first + p)) s) q \<longleftrightarrow>
     page_free s q \<or> (i \<le> q - first \<and> q - first < n)"
proof (induction i n "\<lambda>p. release_page (first + p)" s rule: for_loop.induct)
  case (1 i n s)
  then show ?case
    by (cases "i < n") (auto simp: for_loop.simps [of i n] word_next_le_iff)
qed

lemma reserve_pages_counters:
  "total_pages (for_loop i n (\<lambda>p. reserve_page (first + p)) s) = total_pages s"
  "i \<le> n \<Longrightarrow> used_pages (for_loop i n (\<lambda>p. reserve_page (first + p)) s) = used_pages s + (n - i)"
  by (induction i n "\<lambda>p. reserve_page (first + p)" s rule: for_loop.induct)
    (auto simp: for_loop.simps word_next_le)

lemma release_pages_counters:
  "total_pages (for_loop i n (\<lambda>p. release_page (first + p)) s) = total_pages s"
  "i \<le> n \<Longrightarrow> used_pages (for_loop i n (\<lambda>p. release_page (first + p)) s) = used_pages s - (n - i)"
  by (induction i n "\<lambda>p. release_page (first + p)" s rule: for_loop.induct)
    (auto simp: for_loop.simps word_next_le)

lemma reserve_pages_simps [simp]:
  "page_free (reserve_pages first n s) q \<longleftrightarrow> page_free s q \<and> \<not> in_region first n q"
  "total_pages (reserve_pages first n s) = total_pages s"
  "used_pages (reserve_pages first n s) = used_pages s + n"
  by (simp_all add: reserve_pages_def reserve_pages_from reserve_pages_counters in_region_def)

definition entry_usable :: "e820_entry \<Rightarrow> u64 \<Rightarrow> bool" where
  "entry_usable e p \<longleftrightarrow> e820_type e = E820_USABLE \<and>
     in_region (e820_base e div PAGE_SIZE) (e820_length e div PAGE_SIZE) p"

definition entry_pages :: "e820_entry \<Rightarrow> u64" where
  "entry_pages e = (if e820_type e = E820_USABLE then e820_length e div PAGE_SIZE else 0)"

lemma free_region_simps [simp]:
  "page_free (free_region e s) q \<longleftrightarrow> page_free s q \<or> entry_usable e q"
  "total_pages (free_region e s) = total_pages s"
  "used_pages (free_region e s) = used_pages s - entry_pages e"
  by (simp_all add: free_region_def release_pages_from release_pages_counters in_region_def
      entry_usable_def entry_pages_def)

lemma free_regions_simps [simp]:
  "page_free (fold free_region es s) q \<longleftrightarrow> page_free s q \<or> (\<exists>e\<in>set es. entry_usable e q)"
  "total_pages (fold free_region es s) = total_pages s"
  "used_pages (fold free_region es s) = used_pages s - sum_list (map entry_pages es)"
  by (induction es arbitrary: s) auto

lemma fill_bitmap_from:
  "for_loop (i :: u64) n (\<lambda>k bm. bm(k := c)) mem j = (if i \<le> j \<and> j < n then c else mem j)"
proof (induction i n "\<lambda>(k :: u64) bm. bm(k := c)" mem rule: for_loop.induct)
  case (1 i n mem)
  then show ?case
    by (cases "i < n") (auto simp: for_loop.simps [of i n] word_next_le_iff)
qed

lemma fill_bitmap_used:
  assumes "p div 8 < bytes"
  shows "\<not> bitmap_test (fill_bitmap bytes mem) p"
proof -
  have "bit (0xFF :: u8) k" if "k < 8" for k
    using that by (simp add: numeral_eq_Suc less_Suc_eq bit_1_iff) auto
  then show ?thesis
    using assms page_bit_less [of p]
    by (simp add: fill_bitmap_def fill_bitmap_from bitmap_test_bit)
qed

lemma page_byte_in_bitmap:
  assumes "p < highest_ram div PAGE_SIZE"
  shows "p div 8 < highest_ram div PAGE_SIZE div 8 + 1"
proof -
  have "unat (highest_ram div 4096) < 2 ^ 52"
    using unat_u64_bound [of highest_ram] by (simp add: unat_div)
  with assms show ?thesis
    by (simp add: word_less_nat_alt unat_div unat_word_ariths)
qed

text \<open>The pages \<open>pmm_init\<close> keeps for the kernel: the null page, the boot sector, the range
  \<open>0x1000\<close>--\<open>0x1FFFF\<close> it calls the kernel, the bitmap and the heap. The kernel image itself is
  linked and loaded at \<open>0x100000\<close> (\<open>linker.ld\<close>, \<open>stage2.asm\<close>); \<open>docs/memory_map.md\<close> lists
  \<open>0x100000\<close>--\<open>0x1FFFFF\<close> as reserved, but the code does not reserve it.\<close>

definition bitmap_page_count :: "u64 \<Rightarrow> u64" where
  "bitmap_page_count highest_ram = (highest_ram div PAGE_SIZE div 8 + 1) div PAGE_SIZE + 1"

definition reserved_page :: "u64 \<Rightarrow> u64 \<Rightarrow> bool" where
  "reserved_page highest_ram p \<longleftrightarrow>
     p = 0 \<or> p = 7 \<or> in_region 1 31 p \<or>
     in_region 0x200 (bitmap_page_count highest_ram) p \<or> in_region 0x2200 0x1000 p"

lemma pmm_init_counters:
  "total_pages (pmm_init mem es highest_ram) = highest_ram div PAGE_SIZE"
  "used_pages (pmm_init mem es highest_ram) =
     highest_ram div PAGE_SIZE - sum_list (map entry_pages es)
       + (1 + 1 + 31 + bitmap_page_count highest_ram + 0x1000)"
  by (simp_all add: pmm_init_def Let_def bitmap_page_count_def)

lemma pmm_init_page_free:
  assumes "p < highest_ram div PAGE_SIZE"
  shows "page_free (pmm_init mem es highest_ram) p \<longleftrightarrow>
    (\<exists>e\<in>set es. entry_usable e p) \<and> \<not> reserved_page highest_ram p"
  using fill_bitmap_used [OF page_byte_in_bitmap [OF assms], of mem]
  by (auto simp: pmm_init_def Let_def reserved_page_def bitmap_page_count_def)

section \<open>Allocation\<close>

lemma pmm_alloc_from_Some:
  assumes "pmm_alloc_from s i = Some (a, s')"
  shows "\<exists>j. i \<le> j \<and> j < total_pages s \<and> page_free s j \<and>
    (\<forall>k. i \<le> k \<longrightarrow> k < j \<longrightarrow> \<not> page_free s k) \<and> a = j * PAGE_SIZE \<and> s' = reserve_page j s"
  using assms
proof (induction s i rule: pmm_alloc_from.induct)
  case (1 s i)
  show ?case
  proof (cases "i < total_pages s \<and> \<not> page_free s i")
    case True
    with 1 obtain j where j: "i + 1 \<le> j" "j < total_pages s" "page_free s j"
      "\<And>k. i + 1 \<le> k \<Longrightarrow> k < j \<Longrightarrow> \<not> page_free s k" "a = j * PAGE_SIZE" "s' = reserve_page j s"
      by (auto simp: pmm_alloc_from.simps [of s i])
    have "\<not> page_free s k" if "i \<le> k" "k < j" for k
      using that True j(4) [of k] by (cases "k = i") (auto simp: word_next_le_iff)
    with j True show ?thesis
      by (intro exI [of _ j]) (auto simp: word_next_le_iff)
  next
    case False
    with "1.prems" show ?thesis
      by (intro exI [of _ i]) (auto simp: pmm_alloc_from.simps [of s i] split: if_splits)
  qed
qed

lemma pmm_alloc_from_None:
  "pmm_alloc_from s i = None \<longleftrightarrow> (\<forall>j. i \<le> j \<longrightarrow> j < total_pages s \<longrightarrow> \<not> page_free s j)"
proof (induction s i rule: pmm_alloc_from.induct)
  case (1 s i)
  show ?case
  proof (cases "i < total_pages s \<and> \<not> page_free s i")
    case True
    then have "pmm_alloc_from s i = None \<longleftrightarrow>
        (\<forall>j. i + 1 \<le> j \<longrightarrow> j < total_pages s \<longrightarrow> \<not> page_free s j)"
      using 1 by (simp add: pmm_alloc_from.simps [of s i])
    with True show ?thesis by (metis word_next_le_iff)
  next
    case False
    then show ?thesis
      by (auto simp: pmm_alloc_from.simps [of s i])
  qed
qed

lemma pmm_alloc_Some:
  assumes "pmm_alloc s = Some (a, s')"
  obtains i where "i < total_pages s" "page_free s i" "\<And>k. k < i \<Longrightarrow> \<not> page_free s k"
    "a = i * PAGE_SIZE" "s' = reserve_page i s"
  using pmm_alloc_from_Some [of s 0 a s'] assms by (auto simp: pmm_alloc_def)

lemma pmm_alloc_None: "pmm_alloc s = None \<longleftrightarrow> (\<forall>i < total_pages s. \<not> page_free s i)"
  by (auto simp: pmm_alloc_def pmm_alloc_from_None)

text \<open>Page numbers and page addresses: with at most \<open>2 ^ 52\<close> pages (every \<open>highest_ram\<close> gives
  fewer) a page number is recovered from its address.\<close>

definition pmm_wf :: "pmm \<Rightarrow> bool" where
  "pmm_wf s \<longleftrightarrow> total_pages s \<le> 2 ^ 52"

lemma page_address:
  assumes "i < (2 ^ 52 :: u64)"
  shows "unat (i * PAGE_SIZE) = unat i * 4096" and "i * PAGE_SIZE div PAGE_SIZE = i"
    and "i * PAGE_SIZE mod PAGE_SIZE = 0" and "i * PAGE_SIZE = 0 \<longleftrightarrow> i = 0"
proof -
  have "unat i < 2 ^ 52" using assms by (simp add: word_less_nat_alt)
  then show u: "unat (i * PAGE_SIZE) = unat i * 4096"
    by (simp add: unat_word_ariths)
  then show "i * PAGE_SIZE div PAGE_SIZE = i" and "i * PAGE_SIZE mod PAGE_SIZE = 0"
    by (simp_all add: word_unat_eq_iff unat_div unat_mod)
  from u show "i * PAGE_SIZE = 0 \<longleftrightarrow> i = 0"
    by (auto simp: word_unat_eq_iff)
qed

lemma pmm_wf_page: "pmm_wf s \<Longrightarrow> i < total_pages s \<Longrightarrow> i < 2 ^ 52"
  by (simp add: pmm_wf_def)

lemma pmm_init_wf: "pmm_wf (pmm_init mem es highest_ram)"
proof -
  have "unat (highest_ram div 4096) < 2 ^ 52"
    using unat_u64_bound [of highest_ram] by (simp add: unat_div)
  then show ?thesis
    by (simp add: pmm_wf_def pmm_init_counters word_le_nat_alt)
qed

section \<open>The page allocator interface\<close>

text \<open>What paging, the ELF loader, processes and shadowFS rely on: an allocated page was
  available and no longer is, allocation fails only when nothing is available, and a released
  page is available again.\<close>

locale page_allocator =
  fixes alloc :: "'s \<Rightarrow> (u64 \<times> 's) option"
    and free :: "'s \<Rightarrow> u64 \<Rightarrow> 's"
    and avail :: "'s \<Rightarrow> u64 set"
    and pages :: "'s \<Rightarrow> u64 set"
    and invar :: "'s \<Rightarrow> bool"
  assumes alloc_Some: "invar s \<Longrightarrow> alloc s = Some (a, s') \<Longrightarrow>
      a \<in> avail s \<and> avail s' = avail s - {a} \<and> pages s' = pages s \<and> invar s'"
    and alloc_None: "invar s \<Longrightarrow> alloc s = None \<longleftrightarrow> avail s = {}"
    and free_page: "invar s \<Longrightarrow> a \<in> pages s \<Longrightarrow> a \<noteq> 0 \<Longrightarrow>
      avail (free s a) = insert a (avail s) \<and> pages (free s a) = pages s \<and> invar (free s a)"
    and avail_pages: "avail s \<subseteq> pages s"

text \<open>Allocating \<open>n\<close> pages in a row.\<close>

fun alloc_n :: "('s \<Rightarrow> (u64 \<times> 's) option) \<Rightarrow> nat \<Rightarrow> 's \<Rightarrow> (u64 list \<times> 's) option" where
  "alloc_n alloc 0 s = Some ([], s)"
| "alloc_n alloc (Suc n) s =
     do { (a, s1) \<leftarrow> alloc s; (as, s2) \<leftarrow> alloc_n alloc n s1; Some (a # as, s2) }"

context page_allocator
begin

lemma alloc_n_Some:
  assumes "invar s" and "alloc_n alloc n s = Some (as, s')"
  shows "length as = n \<and> distinct as \<and> set as \<subseteq> avail s \<and> avail s' = avail s - set as \<and>
    pages s' = pages s \<and> invar s'"
  using assms
proof (induction n arbitrary: s as)
  case (Suc n)
  then obtain a s1 bs where a: "alloc s = Some (a, s1)" and bs: "alloc_n alloc n s1 = Some (bs, s')"
    and as: "as = a # bs"
    by (auto simp: bind_eq_Some_conv)
  note step = alloc_Some [OF Suc.prems(1) a]
  from Suc.IH [OF _ bs] step have "length bs = n \<and> distinct bs \<and> set bs \<subseteq> avail s1 \<and>
      avail s' = avail s1 - set bs \<and> pages s' = pages s1 \<and> invar s'" by blast
  with step as show ?case by auto
qed simp

lemma alloc_n_enough:
  assumes "invar s" and "finite (avail s)" and "n \<le> card (avail s)"
  shows "\<exists>as s'. alloc_n alloc n s = Some (as, s')"
  using assms
proof (induction n arbitrary: s)
  case (Suc n)
  then have "avail s \<noteq> {}" by auto
  then obtain a s1 where a: "alloc s = Some (a, s1)"
    using alloc_None [OF Suc.prems(1)] by auto
  note step = alloc_Some [OF Suc.prems(1) a]
  have "\<exists>as s'. alloc_n alloc n s1 = Some (as, s')"
    using Suc.IH [of s1] Suc.prems step by simp
  with a show ?case by auto
qed simp

lemma alloc_free_avail:
  assumes "invar s" and "alloc s = Some (a, s')" and "a \<noteq> 0"
  shows "avail (free s' a) = avail s"
proof -
  note step = alloc_Some [OF assms(1,2)]
  then have "a \<in> pages s'" using avail_pages [of s] by auto
  with step assms(3) free_page [of s' a] show ?thesis by auto
qed

end

definition pmm_pages :: "pmm \<Rightarrow> u64 set" where
  "pmm_pages s = {i * PAGE_SIZE | i. i < total_pages s}"

definition pmm_avail :: "pmm \<Rightarrow> u64 set" where
  "pmm_avail s = {i * PAGE_SIZE | i. i < total_pages s \<and> page_free s i}"

lemma pmm_avail_iff:
  "pmm_wf s \<Longrightarrow> i < total_pages s \<Longrightarrow> i * PAGE_SIZE \<in> pmm_avail s \<longleftrightarrow> page_free s i"
  unfolding pmm_avail_def using page_address(2) pmm_wf_page by (auto, metis)

interpretation pa: page_allocator pmm_alloc pmm_free pmm_avail pmm_pages pmm_wf
proof (unfold_locales, goal_cases)
  case (1 s a s')
  then obtain i where i: "i < total_pages s" "page_free s i" "a = i * PAGE_SIZE" "s' = reserve_page i s"
    by (auto elim: pmm_alloc_Some)
  have "j * PAGE_SIZE = i * PAGE_SIZE \<longleftrightarrow> j = i" if "j < total_pages s" for j
    using page_address(2) [of j] page_address(2) [of i] pmm_wf_page [OF 1(1)] i(1) that by metis
  with 1 i show ?case
    by (auto simp: pmm_avail_def pmm_pages_def pmm_wf_def)
next
  case (2 s)
  then show ?case by (auto simp: pmm_alloc_None pmm_avail_def)
next
  case (3 s a)
  then obtain i where "i < total_pages s" "a = i * PAGE_SIZE" by (auto simp: pmm_pages_def)
  with 3 page_address(2) [of i] pmm_wf_page [OF 3(1)] have "pmm_free s a = release_page i s"
    and "i < total_pages s" "a = i * PAGE_SIZE"
    by (auto simp: pmm_free_def)
  with 3 show ?case by (auto simp: pmm_avail_def pmm_pages_def pmm_wf_def)
next
  case (4 s)
  then show ?case by (auto simp: pmm_avail_def pmm_pages_def)
qed

section \<open>Boot, allocation and release as a transition system\<close>

text \<open>States of the manager after boot, with the set of pages handed out and not yet given
  back.\<close>

inductive pmm_reach :: "(u64 \<Rightarrow> u8) \<Rightarrow> e820_entry list \<Rightarrow> u64 \<Rightarrow> pmm \<Rightarrow> u64 set \<Rightarrow> bool"
  for mem es highest_ram where
  boot: "pmm_reach mem es highest_ram (pmm_init mem es highest_ram) {}"
| alloc: "pmm_reach mem es highest_ram s A \<Longrightarrow> pmm_alloc s = Some (a, s') \<Longrightarrow>
     pmm_reach mem es highest_ram s' (insert a A)"
| free: "pmm_reach mem es highest_ram s A \<Longrightarrow> a \<in> A \<Longrightarrow>
     pmm_reach mem es highest_ram (pmm_free s a) (A - {a})"

inductive_cases pmm_reach_cases: "pmm_reach mem es highest_ram s A"

definition boot_page :: "e820_entry list \<Rightarrow> u64 \<Rightarrow> u64 \<Rightarrow> bool" where
  "boot_page es highest_ram p \<longleftrightarrow> p < highest_ram div PAGE_SIZE \<and>
     (\<exists>e\<in>set es. entry_usable e p) \<and> \<not> reserved_page highest_ram p"

lemma boot_page_address:
  assumes "boot_page es highest_ram p"
  shows "p * PAGE_SIZE div PAGE_SIZE = p" "p * PAGE_SIZE \<noteq> 0" "p * PAGE_SIZE mod PAGE_SIZE = 0"
proof -
  from assms have "p < total_pages (pmm_init (\<lambda>_. 0) es highest_ram)" and "p \<noteq> 0"
    by (auto simp: boot_page_def pmm_init_counters reserved_page_def)
  then show "p * PAGE_SIZE div PAGE_SIZE = p" "p * PAGE_SIZE \<noteq> 0" "p * PAGE_SIZE mod PAGE_SIZE = 0"
    using page_address pmm_wf_page [OF pmm_init_wf] by auto
qed

lemma pmm_reach_inv:
  assumes "pmm_reach mem es highest_ram s A"
  shows "total_pages s = highest_ram div PAGE_SIZE \<and> finite A \<and>
    used_pages s = used_pages (pmm_init mem es highest_ram) + of_nat (card A) \<and>
    (\<forall>a\<in>A. \<exists>p. boot_page es highest_ram p \<and> a = p * PAGE_SIZE) \<and>
    (\<forall>p < highest_ram div PAGE_SIZE.
       page_free s p \<longleftrightarrow> boot_page es highest_ram p \<and> p * PAGE_SIZE \<notin> A)"
  using assms
proof (induction rule: pmm_reach.induct)
  case boot
  then show ?case by (auto simp: pmm_init_counters pmm_init_page_free boot_page_def)
next
  case (alloc s A a s')
  then obtain i where i: "i < total_pages s" "page_free s i" "a = i * PAGE_SIZE" "s' = reserve_page i s"
    by (auto elim: pmm_alloc_Some)
  with alloc have bp: "boot_page es highest_ram i" and new: "a \<notin> A" by auto
  have eq: "p * PAGE_SIZE = a \<longleftrightarrow> p = i" if "boot_page es highest_ram p" for p
    using boot_page_address(1) [OF that] boot_page_address(1) [OF bp] i(3) by metis
  show ?case using alloc.IH i bp new eq by auto
next
  case (free s A a)
  then obtain i where i: "boot_page es highest_ram i" "a = i * PAGE_SIZE" by blast
  then have st: "pmm_free s a = release_page i s"
    using boot_page_address [OF i(1)] by (simp add: pmm_free_def)
  have eq: "p * PAGE_SIZE = a \<longleftrightarrow> p = i" if "boot_page es highest_ram p" for p
    using boot_page_address(1) [OF that] boot_page_address(1) [OF i(1)] i(2) by metis
  have "of_nat (card (A - {a})) = (of_nat (card A) - 1 :: u64)"
    using free by (subst card.remove [of A a]) auto
  with free i st eq show ?case by auto
qed

section \<open>Properties\<close>

text \<open>\<open>pmm_alloc\<close> is first fit. When it returns, the page is the lowest-numbered free page,
  it is marked used, no other bit changes, the used counter grows by one; it does not return
  (kernel panic) exactly when every page below \<open>total_pages\<close> is used.\<close>

theorem pmm_alloc_first_fit:
  "case pmm_alloc s of
     None \<Rightarrow> \<forall>i. i < total_pages s \<longrightarrow> \<not> page_free s i
   | Some (a, s') \<Rightarrow> \<exists>i. i < total_pages s \<and> page_free s i \<and> (\<forall>k. k < i \<longrightarrow> \<not> page_free s k) \<and>
       a = i * PAGE_SIZE \<and> (\<forall>q. page_free s' q \<longleftrightarrow> q \<noteq> i \<and> page_free s q) \<and>
       total_pages s' = total_pages s \<and> used_pages s' = used_pages s + 1"
proof (cases "pmm_alloc s")
  case None
  then have "\<forall>i. i < total_pages s \<longrightarrow> \<not> page_free s i" by (simp add: pmm_alloc_None)
  with None show ?thesis by simp
next
  case (Some r)
  obtain a s' where r: "r = (a, s')" by (cases r)
  with Some have "pmm_alloc s = Some (a, s')" by simp
  then obtain i where "i < total_pages s" "page_free s i" "\<forall>k. k < i \<longrightarrow> \<not> page_free s k"
    "a = i * PAGE_SIZE" "s' = reserve_page i s" by (blast elim: pmm_alloc_Some)
  with Some r show ?thesis by (auto intro!: exI [of _ i])
qed

theorem pmm_alloc_first_fit_witness:
  "\<exists>s'. pmm_alloc \<lparr>bitmap = (\<lambda>_. 0x03), total_pages = 8, used_pages = 2\<rparr> = Some (0x2000, s') \<and>
     \<not> page_free s' 2 \<and> page_free s' 3 \<and> used_pages s' = 3"
proof -
  let ?s = "\<lparr>bitmap = (\<lambda>_. 0x03), total_pages = 8, used_pages = 2\<rparr> :: pmm"
  have r: "pmm_alloc ?s = Some (0x2000, reserve_page 2 ?s)"
    by (simp add: pmm_alloc_def pmm_alloc_from.simps bitmap_test_def)
  have "\<not> page_free (reserve_page 2 ?s) 2" by simp
  moreover have "page_free (reserve_page 2 ?s) 3" by (simp, simp add: bitmap_test_def)
  moreover have "used_pages (reserve_page 2 ?s) = 3"
    using pmm_alloc_first_fit [of ?s] unfolding r by auto
  ultimately show ?thesis using r by blast
qed

text \<open>C11: Whatever sequence of allocations and releases follows boot, a page that
  \<open>pmm_alloc\<close> returns is not currently handed out, is page aligned and not null, lies in RAM that
  the E820 map calls usable, and is never one of the pages \<open>pmm_init\<close> reserves: the null page, the
  boot sector, the range \<open>0x1000\<close>--\<open>0x1FFFF\<close>, the bitmap and the kernel heap. The kernel image at
  \<open>0x100000\<close> is not among them.\<close>

theorem pmm_alloc_safe_after_boot:
  assumes "pmm_reach mem es highest_ram s A" and "pmm_alloc s = Some (a, s')"
  shows "a \<notin> A \<and> a \<noteq> 0 \<and> a mod PAGE_SIZE = 0 \<and> a div PAGE_SIZE < highest_ram div PAGE_SIZE \<and>
    (\<exists>e\<in>set es. entry_usable e (a div PAGE_SIZE)) \<and> \<not> reserved_page highest_ram (a div PAGE_SIZE)"
proof -
  note inv = pmm_reach_inv [OF assms(1)]
  from assms(2) obtain i where i: "i < total_pages s" "page_free s i" "a = i * PAGE_SIZE"
    by (auto elim: pmm_alloc_Some)
  with inv have bp: "boot_page es highest_ram i" and "a \<notin> A" by auto
  with i boot_page_address [OF bp] show ?thesis by (auto simp: boot_page_def)
qed

theorem pmm_alloc_safe_after_boot_witness:
  "\<exists>a s'. pmm_alloc (pmm_init (\<lambda>_. 0) [\<lparr>e820_base = 0, e820_length = 0x4000000, e820_type = 1, e820_acpi = 1\<rparr>]
        0x4000000) = Some (a, s') \<and> a \<noteq> 0 \<and> \<not> reserved_page 0x4000000 (a div PAGE_SIZE)"
proof -
  let ?es = "[\<lparr>e820_base = 0, e820_length = 0x4000000, e820_type = 1, e820_acpi = 1\<rparr>]"
  let ?s = "pmm_init (\<lambda>_. 0) ?es 0x4000000"
  have "page_free ?s 32"
    by (subst pmm_init_page_free)
      (simp_all add: entry_usable_def in_region_def reserved_page_def bitmap_page_count_def)
  then have "pmm_alloc ?s \<noteq> None"
    by (auto simp: pmm_alloc_None pmm_init_counters intro!: exI [of _ 32])
  then obtain a s' where "pmm_alloc ?s = Some (a, s')" by auto
  with pmm_alloc_safe_after_boot [OF pmm_reach.boot this] show ?thesis by blast
qed

text \<open>Releasing the page just allocated restores the whole manager state, bitmap bytes and
  counters included.\<close>

theorem pmm_free_undoes_alloc:
  assumes "pmm_wf s" and "pmm_alloc s = Some (a, s')" and "a \<noteq> 0"
  shows "pmm_free s' a = s"
proof -
  from assms(2) obtain i where i: "i < total_pages s" "page_free s i" "a = i * PAGE_SIZE"
    "s' = reserve_page i s" by (auto elim: pmm_alloc_Some)
  have "bitmap_clear (bitmap_set (bitmap s) i) i = bitmap s"
  proof
    fix j
    have "(bitmap s (i div 8) OR push_bit (unat (i mod 8)) 1) AND NOT (push_bit (unat (i mod 8)) 1)
        = bitmap s (i div 8)"
      using i(2) by (intro bit_word_eqI) (auto simp: bitmap_test_bit bit_simps)
    then show "bitmap_clear (bitmap_set (bitmap s) i) i j = bitmap s j"
      by (simp add: bitmap_clear_def bitmap_set_def)
  qed
  moreover have "a div PAGE_SIZE = i"
    using page_address(2) pmm_wf_page [OF assms(1) i(1)] i(3) by simp
  ultimately show ?thesis
    using i(4) assms(3) by (simp add: pmm_free_def release_page_def reserve_page_def)
qed

theorem pmm_free_undoes_alloc_witness:
  "let s = \<lparr>bitmap = (\<lambda>_. 0x03), total_pages = 8, used_pages = 2\<rparr>
   in pmm_free (reserve_page 2 s) 0x2000 = s"
proof -
  let ?s = "\<lparr>bitmap = (\<lambda>_. 0x03), total_pages = 8, used_pages = 2\<rparr> :: pmm"
  have "pmm_alloc ?s = Some (0x2000, reserve_page 2 ?s)"
    by (simp add: pmm_alloc_def pmm_alloc_from.simps bitmap_test_def)
  moreover have "pmm_wf ?s" by (simp add: pmm_wf_def)
  ultimately have "pmm_free (reserve_page 2 ?s) 0x2000 = ?s"
    by (intro pmm_free_undoes_alloc) simp_all
  then show ?thesis unfolding Let_def .
qed

text \<open>The reserved pages by number, when the regions do not overlap.\<close>

lemma in_region_unat:
  assumes "unat first + unat n < 2 ^ 64"
  shows "in_region first n p \<longleftrightarrow> unat first \<le> unat p \<and> unat p < unat first + unat n"
proof (cases "unat first \<le> unat p")
  case True
  then have "unat (p - first) = unat p - unat first"
    by (simp add: unat_sub word_le_nat_alt)
  with True show ?thesis by (auto simp: in_region_def word_less_nat_alt)
next
  case False
  then have "unat (p - first) = 2 ^ 64 + unat p - unat first"
    using unat_u64_bound [of first] unat_u64_bound [of p]
    by (simp add: unat_sub_if_size word_size)
  with False assms show ?thesis by (auto simp: in_region_def word_less_nat_alt)
qed

lemma bitmap_page_count_bound:
  assumes "unat highest_ram \<le> 2 ^ 39"
  shows "unat (bitmap_page_count highest_ram) < 0x2000"
proof -
  let ?t = "highest_ram div 4096 div 8"
  have t: "unat ?t \<le> 2 ^ 24" using assms by (simp add: unat_div)
  then have "unat (?t + 1) = unat ?t + 1" by (simp add: unat_word_ariths)
  then have "unat ((?t + 1) div 4096) \<le> 4097" using t by (simp add: unat_div)
  then show ?thesis by (simp add: bitmap_page_count_def unat_word_ariths)
qed

lemma reserved_page_unat:
  assumes "unat highest_ram \<le> 2 ^ 39"
  shows "reserved_page highest_ram p \<longleftrightarrow>
    unat p \<in> {0..<32} \<union> {0x200..<0x200 + unat (bitmap_page_count highest_ram)} \<union> {0x2200..<0x3200}"
proof -
  note b = bitmap_page_count_bound [OF assms]
  have "in_region 0x200 (bitmap_page_count highest_ram) p \<longleftrightarrow>
      unat p \<in> {0x200..<0x200 + unat (bitmap_page_count highest_ram)}"
    by (subst in_region_unat) (use b in auto)
  moreover have "in_region 0x2200 0x1000 p \<longleftrightarrow> unat p \<in> {0x2200..<0x3200}"
    by (subst in_region_unat) auto
  moreover have "in_region 1 31 p \<longleftrightarrow> unat p \<in> {1..<32}"
    by (subst in_region_unat) auto
  moreover have "p = 0 \<longleftrightarrow> unat p = 0" and "p = 7 \<longleftrightarrow> unat p = 7"
    by (simp_all add: word_unat_eq_iff)
  ultimately show ?thesis
    by (simp only: reserved_page_def) auto
qed

lemma alloc_reaches_page:
  assumes "p < total_pages s" and "page_free s p"
  shows "\<exists>n ps s1 s2. n \<le> unat p \<and> alloc_n pmm_alloc n s = Some (ps, s1) \<and> pmm_alloc s1 = Some (p * PAGE_SIZE, s2)"
proof -
  have "\<exists>n ps s1 s2. n \<le> card {i. i < p \<and> page_free s i} \<and> alloc_n pmm_alloc n s = Some (ps, s1) \<and>
      pmm_alloc s1 = Some (p * PAGE_SIZE, s2)"
    using assms
  proof (induction "card {i. i < p \<and> page_free s i}" arbitrary: s rule: less_induct)
    case less
    then obtain a s' where a: "pmm_alloc s = Some (a, s')" using pmm_alloc_None [of s] by auto
    then obtain i where i: "page_free s i" "\<And>k. k < i \<Longrightarrow> \<not> page_free s k" "a = i * PAGE_SIZE" "s' = reserve_page i s"
      by (blast elim: pmm_alloc_Some)
    show ?case
    proof (cases "i = p")
      case True
      then show ?thesis using a i(3) by (intro exI [of _ 0]) auto
    next
      case False
      then have ip: "i < p" using i(2) [of p] less.prems(2) linorder_neq_iff [of i p] by blast
      have sub: "{k. k < p \<and> page_free s k} = insert i {k. k < p \<and> page_free s' k}" using i ip by auto
      then have c: "card {k. k < p \<and> page_free s k} = Suc (card {k. k < p \<and> page_free s' k})"
        using i(4) by (simp add: card_insert_if)
      have "page_free s' p" "p < total_pages s'" using less.prems i(4) False by simp_all
      with less.hyps [of s'] c obtain n ps s1 s2 where
        "n \<le> card {k. k < p \<and> page_free s' k}" "alloc_n pmm_alloc n s' = Some (ps, s1)" "pmm_alloc s1 = Some (p * PAGE_SIZE, s2)" by auto
      then show ?thesis using a c by (intro exI [of _ "Suc n"]) auto
    qed
  qed
  moreover have "card {i. i < p \<and> page_free s i} \<le> unat p"
  proof -
    have "card {i. i < p \<and> page_free s i} = card (unat ` {i. i < p \<and> page_free s i})"
      by (rule card_image [symmetric]) (simp add: inj_on_def word_unat_eq_iff)
    also have "\<dots> \<le> card {..<unat p}" by (rule card_mono) (auto simp: word_less_nat_alt)
    finally show ?thesis by simp
  qed
  ultimately show ?thesis by (meson le_trans)
qed

text \<open>C25: The kernel image is not protected. The kernel is linked and loaded at \<open>0x100000\<close>, and \<open>docs/memory_map.md\<close> lists
  \<open>0x100000\<close>--\<open>0x1FFFFF\<close> among the regions reserved at boot. \<open>pmm_init\<close> does not reserve them: every page of this
  range that the E820 map calls usable is free after boot, and fewer than 512 allocations after boot \<open>pmm_alloc\<close> hands it out
  (memory of at most 512GB).\<close>

theorem pmm_hands_out_kernel_image:
  assumes k: "0x100 \<le> p" "p < 0x200" and r: "p < highest_ram div PAGE_SIZE" "unat highest_ram \<le> 2 ^ 39"
    and u: "\<exists>e\<in>set es. entry_usable e p"
  shows "page_free (pmm_init mem es highest_ram) p \<and>
    (\<exists>n ps s s'. n < 512 \<and> alloc_n pmm_alloc n (pmm_init mem es highest_ram) = Some (ps, s) \<and> pmm_alloc s = Some (p * PAGE_SIZE, s'))"
proof -
  have "\<not> reserved_page highest_ram p" using k by (simp add: reserved_page_unat [OF r(2)] word_le_nat_alt word_less_nat_alt)
  then have f: "page_free (pmm_init mem es highest_ram) p" using u pmm_init_page_free [OF r(1)] by simp
  have n: "unat p < 512" using k(2) by (simp add: word_less_nat_alt)
  from alloc_reaches_page [OF _ f] r(1) n show ?thesis using f
    by (simp add: pmm_init_counters) (meson le_less_trans)
qed

theorem pmm_hands_out_kernel_image_witness:
  "\<exists>n ps s s'. alloc_n pmm_alloc n (pmm_init (\<lambda>_. 0)
      [\<lparr>e820_base = 0, e820_length = 0x9F000, e820_type = E820_USABLE, e820_acpi = 1\<rparr>,
       \<lparr>e820_base = 0x100000, e820_length = 0x3F00000, e820_type = E820_USABLE, e820_acpi = 1\<rparr>] 0x4000000) = Some (ps, s) \<and>
    n < 512 \<and> pmm_alloc s = Some (0x100000, s')"
proof -
  let ?es = "[\<lparr>e820_base = 0, e820_length = 0x9F000, e820_type = E820_USABLE, e820_acpi = 1\<rparr>,
    \<lparr>e820_base = 0x100000, e820_length = 0x3F00000, e820_type = E820_USABLE, e820_acpi = 1\<rparr>] :: e820_entry list"
  have "\<exists>e\<in>set ?es. entry_usable e 0x100" by (simp add: entry_usable_def in_region_def)
  from pmm_hands_out_kernel_image [OF _ _ _ _ this, of "0x4000000" "\<lambda>_. 0"] show ?thesis by simp blast
qed

text \<open>The boot accounting is off by one. On a machine whose whole memory is one usable region
  (between 50MB and 512GB), \<open>pmm_used_pages\<close> after \<open>pmm_init\<close> is one more than the number of
  used bits: the boot sector page \<open>0x7C00\<close> lies inside the kernel range \<open>0x1000\<close>--\<open>0x20000\<close> and
  is counted twice.\<close>

theorem pmm_init_counts_boot_page_twice:
  assumes "0x3200000 \<le> unat highest_ram" and "unat highest_ram \<le> 2 ^ 39"
    and "es = [\<lparr>e820_base = 0, e820_length = highest_ram, e820_type = E820_USABLE, e820_acpi = x\<rparr>]"
  shows "pmm_used_pages (pmm_init mem es highest_ram) =
    of_nat (card {p. p < highest_ram div PAGE_SIZE \<and> \<not> page_free (pmm_init mem es highest_ram) p}) + 1"
proof -
  let ?T = "highest_ram div PAGE_SIZE" and ?b = "unat (bitmap_page_count highest_ram)"
  let ?U = "{p. p < ?T \<and> \<not> page_free (pmm_init mem es highest_ram) p}"
  let ?N = "{0..<32} \<union> {0x200..<0x200 + ?b} \<union> {0x2200..<0x3200 :: nat}"
  note b = bitmap_page_count_bound [OF assms(2)]
  have T: "unat ?T = unat highest_ram div 4096" by (simp add: unat_div)
  have usable: "\<exists>e\<in>set es. entry_usable e p" if "p < ?T" for p
    using that by (simp add: assms(3) entry_usable_def in_region_def)
  have U: "?U = {p. p < ?T \<and> reserved_page highest_ram p}"
    using pmm_init_page_free usable by blast
  have img: "unat ` ?U = ?N"
  proof (intro set_eqI iffI)
    fix n assume "n \<in> unat ` ?U"
    then show "n \<in> ?N" using reserved_page_unat [OF assms(2)] by (auto simp: U)
  next
    fix n assume n: "n \<in> ?N"
    with b have "n < 2 ^ 64" and "n < unat ?T" using assms(1) T by auto
    then have "unat (of_nat n :: u64) = n" by (simp add: unat_of_nat)
    with n \<open>n < unat ?T\<close> have "of_nat n \<in> ?U"
      using reserved_page_unat [OF assms(2), of "of_nat n"] by (simp only: U) (auto simp: word_less_nat_alt)
    with \<open>unat (of_nat n :: u64) = n\<close> show "n \<in> unat ` ?U" by force
  qed
  have "inj_on unat ?U" by (rule inj_onI) (simp add: word_unat_eq_iff)
  then have "card ?U = card ?N"
    using card_image [of unat ?U] by (simp only: img)
  also have "card ?N = card {0..<32 :: nat} + card {0x200..<0x200 + ?b} + card {0x2200..<0x3200 :: nat}"
  proof -
    have "disjnt ({0..<32} \<union> {0x200..<0x200 + ?b}) {0x2200..<0x3200 :: nat}"
      and "disjnt {0..<32 :: nat} {0x200..<0x200 + ?b}"
      using b by (force simp: disjnt_iff)+
    then show ?thesis by (simp only: card_Un_disjnt finite_Un finite_atLeastLessThan simp_thms)
  qed
  also have "\<dots> = 32 + ?b + 0x1000" by simp
  finally have "of_nat (card ?U) = 32 + bitmap_page_count highest_ram + 0x1000"
    by simp
  moreover have "used_pages (pmm_init mem es highest_ram) = 1 + 1 + 31 + bitmap_page_count highest_ram + 0x1000"
    by (simp add: pmm_init_counters assms(3) entry_pages_def)
  ultimately show ?thesis by (simp add: pmm_used_pages_def)
qed

theorem pmm_init_counts_boot_page_twice_witness:
  "let es = [\<lparr>e820_base = 0, e820_length = 0x4000000, e820_type = E820_USABLE, e820_acpi = 1\<rparr>];
       s = pmm_init (\<lambda>_. 0) es 0x4000000
   in pmm_used_pages s = of_nat (card {p. p < 0x4000 \<and> \<not> page_free s p}) + 1"
  using pmm_init_counts_boot_page_twice
    [OF _ _ refl, where highest_ram = "0x4000000" and x = 1 and mem = "\<lambda>_. 0"]
  by (simp add: Let_def)

end
