(* ===== verification/Paging.thy ===== *)
theory Paging
  imports Pmm
begin

text \<open>
  Address translation, \<open>src/kernel/architecture/x86_64/paging.c\<close>: the direct map of physical
  memory.
\<close>

abbreviation PHYSICAL_MAP_BASE :: u64 where "PHYSICAL_MAP_BASE \<equiv> 0xFFFF800000000000"

definition physical_to_virtual :: "u64 \<Rightarrow> u64" where
  "physical_to_virtual physical = physical + PHYSICAL_MAP_BASE"

definition virtual_to_physical :: "u64 \<Rightarrow> u64" where
  "virtual_to_physical virt = virt - PHYSICAL_MAP_BASE"

lemma virtual_physical_inverse [simp]:
  "virtual_to_physical (physical_to_virtual p) = p" "physical_to_virtual (virtual_to_physical v) = v"
  by (simp_all add: virtual_to_physical_def physical_to_virtual_def)

end
