(* ===== verification/Shadowfs.thy ===== *)
theory Shadowfs
  imports Vfs Paging
begin

text \<open>
  shadowFS, \<open>src/file_system/shadowfs/shadowfs.c\<close>: the RAM file system. Directories are linked
  lists of entries, files linked lists of blocks whose data is a page of the physical memory
  manager. The state extends the VFS state with the page allocator, the contents of the pages
  (by page address and offset) and the value the real-time clock will report.
\<close>

record sst = vst +
  pages :: pmm
  page_mem :: "u64 \<Rightarrow> u32 \<Rightarrow> u8"
  rtc_now :: u64

abbreviation SHADOWFS_BLOCK_SIZE :: u32 where "SHADOWFS_BLOCK_SIZE \<equiv> 4096"
abbreviation SIZEOF_BLOCK :: u32 where "SIZEOF_BLOCK \<equiv> 24"
abbreviation SIZEOF_ENTRY :: u32 where "SIZEOF_ENTRY \<equiv> 80 + 64"

section \<open>Inodes and mounting\<close>

abbreviation zero_inode :: inode where
  "zero_inode \<equiv> \<lparr>inode_num = 0, i_type = 0, i_size = 0, permissions = 0, uid = 0, gid = 0, created = 0,
     modified = 0, accessed = 0, link_count = 0, i_ops = None, i_sb = None, i_private = 0\<rparr>"

definition shadowfs_create_inode :: "'a sst_scheme \<Rightarrow> nat option \<Rightarrow> u32 \<Rightarrow> (u64 \<times> 'a sst_scheme) option" where
  "shadowfs_create_inode w sb type =
     (case sb of
        None \<Rightarrow> None
      | Some i \<Rightarrow>
          let mount = sb_private (mount_table w ! i) in
          if mount = 0 then None
          else do {
            (inode, w1) \<leftarrow> new (OInode zero_inode) w;
            (priv, w2) \<leftarrow> new (OSInode \<lparr>si_head = 0, si_count = 0\<rparr>) w1;
            m \<leftarrow> smounts w2 mount;
            let w3 = put mount (OSMount (m\<lparr>next_inode_num := next_inode_num m + 1\<rparr>)) w2;
            let now = ucast (rtc_now w);
            let w4 = put inode (OInode (zero_inode
                       \<lparr>inode_num := next_inode_num m, i_type := type, i_size := 0, permissions := 0x1ED,
                        link_count := 1, created := now, modified := now, accessed := now,
                        i_ops := Some SHADOWFS, i_sb := Some i, i_private := priv\<rparr>)) w3;
            if type = VFS_TYPE_FILE \<or> type = VFS_TYPE_DIR then Some (inode, w4) else None })"

definition shadowfs_mount :: "'a sst_scheme \<Rightarrow> string \<Rightarrow> u32 \<Rightarrow> (int \<times> 'a sst_scheme) option" where
  "shadowfs_mount w path q =
     (let free_bytes = ucast (pmm_free_pages (pages w) * PAGE_SIZE) :: u32 in
      if q > free_bytes div 2 then Some (- 1, w)
      else do {
        (mount, w1) \<leftarrow> new (OSMount \<lparr>quota = q, m_used = 0, next_inode_num = 1, root_inode = 0\<rparr>) w;
        if mount = 0 then Some (- 1, w1)
        else let (res, w2) = vfs_mount w1 path SHADOWFS mount in
          if res < 0 then do { w3 \<leftarrow> release_as smounts mount w2; Some (- 1, w3) }
          else case vfs_find_mount w2 path of
              None \<Rightarrow> do { w3 \<leftarrow> release_as smounts mount w2; Some (- 1, w3) }
            | Some sb \<Rightarrow>
                do { (root, w3) \<leftarrow> shadowfs_create_inode w2 (Some sb) VFS_TYPE_DIR;
                     if root = 0 then do { w4 \<leftarrow> release_as smounts mount w3; Some (- 1, w4) }
                     else do {
                       m \<leftarrow> smounts w3 mount;
                       let w4 = w3\<lparr>mount_table := (mount_table w3)[sb := (mount_table w3 ! sb)\<lparr>sb_root := root\<rparr>]\<rparr>;
                       Some (0, put mount (OSMount (m\<lparr>root_inode := root\<rparr>)) w4) } } })"

section \<open>Directory entries\<close>

partial_function (option) lookup_walk :: "(u64 \<Rightarrow> shadowfs_dentry option) \<Rightarrow> u64 \<Rightarrow> string \<Rightarrow> u64 option" where
  "lookup_walk ents entry name =
     (if entry = 0 then Some 0
      else do { d \<leftarrow> ents entry;
                if e_name d = name then Some (e_inode d) else lookup_walk ents (e_next d) name })"

definition shadowfs_lookup :: "'a sst_scheme \<Rightarrow> u64 \<Rightarrow> string \<Rightarrow> (u64 \<times> 'a sst_scheme) option" where
  "shadowfs_lookup w dir name =
     (if dir = 0 then Some (0, w)
      else do {
        ino \<leftarrow> inodes w dir;
        if i_private ino = 0 then Some (0, w)
        else do { priv \<leftarrow> sinodes w (i_private ino);
                  r \<leftarrow> lookup_walk (sdents w) (si_head priv) name;
                  Some (r, w) } })"

text \<open>The existence test of \<open>shadowfs_create\<close> and its walk to the last entry.\<close>

partial_function (option) exists_walk :: "(u64 \<Rightarrow> shadowfs_dentry option) \<Rightarrow> u64 \<Rightarrow> string \<Rightarrow> bool option" where
  "exists_walk ents entry name =
     (if entry = 0 then Some False
      else do { d \<leftarrow> ents entry;
                if e_name d = name then Some True else exists_walk ents (e_next d) name })"

partial_function (option) last_walk :: "(u64 \<Rightarrow> shadowfs_dentry option) \<Rightarrow> u64 \<Rightarrow> u64 option" where
  "last_walk ents entry =
     do { d \<leftarrow> ents entry;
          if e_next d = 0 then Some entry else last_walk ents (e_next d) }"

definition link_entry :: "'a sst_scheme \<Rightarrow> u64 \<Rightarrow> u64 \<Rightarrow> 'a sst_scheme option" where
  "link_entry w dir_priv dentry =
     do { priv \<leftarrow> sinodes w dir_priv;
          if si_head priv = 0
          then Some (put dir_priv (OSInode (priv\<lparr>si_head := dentry, si_count := si_count priv + 1\<rparr>)) w)
          else do { l \<leftarrow> last_walk (sdents w) (si_head priv);
                    d \<leftarrow> sdents w l;
                    Some (put dir_priv (OSInode (priv\<lparr>si_count := si_count priv + 1\<rparr>))
                           (put l (ODentry (d\<lparr>e_next := dentry\<rparr>)) w)) } }"

definition mount_of :: "'a sst_scheme \<Rightarrow> inode \<Rightarrow> u64 option" where
  "mount_of w ino = (case i_sb ino of None \<Rightarrow> None | Some i \<Rightarrow> Some (sb_private (mount_table w ! i)))"

definition shadowfs_create :: "'a sst_scheme \<Rightarrow> u64 \<Rightarrow> string \<Rightarrow> u32 \<Rightarrow> (u64 \<times> 'a sst_scheme) option" where
  "shadowfs_create w dir name type =
     do { ino \<leftarrow> inodes w dir;
          mount \<leftarrow> mount_of w ino;
          m \<leftarrow> smounts w mount;
          if m_used m \<ge> quota m then Some (0, w)
          else if i_private ino = 0 then Some (0, w)
          else do {
            priv \<leftarrow> sinodes w (i_private ino);
            found \<leftarrow> exists_walk (sdents w) (si_head priv) name;
            if found then Some (0, w)
            else do {
              (inode, w1) \<leftarrow> shadowfs_create_inode w (i_sb ino) type;
              if inode = 0 then Some (0, w1)
              else do {
                (dentry, w2) \<leftarrow> new (ODentry \<lparr>e_name = take (VFS_MAX_NAME - 1) name, e_inode = inode, e_next = 0\<rparr>) w1;
                if dentry = 0
                then do { i \<leftarrow> inodes w2 inode; w3 \<leftarrow> release_as sinodes (i_private i) w2; w4 \<leftarrow> release_as inodes inode w3; Some (0, w4) }
                else do {
                  w3 \<leftarrow> link_entry w2 (i_private ino) dentry;
                  m3 \<leftarrow> smounts w3 mount;
                  Some (inode, put mount (OSMount (m3\<lparr>m_used := m_used m3 + SIZEOF_ENTRY\<rparr>)) w3) } } } } }"

definition shadowfs_mkdir :: "'a sst_scheme \<Rightarrow> u64 \<Rightarrow> string \<Rightarrow> (int \<times> 'a sst_scheme) option" where
  "shadowfs_mkdir w dir name =
     (if dir = 0 then Some (- 1, w)
      else do { (new_dir, w1) \<leftarrow> shadowfs_create w dir name VFS_TYPE_DIR;
                Some (if new_dir = 0 then - 1 else 0, w1) })"

section \<open>Deletion\<close>

text \<open>The loop of \<open>shadowfs_delete\<close> that releases the blocks of a file.\<close>

definition free_block :: "u64 \<Rightarrow> 'a sst_scheme \<Rightarrow> (u64 \<times> 'a sst_scheme) option" where
  "free_block block w =
     do { b \<leftarrow> sblocks w block;
          w' \<leftarrow> release_as sblocks block (w\<lparr>pages := pmm_free (pages w) (virtual_to_physical (b_data b))\<rparr>);
          Some (b_next b, w') }"

partial_function (option) free_blocks :: "u64 \<Rightarrow> 'a sst_scheme \<Rightarrow> 'a sst_scheme option" where
  "free_blocks block w =
     (if block = 0 then Some w
      else do { (nxt, w') \<leftarrow> free_block block w; free_blocks nxt w' })"

text \<open>What happens once the entry is found: unlink it, release the blocks of a file, the private
  data, the inode and the entry, and refund the entry (not the blocks).\<close>

definition unlink_entry :: "'a sst_scheme \<Rightarrow> u64 \<Rightarrow> u64 \<Rightarrow> shadowfs_dentry \<Rightarrow> 'a sst_scheme option" where
  "unlink_entry w dir_priv previous d =
     do { w1 \<leftarrow> (if previous \<noteq> 0
                then do { p \<leftarrow> sdents w previous; Some (put previous (ODentry (p\<lparr>e_next := e_next d\<rparr>)) w) }
                else do { priv \<leftarrow> sinodes w dir_priv; Some (put dir_priv (OSInode (priv\<lparr>si_head := e_next d\<rparr>)) w) });
          priv \<leftarrow> sinodes w1 dir_priv;
          Some (put dir_priv (OSInode (priv\<lparr>si_count := si_count priv - 1\<rparr>)) w1) }"

definition delete_entry :: "'a sst_scheme \<Rightarrow> u64 \<Rightarrow> u64 \<Rightarrow> u64 \<Rightarrow> u64 \<Rightarrow> 'a sst_scheme option" where
  "delete_entry w dir_priv mount previous entry =
     do { d \<leftarrow> sdents w entry;
          w1 \<leftarrow> unlink_entry w dir_priv previous d;
          i \<leftarrow> inodes w1 (e_inode d);
          w2 \<leftarrow> (if i_type i = VFS_TYPE_FILE
                then do { p \<leftarrow> sinodes w1 (i_private i); free_blocks (si_head p) w1 }
                else Some w1);
          w3 \<leftarrow> release_as sinodes (i_private i) w2;
          w4 \<leftarrow> release_as inodes (e_inode d) w3;
          m \<leftarrow> smounts w4 mount;
          release_as sdents entry (put mount (OSMount (m\<lparr>m_used := m_used m - SIZEOF_ENTRY\<rparr>)) w4) }"

text \<open>The search: the entry and its predecessor.\<close>

partial_function (option) delete_walk ::
  "(u64 \<Rightarrow> shadowfs_dentry option) \<Rightarrow> u64 \<Rightarrow> u64 \<Rightarrow> string \<Rightarrow> (u64 \<times> u64) option" where
  "delete_walk ents previous entry name =
     (if entry = 0 then Some (previous, 0)
      else do { d \<leftarrow> ents entry;
                if e_name d = name then Some (previous, entry) else delete_walk ents entry (e_next d) name })"

definition shadowfs_delete :: "'a sst_scheme \<Rightarrow> u64 \<Rightarrow> string \<Rightarrow> (int \<times> 'a sst_scheme) option" where
  "shadowfs_delete w dir name =
     (if dir = 0 then Some (- 1, w)
      else do {
        ino \<leftarrow> inodes w dir;
        if i_private ino = 0 then Some (- 1, w)
        else do {
          mount \<leftarrow> mount_of w ino;
          if mount = 0 then Some (- 1, w)
          else do {
            priv \<leftarrow> sinodes w (i_private ino);
            (previous, entry) \<leftarrow> delete_walk (sdents w) 0 (si_head priv) name;
            if entry = 0 then Some (- 1, w)
            else do { w' \<leftarrow> delete_entry w (i_private ino) mount previous entry; Some (0, w') } } } })"

section \<open>Opening and closing\<close>

definition shadowfs_open :: "'a sst_scheme \<Rightarrow> u64 \<Rightarrow> u64 \<Rightarrow> (int \<times> 'a sst_scheme) option" where
  "shadowfs_open w inode f = Some (0, w)"

definition shadowfs_close :: "'a sst_scheme \<Rightarrow> u64 \<Rightarrow> u64 \<Rightarrow> (int \<times> 'a sst_scheme) option" where
  "shadowfs_close w inode f = Some (0, w)"

section \<open>Reading\<close>

partial_function (option) read_walk ::
  "'a sst_scheme \<Rightarrow> u64 \<Rightarrow> u32 \<Rightarrow> u32 \<Rightarrow> u32 \<Rightarrow> u8 list \<Rightarrow> u8 list option" where
  "read_walk w block block_start offset remaining dst =
     (if block \<noteq> 0 \<and> remaining > 0
      then do {
        b \<leftarrow> sblocks w block;
        let block_end = block_start + b_used b;
        if offset < block_end
        then let block_offset = offset - block_start;
                 available = b_used b - block_offset;
                 to_read = (if remaining < available then remaining else available);
                 bytes = map (\<lambda>i. page_mem w (b_data b) (block_offset + of_nat i)) [0..<unat to_read]
             in read_walk w (b_next b) (block_start + b_used b) (offset + to_read) (remaining - to_read) (dst @ bytes)
        else read_walk w (b_next b) (block_start + b_used b) offset remaining dst }
      else Some dst)"

definition shadowfs_read :: "'a sst_scheme \<Rightarrow> u64 \<Rightarrow> bool \<Rightarrow> u32 \<Rightarrow> (int \<times> u8 list \<times> 'a sst_scheme) option" where
  "shadowfs_read w f buffer nbytes =
     (if f = 0 \<or> \<not> buffer then Some (- 1, [], w)
      else do {
        fl \<leftarrow> files w f;
        if f_inode fl = 0 then Some (- 1, [], w)
        else do {
          ino \<leftarrow> inodes w (f_inode fl);
          if i_private ino = 0 then Some (- 1, [], w)
          else do {
            priv \<leftarrow> sinodes w (i_private ino);
            if nbytes = 0 then Some (0, [], w)
            else let remaining = (if f_position fl + nbytes > i_size ino then i_size ino - f_position fl else nbytes) in
              if remaining = 0 then Some (0, [], w)
              else do {
                bytes \<leftarrow> read_walk w (si_head priv) 0 (f_position fl) remaining [];
                let n = (of_nat (length bytes) :: u32);
                let w1 = put f (OFile (fl\<lparr>f_position := f_position fl + n\<rparr>)) w;
                let w2 = (if n > 0 then put (f_inode fl) (OInode (ino\<lparr>accessed := ucast (rtc_now w)\<rparr>)) w1 else w1);
                Some (sint n, bytes, w2) } } } })"

section \<open>Writing\<close>

partial_function (option) last_block :: "(u64 \<Rightarrow> shadowfs_block option) \<Rightarrow> u64 \<Rightarrow> u64 \<Rightarrow> u64 option" where
  "last_block blks l block =
     (if block = 0 then Some l else do { b \<leftarrow> blks block; last_block blks block (b_next b) })"

text \<open>A new block at the end of the chain when the last one is missing or full.\<close>

definition extend_chain :: "'a sst_scheme \<Rightarrow> u64 \<Rightarrow> u64 \<Rightarrow> u64 \<Rightarrow> (u64 \<times> 'a sst_scheme) option" where
  "extend_chain w priv mount l =
     do { (new_block, w1) \<leftarrow> new (OBlock \<lparr>b_data = 0, b_used = 0, b_next = 0\<rparr>) w;
          if new_block = 0 then None
          else do {
            (page, pm) \<leftarrow> pmm_alloc (pages w1);
            let w2 = put new_block (OBlock \<lparr>b_data = physical_to_virtual page, b_used = 0, b_next = 0\<rparr>) (w1\<lparr>pages := pm\<rparr>);
            p \<leftarrow> sinodes w2 priv;
            w3 \<leftarrow> (if si_head p = 0 then Some (put priv (OSInode (p\<lparr>si_head := new_block\<rparr>)) w2)
                  else do { b \<leftarrow> sblocks w2 l; Some (put l (OBlock (b\<lparr>b_next := new_block\<rparr>)) w2) });
            p3 \<leftarrow> sinodes w3 priv;
            m \<leftarrow> smounts w3 mount;
            Some (new_block,
                  put mount (OSMount (m\<lparr>m_used := m_used m + SIZEOF_BLOCK\<rparr>))
                    (put priv (OSInode (p3\<lparr>si_count := si_count p3 + 1\<rparr>)) w3)) } }"

definition needs_block :: "'a sst_scheme \<Rightarrow> u64 \<Rightarrow> bool option" where
  "needs_block w l = (if l = 0 then Some True else do { b \<leftarrow> sblocks w l; Some (b_used b = SHADOWFS_BLOCK_SIZE) })"

definition store_bytes :: "(u32 \<Rightarrow> u8) \<Rightarrow> u32 \<Rightarrow> u8 list \<Rightarrow> (u32 \<Rightarrow> u8)" where
  "store_bytes pg off bs = fold (\<lambda>i p. p(off + of_nat i := bs ! i)) [0..<length bs] pg"

text \<open>Fill the last block; reading past the end of the caller's buffer is undefined.\<close>

definition fill_block :: "'a sst_scheme \<Rightarrow> u64 \<Rightarrow> u8 list \<Rightarrow> u32 \<Rightarrow> (u32 \<times> 'a sst_scheme) option" where
  "fill_block w l src remaining =
     do { b \<leftarrow> sblocks w l;
          let space = SHADOWFS_BLOCK_SIZE - b_used b;
          let to_write = (if remaining < space then remaining else space);
          if unat to_write > length src then None
          else Some (to_write,
                 put l (OBlock (b\<lparr>b_used := b_used b + to_write\<rparr>))
                   (w\<lparr>page_mem := (page_mem w)(b_data b := store_bytes (page_mem w (b_data b)) (b_used b) (take (unat to_write) src))\<rparr>)) }"

partial_function (option) write_loop ::
  "'a sst_scheme \<Rightarrow> u64 \<Rightarrow> u64 \<Rightarrow> u64 \<Rightarrow> u8 list \<Rightarrow> u32 \<Rightarrow> u32 \<Rightarrow> (u32 \<times> 'a sst_scheme) option" where
  "write_loop w priv mount l src remaining written =
     (if remaining > 0
      then do {
        m \<leftarrow> smounts w mount;
        if m_used m \<ge> quota m then Some (written, w)
        else do {
          need \<leftarrow> needs_block w l;
          (l1, w1) \<leftarrow> (if need then extend_chain w priv mount l else Some (l, w));
          (to_write, w2) \<leftarrow> fill_block w1 l1 src remaining;
          write_loop w2 priv mount l1 (drop (unat to_write) src) (remaining - to_write) (written + to_write) } }
      else Some (written, w))"

definition shadowfs_write :: "'a sst_scheme \<Rightarrow> u64 \<Rightarrow> u8 list option \<Rightarrow> u32 \<Rightarrow> (int \<times> 'a sst_scheme) option" where
  "shadowfs_write w f buf nbytes =
     (case buf of
        None \<Rightarrow> None
      | Some src \<Rightarrow>
          do { fl \<leftarrow> files w f;
               ino \<leftarrow> inodes w (f_inode fl);
               priv \<leftarrow> sinodes w (i_private ino);
               mount \<leftarrow> mount_of w ino;
               if mount = 0 then None
               else if nbytes = 0 then Some (0, w)
               else do {
                 l \<leftarrow> last_block (sblocks w) 0 (si_head priv);
                 (written, w1) \<leftarrow> write_loop w (i_private ino) mount l src nbytes 0;
                 i1 \<leftarrow> inodes w1 (f_inode fl);
                 let i2 = i1\<lparr>i_size := i_size i1 + written\<rparr>;
                 let i3 = (if written > 0 then i2\<lparr>modified := ucast (rtc_now w)\<rparr> else i2);
                 f1 \<leftarrow> files w1 f;
                 Some (sint written,
                   put f (OFile (f1\<lparr>f_position := f_position f1 + written\<rparr>)) (put (f_inode fl) (OInode i3) w1)) } })"

section \<open>Listing a directory\<close>

partial_function (option) readdir_walk ::
  "(u64 \<Rightarrow> shadowfs_dentry option) \<Rightarrow> u64 \<Rightarrow> u32 \<Rightarrow> u32 \<Rightarrow> shadowfs_dentry option option" where
  "readdir_walk ents entry index position =
     (if entry = 0 then Some None
      else do { d \<leftarrow> ents entry;
                if index = position then Some (Some d) else readdir_walk ents (e_next d) (index + 1) position })"

definition shadowfs_readdir :: "'a sst_scheme \<Rightarrow> u64 \<Rightarrow> (int \<times> dentry option \<times> 'a sst_scheme) option" where
  "shadowfs_readdir w f =
     (if f = 0 then Some (- 1, None, w)
      else do {
        fl \<leftarrow> files w f;
        if f_inode fl = 0 then Some (- 1, None, w)
        else do {
          ino \<leftarrow> inodes w (f_inode fl);
          if i_private ino = 0 then Some (- 1, None, w)
          else do {
            priv \<leftarrow> sinodes w (i_private ino);
            r \<leftarrow> readdir_walk (sdents w) (si_head priv) 0 (f_position fl);
            case r of
              None \<Rightarrow> Some (0, None, w)
            | Some d \<Rightarrow>
                do { i \<leftarrow> inodes w (e_inode d);
                     Some (1, Some \<lparr>d_name = take (VFS_MAX_NAME - 1) (e_name d), d_inode = e_inode d, d_type = i_type i\<rparr>,
                           put f (OFile (fl\<lparr>f_position := f_position fl + 1\<rparr>)) w) } } } })"

section \<open>Truncation\<close>

text \<open>Release one block and refund it.\<close>

definition free_block_refund :: "u64 \<Rightarrow> u64 \<Rightarrow> 'a sst_scheme \<Rightarrow> (u64 \<times> 'a sst_scheme) option" where
  "free_block_refund mount block w =
     do { b \<leftarrow> sblocks w block;
          m \<leftarrow> smounts w mount;
          let w1 = put mount (OSMount (m\<lparr>m_used := m_used m - SIZEOF_BLOCK\<rparr>))
                     (w\<lparr>pages := pmm_free (pages w) (virtual_to_physical (b_data b))\<rparr>);
          w2 \<leftarrow> release_as sblocks block w1;
          Some (b_next b, w2) }"

partial_function (option) free_blocks_refund :: "u64 \<Rightarrow> u64 \<Rightarrow> 'a sst_scheme \<Rightarrow> 'a sst_scheme option" where
  "free_blocks_refund mount block w =
     (if block = 0 then Some w
      else do { (nxt, w') \<leftarrow> free_block_refund mount block w; free_blocks_refund mount nxt w' })"

partial_function (option) trim_walk ::
  "u64 \<Rightarrow> u64 \<Rightarrow> u64 \<Rightarrow> u64 \<Rightarrow> u32 \<Rightarrow> 'a sst_scheme \<Rightarrow> 'a sst_scheme option" where
  "trim_walk mount priv previous block bytes_remaining w =
     (if block = 0 then Some w
      else if bytes_remaining = 0
      then do { (nxt, w1) \<leftarrow> free_block_refund mount block w;
                p \<leftarrow> sinodes w1 priv;
                let w2 = put priv (OSInode (p\<lparr>si_count := si_count p - 1\<rparr>)) w1;
                w3 \<leftarrow> (if previous \<noteq> 0
                      then do { b \<leftarrow> sblocks w2 previous; Some (put previous (OBlock (b\<lparr>b_next := 0\<rparr>)) w2) }
                      else Some w2);
                trim_walk mount priv previous nxt bytes_remaining w3 }
      else do { b \<leftarrow> sblocks w block;
                if bytes_remaining < b_used b
                then trim_walk mount priv block (b_next b) 0 (put block (OBlock (b\<lparr>b_used := bytes_remaining\<rparr>)) w)
                else trim_walk mount priv block (b_next b) (bytes_remaining - b_used b) w })"

definition shadowfs_truncate :: "'a sst_scheme \<Rightarrow> u64 \<Rightarrow> u32 \<Rightarrow> (int \<times> 'a sst_scheme) option" where
  "shadowfs_truncate w inode nbytes =
     (if inode = 0 then Some (- 1, w)
      else do {
        ino \<leftarrow> inodes w inode;
        if i_private ino = 0 then Some (- 1, w)
        else do {
          mount \<leftarrow> mount_of w ino;
          if mount = 0 then Some (- 1, w)
          else if i_type ino \<noteq> VFS_TYPE_FILE then Some (- 1, w)
          else do {
            priv \<leftarrow> sinodes w (i_private ino);
            w1 \<leftarrow> (if nbytes = 0
                  then do { w1 \<leftarrow> free_blocks_refund mount (si_head priv) w;
                            p \<leftarrow> sinodes w1 (i_private ino);
                            Some (put (i_private ino) (OSInode (p\<lparr>si_head := 0, si_count := 0\<rparr>)) w1) }
                  else trim_walk mount (i_private ino) 0 (si_head priv) nbytes w);
            i \<leftarrow> inodes w1 inode;
            Some (0, put inode (OInode (i\<lparr>i_size := nbytes\<rparr>)) w1) } } })"

section \<open>The operations table\<close>

definition shadowfs_ops :: "'a sst_scheme fs_ops" where
  "shadowfs_ops =
     \<lparr>op_lookup = Some shadowfs_lookup, op_create = Some shadowfs_create, op_delete = Some shadowfs_delete,
      op_truncate = Some shadowfs_truncate, op_open = Some shadowfs_open, op_close = Some shadowfs_close,
      op_read = Some shadowfs_read, op_write = Some shadowfs_write, op_readdir = Some shadowfs_readdir,
      op_mkdir = Some shadowfs_mkdir\<rparr>"

section \<open>What the operations leave alone\<close>

definition fs_step :: "'a vst_scheme \<Rightarrow> 'a vst_scheme \<Rightarrow> bool" where
  "fs_step w w' \<longleftrightarrow> obj_inv w' \<and> vfs_frame w w'"

lemma fs_step_refl: "obj_inv w \<Longrightarrow> fs_step w w"
  by (simp add: fs_step_def)

lemma fs_step_trans: "fs_step w w' \<Longrightarrow> fs_step w' w'' \<Longrightarrow> fs_step w w''"
  by (auto simp: fs_step_def intro: vfs_frame_trans)

lemma fs_step_inv: "fs_step w w' \<Longrightarrow> obj_inv w'"
  by (simp add: fs_step_def)

fun is_file :: "obj \<Rightarrow> bool" where
  "is_file (OFile _) = True"
| "is_file _ = False"

lemma files_other: "objs w' = (objs w)(a := y) \<Longrightarrow> (\<forall>x. objs w a = Some x \<longrightarrow> \<not> is_file x) \<Longrightarrow>
    (\<forall>x. y = Some x \<longrightarrow> \<not> is_file x) \<Longrightarrow> files w' = files w"
  by (auto simp: files_def fun_eq_iff split: option.splits obj.splits)

lemma new_step:
  assumes "obj_inv w" and "new x w = Some (p, w')" and "\<not> is_file x"
  shows "fs_step w w' \<and> p \<noteq> 0"
proof -
  note n = new_inv [OF assms(1,2)]
  have "files w' = files w" using n assms(3) by (intro files_other) auto
  then show ?thesis using n new_tables [OF assms(2)] by (simp add: fs_step_def vfs_frame_def)
qed

lemma put_step:
  assumes "obj_inv w" and "objs w a = Some y" and "\<not> is_file x" and "sizeof x = sizeof y" and "\<not> is_file y"
  shows "fs_step w (put a x w)"
proof -
  have "files (put a x w) = files w" using assms by (intro files_other) auto
  then show ?thesis using put_inv [OF assms(1,2,4)] by (simp add: fs_step_def vfs_frame_def)
qed

lemma put_file_step:
  assumes "obj_inv w" and "files w f = Some fl" and "file_core fl' = file_core fl"
  shows "fs_step w (put f (OFile fl') w)"
proof -
  have "files (put f (OFile fl') w) = (files w)(f \<mapsto> fl')" by (rule files_objs) simp
  moreover have "obj_inv (put f (OFile fl') w)"
    using assms(1,2) by (intro put_inv [of w f "OFile fl"]) (auto simp: access_iff)
  ultimately show ?thesis using assms by (simp add: fs_step_def vfs_frame_def)
qed

lemma release_step:
  assumes "obj_inv w" and "release_as sel p w = Some w'" and "\<And>x. sel w p = Some x \<Longrightarrow> \<exists>y. objs w p = Some y \<and> \<not> is_file y"
  shows "fs_step w w'"
proof (cases "p = 0")
  case True
  then show ?thesis using assms by (simp add: release_as_def fs_step_def)
next
  case False
  then obtain x y where r: "release p w = Some w'" and "sel w p = Some x" and y: "objs w p = Some y" "\<not> is_file y"
    using assms(2,3) by (auto simp: release_as_def split: if_splits)
  have "files w' = files w" using release_inv [OF assms(1) r] False y by (intro files_other) auto
  then show ?thesis using release_inv [OF assms(1) r] release_tables [OF r] by (simp add: fs_step_def vfs_frame_def)
qed

text \<open>The instances for each object type.\<close>

lemma release_steps:
  "obj_inv w \<Longrightarrow> release_as inodes p w = Some w' \<Longrightarrow> fs_step w w'"
  "obj_inv w \<Longrightarrow> release_as sinodes p w = Some w' \<Longrightarrow> fs_step w w'"
  "obj_inv w \<Longrightarrow> release_as sdents p w = Some w' \<Longrightarrow> fs_step w w'"
  "obj_inv w \<Longrightarrow> release_as sblocks p w = Some w' \<Longrightarrow> fs_step w w'"
  "obj_inv w \<Longrightarrow> release_as smounts p w = Some w' \<Longrightarrow> fs_step w w'"
  by - (erule release_step, assumption, auto simp: access_iff)+

lemma put_steps:
  "obj_inv w \<Longrightarrow> inodes w a = Some i \<Longrightarrow> fs_step w (put a (OInode i') w)"
  "obj_inv w \<Longrightarrow> sinodes w a = Some s \<Longrightarrow> fs_step w (put a (OSInode s') w)"
  "obj_inv w \<Longrightarrow> sdents w a = Some d \<Longrightarrow> fs_step w (put a (ODentry d') w)"
  "obj_inv w \<Longrightarrow> sblocks w a = Some b \<Longrightarrow> fs_step w (put a (OBlock b') w)"
  "obj_inv w \<Longrightarrow> smounts w a = Some m \<Longrightarrow> fs_step w (put a (OSMount m') w)"
  using put_step [of w a "OInode i" "OInode i'"] put_step [of w a "OSInode s" "OSInode s'"]
    put_step [of w a "ODentry d" "ODentry d'"] put_step [of w a "OBlock b" "OBlock b'"]
    put_step [of w a "OSMount m" "OSMount m'"] by (simp_all add: access_iff)

lemma pages_step [simp]:
  "fs_step w (w\<lparr>pages := p\<rparr>) \<longleftrightarrow> obj_inv w" "fs_step w (w\<lparr>page_mem := q\<rparr>) \<longleftrightarrow> obj_inv w"
  by (simp_all add: fs_step_def vfs_frame_def obj_inv_def files_def)

lemma create_inode_step:
  assumes "obj_inv w" and op: "shadowfs_create_inode w sb type = Some (a, w')"
  shows "fs_step w w' \<and> a \<noteq> 0"
proof -
  obtain i mount p w1 w2 m w3 n where sb: "sb = Some i" and
    n1: "new (OInode zero_inode) w = Some (a, w1)" and
    n2: "new (OSInode \<lparr>si_head = 0, si_count = 0\<rparr>) w1 = Some (p, w2)" and
    m: "smounts w2 mount = Some m" and
    w3: "w3 = put mount (OSMount (m\<lparr>next_inode_num := next_inode_num m + 1\<rparr>)) w2" and
    w': "w' = put a (OInode n) w3"
    using op by (auto simp: shadowfs_create_inode_def Let_def split: option.splits if_splits bind_splits)
  have s1: "fs_step w w1" "a \<noteq> 0" using new_step [OF assms(1) n1] by simp_all
  note i1 = new_inv [OF assms(1) n1]
  have s2: "fs_step w1 w2" and i2: "objs w2 = (objs w1)(p \<mapsto> OSInode \<lparr>si_head = 0, si_count = 0\<rparr>)" "objs w1 p = None"
    using new_step [OF _ n2] new_inv [OF _ n2] i1 by simp_all
  have s3: "fs_step w2 w3" unfolding w3 using fs_step_inv [OF s2] m by (rule put_steps)
  have "inodes w2 a = Some zero_inode" using i1 i2 by (auto simp: access_iff)
  moreover from this have "a \<noteq> mount" using m by (auto simp: access_iff)
  ultimately have "inodes w3 a = Some zero_inode" by (simp add: w3 access_iff)
  with fs_step_inv [OF s3] have "fs_step w3 w'" unfolding w' by (rule put_steps)
  with s1 s2 s3 show ?thesis by (meson fs_step_trans)
qed

lemma link_entry_step:
  assumes "obj_inv w" and op: "link_entry w priv d = Some w'"
  shows "fs_step w w'"
proof -
  obtain p where p: "sinodes w priv = Some p" using op by (auto simp: link_entry_def split: bind_splits)
  show ?thesis
  proof (cases "si_head p = 0")
    case True
    then show ?thesis using op p put_steps(2) [OF assms(1) p] by (auto simp: link_entry_def)
  next
    case False
    then obtain l e where e: "sdents w l = Some e" and
      w': "w' = put priv (OSInode (p\<lparr>si_count := si_count p + 1\<rparr>)) (put l (ODentry (e\<lparr>e_next := d\<rparr>)) w)"
      using op p by (auto simp: link_entry_def split: bind_splits)
    have s1: "fs_step w (put l (ODentry (e\<lparr>e_next := d\<rparr>)) w)" using assms(1) e by (rule put_steps)
    have "priv \<noteq> l" using p e by (auto simp: access_iff)
    then have "sinodes (put l (ODentry (e\<lparr>e_next := d\<rparr>)) w) priv = Some p" using p by (simp add: access_iff)
    from put_steps(2) [OF fs_step_inv [OF s1] this] s1 show ?thesis unfolding w' by (meson fs_step_trans)
  qed
qed

lemma create_step:
  assumes "obj_inv w" and op: "shadowfs_create w dir name type = Some (a, w')"
  shows "fs_step w w'"
proof -
  obtain ino mount m where h: "inodes w dir = Some ino" "mount_of w ino = Some mount" "smounts w mount = Some m"
    using op by (auto simp: shadowfs_create_def split: bind_splits)
  show ?thesis
  proof (cases "m_used m \<ge> quota m \<or> i_private ino = 0 \<or> w' = w")
    case True
    then show ?thesis using op h fs_step_refl [OF assms(1)] by (auto simp: shadowfs_create_def split: if_splits)
  next
    case False
    then obtain priv b w1 where c: "shadowfs_create_inode w (i_sb ino) type = Some (b, w1)"
      using op h by (auto simp: shadowfs_create_def split: bind_splits if_splits)
    note s1 = create_inode_step [OF assms(1) c]
    from False op h c s1 obtain de w2 where
      n: "new (ODentry \<lparr>e_name = take (VFS_MAX_NAME - 1) name, e_inode = b, e_next = 0\<rparr>) w1 = Some (de, w2)"
      by (auto simp: shadowfs_create_def split: bind_splits if_splits)
    have s2: "fs_step w1 w2 \<and> de \<noteq> 0" using new_step [OF _ n] s1 fs_step_inv by auto
    from False op h c s1 n s2 obtain w3 m3 where l: "link_entry w2 (i_private ino) de = Some w3" and
      m3: "smounts w3 mount = Some m3" and w': "w' = put mount (OSMount (m3\<lparr>m_used := m_used m3 + SIZEOF_ENTRY\<rparr>)) w3"
      by (auto simp: shadowfs_create_def split: bind_splits if_splits)
    have s3: "fs_step w2 w3" using link_entry_step [OF _ l] s2 fs_step_inv by blast
    have "fs_step w3 w'" unfolding w' using fs_step_inv [OF s3] m3 by (rule put_steps)
    with s1 s2 s3 show ?thesis by (meson fs_step_trans)
  qed
qed

lemma mkdir_step: "obj_inv w \<Longrightarrow> shadowfs_mkdir w dir name = Some (r, w') \<Longrightarrow> fs_step w w'"
  using create_step by (fastforce simp: shadowfs_mkdir_def fs_step_refl split: if_splits bind_splits)

lemma lookup_step: "obj_inv w \<Longrightarrow> shadowfs_lookup w dir name = Some (r, w') \<Longrightarrow> fs_step w w'"
  by (auto simp: shadowfs_lookup_def fs_step_refl split: if_splits bind_splits)

lemma free_block_step: "obj_inv w \<Longrightarrow> free_block b w = Some (n, w') \<Longrightarrow> fs_step w w'"
proof -
  assume inv: "obj_inv w" and op: "free_block b w = Some (n, w')"
  obtain bl :: shadowfs_block where r: "release_as sblocks b (w\<lparr>pages := pmm_free (pages w) (virtual_to_physical (b_data bl))\<rparr>) = Some w'"
    using op by (auto simp: free_block_def split: bind_splits)
  have s: "fs_step w (w\<lparr>pages := pmm_free (pages w) (virtual_to_physical (b_data bl))\<rparr>)" using inv by simp
  from release_steps(4) [OF fs_step_inv [OF this] r] s show ?thesis by (rule fs_step_trans [rotated])
qed

lemma free_blocks_step:
  assumes "free_blocks b w = Some w'" and "obj_inv w"
  shows "fs_step w w'"
  using assms
proof (induction rule: free_blocks.raw_induct [rotated, consumes 1, case_names step])
  case (step rec b w w')
  show ?case
  proof (cases "b = 0")
    case True
    then show ?thesis using step by (simp add: fs_step_refl)
  next
    case False
    then obtain n w1 where f: "free_block b w = Some (n, w1)" and r: "rec n w1 = Some w'"
      using step(2) by (auto split: bind_splits)
    note s = free_block_step [OF step(3) f]
    from step(1) [OF r fs_step_inv [OF s]] s show ?thesis by (rule fs_step_trans [rotated])
  qed
qed

lemma unlink_entry_step:
  assumes "obj_inv w" and op: "unlink_entry w priv prev d = Some w'"
  shows "fs_step w w'"
proof -
  from op obtain w1 and p :: shadowfs_inode where
    w1: "(if prev \<noteq> 0
          then do { p \<leftarrow> sdents w prev; Some (put prev (ODentry (p\<lparr>e_next := e_next d\<rparr>)) w) }
          else do { priv' \<leftarrow> sinodes w priv; Some (put priv (OSInode (priv'\<lparr>si_head := e_next d\<rparr>)) w) }) = Some w1"
    and p: "sinodes w1 priv = Some p" and w': "w' = put priv (OSInode (p\<lparr>si_count := si_count p - 1\<rparr>)) w1"
    unfolding unlink_entry_def Option.bind_eq_Some_conv by blast
  have s1: "fs_step w w1"
    using w1 put_steps(2,3) [OF assms(1)] by (auto split: if_splits bind_splits)
  from put_steps(2) [OF fs_step_inv [OF s1] p] s1 show ?thesis unfolding w' by (rule fs_step_trans [rotated])
qed

lemma delete_entry_step:
  assumes "obj_inv w" and op: "delete_entry w priv mount prev entry = Some w'"
  shows "fs_step w w'"
proof -
  from op obtain d :: shadowfs_dentry and w1 and i :: inode and w2 w3 w4 and m :: shadowfs_mount where
    u: "unlink_entry w priv prev d = Some w1" and
    w2: "(if i_type i = VFS_TYPE_FILE
          then do { p \<leftarrow> sinodes w1 (i_private i); free_blocks (si_head p) w1 } else Some w1) = Some w2"
    and w3: "release_as sinodes (i_private i) w2 = Some w3"
    and w4: "release_as inodes (e_inode d) w3 = Some w4"
    and m: "smounts w4 mount = Some m"
    and w': "release_as sdents entry (put mount (OSMount (m\<lparr>m_used := m_used m - SIZEOF_ENTRY\<rparr>)) w4) = Some w'"
    unfolding delete_entry_def Option.bind_eq_Some_conv by blast
  have s1: "fs_step w w1" using unlink_entry_step [OF assms(1) u] .
  have s2: "fs_step w1 w2"
    using w2 free_blocks_step fs_step_inv [OF s1] by (auto simp: fs_step_refl split: if_splits bind_splits)
  have s3: "fs_step w2 w3" using release_steps(2) [OF fs_step_inv [OF s2] w3] .
  have s4: "fs_step w3 w4" using release_steps(1) [OF fs_step_inv [OF s3] w4] .
  have s5: "fs_step w4 (put mount (OSMount (m\<lparr>m_used := m_used m - SIZEOF_ENTRY\<rparr>)) w4)"
    using fs_step_inv [OF s4] m by (rule put_steps)
  have s6: "fs_step (put mount (OSMount (m\<lparr>m_used := m_used m - SIZEOF_ENTRY\<rparr>)) w4) w'"
    using release_steps(3) [OF fs_step_inv [OF s5] w'] .
  from s1 s2 s3 s4 s5 s6 show ?thesis by (meson fs_step_trans)
qed

lemma delete_step: "obj_inv w \<Longrightarrow> shadowfs_delete w dir name = Some (r, w') \<Longrightarrow> fs_step w w'"
  using delete_entry_step
  by (fastforce simp: shadowfs_delete_def fs_step_refl split: if_splits bind_splits)

lemma read_step:
  assumes "obj_inv w" and op: "shadowfs_read w f b n = Some (r, bs, w')"
  shows "fs_step w w'"
proof (cases "w' = w")
  case True
  then show ?thesis using assms(1) by (simp add: fs_step_refl)
next
  case False
  then obtain fl :: file_t and ino :: inode where fl: "files w f = Some fl" and ino: "inodes w (f_inode fl) = Some ino"
    using op by (auto simp: shadowfs_read_def split: if_splits bind_splits)
  define k where "k = (of_nat (length bs) :: u32)"
  have w': "w' = (let w1 = put f (OFile (fl\<lparr>f_position := f_position fl + k\<rparr>)) w in
      if k > 0 then put (f_inode fl) (OInode (ino\<lparr>accessed := ucast (rtc_now w)\<rparr>)) w1 else w1)"
    using op False fl ino by (auto simp: shadowfs_read_def Let_def k_def split: if_splits bind_splits)
  let ?w1 = "put f (OFile (fl\<lparr>f_position := f_position fl + k\<rparr>)) w"
  have s1: "fs_step w ?w1" using assms(1) fl by (rule put_file_step) (simp add: file_core_def)
  have "f \<noteq> f_inode fl" using fl ino by (auto simp: access_iff)
  then have "inodes ?w1 (f_inode fl) = Some ino" using ino by (simp add: access_iff)
  from put_steps(1) [OF fs_step_inv [OF s1] this] s1 show ?thesis
    unfolding w' by (auto simp: Let_def intro: fs_step_trans)
qed

lemma readdir_step: "obj_inv w \<Longrightarrow> shadowfs_readdir w f = Some (r, de, w') \<Longrightarrow> fs_step w w'"
  by (auto simp: shadowfs_readdir_def fs_step_refl file_core_def split: if_splits bind_splits option.splits
      intro!: put_file_step)

lemma extend_chain_step:
  assumes "obj_inv w" and op: "extend_chain w priv mount l = Some (nb, w')"
  shows "fs_step w w'"
proof -
  let ?z = "\<lparr>b_data = 0, b_used = 0, b_next = 0\<rparr> :: shadowfs_block"
  from op obtain w1 where n: "new (OBlock ?z) w = Some (nb, w1)"
    by (auto simp: extend_chain_def Let_def split: bind_splits if_splits)
  have s1: "fs_step w w1" "nb \<noteq> 0" using new_step [OF assms(1) n] by simp_all
  from op n s1(2) obtain pg pm where al: "pmm_alloc (pages w1) = Some (pg, pm)"
    by (auto simp: extend_chain_def split: bind_splits)
  let ?w1 = "w1\<lparr>pages := pm\<rparr>"
  let ?w2 = "put nb (OBlock \<lparr>b_data = physical_to_virtual pg, b_used = 0, b_next = 0\<rparr>) ?w1"
  have "do { p \<leftarrow> sinodes ?w2 priv;
            w3 \<leftarrow> (if si_head p = 0 then Some (put priv (OSInode (p\<lparr>si_head := nb\<rparr>)) ?w2)
                  else do { b \<leftarrow> sblocks ?w2 l; Some (put l (OBlock (b\<lparr>b_next := nb\<rparr>)) ?w2) });
            p3 \<leftarrow> sinodes w3 priv;
            m \<leftarrow> smounts w3 mount;
            Some (nb, put mount (OSMount (m\<lparr>m_used := m_used m + SIZEOF_BLOCK\<rparr>))
                    (put priv (OSInode (p3\<lparr>si_count := si_count p3 + 1\<rparr>)) w3)) } = Some (nb, w')"
    using op n s1(2) al by (simp add: extend_chain_def Let_def)
  then obtain p :: shadowfs_inode and w3 and p3 :: shadowfs_inode and m :: shadowfs_mount where
    w3: "(if si_head p = 0 then Some (put priv (OSInode (p\<lparr>si_head := nb\<rparr>)) ?w2)
          else do { b \<leftarrow> sblocks ?w2 l; Some (put l (OBlock (b\<lparr>b_next := nb\<rparr>)) ?w2) }) = Some w3"
    and p: "sinodes ?w2 priv = Some p"
    and p3: "sinodes w3 priv = Some p3" and m: "smounts w3 mount = Some m"
    and w': "w' = put mount (OSMount (m\<lparr>m_used := m_used m + SIZEOF_BLOCK\<rparr>))
                    (put priv (OSInode (p3\<lparr>si_count := si_count p3 + 1\<rparr>)) w3)"
    unfolding Option.bind_eq_Some_conv option.inject prod.inject by blast
  have s1': "fs_step w1 ?w1" using fs_step_inv [OF s1(1)] by simp
  have "sblocks ?w1 nb = Some ?z" using new_inv [OF assms(1) n] by (simp add: access_iff)
  with fs_step_inv [OF s1'] have s2: "fs_step ?w1 ?w2" by (rule put_steps)
  have s3: "fs_step ?w2 w3"
    using w3 put_steps(2) [OF fs_step_inv [OF s2] p] put_steps(4) [OF fs_step_inv [OF s2]]
    by (auto split: if_splits bind_splits)
  let ?w4 = "put priv (OSInode (p3\<lparr>si_count := si_count p3 + 1\<rparr>)) w3"
  have s4: "fs_step w3 ?w4" using fs_step_inv [OF s3] p3 by (rule put_steps)
  have "priv \<noteq> mount" using p3 m by (auto simp: access_iff)
  then have "smounts ?w4 mount = Some m" using m by (simp add: access_iff)
  with fs_step_inv [OF s4] have "fs_step ?w4 w'" unfolding w' by (rule put_steps)
  with s1 s1' s2 s3 s4 show ?thesis by (meson fs_step_trans)
qed

lemma fill_block_step:
  assumes "obj_inv w" and op: "fill_block w l src n = Some (k, w')"
  shows "fs_step w w'"
proof -
  from op obtain b :: shadowfs_block and b' q where b: "sblocks w l = Some b"
    and w': "w' = put l (OBlock b') (w\<lparr>page_mem := q\<rparr>)"
    by (auto simp: fill_block_def Let_def split: bind_splits if_splits)
  have s: "fs_step w (w\<lparr>page_mem := q\<rparr>)" using assms(1) by simp
  have "sblocks (w\<lparr>page_mem := q\<rparr>) l = Some b" using b by (simp add: access_iff)
  from put_steps(4) [OF fs_step_inv [OF s] this] s show ?thesis unfolding w' by (rule fs_step_trans [rotated])
qed

lemma write_loop_step:
  assumes "write_loop w priv mount l src remaining written = Some res" and "obj_inv w"
  shows "fs_step w (snd res)"
  using assms
proof (induction rule: write_loop.raw_induct [rotated, consumes 1, case_names step])
  case (step rec w priv mount l src remaining written res)
  show ?case
  proof (cases "remaining > 0")
    case False
    then show ?thesis using step by (auto simp: fs_step_refl)
  next
    case True
    then obtain m :: shadowfs_mount where m: "smounts w mount = Some m" using step(2) by (auto split: bind_splits)
    show ?thesis
    proof (cases "m_used m \<ge> quota m")
      case True
      then show ?thesis using step \<open>remaining > 0\<close> m by (auto simp: fs_step_refl)
    next
      case False
      with step(2) True m obtain need l1 w1 k w2 where
        e: "(if need then extend_chain w priv mount l else Some (l, w)) = Some (l1, w1)" and
        f: "fill_block w1 l1 src remaining = Some (k, w2)" and
        r: "rec w2 priv mount l1 (drop (unat k) src) (remaining - k) (written + k) = Some res"
        by (fastforce split: bind_splits)
      have s1: "fs_step w w1"
        using e extend_chain_step [OF step(3)] step(3) by (auto simp: fs_step_refl split: if_splits)
      have s2: "fs_step w1 w2" using fill_block_step [OF fs_step_inv [OF s1] f] .
      from step(1) [OF r fs_step_inv [OF s2]] s1 s2 show ?thesis by (meson fs_step_trans)
    qed
  qed
qed

lemma write_step:
  assumes "obj_inv w" and op: "shadowfs_write w f buf n = Some (r, w')"
  shows "fs_step w w'"
proof (cases "w' = w")
  case True
  then show ?thesis using assms(1) by (simp add: fs_step_refl)
next
  case False
  then obtain fl :: file_t and ino :: inode where fl: "files w f = Some fl"
    and ino: "inodes w (f_inode fl) = Some ino"
    using op by (auto simp: shadowfs_write_def split: option.splits bind_splits)
  from op False fl ino obtain k w1 and i1 i3 :: inode and f1 :: file_t where
    l: "fs_step w w1" and i1: "inodes w1 (f_inode fl) = Some i1" and f1: "files w1 f = Some f1" and
    w': "w' = put f (OFile (f1\<lparr>f_position := f_position f1 + k\<rparr>)) (put (f_inode fl) (OInode i3) w1)"
    using write_loop_step [OF _ assms(1)]
    by (fastforce simp: shadowfs_write_def Let_def split: option.splits bind_splits if_splits)
  have s2: "fs_step w1 (put (f_inode fl) (OInode i3) w1)" using fs_step_inv [OF l] i1 by (rule put_steps)
  have "f \<noteq> f_inode fl" using i1 f1 by (auto simp: access_iff)
  then have "files (put (f_inode fl) (OInode i3) w1) f = Some f1" using f1 by (simp add: access_iff)
  with fs_step_inv [OF s2] have "fs_step (put (f_inode fl) (OInode i3) w1) w'"
    unfolding w' by (rule put_file_step) (simp add: file_core_def)
  with l s2 show ?thesis by (meson fs_step_trans)
qed

lemma free_block_refund_step:
  assumes "obj_inv w" and op: "free_block_refund mount block w = Some (n, w')"
  shows "fs_step w w'"
proof -
  from op obtain b :: shadowfs_block and m :: shadowfs_mount where b: "sblocks w block = Some b"
    and m: "smounts w mount = Some m"
    by (auto simp: free_block_refund_def split: bind_splits)
  let ?w1 = "w\<lparr>pages := pmm_free (pages w) (virtual_to_physical (b_data b))\<rparr>"
  let ?w2 = "put mount (OSMount (m\<lparr>m_used := m_used m - SIZEOF_BLOCK\<rparr>)) ?w1"
  have r: "release_as sblocks block ?w2 = Some w'"
    using op b m by (auto simp: free_block_refund_def Let_def split: bind_splits)
  have s1: "fs_step w ?w1" using assms(1) by simp
  have "smounts ?w1 mount = Some m" using m by (simp add: access_iff)
  with fs_step_inv [OF s1] have s2: "fs_step ?w1 ?w2" by (rule put_steps)
  have "fs_step ?w2 w'" using release_steps(4) [OF fs_step_inv [OF s2] r] .
  with s1 s2 show ?thesis by (meson fs_step_trans)
qed

lemma free_blocks_refund_step:
  assumes "free_blocks_refund mount b w = Some w'" and "obj_inv w"
  shows "fs_step w w'"
  using assms
proof (induction rule: free_blocks_refund.raw_induct [rotated, consumes 1, case_names step])
  case (step rec mount b w w')
  show ?case
  proof (cases "b = 0")
    case True
    then show ?thesis using step by (simp add: fs_step_refl)
  next
    case False
    then obtain n w1 where f: "free_block_refund mount b w = Some (n, w1)" and r: "rec mount n w1 = Some w'"
      using step(2) by (auto split: bind_splits)
    note s = free_block_refund_step [OF step(3) f]
    from step(1) [OF r fs_step_inv [OF s]] s show ?thesis by (rule fs_step_trans [rotated])
  qed
qed

lemma trim_walk_step:
  assumes "trim_walk mount priv prev b n w = Some w'" and "obj_inv w"
  shows "fs_step w w'"
  using assms
proof (induction rule: trim_walk.raw_induct [rotated, consumes 1, case_names step])
  case (step rec mount priv prev b n w w')
  consider "b = 0" | "b \<noteq> 0" "n = 0" | "b \<noteq> 0" "n \<noteq> 0" by blast
  then show ?case
  proof cases
    case 1
    then show ?thesis using step by (simp add: fs_step_refl)
  next
    case 2
    then obtain nxt w1 where f: "free_block_refund mount b w = Some (nxt, w1)"
      using step(2) by (auto split: bind_splits)
    with 2 have "do { p \<leftarrow> sinodes w1 priv;
                w3 \<leftarrow> (if prev \<noteq> 0
                      then do { b \<leftarrow> sblocks (put priv (OSInode (p\<lparr>si_count := si_count p - 1\<rparr>)) w1) prev;
                                Some (put prev (OBlock (b\<lparr>b_next := 0\<rparr>)) (put priv (OSInode (p\<lparr>si_count := si_count p - 1\<rparr>)) w1)) }
                      else Some (put priv (OSInode (p\<lparr>si_count := si_count p - 1\<rparr>)) w1));
                rec mount priv prev nxt n w3 } = Some w'"
      using step(2) by (simp add: Let_def)
    then obtain p :: shadowfs_inode and w3 where p: "sinodes w1 priv = Some p"
      and w3: "(if prev \<noteq> 0
                then do { b \<leftarrow> sblocks (put priv (OSInode (p\<lparr>si_count := si_count p - 1\<rparr>)) w1) prev;
                          Some (put prev (OBlock (b\<lparr>b_next := 0\<rparr>)) (put priv (OSInode (p\<lparr>si_count := si_count p - 1\<rparr>)) w1)) }
                else Some (put priv (OSInode (p\<lparr>si_count := si_count p - 1\<rparr>)) w1)) = Some w3"
      and r: "rec mount priv prev nxt n w3 = Some w'"
      unfolding Option.bind_eq_Some_conv [where f = "sinodes w1 priv"]
        Option.bind_eq_Some_conv [where g = "rec mount priv prev nxt n"] by blast
    let ?w2 = "put priv (OSInode (p\<lparr>si_count := si_count p - 1\<rparr>)) w1"
    have s1: "fs_step w w1" using free_block_refund_step [OF step(3) f] .
    have s2: "fs_step w1 ?w2" using fs_step_inv [OF s1] p by (rule put_steps)
    have s3: "fs_step ?w2 w3"
      using w3 put_steps(4) [OF fs_step_inv [OF s2]] fs_step_inv [OF s2]
      by (auto simp: fs_step_refl split: if_splits bind_splits)
    from step(1) [OF r fs_step_inv [OF s3]] s1 s2 s3 show ?thesis by (meson fs_step_trans)
  next
    case 3
    then obtain bl :: shadowfs_block where bl: "sblocks w b = Some bl" using step(2) by (auto split: bind_splits)
    show ?thesis
    proof (cases "n < b_used bl")
      case True
      have s: "fs_step w (put b (OBlock (bl\<lparr>b_used := n\<rparr>)) w)" using step(3) bl by (rule put_steps)
      have "rec mount priv b (b_next bl) 0 (put b (OBlock (bl\<lparr>b_used := n\<rparr>)) w) = Some w'"
        using step(2) 3 bl True by simp
      from step(1) [OF this fs_step_inv [OF s]] s show ?thesis by (rule fs_step_trans [rotated])
    next
      case False
      then show ?thesis using step(1) [OF _ step(3)] step(2) 3 bl by simp
    qed
  qed
qed

lemma truncate_step:
  assumes "obj_inv w" and op: "shadowfs_truncate w inode n = Some (r, w')"
  shows "fs_step w w'"
proof (cases "w' = w")
  case True
  then show ?thesis using assms(1) by (simp add: fs_step_refl)
next
  case False
  then obtain ino :: inode and mount and priv :: shadowfs_inode where
    g: "inode \<noteq> 0" "inodes w inode = Some ino" "i_private ino \<noteq> 0" "mount_of w ino = Some mount" "mount \<noteq> 0"
      "i_type ino = VFS_TYPE_FILE" "sinodes w (i_private ino) = Some priv"
    using op by (auto simp: shadowfs_truncate_def split: if_splits bind_splits)
  have "do { w1 \<leftarrow> (if n = 0
                  then do { w1 \<leftarrow> free_blocks_refund mount (si_head priv) w;
                            p \<leftarrow> sinodes w1 (i_private ino);
                            Some (put (i_private ino) (OSInode (p\<lparr>si_head := 0, si_count := 0\<rparr>)) w1) }
                  else trim_walk mount (i_private ino) 0 (si_head priv) n w);
             i \<leftarrow> inodes w1 inode;
             Some (0, put inode (OInode (i\<lparr>i_size := n\<rparr>)) w1) } = Some (r, w')"
    using op g by (simp add: shadowfs_truncate_def)
  then obtain w1 and i :: inode where
    w1: "(if n = 0
          then do { w1 \<leftarrow> free_blocks_refund mount (si_head priv) w;
                    p \<leftarrow> sinodes w1 (i_private ino);
                    Some (put (i_private ino) (OSInode (p\<lparr>si_head := 0, si_count := 0\<rparr>)) w1) }
          else trim_walk mount (i_private ino) 0 (si_head priv) n w) = Some w1"
    and i: "inodes w1 inode = Some i" and w': "w' = put inode (OInode (i\<lparr>i_size := n\<rparr>)) w1"
    unfolding Option.bind_eq_Some_conv option.inject prod.inject by blast
  have s1: "fs_step w w1"
  proof (cases "n = 0")
    case True
    then obtain w2 and p :: shadowfs_inode where f: "free_blocks_refund mount (si_head priv) w = Some w2"
      and p: "sinodes w2 (i_private ino) = Some p"
      and w1': "w1 = put (i_private ino) (OSInode (p\<lparr>si_head := 0, si_count := 0\<rparr>)) w2"
      using w1 by (auto split: bind_splits)
    have s: "fs_step w w2" using free_blocks_refund_step [OF f assms(1)] .
    from put_steps(2) [OF fs_step_inv [OF s] p] s show ?thesis unfolding w1' by (rule fs_step_trans [rotated])
  next
    case False
    then show ?thesis using w1 trim_walk_step [OF _ assms(1)] by simp
  qed
  from put_steps(1) [OF fs_step_inv [OF s1] i] s1 show ?thesis unfolding w' by (rule fs_step_trans [rotated])
qed

lemmas shadowfs_steps = lookup_step create_step delete_step truncate_step read_step write_step
  readdir_step mkdir_step

lemma shadowfs_ops_sel [simp]:
  "op_lookup shadowfs_ops = Some shadowfs_lookup" "op_create shadowfs_ops = Some shadowfs_create"
  "op_delete shadowfs_ops = Some shadowfs_delete" "op_truncate shadowfs_ops = Some shadowfs_truncate"
  "op_open shadowfs_ops = Some shadowfs_open" "op_close shadowfs_ops = Some shadowfs_close"
  "op_read shadowfs_ops = Some shadowfs_read" "op_write shadowfs_ops = Some shadowfs_write"
  "op_readdir shadowfs_ops = Some shadowfs_readdir" "op_mkdir shadowfs_ops = Some shadowfs_mkdir"
  by (simp_all add: shadowfs_ops_def)

end
