(* ===== verification/Klist.thy ===== *)
theory Klist
  imports Acorn_Prelude
begin

text \<open>
  NULL-terminated linked lists in an object store: \<open>llist S nxt a xs\<close> says that following the
  \<open>nxt\<close> pointers from \<open>a\<close> visits exactly the (address, object) pairs \<open>xs\<close> and ends at NULL.
  shadowFS keeps its directory entries and its file blocks in such lists.
\<close>

fun llist :: "(u64 \<Rightarrow> 'o option) \<Rightarrow> ('o \<Rightarrow> u64) \<Rightarrow> u64 \<Rightarrow> (u64 \<times> 'o) list \<Rightarrow> bool" where
  "llist S nxt a [] \<longleftrightarrow> a = 0"
| "llist S nxt a ((b, x) # xs) \<longleftrightarrow> a = b \<and> a \<noteq> 0 \<and> S a = Some x \<and> llist S nxt (nxt x) xs"

lemma llist_unique: "llist S nxt a xs \<Longrightarrow> llist S nxt a ys \<Longrightarrow> xs = ys"
proof (induction xs arbitrary: a ys)
  case Nil
  then show ?case by (cases ys) auto
next
  case (Cons p xs)
  then show ?case by (cases p; cases ys) auto
qed

lemma llist_append:
  "llist S nxt a (xs @ (b, x) # ys) \<Longrightarrow> llist S nxt b ((b, x) # ys)"
  by (induction xs arbitrary: a) auto

lemma llist_distinct: "llist S nxt a xs \<Longrightarrow> distinct (map fst xs)"
proof (induction xs arbitrary: a)
  case (Cons p xs)
  obtain b x where p: "p = (b, x)" by (cases p)
  have "b \<notin> fst ` set xs"
  proof
    assume "b \<in> fst ` set xs"
    then obtain y where "(b, y) \<in> set xs" by auto
    then obtain us vs where xs: "xs = us @ (b, y) # vs" by (auto dest: split_list)
    have "llist S nxt b ((b, y) # vs)" using Cons.prems p xs llist_append [of S nxt _ us b y vs] by auto
    moreover have "llist S nxt b ((b, x) # xs)" using Cons.prems p by auto
    ultimately have "(b, y) # vs = (b, x) # xs" by (rule llist_unique)
    then have "length vs = length xs" by simp
    then show False using xs by simp
  qed
  then show ?case using Cons p by auto
qed simp

lemma llist_objects: "llist S nxt a xs \<Longrightarrow> (b, x) \<in> set xs \<Longrightarrow> S b = Some x \<and> b \<noteq> 0"
  by (induction xs arbitrary: a) auto

lemma llist_cong:
  "llist S nxt a xs \<Longrightarrow> (\<And>b x. (b, x) \<in> set xs \<Longrightarrow> S b = Some x \<Longrightarrow> S' b = Some x) \<Longrightarrow> llist S' nxt a xs"
  by (induction xs arbitrary: a) auto

text \<open>Appending an object: the old last object now points to it.\<close>

lemma llist_snoc:
  assumes "llist S nxt a (xs @ [(l, x)])" and "nxt x' = b" and "nxt y = 0" and "b \<noteq> 0"
    and "S' l = Some x'" and "S' b = Some y" and "\<And>c. c \<noteq> l \<Longrightarrow> c \<noteq> b \<Longrightarrow> S' c = S c"
    and "b \<notin> fst ` set (xs @ [(l, x)])"
  shows "llist S' nxt a (xs @ [(l, x'), (b, y)])"
proof -
  have d: "l \<notin> fst ` set xs" using llist_distinct [OF assms(1)] by auto
  have "llist S' nxt a (xs @ [(l, x'), (b, y)])"
    if "llist S nxt a (xs @ [(l, x)])" "l \<notin> fst ` set xs" "b \<notin> fst ` set xs" for a
    using that
  proof (induction xs arbitrary: a)
    case Nil
    then show ?case using assms by auto
  next
    case (Cons p xs)
    then show ?case using assms(7) by (cases p) auto
  qed
  with assms d show ?thesis by auto
qed

text \<open>Replacing the last object, and removing an object from the list.\<close>

lemma llist_update_last:
  assumes "llist S nxt a (xs @ [(l, x)])" and "nxt x' = nxt x" and "S' l = Some x'"
    and "\<And>c. c \<noteq> l \<Longrightarrow> S' c = S c"
  shows "llist S' nxt a (xs @ [(l, x')])"
proof -
  have d: "l \<notin> fst ` set xs" using llist_distinct [OF assms(1)] by auto
  have "llist S' nxt a (xs @ [(l, x')])" if "llist S nxt a (xs @ [(l, x)])" "l \<notin> fst ` set xs" for a
    using that
  proof (induction xs arbitrary: a)
    case Nil
    then show ?case using assms by auto
  next
    case (Cons p xs)
    then show ?case using assms(4) by (cases p) auto
  qed
  with assms(1) d show ?thesis by blast
qed

lemma llist_remove:
  assumes "llist S nxt a (xs @ (p, x) # (e, y) # ys)" and "nxt x' = nxt y" and "S' p = Some x'"
    and "\<And>c. c \<noteq> p \<Longrightarrow> c \<noteq> e \<Longrightarrow> S c \<noteq> None \<Longrightarrow> S' c = S c"
  shows "llist S' nxt a (xs @ (p, x') # ys)"
proof -
  have d: "distinct (map fst (xs @ (p, x) # (e, y) # ys))" using assms(1) by (rule llist_distinct)
  have "llist S' nxt a (xs @ (p, x') # ys)"
    if "llist S nxt a (xs @ (p, x) # (e, y) # ys)" "p \<notin> fst ` set xs" "e \<notin> fst ` set xs" for a
    using that
  proof (induction xs arbitrary: a)
    case Nil
    have "llist S' nxt (nxt y) ys"
    proof (rule llist_cong)
      show "llist S nxt (nxt y) ys" using Nil by auto
      fix b z assume b: "(b, z) \<in> set ys" "S b = Some z"
      have "p \<notin> fst ` set ys" "e \<notin> fst ` set ys" using d by simp_all
      then have "b \<noteq> p" "b \<noteq> e" using image_eqI [of b fst "(b, z)" "set ys"] b(1) by auto
      with b show "S' b = Some z" using assms(4) [of b] by simp
    qed
    then show ?case using Nil.prems(1) assms(2,3) by auto
  next
    case (Cons q xs)
    then show ?case using assms(4) [of "fst q"] by (cases q) auto
  qed
  with assms(1) d show ?thesis by auto
qed

end
