(* ===== verification/Shadow_Dir.thy ===== *)
theory Shadow_Dir
  imports Shadowfs Klist
begin

text \<open>
  shadowFS directories as lists: what \<open>shadowfs_lookup\<close>, \<open>shadowfs_create\<close>,
  \<open>shadowfs_readdir\<close> and \<open>shadowfs_delete\<close> do to the list of entries of a directory.
\<close>

section \<open>The walks over the entries\<close>

abbreviation dlist :: "(u64 \<Rightarrow> shadowfs_dentry option) \<Rightarrow> u64 \<Rightarrow> (u64 \<times> shadowfs_dentry) list \<Rightarrow> bool" where
  "dlist E a ds \<equiv> llist E e_next a ds"

definition names :: "(u64 \<times> shadowfs_dentry) list \<Rightarrow> string list" where
  "names ds = map (\<lambda>(a, d). e_name d) ds"

text \<open>The inode of the first entry with a name, NULL if there is none.\<close>

fun find_inode :: "(u64 \<times> shadowfs_dentry) list \<Rightarrow> string \<Rightarrow> u64" where
  "find_inode [] name = 0"
| "find_inode ((a, d) # ds) name = (if e_name d = name then e_inode d else find_inode ds name)"

lemma names_simps [simp]: "names [] = []" "names ((a, d) # ds) = e_name d # names ds"
  "names (xs @ ys) = names xs @ names ys" "length (names ds) = length ds"
  by (simp_all add: names_def)

lemma find_inode_append: "find_inode (xs @ ys) n = (if n \<in> set (names xs) then find_inode xs n else find_inode ys n)"
  by (induction xs n rule: find_inode.induct) auto

lemma lookup_walk_dlist: "dlist E a ds \<Longrightarrow> lookup_walk E a name = Some (find_inode ds name)"
  by (induction ds arbitrary: a) (auto simp: lookup_walk.simps)

lemma exists_walk_dlist: "dlist E a ds \<Longrightarrow> exists_walk E a name = Some (name \<in> set (names ds))"
  by (induction ds arbitrary: a) (auto simp: exists_walk.simps)

lemma last_walk_dlist: "dlist E a (ds @ [(l, d)]) \<Longrightarrow> last_walk E a = Some l"
proof (induction ds arbitrary: a)
  case Nil
  then show ?case by (auto simp: last_walk.simps)
next
  case (Cons p ds)
  obtain b x where p: "p = (b, x)" by (cases p)
  have "e_next x \<noteq> 0" using Cons.prems p by (cases ds) auto
  then show ?case using Cons p by (auto simp: last_walk.simps [of E b])
qed

lemma readdir_walk_dlist:
  assumes "dlist E a ds" and "unat i + length ds < 2 ^ 32" and "i \<le> pos"
  shows "readdir_walk E a i pos = Some (if unat (pos - i) < length ds then Some (snd (ds ! unat (pos - i))) else None)"
  using assms
proof (induction ds arbitrary: a i)
  case Nil
  then show ?case by (simp add: readdir_walk.simps)
next
  case (Cons p ds)
  obtain b x where p: "p = (b, x)" by (cases p)
  show ?case
  proof (cases "i = pos")
    case True
    then show ?thesis using Cons.prems p by (auto simp: readdir_walk.simps [of E b])
  next
    case False
    with Cons.prems(3) have "i < pos" by simp
    then have i: "unat (i + 1) = Suc (unat i)" "i + 1 \<le> pos" by (auto simp: unat_Suc_less intro: word_next_le)
    then have "unat (pos - i) = Suc (unat (pos - (i + 1)))"
      using Cons.prems(3) by (simp add: unat_sub word_le_nat_alt)
    with i False Cons p show ?thesis by (auto simp: readdir_walk.simps [of E b])
  qed
qed

section \<open>The view of a directory\<close>

definition dir_view :: "'a sst_scheme \<Rightarrow> u64 \<Rightarrow> (u64 \<times> shadowfs_dentry) list \<Rightarrow> bool" where
  "dir_view w dir ds \<longleftrightarrow> dir \<noteq> 0 \<and>
     (\<exists>ino si. inodes w dir = Some ino \<and> i_private ino \<noteq> 0 \<and> sinodes w (i_private ino) = Some si \<and>
        dlist (sdents w) (si_head si) ds \<and> si_count si = of_nat (length ds))"

lemma lookup_view: "dir_view w dir ds \<Longrightarrow> shadowfs_lookup w dir name = Some (find_inode ds name, w)"
  by (auto simp: dir_view_def shadowfs_lookup_def lookup_walk_dlist)

text \<open>A directory one can create in: its entries, its superblock and the mount it is charged to.\<close>

definition dir_on :: "'a sst_scheme \<Rightarrow> u64 \<Rightarrow> nat \<Rightarrow> (u64 \<times> shadowfs_dentry) list \<Rightarrow> shadowfs_mount \<Rightarrow> bool" where
  "dir_on w dir i ds m \<longleftrightarrow> dir_view w dir ds \<and> (\<forall>ino. inodes w dir = Some ino \<longrightarrow> i_sb ino = Some i) \<and>
     smounts w (sb_private (mount_table w ! i)) = Some m"

section \<open>Creation\<close>

lemma create_inode_objs:
  assumes "obj_inv w" and op: "shadowfs_create_inode w sb type = Some (a, w')"
  obtains i mount p and m :: shadowfs_mount and n :: inode where "sb = Some i" and "mount = sb_private (mount_table w ! i)"
    and "objs w mount = Some (OSMount m)" and "objs w a = None" and "objs w p = None" and "a \<noteq> p" and "a \<noteq> 0" and "p \<noteq> 0"
    and "objs w' = (objs w)(a \<mapsto> OInode n, p \<mapsto> OSInode \<lparr>si_head = 0, si_count = 0\<rparr>,
           mount \<mapsto> OSMount (m\<lparr>next_inode_num := next_inode_num m + 1\<rparr>))"
    and "i_type n = type" and "i_size n = 0" and "i_private n = p" and "i_ops n = Some SHADOWFS" and "i_sb n = Some i"
    and "inode_num n = next_inode_num m"
    and "mount_table w' = mount_table w" and "type = VFS_TYPE_FILE \<or> type = VFS_TYPE_DIR"
proof -
  obtain i mount p w1 w2 and m :: shadowfs_mount and n :: inode where sb: "sb = Some i" "mount = sb_private (mount_table w ! i)" and
    n1: "new (OInode zero_inode) w = Some (a, w1)" and
    n2: "new (OSInode \<lparr>si_head = 0, si_count = 0\<rparr>) w1 = Some (p, w2)" and
    m: "smounts w2 mount = Some m" and
    w': "w' = put a (OInode n) (put mount (OSMount (m\<lparr>next_inode_num := next_inode_num m + 1\<rparr>)) w2)" and
    n: "i_type n = type" "i_size n = 0" "i_private n = p" "i_ops n = Some SHADOWFS" "i_sb n = Some i"
      "inode_num n = next_inode_num m" and t: "type = VFS_TYPE_FILE \<or> type = VFS_TYPE_DIR"
    using op by (auto simp: shadowfs_create_inode_def Let_def split: option.splits if_splits bind_splits)
  note i1 = new_inv [OF assms(1) n1]
  note i2 = new_inv [OF conjunct1 [OF i1] n2]
  have mt: "mount_table w' = mount_table w" using new_tables [OF n1] new_tables [OF n2] w' by simp
  have p: "objs w p = None" "a \<noteq> p" using i1 i2 by (auto split: if_splits)
  have m': "objs w mount = Some (OSMount m)" "mount \<noteq> a" "mount \<noteq> p"
    using m i1 i2 p by (auto simp: access_iff split: if_splits)
  have "objs w' = (objs w)(a \<mapsto> OInode n, p \<mapsto> OSInode \<lparr>si_head = 0, si_count = 0\<rparr>,
           mount \<mapsto> OSMount (m\<lparr>next_inode_num := next_inode_num m + 1\<rparr>))"
    using i1 i2 m' p by (auto simp: w' fun_eq_iff)
  then show ?thesis using sb m' i1 i2 p n t mt by (intro that [of i mount m p n]) simp_all
qed

text \<open>The abstract directory: names and inodes, in order.\<close>

definition entries :: "(u64 \<times> shadowfs_dentry) list \<Rightarrow> (string \<times> u64) list" where
  "entries ds = map (\<lambda>(a, d). (e_name d, e_inode d)) ds"

lemma entries_simps [simp]: "entries [] = []" "entries ((a, d) # ds) = (e_name d, e_inode d) # entries ds"
  "entries (xs @ ys) = entries xs @ entries ys" "length (entries ds) = length ds"
  by (simp_all add: entries_def)

lemma names_entries: "names ds = map fst (entries ds)"
  by (induction ds) auto

fun assoc_inode :: "(string \<times> u64) list \<Rightarrow> string \<Rightarrow> u64" where
  "assoc_inode [] n = 0"
| "assoc_inode ((m, i) # es) n = (if m = n then i else assoc_inode es n)"

lemma find_inode_entries: "find_inode ds n = assoc_inode (entries ds) n"
  by (induction ds n rule: find_inode.induct) auto

lemma assoc_inode_append:
  "assoc_inode (xs @ ys) n = (if n \<in> fst ` set xs then assoc_inode xs n else assoc_inode ys n)"
  by (induction xs n rule: assoc_inode.induct) auto

lemma assoc_inode_none: "n \<notin> fst ` set es \<Longrightarrow> assoc_inode es n = 0"
  by (induction es n rule: assoc_inode.induct) auto

lemma entries_length: "entries xs = entries ys \<Longrightarrow> length xs = length ys"
  using entries_simps(4) by metis

lemma link_entry_view:
  assumes si: "sinodes w P = Some si" and dl: "dlist (sdents w) (si_head si) ds"
    and de: "sdents w de = Some d0" "e_next d0 = 0" "de \<noteq> 0" "de \<notin> fst ` set ds"
    and op: "link_entry w P de = Some w'"
  shows "\<exists>si' ds'. sinodes w' P = Some si' \<and> si_count si' = si_count si + 1 \<and> dlist (sdents w') (si_head si') ds' \<and>
    entries ds' = entries ds @ [(e_name d0, e_inode d0)] \<and>
    (\<forall>x o'. x \<noteq> P \<longrightarrow> objs w x = Some o' \<longrightarrow> (\<forall>d. o' \<noteq> ODentry d) \<longrightarrow> objs w' x = Some o') \<and>
    kost.more w' = kost.more w"
proof (cases ds rule: rev_cases)
  case Nil
  then have "si_head si = 0" using dl by simp
  then have w': "w' = put P (OSInode (si\<lparr>si_head := de, si_count := si_count si + 1\<rparr>)) w"
    using op si by (simp add: link_entry_def)
  have "P \<noteq> de" using si de by (auto simp: access_iff)
  then have "dlist (sdents w') de [(de, d0)]" using de w' by (simp add: access_iff)
  then show ?thesis
    using w' Nil by (intro exI [of _ "si\<lparr>si_head := de, si_count := si_count si + 1\<rparr>"] exI [of _ "[(de, d0)]"])
      (simp add: access_iff)
next
  case (snoc xs ld)
  obtain l d where ld: "ld = (l, d)" by (cases ld)
  have ds: "ds = xs @ [(l, d)]" using snoc ld by simp
  have last: "last_walk (sdents w) (si_head si) = Some l" using last_walk_dlist dl ds by blast
  have l: "sdents w l = Some d" using llist_objects [OF dl, of l d] ds by simp
  have "si_head si \<noteq> 0" using dl ds by (cases xs) auto
  then have w': "w' = put P (OSInode (si\<lparr>si_count := si_count si + 1\<rparr>)) (put l (ODentry (d\<lparr>e_next := de\<rparr>)) w)"
    using op si last l by (simp add: link_entry_def)
  have ne: "P \<noteq> l" "P \<noteq> de" using si l de by (auto simp: access_iff)
  have nl: "l \<noteq> de" using de ds by auto
  have "dlist (sdents w') (si_head si) (xs @ [(l, d\<lparr>e_next := de\<rparr>), (de, d0)])"
  proof (rule llist_snoc [where x = d])
    show "dlist (sdents w) (si_head si) (xs @ [(l, d)])" using dl ds by simp
    show "sdents w' l = Some (d\<lparr>e_next := de\<rparr>)" "sdents w' de = Some d0"
      using w' ne nl de by (simp_all add: access_iff)
    show "sdents w' c = sdents w c" if "c \<noteq> l" "c \<noteq> de" for c
      using w' that si by (cases "c = P") (auto simp: sdents_def access_iff)
    show "de \<notin> fst ` set (xs @ [(l, d)])" using de ds by simp
  qed (use de in auto)
  then show ?thesis
    using w' ds l
    by (intro exI [of _ "si\<lparr>si_count := si_count si + 1\<rparr>"] exI [of _ "xs @ [(l, d\<lparr>e_next := de\<rparr>), (de, d0)]"])
      (auto simp: access_iff)
qed

text \<open>The steps of a creation that succeeds: the inode, the entry, the link, the charge.\<close>

lemma create_steps:
  assumes dl: "dlist (sdents w) (si_head si) ds" and ino: "inodes w dir = Some ino" "i_sb ino = Some i"
    and si: "sinodes w (i_private ino) = Some si" and inv: "obj_inv w"
    and op: "shadowfs_create w dir name type = Some (a, w')" and nz: "a \<noteq> 0" and len: "length name < VFS_MAX_NAME"
  obtains w1 de w2 w3 and m3 :: shadowfs_mount where "shadowfs_create_inode w (Some i) type = Some (a, w1)"
    and "new (ODentry \<lparr>e_name = name, e_inode = a, e_next = 0\<rparr>) w1 = Some (de, w2)"
    and "link_entry w2 (i_private ino) de = Some w3" and "smounts w3 (sb_private (mount_table w ! i)) = Some m3"
    and "w' = put (sb_private (mount_table w ! i)) (OSMount (m3\<lparr>m_used := m_used m3 + SIZEOF_ENTRY\<rparr>)) w3"
    and "name \<notin> set (names ds)" and "obj_inv w1"
proof -
  let ?M = "sb_private (mount_table w ! i)"
  have ex: "exists_walk (sdents w) (si_head si) name = Some (name \<in> set (names ds))" using dl by (rule exists_walk_dlist)
  have tk: "take 63 name = name" using len by simp
  from op ino si ex nz obtain m where m: "smounts w ?M = Some m" "m_used m < quota m" and nn: "name \<notin> set (names ds)"
    and p: "i_private ino \<noteq> 0"
    by (fastforce simp: shadowfs_create_def mount_of_def split: bind_splits if_splits)
  from op ino si ex m nn p obtain b w1 where c: "shadowfs_create_inode w (Some i) type = Some (b, w1)"
    by (auto simp: shadowfs_create_def mount_of_def split: bind_splits if_splits)
  have b: "b \<noteq> 0" and inv1: "obj_inv w1" using create_inode_step [OF inv c] fs_step_inv by blast+
  let ?d0 = "\<lparr>e_name = name, e_inode = b, e_next = 0\<rparr> :: shadowfs_dentry"
  from op ino si ex m nn p c b obtain de w2 where n: "new (ODentry ?d0) w1 = Some (de, w2)"
    by (auto simp: shadowfs_create_def mount_of_def tk simp del: take_all_iff split: bind_splits if_splits)
  have "de \<noteq> 0" using new_inv [OF inv1 n] by simp
  with op ino si ex m nn p c b n obtain w3 m3 where "link_entry w2 (i_private ino) de = Some w3"
    "smounts w3 ?M = Some m3" "a = b" "w' = put ?M (OSMount (m3\<lparr>m_used := m_used m3 + SIZEOF_ENTRY\<rparr>)) w3"
    by (auto simp: shadowfs_create_def mount_of_def tk simp del: take_all_iff split: bind_splits if_splits)
  with c n nn inv1 show ?thesis using that by blast
qed

lemma create_inode_rest:
  "shadowfs_create_inode w sb t = Some (a, w') \<Longrightarrow>
    pages w' = pages w \<and> file_table w' = file_table w \<and> mount_count w' = mount_count w"
  by (auto simp: shadowfs_create_inode_def new_def Let_def put_def split: option.splits bind_splits if_splits)

text \<open>A successful creation appends the name to the directory and charges the mount.\<close>

lemma create_view:
  assumes inv: "obj_inv w" and d: "dir_on w dir i ds m" and op: "shadowfs_create w dir name type = Some (a, w')"
    and nz: "a \<noteq> 0" and len: "length name < VFS_MAX_NAME"
  shows "\<exists>ds' n. dir_on w' dir i ds' (m\<lparr>next_inode_num := next_inode_num m + 1, m_used := m_used m + SIZEOF_ENTRY\<rparr>) \<and>
    entries ds' = entries ds @ [(name, a)] \<and> name \<notin> set (names ds) \<and>
    inodes w' a = Some n \<and> i_type n = type \<and> i_size n = 0 \<and> i_sb n = Some i \<and> i_private n \<noteq> 0 \<and>
    sinodes w' (i_private n) = Some \<lparr>si_head = 0, si_count = 0\<rparr> \<and> mount_table w' = mount_table w \<and> pages w' = pages w \<and>
    i_ops n = Some SHADOWFS \<and> inodes w' dir = inodes w dir"
proof -
  obtain ino si where ino: "dir \<noteq> 0" "inodes w dir = Some ino" "i_sb ino = Some i" and
    si: "i_private ino \<noteq> 0" "sinodes w (i_private ino) = Some si" and
    dl: "dlist (sdents w) (si_head si) ds" "si_count si = of_nat (length ds)"
    using d by (auto simp: dir_on_def dir_view_def)
  let ?M = "sb_private (mount_table w ! i)"
  have m: "objs w ?M = Some (OSMount m)" using d by (simp add: dir_on_def access_iff)
  obtain w1 de w2 w3 and m3 :: shadowfs_mount where c: "shadowfs_create_inode w (Some i) type = Some (a, w1)"
    and n: "new (ODentry \<lparr>e_name = name, e_inode = a, e_next = 0\<rparr>) w1 = Some (de, w2)"
    and l: "link_entry w2 (i_private ino) de = Some w3" and m3: "smounts w3 ?M = Some m3"
    and w': "w' = put ?M (OSMount (m3\<lparr>m_used := m_used m3 + SIZEOF_ENTRY\<rparr>)) w3"
    and nn: "name \<notin> set (names ds)" and inv1: "obj_inv w1"
    using create_steps [OF dl(1) ino(2,3) si(2) inv op nz len] .
  note i2 = new_inv [OF inv1 n]
  obtain p and nd :: inode where
    o1: "objs w1 = (objs w)(a \<mapsto> OInode nd, p \<mapsto> OSInode \<lparr>si_head = 0, si_count = 0\<rparr>,
           ?M \<mapsto> OSMount (m\<lparr>next_inode_num := next_inode_num m + 1\<rparr>))"
    and fr: "objs w a = None" "objs w p = None" "a \<noteq> p" "p \<noteq> 0"
    and nd: "i_type nd = type" "i_size nd = 0" "i_private nd = p" "i_sb nd = Some i" "mount_table w1 = mount_table w" "i_ops nd = Some SHADOWFS"
    using create_inode_objs [OF inv c] m by (metis option.inject obj.inject(6))
  have keep1: "objs w1 x = Some o'" if "objs w x = Some o'" "\<forall>m. o' \<noteq> OSMount m" for x o'
    using that o1 fr m by (auto split: if_splits)
  have keep2: "objs w2 x = Some o'" if "objs w1 x = Some o'" for x o' using that i2 by auto
  have si2: "sinodes w2 (i_private ino) = Some si" using si keep1 keep2 by (simp add: access_iff)
  have dl2: "dlist (sdents w2) (si_head si) ds" using dl(1) by (rule llist_cong) (simp add: access_iff keep1 keep2)
  have "de \<notin> fst ` set ds" using llist_objects [OF dl(1)] i2 keep1 by (fastforce simp: access_iff)
  from link_entry_view [OF si2 dl2 _ _ _ this l] i2 obtain si' ds' where
    v: "sinodes w3 (i_private ino) = Some si'" "si_count si' = si_count si + 1" "dlist (sdents w3) (si_head si') ds'"
      "entries ds' = entries ds @ [(name, a)]" and mt: "kost.more w3 = kost.more w2"
    and keep3: "\<And>x o'. x \<noteq> i_private ino \<Longrightarrow> objs w2 x = Some o' \<Longrightarrow> (\<forall>d. o' \<noteq> ODentry d) \<Longrightarrow> objs w3 x = Some o'"
    by (auto simp: access_iff)
  have ne: "?M \<noteq> a" "?M \<noteq> p" "?M \<noteq> i_private ino" "p \<noteq> i_private ino" "a \<noteq> i_private ino" "dir \<noteq> i_private ino"
    "dir \<noteq> ?M" using fr m si ino by (auto simp: access_iff)
  have o3: "objs w3 ?M = Some (OSMount (m\<lparr>next_inode_num := next_inode_num m + 1\<rparr>))" "objs w3 a = Some (OInode nd)"
    "objs w3 p = Some (OSInode \<lparr>si_head = 0, si_count = 0\<rparr>)" "objs w3 dir = Some (OInode ino)"
    using o1 ne fr ino by (auto intro!: keep3 keep2 simp: access_iff)
  have rest: "mount_table w3 = mount_table w2" "pages w3 = pages w2" using mt by (cases w3; cases w2; simp)+
  have "pages w2 = pages w1" using n by (auto simp: new_def split: option.splits)
  then have pg: "pages w' = pages w" using rest(2) create_inode_rest [OF c] by (simp add: w' put_def)
  from rest(1) have mt': "mount_table w' = mount_table w" using nd(5) new_tables [OF n] by (simp add: w' put_def)
  have sd: "sdents w' = sdents w3" using w' m3 by (auto simp: fun_eq_iff sdents_def access_iff)
  have "length ds' = Suc (length ds)" using arg_cong [OF v(4), of length] by simp
  then have "si_count si' = of_nat (length ds')" using v(2) dl(2) by simp
  then have "dir_view w' dir ds'" using o3 ino si v(1,3) sd ne by (simp add: dir_view_def w' access_iff)
  moreover have "m3 = m\<lparr>next_inode_num := next_inode_num m + 1\<rparr>" using m3 o3(1) by (simp add: access_iff)
  then have "smounts w' ?M = Some (m\<lparr>next_inode_num := next_inode_num m + 1, m_used := m_used m + SIZEOF_ENTRY\<rparr>)"
    by (simp add: w' access_iff)
  moreover have di: "inodes w' dir = Some ino" using o3(4) ne by (simp add: w' access_iff)
  ultimately have "dir_on w' dir i ds' (m\<lparr>next_inode_num := next_inode_num m + 1, m_used := m_used m + SIZEOF_ENTRY\<rparr>)"
    using ino unfolding dir_on_def mt' by simp
  moreover have "inodes w' dir = inodes w dir" using di ino(2) by simp
  ultimately show ?thesis using v(4) nn o3 nd fr ne mt' pg by (intro exI [of _ ds'] exI [of _ nd]) (simp add: w' access_iff)
qed

end
