(* ===== verification/Shadow_File.thy ===== *)
theory Shadow_File
  imports Shadowfs Klist
begin

text \<open>
  shadowFS files as byte strings: the block chain of a file represents the concatenation of the
  used parts of its blocks' pages; reading returns a slice of it, writing appends to it.
\<close>

section \<open>Contents\<close>

type_synonym blocks = "(u64 \<times> shadowfs_block) list"

definition data :: "blocks \<Rightarrow> (u64 \<times> u32) list" where
  "data bs = map (\<lambda>(a, b). (b_data b, b_used b)) bs"

definition chunk :: "(u64 \<Rightarrow> u32 \<Rightarrow> u8) \<Rightarrow> u64 \<times> u32 \<Rightarrow> u8 list" where
  "chunk pm d = map (\<lambda>i. pm (fst d) (of_nat i)) [0..<unat (snd d)]"

definition content :: "(u64 \<Rightarrow> u32 \<Rightarrow> u8) \<Rightarrow> (u64 \<times> u32) list \<Rightarrow> u8 list" where
  "content pm ds = concat (map (chunk pm) ds)"

lemma data_simps [simp]: "data [] = []" "data ((a, b) # bs) = (b_data b, b_used b) # data bs"
  "data (xs @ ys) = data xs @ data ys" "length (data bs) = length bs"
  by (simp_all add: data_def)

lemma chunk_length [simp]: "length (chunk pm d) = unat (snd d)"
  by (simp add: chunk_def)

lemma content_simps [simp]: "content pm [] = []" "content pm (d # ds) = chunk pm d @ content pm ds"
  "content pm (xs @ ys) = content pm xs @ content pm ys"
  by (simp_all add: content_def)

lemma content_cong: "(\<And>p u. (p, u) \<in> set ds \<Longrightarrow> pm p = pm' p) \<Longrightarrow> content pm ds = content pm' ds"
proof (induction ds)
  case (Cons d ds)
  have "pm (fst d) = pm' (fst d)" using Cons.prems [of "fst d" "snd d"] by simp
  moreover have "content pm ds = content pm' ds" using Cons.prems by (intro Cons.IH) auto
  ultimately show ?case by (simp add: chunk_def)
qed simp

abbreviation blist :: "(u64 \<Rightarrow> shadowfs_block option) \<Rightarrow> u64 \<Rightarrow> blocks \<Rightarrow> bool" where
  "blist B a bs \<equiv> llist B b_next a bs"

definition fblocks :: "'a sst_scheme \<Rightarrow> u64 \<Rightarrow> blocks \<Rightarrow> bool" where
  "fblocks w P bs \<longleftrightarrow>
     (\<exists>si. sinodes w P = Some si \<and> blist (sblocks w) (si_head si) bs) \<and>
     (\<forall>d \<in> set (data bs). snd d \<le> SHADOWFS_BLOCK_SIZE) \<and> distinct (map fst (data bs)) \<and>
     pmm_wf (pages w) \<and> (\<forall>d \<in> set (data bs). virtual_to_physical (fst d) \<notin> pmm_avail (pages w))"

section \<open>Reading\<close>

text \<open>Reading the bytes of one block.\<close>

lemma chunk_slice:
  assumes "unat off + unat n \<le> unat u"
  shows "map (\<lambda>i. pm p (off + of_nat i)) [0..<unat n] = take (unat n) (drop (unat off) (chunk pm (p, u)))"
proof (rule nth_equalityI)
  show "length (map (\<lambda>i. pm p (off + of_nat i)) [0..<unat n]) = length (take (unat n) (drop (unat off) (chunk pm (p, u))))"
    using assms by simp
  fix i assume "i < length (map (\<lambda>i. pm p (off + of_nat i)) [0..<unat n])"
  then have "i < unat n" by simp
  then show "map (\<lambda>i. pm p (off + of_nat i)) [0..<unat n] ! i = take (unat n) (drop (unat off) (chunk pm (p, u))) ! i"
    using assms by (simp add: chunk_def)
qed

lemma read_walk_content:
  assumes "blist (sblocks w) a bs" and "unat start \<le> unat off" and "unat start + length (content (page_mem w) (data bs)) < 2 ^ 32"
  shows "read_walk w a start off rem acc =
    Some (acc @ take (unat rem) (drop (unat off - unat start) (content (page_mem w) (data bs))))"
  using assms
proof (induction bs arbitrary: a start off rem acc)
  case Nil
  then show ?case by (simp add: read_walk.simps)
next
  case (Cons ab bs)
  obtain c b where ab: "ab = (c, b)" by (cases ab)
  let ?u = "b_used b" and ?ch = "chunk (page_mem w) (b_data b, b_used b)"
  let ?rest = "content (page_mem w) (data bs)"
  have a: "a = c" "a \<noteq> 0" "sblocks w a = Some b" "blist (sblocks w) (b_next b) bs" using Cons.prems ab by auto
  have nw: "unat start + unat ?u + length ?rest < 2 ^ 32" using Cons.prems(3) ab by simp
  then have e: "unat (start + ?u) = unat start + unat ?u" by (simp add: unat_word_ariths)
  show ?case
  proof (cases "rem > 0")
    case False
    then show ?thesis by (simp add: read_walk.simps word_gt_0)
  next
    case rem: True
    show ?thesis
    proof (cases "off < start + ?u")
      case False
      then have ge: "unat start + unat ?u \<le> unat off" by (simp add: word_less_nat_alt e)
      have "read_walk w (b_next b) (start + ?u) off rem acc =
          Some (acc @ take (unat rem) (drop (unat off - unat (start + ?u)) ?rest))"
        using a nw e ge by (intro Cons.IH) auto
      with ge show ?thesis using rem False a ab e by (simp add: read_walk.simps [of w c])
    next
      case True
      then have lt: "unat off < unat start + unat ?u" by (simp add: word_less_nat_alt e)
      define bo where "bo = off - start"
      define av where "av = ?u - bo"
      define n where "n = (if rem < av then rem else av)"
      have bo: "unat bo = unat off - unat start" using Cons.prems(2) by (simp add: bo_def unat_sub word_le_nat_alt)
      have av: "unat av = unat ?u - unat bo"
        using lt bo Cons.prems(2) by (simp add: av_def unat_sub word_le_nat_alt)
      have n: "unat n = min (unat rem) (unat av)" by (auto simp: n_def min_def word_less_nat_alt)
      have le: "unat bo + unat n \<le> unat ?u" using n av lt bo Cons.prems(2) by simp
      have o': "unat (off + n) = unat off + unat n"
        using le bo lt nw Cons.prems(2) by (simp add: unat_word_ariths)
      have r': "unat (rem - n) = unat rem - unat n" using n by (simp add: unat_sub word_le_nat_alt)
      let ?bytes = "map (\<lambda>i. page_mem w (b_data b) (bo + of_nat i)) [0..<unat n]"
      have step: "read_walk w a start off rem acc = read_walk w (b_next b) (start + ?u) (off + n) (rem - n) (acc @ ?bytes)"
        using rem True a by (simp add: read_walk.simps [of w c] Let_def bo_def av_def n_def)
      have bytes: "?bytes = take (unat n) (drop (unat bo) ?ch)" using le by (rule chunk_slice)
      show ?thesis
      proof (cases "rem < av")
        case True
        then have "n = rem" by (simp add: n_def)
        moreover have "unat rem \<le> unat ?u - unat bo" using n av \<open>n = rem\<close> by simp
        ultimately show ?thesis
          using step bytes bo ab by (simp add: read_walk.simps [of w "b_next b"])
      next
        case False
        then have nav: "unat n = unat ?u - unat bo" using av by (simp add: n_def)
        have "read_walk w (b_next b) (start + ?u) (off + n) (rem - n) (acc @ ?bytes) =
            Some ((acc @ ?bytes) @ take (unat (rem - n)) (drop (unat (off + n) - unat (start + ?u)) ?rest))"
          using a nw e o' nav bo lt Cons.prems(2) by (intro Cons.IH) auto
        moreover have "unat (off + n) - unat (start + ?u) = 0" using o' e nav bo lt Cons.prems(2) by simp
        moreover have "unat bo \<le> unat ?u" using bo lt Cons.prems(2) by simp
        moreover have "unat (rem - n) = unat rem - (unat ?u - unat bo)" using r' nav by simp
        moreover have "unat ?u - unat bo \<le> unat rem" using False av by (simp add: word_less_nat_alt)
        ultimately show ?thesis
          using step bytes nav ab unfolding bo [symmetric] by simp
      qed
    qed
  qed
qed

section \<open>Filling the last block\<close>

lemma store_bytes_at:
  assumes "unat off + length bs \<le> 2 ^ 32"
  shows "i < length bs \<Longrightarrow> store_bytes pg off bs (off + of_nat i) = bs ! i"
    and "unat x < unat off \<Longrightarrow> store_bytes pg off bs x = pg x"
proof -
  have gen: "fold (\<lambda>i p. p(off + of_nat i := bs ! i)) [0..<k] pg x =
      (if unat off \<le> unat x \<and> unat x < unat off + k then bs ! (unat x - unat off) else pg x)"
    if "k \<le> length bs" for k x
    using that
  proof (induction k)
    case (Suc k)
    have u: "unat (off + of_nat k) = unat off + k"
      using Suc.prems assms by (simp add: unat_word_ariths unat_of_nat)
    have "x = off + of_nat k \<longleftrightarrow> unat x = unat off + k" unfolding word_unat_eq_iff u ..
    with Suc show ?case by auto
  qed auto
  show "store_bytes pg off bs (off + of_nat i) = bs ! i" if "i < length bs"
  proof -
    have "unat (off + of_nat i) = unat off + i"
      using that assms by (simp add: unat_word_ariths unat_of_nat)
    then show ?thesis using that by (simp add: store_bytes_def gen)
  qed
  show "store_bytes pg off bs x = pg x" if "unat x < unat off"
    using that by (simp add: store_bytes_def gen)
qed

lemma chunk_store:
  assumes "unat u + length bs \<le> 4096"
  shows "chunk (pm(p := store_bytes (pm p) u bs)) (p, u + of_nat (length bs)) = chunk pm (p, u) @ bs"
proof (rule nth_equalityI)
  have len: "unat (u + of_nat (length bs)) = unat u + length bs"
    using assms by (simp add: unat_word_ariths unat_of_nat)
  then show "length (chunk (pm(p := store_bytes (pm p) u bs)) (p, u + of_nat (length bs))) = length (chunk pm (p, u) @ bs)"
    by simp
  fix i assume "i < length (chunk (pm(p := store_bytes (pm p) u bs)) (p, u + of_nat (length bs)))"
  then have i: "i < unat u + length bs" using len by simp
  have u: "unat (of_nat i :: u32) = i" using i assms by (simp add: unat_of_nat)
  show "chunk (pm(p := store_bytes (pm p) u bs)) (p, u + of_nat (length bs)) ! i = (chunk pm (p, u) @ bs) ! i"
  proof (cases "i < unat u")
    case True
    then show ?thesis using len u assms store_bytes_at(2) [of u bs "of_nat i" "pm p"]
      by (simp add: chunk_def nth_append)
  next
    case False
    then obtain j where j: "i = unat u + j" "j < length bs" using i by (metis add_diff_inverse_nat less_diff_conv2 nat_add_left_cancel_less)
    then have "(of_nat i :: u32) = u + of_nat j" by simp
    with j len show ?thesis using assms store_bytes_at(1) [of u bs j "pm p"]
      by (simp add: chunk_def nth_append)
  qed
qed

text \<open>\<open>fill_block\<close> appends to the content as many bytes as fit.\<close>

lemma fblocks_last: "fblocks w P (bs @ [(l, b)]) \<Longrightarrow> sblocks w l = Some b \<and> b_used b \<le> SHADOWFS_BLOCK_SIZE"
  unfolding fblocks_def by (auto dest: llist_objects)

lemma fill_block_content:
  assumes fb: "fblocks w P (bs @ [(l, b)])" and op: "fill_block w l src rem = Some (k, w')"
    and src: "unat rem \<le> length src"
  shows "unat k = min (unat rem) (4096 - unat (b_used b)) \<and>
    (\<exists>b'. fblocks w' P (bs @ [(l, b')]) \<and> length (bs @ [(l, b')]) = length (bs @ [(l, b)]) \<and>
      content (page_mem w') (data (bs @ [(l, b')])) = content (page_mem w) (data (bs @ [(l, b)])) @ take (unat k) src)"
proof -
  note bl = fblocks_last [OF fb]
  have u: "unat (b_used b) \<le> 4096" using bl by (simp add: word_le_nat_alt)
  have sp: "unat (4096 - b_used b) = 4096 - unat (b_used b)" using u by (simp add: unat_sub word_le_nat_alt)
  let ?bs = "take (unat k) src" and ?b' = "b\<lparr>b_used := b_used b + k\<rparr>"
  have k: "k = (if rem < 4096 - b_used b then rem else 4096 - b_used b)" and
    w': "w' = put l (OBlock ?b') (w\<lparr>page_mem := (page_mem w)(b_data b := store_bytes (page_mem w (b_data b)) (b_used b) ?bs)\<rparr>)"
    using op bl by (auto simp: fill_block_def Let_def split: if_splits)
  have uk: "unat k = min (unat rem) (4096 - unat (b_used b))"
    unfolding k using sp by (auto simp: min_def word_less_nat_alt)
  then have len: "length ?bs = unat k" "unat (b_used b) + length ?bs \<le> 4096" using src u by auto
  have u': "b_used b + k \<le> 4096" using uk u by (simp add: word_le_nat_alt unat_word_ariths)
  obtain si where si: "sinodes w P = Some si" "blist (sblocks w) (si_head si) (bs @ [(l, b)])"
    using fb by (auto simp: fblocks_def)
  have ne: "P \<noteq> l" using si bl by (auto simp: access_iff)
  have "blist (sblocks w') (si_head si) (bs @ [(l, ?b')])"
    using si(2) by (rule llist_update_last) (auto simp: w' sblocks_def)
  moreover have "sinodes w' P = Some si" using si ne by (simp add: w' access_iff)
  ultimately have fb': "fblocks w' P (bs @ [(l, ?b')])"
    using fb u' by (auto simp: fblocks_def w' put_def)
  have "content (page_mem w') (data bs) = content (page_mem w) (data bs)"
  proof (rule content_cong)
    fix p u assume "(p, u) \<in> set (data bs)"
    then have "p \<noteq> b_data b" using fb by (force simp: fblocks_def)
    then show "page_mem w' p = page_mem w p" by (simp add: w' put_def)
  qed
  moreover have "chunk (page_mem w') (b_data b, b_used b + k) = chunk (page_mem w) (b_data b, b_used b) @ ?bs"
    using chunk_store [OF len(2), of "page_mem w" "b_data b"] len(1) by (simp add: w' put_def)
  ultimately have "content (page_mem w') (data (bs @ [(l, ?b')])) = content (page_mem w) (data (bs @ [(l, b)])) @ ?bs"
    by simp
  with fb' uk show ?thesis by auto
qed

section \<open>Extending the chain\<close>

text \<open>Writing touches neither inodes nor file objects until the end.\<close>

definition same_nodes :: "'a sst_scheme \<Rightarrow> 'a sst_scheme \<Rightarrow> bool" where
  "same_nodes w w' \<longleftrightarrow> inodes w' = inodes w \<and> files w' = files w \<and> mount_table w' = mount_table w"

lemma same_nodes_refl [simp]: "same_nodes w w"
  by (simp add: same_nodes_def)

lemma same_nodes_trans: "same_nodes w w' \<Longrightarrow> same_nodes w' w'' \<Longrightarrow> same_nodes w w''"
  by (simp add: same_nodes_def)

lemma put_block_same:
  assumes "sblocks w l = Some b"
  shows "same_nodes w (put l (OBlock b') w)" "smounts (put l (OBlock b') w) = smounts w"
proof -
  have o: "objs w l = Some (OBlock b)" using assms by (simp add: access_iff)
  show "same_nodes w (put l (OBlock b') w)" "smounts (put l (OBlock b') w) = smounts w"
    using o by (simp_all add: same_nodes_def fun_eq_iff inodes_def files_def smounts_def)
qed

lemma put_sinode_same:
  assumes "sinodes w l = Some b"
  shows "same_nodes w (put l (OSInode b') w)" "smounts (put l (OSInode b') w) = smounts w"
    "sblocks (put l (OSInode b') w) = sblocks w"
proof -
  have o: "objs w l = Some (OSInode b)" using assms by (simp add: access_iff)
  show "same_nodes w (put l (OSInode b') w)" "smounts (put l (OSInode b') w) = smounts w"
    "sblocks (put l (OSInode b') w) = sblocks w"
    using o by (simp_all add: same_nodes_def fun_eq_iff inodes_def files_def smounts_def sblocks_def)
qed

lemma put_mount_same:
  assumes "smounts w l = Some b"
  shows "same_nodes w (put l (OSMount b') w)" "sblocks (put l (OSMount b') w) = sblocks w"
proof -
  have o: "objs w l = Some (OSMount b)" using assms by (simp add: access_iff)
  show "same_nodes w (put l (OSMount b') w)" "sblocks (put l (OSMount b') w) = sblocks w"
    using o by (simp_all add: same_nodes_def fun_eq_iff inodes_def files_def sblocks_def)
qed

lemma store_pages [simp]:
  "pages (put a x w) = pages w" "page_mem (put a x w) = page_mem w" "rtc_now (put a x w) = rtc_now w"
  by (simp_all add: put_def)

definition last_addr :: "blocks \<Rightarrow> u64" where
  "last_addr bs = (if bs = [] then 0 else fst (last bs))"

lemma last_addr_snoc [simp]: "last_addr (bs @ [(l, b)]) = l"
  by (simp add: last_addr_def)

lemma last_block_blist: "blist B a bs \<Longrightarrow> last_block B l a = Some (if bs = [] then l else fst (last bs))"
proof (induction bs arbitrary: a l)
  case Nil
  then show ?case by (simp add: last_block.simps)
next
  case (Cons p bs)
  then show ?case by (cases p) (auto simp: last_block.simps [of B l a] last_block.simps)
qed

text \<open>The chain after linking in a new, empty block.\<close>

lemma link_block:
  assumes si: "sinodes w P = Some si" and bl: "blist (sblocks w) (si_head si) bs"
    and nb: "sblocks w nb = Some z" "b_next z = 0" "nb \<noteq> 0" "nb \<notin> fst ` set bs"
    and w': "(if si_head si = 0 then Some (put P (OSInode (si\<lparr>si_head := nb\<rparr>)) w)
          else do { b \<leftarrow> sblocks w (last_addr bs); Some (put (last_addr bs) (OBlock (b\<lparr>b_next := nb\<rparr>)) w) }) = Some w'"
  shows "\<exists>si' bs'. sinodes w' P = Some si' \<and> blist (sblocks w') (si_head si') (bs' @ [(nb, z)]) \<and> data bs' = data bs \<and>
    same_nodes w w' \<and> smounts w' = smounts w \<and> page_mem w' = page_mem w \<and> pages w' = pages w"
proof (cases bs rule: rev_cases)
  case Nil
  then have w'': "w' = put P (OSInode (si\<lparr>si_head := nb\<rparr>)) w" using bl w' by simp
  have "P \<noteq> nb" using si nb by (auto simp: access_iff)
  then have "blist (sblocks w') nb [(nb, z)]" using nb w'' by (simp add: access_iff)
  moreover have "same_nodes w w'" "smounts w' = smounts w" "page_mem w' = page_mem w" "pages w' = pages w"
    using put_sinode_same [OF si] by (simp_all add: w'')
  ultimately show ?thesis
    using w'' Nil by (intro exI [of _ "si\<lparr>si_head := nb\<rparr>"] exI [of _ "[]"]) (simp add: access_iff)
next
  case (snoc xs lb)
  obtain l b where lb: "lb = (l, b)" by (cases lb)
  have bs: "bs = xs @ [(l, b)]" using snoc lb by simp
  have l: "sblocks w l = Some b" using llist_objects [OF bl, of l b] bs by simp
  have "si_head si \<noteq> 0" using bl bs by (cases xs) auto
  then have w'': "w' = put l (OBlock (b\<lparr>b_next := nb\<rparr>)) w" using w' bs l by simp
  have nl: "l \<noteq> nb" "P \<noteq> l" using nb bs si l by (auto simp: access_iff)
  have "blist (sblocks w') (si_head si) (xs @ [(l, b\<lparr>b_next := nb\<rparr>), (nb, z)])"
  proof (rule llist_snoc [where x = b])
    show "blist (sblocks w) (si_head si) (xs @ [(l, b)])" using bl bs by simp
    show "sblocks w' l = Some (b\<lparr>b_next := nb\<rparr>)" "sblocks w' nb = Some z" using w'' nl nb by (simp_all add: access_iff)
    show "sblocks w' c = sblocks w c" if "c \<noteq> l" "c \<noteq> nb" for c using w'' that by (simp add: sblocks_def)
    show "nb \<notin> fst ` set (xs @ [(l, b)])" using nb bs by simp
  qed (use nb in auto)
  moreover have "same_nodes w w'" "smounts w' = smounts w" "page_mem w' = page_mem w" "pages w' = pages w"
    using put_block_same [OF l] by (simp_all add: w'')
  moreover have "sinodes w' P = Some si" using si nl w'' by (simp add: access_iff)
  ultimately show ?thesis
    using bs by (intro exI [of _ si] exI [of _ "xs @ [(l, b\<lparr>b_next := nb\<rparr>)]"]) simp
qed

lemma extend_chain_content:
  assumes inv: "obj_inv w" and fb: "fblocks w P bs" and op: "extend_chain w P M (last_addr bs) = Some (nb, w')"
  shows "\<exists>bs' b m. fblocks w' P (bs' @ [(nb, b)]) \<and> b_used b = 0 \<and> data bs' = data bs \<and> page_mem w' = page_mem w \<and>
    same_nodes w w' \<and> smounts w M = Some m \<and> smounts w' M = Some (m\<lparr>m_used := m_used m + SIZEOF_BLOCK\<rparr>)"
proof -
  let ?z = "\<lparr>b_data = 0, b_used = 0, b_next = 0\<rparr> :: shadowfs_block"
  from op obtain w1 where n: "new (OBlock ?z) w = Some (nb, w1)"
    by (auto simp: extend_chain_def Let_def split: bind_splits if_splits)
  note i1 = new_inv [OF inv n]
  from op n i1 obtain pg pm where al: "pmm_alloc (pages w1) = Some (pg, pm)"
    by (auto simp: extend_chain_def split: bind_splits)
  let ?b = "\<lparr>b_data = physical_to_virtual pg, b_used = 0, b_next = 0\<rparr> :: shadowfs_block"
  let ?w2 = "put nb (OBlock ?b) (w1\<lparr>pages := pm\<rparr>)"
  have "do { p \<leftarrow> sinodes ?w2 P;
            w3 \<leftarrow> (if si_head p = 0 then Some (put P (OSInode (p\<lparr>si_head := nb\<rparr>)) ?w2)
                  else do { b \<leftarrow> sblocks ?w2 (last_addr bs); Some (put (last_addr bs) (OBlock (b\<lparr>b_next := nb\<rparr>)) ?w2) });
            p3 \<leftarrow> sinodes w3 P;
            m \<leftarrow> smounts w3 M;
            Some (nb, put M (OSMount (m\<lparr>m_used := m_used m + SIZEOF_BLOCK\<rparr>))
                    (put P (OSInode (p3\<lparr>si_count := si_count p3 + 1\<rparr>)) w3)) } = Some (nb, w')"
    using op n i1 al by (simp add: extend_chain_def Let_def)
  then obtain p :: shadowfs_inode and w3 and p3 :: shadowfs_inode and m :: shadowfs_mount where
    w3: "(if si_head p = 0 then Some (put P (OSInode (p\<lparr>si_head := nb\<rparr>)) ?w2)
          else do { b \<leftarrow> sblocks ?w2 (last_addr bs); Some (put (last_addr bs) (OBlock (b\<lparr>b_next := nb\<rparr>)) ?w2) }) = Some w3"
    and p: "sinodes ?w2 P = Some p"
    and p3: "sinodes w3 P = Some p3" and m: "smounts w3 M = Some m"
    and w': "w' = put M (OSMount (m\<lparr>m_used := m_used m + SIZEOF_BLOCK\<rparr>))
                    (put P (OSInode (p3\<lparr>si_count := si_count p3 + 1\<rparr>)) w3)"
    unfolding Option.bind_eq_Some_conv option.inject prod.inject by blast
  have more: "pages w1 = pages w" "page_mem w1 = page_mem w" "mount_table w1 = mount_table w"
    using n by (auto simp: new_def split: option.splits)
  obtain si where si: "sinodes w P = Some si" "blist (sblocks w) (si_head si) bs" using fb by (auto simp: fblocks_def)
  have "P \<noteq> nb" using si i1 by (auto simp: access_iff)
  then have psi: "p = si" using p si i1 by (simp add: access_iff)
  have nbs: "nb \<notin> fst ` set bs" using llist_objects [OF si(2)] i1 by (fastforce simp: access_iff)
  have bl2: "blist (sblocks ?w2) (si_head si) bs"
    using si(2) by (rule llist_cong) (use i1 in \<open>auto simp: access_iff\<close>)
  have nb2: "sblocks ?w2 nb = Some ?b" by (simp add: access_iff)
  from link_block [OF p [unfolded psi] bl2 nb2 _ _ nbs w3 [unfolded psi]] i1 obtain si' bs' where
    l: "sinodes w3 P = Some si'" "blist (sblocks w3) (si_head si') (bs' @ [(nb, ?b)])" "data bs' = data bs"
      "same_nodes ?w2 w3" "smounts w3 = smounts ?w2" "page_mem w3 = page_mem ?w2" "pages w3 = pages ?w2"
    by auto
  have pm: "P \<noteq> M" using p3 m by (auto simp: access_iff)
  have s2: "same_nodes w ?w2" "smounts ?w2 = smounts w"
    using i1 more by (auto simp: same_nodes_def fun_eq_iff inodes_def files_def smounts_def)
  have m4: "smounts (put P (OSInode (p3\<lparr>si_count := si_count p3 + 1\<rparr>)) w3) M = Some m"
    using m put_sinode_same(2) [OF p3] by simp
  have s4: "same_nodes w3 w'" "sblocks w' = sblocks w3"
    using same_nodes_trans [OF put_sinode_same(1) [OF p3] put_mount_same(1) [OF m4]]
      put_sinode_same(3) [OF p3] put_mount_same(2) [OF m4] unfolding w' by simp_all
  have mw: "smounts w M = Some m" using m l(5) s2(2) by simp
  have wf: "pmm_wf (pages w)" using fb by (simp add: fblocks_def)
  note alc = pa.alloc_Some [OF wf al [unfolded more(1)]]
  have pgs: "pages w' = pm" "page_mem w' = page_mem w" using l more by (simp_all add: w' put_def)
  have new: "physical_to_virtual pg \<notin> fst ` set (data bs)"
  proof
    assume "physical_to_virtual pg \<in> fst ` set (data bs)"
    then obtain d where "d \<in> set (data bs)" "fst d = physical_to_virtual pg" by auto
    then have "virtual_to_physical (physical_to_virtual pg) \<notin> pmm_avail (pages w)"
      using fb unfolding fblocks_def by metis
    then show False using alc by simp
  qed
  have old: "virtual_to_physical (fst d) \<notin> pmm_avail pm" if "d \<in> set (data bs)" for d
    using that fb alc by (auto simp: fblocks_def)
  have newa: "pg \<notin> pmm_avail pm" using alc by simp
  have sP: "sinodes w' P = Some (p3\<lparr>si_count := si_count p3 + 1\<rparr>)" using pm by (simp add: w' access_iff)
  have "blist (sblocks w') (si_head p3) (bs' @ [(nb, ?b)])" using l p3 s4(2) by simp
  then have "fblocks w' P (bs' @ [(nb, ?b)])"
    using fb l(3) new old newa pgs alc sP by (auto simp: fblocks_def image_iff)
  moreover have "smounts w' M = Some (m\<lparr>m_used := m_used m + SIZEOF_BLOCK\<rparr>)" by (simp add: w' access_iff)
  ultimately show ?thesis using l(3) pgs s2 s4(1) l(4) mw
    by (intro exI [of _ bs'] exI [of _ ?b] exI [of _ m]) (auto intro: same_nodes_trans)
qed

section \<open>Writing\<close>

text \<open>The loop appends a prefix of the source; it stops early only when the quota is used up, and
  charges the mount for the block descriptors it allocates, not for their pages.\<close>

definition wrote :: "'a sst_scheme \<Rightarrow> u64 \<Rightarrow> u64 \<Rightarrow> blocks \<Rightarrow> u8 list \<Rightarrow> nat \<Rightarrow> nat \<Rightarrow> 'a sst_scheme \<Rightarrow> bool" where
  "wrote w P M bs src rem j w' \<longleftrightarrow>
     (\<exists>bs' m m'. fblocks w' P bs' \<and> j \<le> rem \<and> length bs \<le> length bs' \<and> length bs' \<le> length bs + (rem + 4095) div 4096 \<and>
        content (page_mem w') (data bs') = content (page_mem w) (data bs) @ take j src \<and> same_nodes w w' \<and>
        smounts w M = Some m \<and> smounts w' M = Some m' \<and> quota m' = quota m \<and>
        m_used m' = m_used m + SIZEOF_BLOCK * of_nat (length bs' - length bs) \<and>
        (j < rem \<longrightarrow> m_used m' \<ge> quota m'))"

lemma last_block_cases:
  assumes "fblocks w P bs"
  shows "needs_block w (last_addr bs) = Some (bs = [] \<or> b_used (snd (last bs)) = SHADOWFS_BLOCK_SIZE)"
proof (cases bs rule: rev_cases)
  case (snoc xs lb)
  obtain l b where lb: "lb = (l, b)" by (cases lb)
  have "sblocks w l = Some b" using fblocks_last [of w P xs l b] assms snoc lb by simp
  moreover have "l \<noteq> 0" using assms snoc lb by (auto simp: fblocks_def dest: llist_objects)
  ultimately show ?thesis using snoc lb by (simp add: needs_block_def)
qed (simp add: needs_block_def last_addr_def)

text \<open>One round of the loop.\<close>

lemma write_round:
  assumes inv: "obj_inv w" and fb: "fblocks w P bs" and m: "smounts w M = Some m"
    and e: "(if need then extend_chain w P M (last_addr bs) else Some (last_addr bs, w)) = Some (l1, w1)"
    and need: "needs_block w (last_addr bs) = Some need"
    and f: "fill_block w1 l1 src rem = Some (k, w2)" and src: "unat rem \<le> length src" and rem: "rem > 0"
  shows "obj_inv w2 \<and> 0 < unat k \<and> unat k \<le> unat rem \<and> (\<exists>bs2 m2. fblocks w2 P bs2 \<and> l1 = last_addr bs2 \<and>
     length bs \<le> length bs2 \<and> length bs2 + (unat rem - unat k + 4095) div 4096 \<le> length bs + (unat rem + 4095) div 4096 \<and>
     content (page_mem w2) (data bs2) = content (page_mem w) (data bs) @ take (unat k) src \<and>
     same_nodes w w2 \<and> smounts w2 M = Some m2 \<and> quota m2 = quota m \<and>
     m_used m2 = m_used m + SIZEOF_BLOCK * of_nat (length bs2 - length bs))"
proof -
  have nd: "need \<longleftrightarrow> bs = [] \<or> b_used (snd (last bs)) = SHADOWFS_BLOCK_SIZE" using last_block_cases [OF fb] need by simp
  have s1: "obj_inv w1"
    using e extend_chain_step [OF inv, of P M "last_addr bs" l1 w1] inv by (auto simp: fs_step_def split: if_splits)
  have s2: "obj_inv w2" using fill_block_step [OF s1 f] fs_step_inv by blast
  obtain bs1 b m1 where b1: "fblocks w1 P (bs1 @ [(l1, b)])" "unat (b_used b) < 4096"
    "content (page_mem w1) (data (bs1 @ [(l1, b)])) = content (page_mem w) (data bs)" "same_nodes w w1"
    "smounts w1 M = Some m1" "quota m1 = quota m"
    "m_used m1 = m_used m + SIZEOF_BLOCK * of_nat (Suc (length bs1) - length bs)" "length bs \<le> Suc (length bs1)"
    "Suc (length bs1) = length bs \<or> (Suc (length bs1) = Suc (length bs) \<and> b_used b = 0)"
  proof (cases need)
    case True
    then obtain bs' b m' where x: "fblocks w1 P (bs' @ [(l1, b)])" "b_used b = 0" "data bs' = data bs" "page_mem w1 = page_mem w"
      "same_nodes w w1" "smounts w M = Some m'" "smounts w1 M = Some (m'\<lparr>m_used := m_used m' + SIZEOF_BLOCK\<rparr>)"
      using extend_chain_content [OF inv fb, of M l1 w1] e by auto
    have "length bs' = length bs" using arg_cong [OF x(3), of length] by simp
    with x m show ?thesis by (intro that [of bs' b "m'\<lparr>m_used := m_used m' + SIZEOF_BLOCK\<rparr>"]) (simp_all add: chunk_def)
  next
    case False
    then obtain xs l b where bs: "bs = xs @ [(l, b)]" using nd by (metis rev_exhaust surj_pair)
    have le: "b_used b \<le> SHADOWFS_BLOCK_SIZE" using fblocks_last [of w P xs l b] fb bs by simp
    moreover have "b_used b \<noteq> SHADOWFS_BLOCK_SIZE" using False nd bs by simp
    ultimately have "b_used b < SHADOWFS_BLOCK_SIZE" by simp
    then have "unat (b_used b) < 4096" by (simp add: word_less_nat_alt)
    then show ?thesis using that [of xs b m] e False bs fb m by simp
  qed
  from fill_block_content [OF b1(1) f src] obtain b' where
    x: "unat k = min (unat rem) (4096 - unat (b_used b))" "fblocks w2 P (bs1 @ [(l1, b')])"
      "content (page_mem w2) (data (bs1 @ [(l1, b')])) = content (page_mem w1) (data (bs1 @ [(l1, b)])) @ take (unat k) src"
    by blast
  have same: "same_nodes w1 w2" "smounts w2 = smounts w1"
  proof -
    obtain b0 b'' q where b0: "sblocks w1 l1 = Some b0" and w2: "w2 = put l1 (OBlock b'') (w1\<lparr>page_mem := q\<rparr>)"
      using f by (auto simp: fill_block_def Let_def split: bind_splits if_splits)
    have "sblocks (w1\<lparr>page_mem := q\<rparr>) l1 = Some b0" using b0 by (simp add: sblocks_def)
    from put_block_same [OF this] show "same_nodes w1 w2" "smounts w2 = smounts w1"
      unfolding w2 by (simp_all add: same_nodes_def fun_eq_iff inodes_def files_def smounts_def)
  qed
  have r0: "0 < unat rem" using rem by (simp add: word_less_nat_alt)
  have "Suc (length bs1) + (unat rem - unat k + 4095) div 4096 \<le> length bs + (unat rem + 4095) div 4096"
    using b1(9)
  proof
    assume "Suc (length bs1) = length bs"
    then show ?thesis by (simp add: div_le_mono)
  next
    assume a: "Suc (length bs1) = Suc (length bs) \<and> b_used b = 0"
    have "Suc ((unat rem - unat k + 4095) div 4096) \<le> (unat rem + 4095) div 4096"
    proof (cases "unat rem \<le> 4096")
      case False
      then have "unat rem + 4095 = (unat rem - unat k + 4095) + 4096" using x(1) a by simp
      then show ?thesis using x(1) by simp
    qed (use a x(1) r0 in simp)
    then show ?thesis using a by simp
  qed
  then have len: "length (bs1 @ [(l1, b')]) + (unat rem - unat k + 4095) div 4096 \<le> length bs + (unat rem + 4095) div 4096"
    "length bs \<le> length (bs1 @ [(l1, b')])" "length (bs1 @ [(l1, b')]) = Suc (length bs1)" using b1(8) by simp_all
  have k: "0 < unat k" "unat k \<le> unat rem" using x(1) b1(2) r0 by simp_all
  show ?thesis
    by (intro conjI exI [of _ "bs1 @ [(l1, b')]"] exI [of _ m1] s2 k x(2) len(1,2) x(3) [unfolded b1(3)]
        same_nodes_trans [OF b1(4) same(1)] b1(6)) (simp_all only: last_addr_snoc same(2) b1(5,7) len(3))
qed

lemma write_loop_wrote:
  assumes "write_loop w P M l src rem wr = Some res" and "obj_inv w" and "fblocks w P bs" and "l = last_addr bs"
    and "unat rem \<le> length src"  and "\<exists>m. smounts w M = Some m"
  shows "\<exists>j. fst res = wr + of_nat j \<and> wrote w P M bs src (unat rem) j (snd res)"
  using assms
proof (induction arbitrary: bs rule: write_loop.raw_induct [rotated, consumes 1, case_names step])
  case (step rec w P M l src rem wr res)
  obtain m :: shadowfs_mount where m: "smounts w M = Some m" using step(7) by blast
  show ?case
  proof (cases "rem = 0 \<or> m_used m \<ge> quota m")
    case True
    then have "res = (wr, w)" using step(2) m by (auto simp: word_gt_0 split: if_splits)
    moreover have "wrote w P M bs src (unat rem) 0 w"
      using step(4) m True by (auto simp: wrote_def)
    ultimately show ?thesis by (intro exI [of _ 0]) simp
  next
    case False
    then have rem: "rem > 0" by (simp add: word_gt_0)
    from False step(2) rem m step(5) obtain need l1 w1 k w2 where
      need: "needs_block w (last_addr bs) = Some need" and
      e: "(if need then extend_chain w P M (last_addr bs) else Some (last_addr bs, w)) = Some (l1, w1)" and
      f: "fill_block w1 l1 src rem = Some (k, w2)" and
      r: "rec w2 P M l1 (drop (unat k) src) (rem - k) (wr + k) = Some res"
      by (fastforce split: bind_splits)
    from write_round [OF step(3,4) m e need f step(6) rem] obtain bs2 m2 where
      x: "obj_inv w2" "unat k \<le> unat rem" "fblocks w2 P bs2" "l1 = last_addr bs2" "length bs \<le> length bs2"
      "content (page_mem w2) (data bs2) = content (page_mem w) (data bs) @ take (unat k) src" "same_nodes w w2"
      "smounts w2 M = Some m2" "quota m2 = quota m"
      "m_used m2 = m_used m + SIZEOF_BLOCK * of_nat (length bs2 - length bs)"
      "length bs2 + (unat rem - unat k + 4095) div 4096 \<le> length bs + (unat rem + 4095) div 4096" by blast
    have rk: "unat (rem - k) = unat rem - unat k" using x(2) by (simp add: unat_sub word_le_nat_alt)
    have "unat (rem - k) \<le> length (drop (unat k) src)" using rk step(6) by simp
    from step(1) [OF r x(1,3,4) this] x(8) obtain j where
      j: "fst res = wr + k + of_nat j" "wrote w2 P M bs2 (drop (unat k) src) (unat (rem - k)) j (snd res)" by blast
    then obtain bs' m' where y: "fblocks (snd res) P bs'" "j \<le> unat rem - unat k" "length bs2 \<le> length bs'"
      "content (page_mem (snd res)) (data bs') = content (page_mem w2) (data bs2) @ take j (drop (unat k) src)"
      "same_nodes w2 (snd res)" "smounts (snd res) M = Some m'" "quota m' = quota m2"
      "m_used m' = m_used m2 + SIZEOF_BLOCK * of_nat (length bs' - length bs2)"
      "j < unat rem - unat k \<longrightarrow> m_used m' \<ge> quota m'" "length bs' \<le> length bs2 + (unat rem - unat k + 4095) div 4096"
      using x(8) rk by (auto simp: wrote_def)
    have "(of_nat (length bs' - length bs) :: u32) = of_nat (length bs2 - length bs) + of_nat (length bs' - length bs2)"
      using x(5) y(3) by (simp flip: of_nat_add)
    then have used: "m_used m' = m_used m + SIZEOF_BLOCK * of_nat (length bs' - length bs)"
      using x(10) y(8) by (simp add: algebra_simps)
    have "take (unat k) src @ take j (drop (unat k) src) = take (unat k + j) src" by (simp add: take_add)
    then have "wrote w P M bs src (unat rem) (unat k + j) (snd res)"
      unfolding wrote_def using x y used m same_nodes_trans [OF x(7) y(5)]
      by (intro exI [of _ bs'] exI [of _ m] exI [of _ m']) auto
    moreover have "fst res = wr + of_nat (unat k + j)" using j(1) by (simp add: add.assoc)
    ultimately show ?thesis by blast
  qed
qed

section \<open>Writing returns\<close>

lemma obj_nonzero: "obj_inv w \<Longrightarrow> objs w a = Some x \<Longrightarrow> a \<noteq> 0"
  by (fastforce simp: obj_inv_def kheap_live_def dest: lives_bounds)

text \<open>With enough heap and enough free pages every write returns: the only other outcome of the
  loop is the panic of an allocator.\<close>

definition enough :: "'a sst_scheme \<Rightarrow> nat \<Rightarrow> bool" where
  "enough w k \<longleftrightarrow> heap_room (heap w) (109 + 104 * k) \<and> k \<le> card (pmm_avail (pages w))"

lemma heap_room_mono: "heap_room s k \<Longrightarrow> j \<le> k \<Longrightarrow> heap_room s j"
  by (auto simp: heap_room_def)

lemma enough_mono: "enough w k \<Longrightarrow> j \<le> k \<Longrightarrow> enough w j"
  by (auto simp: enough_def intro: heap_room_mono)

lemma extend_chain_total:
  assumes inv: "obj_inv w" and fb: "fblocks w P bs" and M: "smounts w M = Some m" and en: "enough w (Suc k)"
  shows "\<exists>nb w'. extend_chain w P M (last_addr bs) = Some (nb, w') \<and> enough w' k"
proof -
  let ?z = "\<lparr>b_data = 0, b_used = 0, b_next = 0\<rparr> :: shadowfs_block"
  have "heap_room (heap w) (109 + 104 * Suc k)" using en by (simp add: enough_def)
  from new_total [OF inv this, of "OBlock ?z"] obtain nb w1 where n: "new (OBlock ?z) w = Some (nb, w1)"
    and room: "heap_room (heap w1) (109 + 104 * k)" by auto
  note i1 = new_inv [OF inv n]
  have pg: "pages w1 = pages w" using n by (auto simp: new_def split: option.splits)
  have wf: "pmm_wf (pages w)" using fb by (simp add: fblocks_def)
  have "pmm_avail (pages w) \<noteq> {}" using en by (auto simp: enough_def)
  then obtain a pm where al: "pmm_alloc (pages w) = Some (a, pm)" using pa.alloc_None [OF wf] by auto
  note alc = pa.alloc_Some [OF wf al]
  let ?b = "\<lparr>b_data = physical_to_virtual a, b_used = 0, b_next = 0\<rparr> :: shadowfs_block"
  let ?w2 = "put nb (OBlock ?b) (w1\<lparr>pages := pm\<rparr>)"
  obtain si where si: "sinodes w P = Some si" "blist (sblocks w) (si_head si) bs" using fb by (auto simp: fblocks_def)
  have ne: "P \<noteq> nb" "M \<noteq> nb" "P \<noteq> M" using si M i1 by (auto simp: access_iff)
  have P2: "sinodes ?w2 P = Some si" "smounts ?w2 M = Some m" using si M i1 ne by (simp_all add: access_iff)
  obtain w3 where w3: "(if si_head si = 0 then Some (put P (OSInode (si\<lparr>si_head := nb\<rparr>)) ?w2)
      else do { b \<leftarrow> sblocks ?w2 (last_addr bs); Some (put (last_addr bs) (OBlock (b\<lparr>b_next := nb\<rparr>)) ?w2) }) = Some w3"
    and k3: "(\<exists>s. sinodes w3 P = Some s)" "smounts w3 M = Some m" "heap w3 = heap ?w2" "pages w3 = pages ?w2"
  proof (cases bs rule: rev_cases)
    case Nil
    then show ?thesis using si P2 ne by (intro that [of "put P (OSInode (si\<lparr>si_head := nb\<rparr>)) ?w2"]) (auto simp: access_iff)
  next
    case (snoc xs lb)
    obtain l b where lb: "lb = (l, b)" by (cases lb)
    have l: "sblocks w l = Some b" using llist_objects [OF si(2), of l b] snoc lb by simp
    then have l2: "sblocks ?w2 l = Some b" "l \<noteq> P" "l \<noteq> M" using i1 si M by (auto simp: access_iff)
    have "si_head si \<noteq> 0" using si(2) snoc lb by (cases xs) auto
    moreover have "sinodes (put l (OBlock (b\<lparr>b_next := nb\<rparr>)) ?w2) P = Some si" "smounts (put l (OBlock (b\<lparr>b_next := nb\<rparr>)) ?w2) M = Some m"
      using l2 P2 by (simp_all add: access_iff)
    ultimately show ?thesis using l2(1) snoc lb by (intro that [of "put l (OBlock (b\<lparr>b_next := nb\<rparr>)) ?w2"]) simp_all
  qed
  obtain s :: shadowfs_inode where s: "sinodes w3 P = Some s" using k3(1) by blast
  have "extend_chain w P M (last_addr bs) = Some (nb, put M (OSMount (m\<lparr>m_used := m_used m + SIZEOF_BLOCK\<rparr>))
      (put P (OSInode (s\<lparr>si_count := si_count s + 1\<rparr>)) w3))"
    using n i1 al [folded pg] P2 w3 k3(2) s by (simp add: extend_chain_def Let_def split del: if_split)
  then have "\<exists>w'. extend_chain w P M (last_addr bs) = Some (nb, w') \<and> heap w' = heap w1 \<and> pages w' = pm"
    using k3 by (intro exI conjI) (assumption, simp_all)
  moreover have "enough w' k" if "heap w' = heap w1" "pages w' = pm" for w'
    using that room en alc by (auto simp: enough_def)
  ultimately show ?thesis by blast
qed

lemma fill_block_total:
  assumes "fblocks w P (bs @ [(l, b)])" and "unat rem \<le> length src"
  shows "\<exists>k w'. fill_block w l src rem = Some (k, w') \<and> heap w' = heap w \<and> pages w' = pages w"
proof -
  have "unat (if rem < SHADOWFS_BLOCK_SIZE - b_used b then rem else SHADOWFS_BLOCK_SIZE - b_used b) \<le> length src"
    using assms(2) by (auto simp: word_less_nat_alt)
  then show ?thesis using fblocks_last [OF assms(1)] by (auto simp: fill_block_def Let_def not_less)
qed

text \<open>One round returns, and uses up one block of the supply exactly when it needs a block.\<close>

lemma write_round_total:
  assumes inv: "obj_inv w" and fb: "fblocks w P bs" and M: "smounts w M = Some m"
    and en: "enough w (e + (unat rem + 4095) div 4096)" and src: "unat rem \<le> length src" and rem: "rem > 0"
  shows "\<exists>need l1 w1 k w2. needs_block w (last_addr bs) = Some need \<and>
    (if need then extend_chain w P M (last_addr bs) else Some (last_addr bs, w)) = Some (l1, w1) \<and>
    fill_block w1 l1 src rem = Some (k, w2) \<and> enough w2 (e + (unat (rem - k) + 4095) div 4096)"
proof (cases "bs = [] \<or> b_used (snd (last bs)) = SHADOWFS_BLOCK_SIZE")
  case True
  have "0 < unat rem" using rem by (simp add: word_less_nat_alt)
  then have "(unat rem + 4095) div 4096 = Suc ((unat rem - 1) div 4096)"
    by (cases "unat rem") auto
  then have "enough w (Suc (e + (unat rem - 1) div 4096))" using en by simp
  from extend_chain_total [OF inv fb M this] obtain nb w1 where
    e: "extend_chain w P M (last_addr bs) = Some (nb, w1)" "enough w1 (e + (unat rem - 1) div 4096)" by blast
  from extend_chain_content [OF inv fb e(1)] obtain bs' b where b: "fblocks w1 P (bs' @ [(nb, b)])" "b_used b = 0" by blast
  from fill_block_total [OF b(1) src] obtain k w2 where
    f: "fill_block w1 nb src rem = Some (k, w2)" "heap w2 = heap w1" "pages w2 = pages w1" by blast
  have "unat k = min (unat rem) 4096" using fill_block_content [OF b(1) f(1) src] b(2) by simp
  then have "unat (rem - k) = unat rem - min (unat rem) 4096" by (simp add: unat_sub word_le_nat_alt)
  then have "(unat (rem - k) + 4095) div 4096 \<le> (unat rem - 1) div 4096" using \<open>0 < unat rem\<close> by (auto intro!: div_le_mono)
  with e(2) f(2,3) have "enough w2 (e + (unat (rem - k) + 4095) div 4096)" by (auto simp: enough_def intro: heap_room_mono)
  then show ?thesis using e(1) f(1) last_block_cases [OF fb] True by auto
next
  case False
  then obtain xs l b where bs: "bs = xs @ [(l, b)]" by (metis rev_exhaust surj_pair)
  from fill_block_total [of w P xs l b, OF fb [unfolded bs] src] obtain k w2 where
    f: "fill_block w l src rem = Some (k, w2)" "heap w2 = heap w" "pages w2 = pages w" by blast
  have "unat k \<le> unat rem" using fill_block_content [OF fb [unfolded bs] f(1) src] by simp
  then have "(unat (rem - k) + 4095) div 4096 \<le> (unat rem + 4095) div 4096"
    by (intro div_le_mono) (simp add: unat_sub word_le_nat_alt)
  then have "enough w2 (e + (unat (rem - k) + 4095) div 4096)"
    using f en by (auto simp: enough_def intro: heap_room_mono)
  then show ?thesis using f(1) last_block_cases [OF fb] False bs by auto
qed

lemma write_loop_total:
  assumes "obj_inv w" and "fblocks w P bs" and "smounts w M = Some m"
    and "enough w (e + (unat rem + 4095) div 4096)" and "unat rem \<le> length src"
  shows "\<exists>res. write_loop w P M (last_addr bs) src rem wr = Some res \<and> enough (snd res) e"
  using assms
proof (induction "unat rem" arbitrary: w bs m rem src wr rule: less_induct)
  case less
  show ?case
  proof (cases "rem = 0 \<or> m_used m \<ge> quota m")
    case True
    moreover have "enough w e" using less.prems(4) by (rule enough_mono) simp
    ultimately show ?thesis using less.prems(3) by (auto simp: write_loop.simps word_gt_0)
  next
    case False
    then have rem: "rem > 0" by (simp add: word_gt_0)
    from write_round_total [OF less.prems(1,2,3,4,5) rem] obtain need l1 w1 k w2 where
      r: "needs_block w (last_addr bs) = Some need"
        "(if need then extend_chain w P M (last_addr bs) else Some (last_addr bs, w)) = Some (l1, w1)"
        "fill_block w1 l1 src rem = Some (k, w2)" "enough w2 (e + (unat (rem - k) + 4095) div 4096)" by blast
    from write_round [OF less.prems(1,2,3) r(2,1,3) less.prems(5) rem] obtain bs2 m2 where
      x: "obj_inv w2" "0 < unat k" "unat k \<le> unat rem" "fblocks w2 P bs2" "l1 = last_addr bs2" "smounts w2 M = Some m2" by blast
    have "unat (rem - k) = unat rem - unat k" using x(3) by (simp add: unat_sub word_le_nat_alt)
    then have "\<exists>res. write_loop w2 P M l1 (drop (unat k) src) (rem - k) (wr + k) = Some res \<and> enough (snd res) e"
      using less.hyps [OF _ x(1,4,6) r(4)] x(2,3,5) less.prems(5) by simp
    then show ?thesis using r(1-3) less.prems(3) False rem by (subst write_loop.simps) auto
  qed
qed

section \<open>Files\<close>

text \<open>An open file \<open>f\<close> on an inode whose blocks hold the bytes \<open>c\<close>.\<close>

definition file_view :: "'a sst_scheme \<Rightarrow> u64 \<Rightarrow> file_t \<Rightarrow> inode \<Rightarrow> blocks \<Rightarrow> u8 list \<Rightarrow> bool" where
  "file_view w f fl ino bs c \<longleftrightarrow> f \<noteq> 0 \<and> files w f = Some fl \<and> f_inode fl \<noteq> 0 \<and> inodes w (f_inode fl) = Some ino \<and>
     i_private ino \<noteq> 0 \<and> fblocks w (i_private ino) bs \<and> c = content (page_mem w) (data bs) \<and>
     i_size ino = of_nat (length c) \<and> length c < 2 ^ 31"

lemma take_wrap:
  fixes pos n sz :: u32
  assumes "unat sz = length c"
  shows "take (unat (if pos + n > sz then sz - pos else n)) (drop (unat pos) c) = take (unat n) (drop (unat pos) c)"
proof (cases "unat pos < length c")
  case True
  then have "unat (sz - pos) = length c - unat pos" using assms by (simp add: unat_sub word_le_nat_alt)
  moreover have "length c - unat pos \<le> unat n" if "pos + n > sz"
  proof (rule ccontr)
    assume "\<not> length c - unat pos \<le> unat n"
    then have "unat pos + unat n < length c" using True by simp
    moreover have "unat (pos + n) \<le> unat pos + unat n" by (simp add: unat_word_ariths)
    ultimately show False using that assms by (simp add: word_less_nat_alt)
  qed
  ultimately show ?thesis by simp
qed simp

lemma shadowfs_read_content:
  assumes v: "file_view w f fl ino bs c"
  shows "\<exists>w'. shadowfs_read w f True n =
      Some (int (length (take (unat n) (drop (unat (f_position fl)) c))), take (unat n) (drop (unat (f_position fl)) c), w') \<and>
    files w' f = Some (fl\<lparr>f_position := f_position fl + of_nat (length (take (unat n) (drop (unat (f_position fl)) c)))\<rparr>)"
proof -
  let ?r = "if f_position fl + n > i_size ino then i_size ino - f_position fl else n"
  let ?bytes = "take (unat n) (drop (unat (f_position fl)) c)"
  have v': "f \<noteq> 0" "files w f = Some fl" "f_inode fl \<noteq> 0" "inodes w (f_inode fl) = Some ino" "i_private ino \<noteq> 0"
    "c = content (page_mem w) (data bs)" "i_size ino = of_nat (length c)" "length c < 2 ^ 31"
    using v by (auto simp: file_view_def)
  obtain si where si: "sinodes w (i_private ino) = Some si" "blist (sblocks w) (si_head si) bs"
    using v by (auto simp: file_view_def fblocks_def)
  have sz: "unat (i_size ino) = length c" using v'(7,8) by (simp add: unat_of_nat)
  have walk: "read_walk w (si_head si) 0 (f_position fl) ?r [] = Some ?bytes"
    using read_walk_content [OF si(2), of 0 "f_position fl" ?r "[]"] v'(6,8) take_wrap [OF sz] by simp
  have len: "length ?bytes < 2 ^ 31" using v'(8) by simp
  then have sint: "sint (of_nat (length ?bytes) :: u32) = int (length ?bytes)"
    by (simp add: signed_of_nat signed_take_bit_int_eq_self)
  have pos: "(0 :: u32) < of_nat (length ?bytes) \<longleftrightarrow> ?bytes \<noteq> []"
    using len by (auto simp: word_less_nat_alt unat_of_nat)
  consider "n = 0" | "n \<noteq> 0" "?r = 0" | "n \<noteq> 0" "?r \<noteq> 0" by blast
  then show ?thesis
  proof cases
    case 1
    then show ?thesis using v' si by (simp add: shadowfs_read_def)
  next
    case 2
    have "?bytes = take (unat ?r) (drop (unat (f_position fl)) c)" using take_wrap [OF sz] by (rule sym)
    then have e: "?bytes = []" unfolding 2(2) by simp
    have "shadowfs_read w f True n = Some (0, [], w)"
      using v'(1-5) si 2 by (simp add: shadowfs_read_def Let_def)
    then show ?thesis unfolding e using v'(2) by simp
  next
    case 3
    let ?k = "of_nat (length ?bytes) :: u32"
    let ?w1 = "put f (OFile (fl\<lparr>f_position := f_position fl + ?k\<rparr>)) w"
    let ?w2 = "if ?k > 0 then put (f_inode fl) (OInode (ino\<lparr>accessed := ucast (rtc_now w)\<rparr>)) ?w1 else ?w1"
    have "shadowfs_read w f True n = Some (sint ?k, ?bytes, ?w2)"
      using v'(1-5) si 3 walk by (simp add: shadowfs_read_def Let_def split del: if_split)
    moreover have "f \<noteq> f_inode fl" using v' by (auto simp: access_iff)
    then have "files ?w2 f = Some (fl\<lparr>f_position := f_position fl + ?k\<rparr>)" by (simp add: access_iff)
    ultimately show ?thesis unfolding sint by blast
  qed
qed

lemma write_returned:
  assumes inv: "obj_inv w" and v: "file_view w f fl ino bs c" and M: "mount_of w ino = Some M" "smounts w M = Some m"
    and n: "unat n \<le> length src" "length c + unat n < 2 ^ 31"
    and op: "shadowfs_write w f (Some src) n = Some (r, w')"
  shows "\<exists>j bs' ino' fl' m'. r = int j \<and> j \<le> unat n \<and> file_view w' f fl' ino' bs' (c @ take j src) \<and>
    f_position fl' = f_position fl + of_nat j \<and> smounts w' M = Some m' \<and>
    m_used m' = m_used m + SIZEOF_BLOCK * of_nat (length bs' - length bs) \<and> quota m' = quota m \<and>
    length bs' \<le> length bs + (unat n + 4095) div 4096 \<and> (j < unat n \<longrightarrow> m_used m' \<ge> quota m') \<and> f_inode fl' = f_inode fl \<and> i_sb ino' = i_sb ino \<and> (\<forall>g. g \<noteq> f \<longrightarrow> files w' g = files w g)"
proof -
  have v': "f \<noteq> 0" "files w f = Some fl" "f_inode fl \<noteq> 0" "inodes w (f_inode fl) = Some ino" "i_private ino \<noteq> 0"
    "fblocks w (i_private ino) bs" "c = content (page_mem w) (data bs)" "i_size ino = of_nat (length c)" "length c < 2 ^ 31"
    using v by (auto simp: file_view_def)
  obtain si where si: "sinodes w (i_private ino) = Some si" "blist (sblocks w) (si_head si) bs"
    using v'(6) by (auto simp: fblocks_def)
  show ?thesis
  proof (cases "n = 0")
    case True
    then have "r = 0" "w' = w" using op v' si M by (auto simp: shadowfs_write_def split: if_splits)
    then show ?thesis using v M True
      by (intro exI [of _ 0] exI [of _ bs] exI [of _ ino] exI [of _ fl] exI [of _ m]) simp
  next
    case False
    have lb: "last_block (sblocks w) 0 (si_head si) = Some (last_addr bs)"
      using last_block_blist [OF si(2), of 0] by (simp add: last_addr_def)
    from False op v' si M lb obtain k w1 where l: "write_loop w (i_private ino) M (last_addr bs) src n 0 = Some (k, w1)"
      by (auto simp: shadowfs_write_def split: if_splits bind_splits)
    from write_loop_wrote [OF l inv v'(6) refl n(1)] M(2) obtain j bs' m' where
      j: "k = of_nat j" "j \<le> unat n" and b: "fblocks w1 (i_private ino) bs'"
      "content (page_mem w1) (data bs') = c @ take j src" and same: "same_nodes w w1"
      and m: "smounts w1 M = Some m'" "m_used m' = m_used m + SIZEOF_BLOCK * of_nat (length bs' - length bs)"
        "j < unat n \<longrightarrow> m_used m' \<ge> quota m'" "quota m' = quota m" "length bs' \<le> length bs + (unat n + 4095) div 4096"
      using v'(7) M(2) by (auto simp: wrote_def)
    have i1: "inodes w1 (f_inode fl) = Some ino" "files w1 f = Some fl" using same v' by (simp_all add: same_nodes_def)
    define ino' where "ino' = (if k > 0 then ino\<lparr>i_size := i_size ino + k, modified := ucast (rtc_now w)\<rparr> else ino\<lparr>i_size := i_size ino + k\<rparr>)"
    define fl' where "fl' = fl\<lparr>f_position := f_position fl + k\<rparr>"
    have w': "w' = put f (OFile fl') (put (f_inode fl) (OInode ino') w1)" "r = sint k"
      using op False v' si M lb l i1 by (auto simp: shadowfs_write_def Let_def fl'_def ino'_def split: if_splits)
    have ne: "f \<noteq> f_inode fl" "f_inode fl \<noteq> f" "i_private ino \<noteq> f" "i_private ino \<noteq> f_inode fl" "M \<noteq> f" "M \<noteq> f_inode fl"
      using v' si M by (auto simp: access_iff)
    have jl: "j < 2 ^ 31" "length (c @ take j src) < 2 ^ 31" "length (take j src) = j" using j n by auto
    have r: "r = int j" using w' j jl by (simp add: signed_of_nat signed_take_bit_int_eq_self)
    have sb: "sblocks w' = sblocks w1" using i1 ne by (auto simp: w' fun_eq_iff sblocks_def access_iff)
    have "fblocks w' (i_private ino) bs'" using b(1) ne sb by (auto simp: fblocks_def w' access_iff)
    then have "file_view w' f fl' ino' bs' (c @ take j src)"
      unfolding file_view_def using v' b(2) jl ne j
      by (auto simp: w' access_iff fl'_def ino'_def)
    moreover have "smounts w' M = Some m'" using m(1) ne by (simp add: w' access_iff)
    moreover have og: "files w' g = files w g" if "g \<noteq> f" for g
    proof -
      have "files w' g = files w1 g" using that i1 by (simp add: w' files_def access_iff)
      then show ?thesis using same by (simp add: same_nodes_def)
    qed
    ultimately show ?thesis using r j m
      by (intro exI [of _ j] exI [of _ bs'] exI [of _ ino'] exI [of _ fl'] exI [of _ m']) (simp add: fl'_def ino'_def og)
  qed
qed

lemma write_returns_room:
  assumes inv: "obj_inv w" and v: "file_view w f fl ino bs c" and M: "mount_of w ino = Some M" "smounts w M = Some m"
    and n: "unat n \<le> length src" and en: "enough w (e + (unat n + 4095) div 4096)"
  shows "\<exists>r w'. shadowfs_write w f (Some src) n = Some (r, w') \<and> enough w' e"
proof -
  have v': "files w f = Some fl" "inodes w (f_inode fl) = Some ino" "fblocks w (i_private ino) bs" using v by (auto simp: file_view_def)
  obtain si where si: "sinodes w (i_private ino) = Some si" "blist (sblocks w) (si_head si) bs" using v'(3) by (auto simp: fblocks_def)
  have lb: "last_block (sblocks w) 0 (si_head si) = Some (last_addr bs)"
    using last_block_blist [OF si(2), of 0] by (simp add: last_addr_def)
  obtain k w1 where l: "write_loop w (i_private ino) M (last_addr bs) src n 0 = Some (k, w1)" "enough w1 e"
    using write_loop_total [OF inv v'(3) M(2) en n, of 0] by auto
  have "same_nodes w w1" using write_loop_wrote [OF l(1) inv v'(3) refl n] M(2) by (auto simp: wrote_def)
  then have "files w1 f = Some fl" "inodes w1 (f_inode fl) = Some ino" using v' by (simp_all add: same_nodes_def)
  moreover have "M \<noteq> 0" using M(2) inv by (auto simp: access_iff obj_nonzero)
  moreover have "enough w e" using en by (rule enough_mono) simp
  ultimately show ?thesis using v' si M lb l by (auto simp: shadowfs_write_def Let_def enough_def)
qed

lemma write_returns:
  assumes "obj_inv w" and "file_view w f fl ino bs c" and "mount_of w ino = Some M" "smounts w M = Some m"
    and "unat n \<le> length src" and "enough w ((unat n + 4095) div 4096)"
  shows "\<exists>r w'. shadowfs_write w f (Some src) n = Some (r, w')"
  using write_returns_room [OF assms(1-5), of 0] assms(6) by auto

section \<open>What a write leaves alone\<close>

text \<open>No directory changes: entries stay, and of the nodes only \<open>P\<close> may change.\<close>

definition keeps_dirs :: "u64 \<Rightarrow> 'a sst_scheme \<Rightarrow> 'a sst_scheme \<Rightarrow> bool" where
  "keeps_dirs P w w' \<longleftrightarrow> sdents w' = sdents w \<and> (\<forall>x. x \<noteq> P \<longrightarrow> sinodes w' x = sinodes w x)"

lemma keeps_dirs_refl: "keeps_dirs P w w"
  by (simp add: keeps_dirs_def)

lemma keeps_dirs_trans: "keeps_dirs P w w1 \<Longrightarrow> keeps_dirs P w1 w2 \<Longrightarrow> keeps_dirs P w w2"
  by (simp add: keeps_dirs_def)

lemma keeps_dirs_put:
  "sblocks w a = Some b \<Longrightarrow> keeps_dirs P w (put a (OBlock b') w)"
  "smounts w a = Some m \<Longrightarrow> keeps_dirs P w (put a (OSMount m') w)"
  "sinodes w P = Some si \<Longrightarrow> keeps_dirs P w (put P (OSInode si') w)"
  "inodes w a = Some i \<Longrightarrow> keeps_dirs P w (put a (OInode i') w)"
  "files w a = Some fl \<Longrightarrow> keeps_dirs P w (put a (OFile fl') w)"
  by (auto simp: keeps_dirs_def fun_eq_iff sdents_def sinodes_def access_iff split: option.splits obj.splits)

lemma keeps_dirs_outside: "objs w' = objs w \<Longrightarrow> keeps_dirs P w w'"
  by (simp add: keeps_dirs_def fun_eq_iff sdents_def sinodes_def)

lemma extend_chain_keeps:
  assumes inv: "obj_inv w" and op: "extend_chain w P M l = Some (nb, w')"
  shows "keeps_dirs P w w'"
proof -
  let ?z = "\<lparr>b_data = 0, b_used = 0, b_next = 0\<rparr> :: shadowfs_block"
  from op obtain w1 where n: "new (OBlock ?z) w = Some (nb, w1)"
    by (auto simp: extend_chain_def Let_def split: bind_splits if_splits)
  note i1 = new_inv [OF inv n]
  from op n i1 obtain pg pm where al: "pmm_alloc (pages w1) = Some (pg, pm)"
    by (auto simp: extend_chain_def split: bind_splits)
  let ?b = "\<lparr>b_data = physical_to_virtual pg, b_used = 0, b_next = 0\<rparr> :: shadowfs_block"
  let ?w2 = "put nb (OBlock ?b) (w1\<lparr>pages := pm\<rparr>)"
  have k2: "keeps_dirs P w ?w2" using i1 by (auto simp: keeps_dirs_def fun_eq_iff sdents_def sinodes_def)
  have "do { p \<leftarrow> sinodes ?w2 P;
            w3 \<leftarrow> (if si_head p = 0 then Some (put P (OSInode (p\<lparr>si_head := nb\<rparr>)) ?w2)
                  else do { b \<leftarrow> sblocks ?w2 l; Some (put l (OBlock (b\<lparr>b_next := nb\<rparr>)) ?w2) });
            p3 \<leftarrow> sinodes w3 P;
            m \<leftarrow> smounts w3 M;
            Some (nb, put M (OSMount (m\<lparr>m_used := m_used m + SIZEOF_BLOCK\<rparr>))
                    (put P (OSInode (p3\<lparr>si_count := si_count p3 + 1\<rparr>)) w3)) } = Some (nb, w')"
    using op n i1 al by (simp add: extend_chain_def Let_def)
  then obtain p :: shadowfs_inode and w3 and p3 :: shadowfs_inode and m :: shadowfs_mount where
    w3: "(if si_head p = 0 then Some (put P (OSInode (p\<lparr>si_head := nb\<rparr>)) ?w2)
          else do { b \<leftarrow> sblocks ?w2 l; Some (put l (OBlock (b\<lparr>b_next := nb\<rparr>)) ?w2) }) = Some w3"
    and p: "sinodes ?w2 P = Some p" and p3: "sinodes w3 P = Some p3" and m: "smounts w3 M = Some m"
    and w': "w' = put M (OSMount (m\<lparr>m_used := m_used m + SIZEOF_BLOCK\<rparr>))
                    (put P (OSInode (p3\<lparr>si_count := si_count p3 + 1\<rparr>)) w3)"
    unfolding Option.bind_eq_Some_conv option.inject prod.inject by blast
  have k3: "keeps_dirs P ?w2 w3"
    using w3 p keeps_dirs_put(3) [OF p] keeps_dirs_put(1) [where w = ?w2 and a = l and P = P] by (auto split: if_splits bind_splits)
  have "smounts (put P (OSInode (p3\<lparr>si_count := si_count p3 + 1\<rparr>)) w3) M = Some m" using m put_sinode_same(2) [OF p3] by simp
  then have "keeps_dirs P w3 w'" unfolding w' by (rule keeps_dirs_trans [OF keeps_dirs_put(3) [OF p3] keeps_dirs_put(2)])
  then show ?thesis using keeps_dirs_trans [OF keeps_dirs_trans [OF k2 k3]] by blast
qed

lemma fill_block_keeps: "fill_block w l src rem = Some (k, w') \<Longrightarrow> keeps_dirs P w w'"
  by (auto simp: fill_block_def Let_def keeps_dirs_def fun_eq_iff sdents_def sinodes_def access_iff split: bind_splits if_splits)

lemma write_loop_keeps:
  assumes "write_loop w P M l src rem wr = Some res" and "obj_inv w"
  shows "keeps_dirs P w (snd res)"
  using assms
proof (induction rule: write_loop.raw_induct [rotated, consumes 1, case_names step])
  case (step rec w P M l src rem wr res)
  show ?case
  proof (cases "res = (wr, w)")
    case False
    from step(2) False obtain need l1 w1 k w2 where
      e: "(if need then extend_chain w P M l else Some (l, w)) = Some (l1, w1)" and
      f: "fill_block w1 l1 src rem = Some (k, w2)" and
      r: "rec w2 P M l1 (drop (unat k) src) (rem - k) (wr + k) = Some res"
      by (fastforce split: bind_splits if_splits)
    have k1: "keeps_dirs P w w1" "obj_inv w1"
      using e extend_chain_keeps [OF step(3)] extend_chain_step [OF step(3), of P M l l1 w1] step(3) keeps_dirs_refl
      by (auto simp: fs_step_def split: if_splits)
    have i2: "obj_inv w2" using fill_block_step [OF k1(2) f] fs_step_inv by blast
    from keeps_dirs_trans [OF keeps_dirs_trans [OF k1(1) fill_block_keeps [OF f]] step(1) [OF r i2]] show ?thesis .
  qed (simp add: keeps_dirs_refl)
qed

lemma write_keeps:
  assumes inv: "obj_inv w" and v: "file_view w f fl ino bs c" and M: "mount_of w ino = Some M" "smounts w M = Some m"
    and n: "unat n \<le> length src" and op: "shadowfs_write w f (Some src) n = Some (r, w')"
  shows "keeps_dirs (i_private ino) w w' \<and> (\<forall>a. a \<noteq> f_inode fl \<longrightarrow> inodes w' a = inodes w a) \<and>
    (\<exists>ino'. inodes w' (f_inode fl) = Some ino' \<and> i_ops ino' = i_ops ino \<and> i_private ino' = i_private ino) \<and>
    (\<exists>fl'. files w' f = Some fl' \<and> f_flags fl' = f_flags fl)"
proof (cases "n = 0")
  case True
  then have "w' = w" using op v M by (auto simp: shadowfs_write_def file_view_def fblocks_def split: if_splits)
  then show ?thesis using v by (auto simp: keeps_dirs_refl file_view_def)
next
  case False
  have v': "files w f = Some fl" "inodes w (f_inode fl) = Some ino" "fblocks w (i_private ino) bs" using v by (auto simp: file_view_def)
  obtain si where si: "sinodes w (i_private ino) = Some si" "blist (sblocks w) (si_head si) bs" using v'(3) by (auto simp: fblocks_def)
  have lb: "last_block (sblocks w) 0 (si_head si) = Some (last_addr bs)"
    using last_block_blist [OF si(2), of 0] by (simp add: last_addr_def)
  from False op v' si M lb obtain k w1 where l: "write_loop w (i_private ino) M (last_addr bs) src n 0 = Some (k, w1)"
    by (auto simp: shadowfs_write_def split: if_splits bind_splits)
  have same: "same_nodes w w1" using write_loop_wrote [OF l inv v'(3) refl n] M(2) by (auto simp: wrote_def)
  then have i1: "inodes w1 (f_inode fl) = Some ino" "files w1 f = Some fl" using v' by (simp_all add: same_nodes_def)
  obtain ino' fl' where w': "w' = put f (OFile fl') (put (f_inode fl) (OInode ino') w1)"
      "i_ops ino' = i_ops ino" "i_private ino' = i_private ino" "f_flags fl' = f_flags fl"
    using op False v' si M lb l i1 by (auto simp: shadowfs_write_def Let_def split: if_splits)
  have ne: "f \<noteq> f_inode fl" using i1 by (auto simp: access_iff)
  have "files (put (f_inode fl) (OInode ino') w1) f = Some fl" using i1 ne by (simp add: access_iff)
  then have "keeps_dirs (i_private ino) w1 w'" unfolding w' using i1 by (intro keeps_dirs_trans [OF keeps_dirs_put(4) keeps_dirs_put(5)])
  then have "keeps_dirs (i_private ino) w w'" using write_loop_keeps [OF l inv] by (auto intro: keeps_dirs_trans)
  moreover have "inodes w' a = inodes w a" if "a \<noteq> f_inode fl" for a
    using that same i1 by (auto simp: w' same_nodes_def inodes_def access_iff fun_eq_iff)
  moreover have "inodes w' (f_inode fl) = Some ino'" "files w' f = Some fl'" using ne by (simp_all add: w' access_iff)
  ultimately show ?thesis using w'(2-4) by blast
qed

end
