(* ===== verification/Shadow_Boot.thy ===== *)
theory Shadow_Boot
  imports Shadow_Dir Shadow_File
begin

text \<open>
  shadowFS from mounting on: with enough heap the operations that allocate return, a fresh mount is
  an empty directory, a file created in it is found again, and what is written is read back. The
  properties of \<open>shadowfs.c\<close> as a whole are stated here, with a booted world as their witness.
\<close>

section \<open>The allocating operations return\<close>

lemma new_room:
  assumes "obj_inv w" and "heap_room (heap w) (k + 104)" and "5 \<le> k"
  obtains p w' where "new x w = Some (p, w')" and "heap_room (heap w') k" and "obj_inv w'" and "p \<noteq> 0"
    and "objs w p = None" and "objs w' = (objs w)(p \<mapsto> x)"
proof -
  from new_total [OF assms(1,2), of x] assms(3) obtain p w' where "new x w = Some (p, w')" "heap_room (heap w') k" by auto
  then show ?thesis using new_inv [OF assms(1)] that by blast
qed

lemma create_inode_total:
  assumes inv: "obj_inv w" and m: "smounts w (sb_private (mount_table w ! i)) = Some m" and room: "heap_room (heap w) (k + 208)"
    and k: "5 \<le> k" and t: "type = VFS_TYPE_FILE \<or> type = VFS_TYPE_DIR"
  shows "\<exists>a w'. shadowfs_create_inode w (Some i) type = Some (a, w') \<and> heap_room (heap w') k"
proof -
  have "heap_room (heap w) ((k + 104) + 104)" using room by (simp add: ac_simps)
  moreover have "5 \<le> k + 104" using k by simp
  ultimately obtain a w1 where
    n1: "new (OInode zero_inode) w = Some (a, w1)" "heap_room (heap w1) (k + 104)" "obj_inv w1" "objs w a = None"
      "objs w1 = (objs w)(a \<mapsto> OInode zero_inode)" using new_room [OF inv, of "k + 104" "OInode zero_inode"] by blast
  from new_room [OF n1(3,2) k, of "OSInode \<lparr>si_head = 0, si_count = 0\<rparr>"] obtain p w2 where
    n2: "new (OSInode \<lparr>si_head = 0, si_count = 0\<rparr>) w1 = Some (p, w2)" "heap_room (heap w2) k" "objs w1 p = None"
      "objs w2 = (objs w1)(p \<mapsto> OSInode \<lparr>si_head = 0, si_count = 0\<rparr>)" by blast
  let ?M = "sb_private (mount_table w ! i)"
  have "?M \<noteq> 0" using inv m obj_nonzero by (auto simp: access_iff)
  moreover have "smounts w2 ?M = Some m" using m n1 n2 by (auto simp: access_iff)
  ultimately show ?thesis using n1(1) n2(1,2) t by (auto simp: shadowfs_create_inode_def Let_def)
qed

lemma link_entry_total:
  assumes si: "sinodes w P = Some si" and dl: "dlist (sdents w) (si_head si) ds"
  shows "\<exists>w'. link_entry w P de = Some w' \<and> heap w' = heap w"
proof (cases ds rule: rev_cases)
  case Nil
  then show ?thesis using si dl by (simp add: link_entry_def)
next
  case (snoc xs ld)
  obtain l d where ld: "ld = (l, d)" by (cases ld)
  have "last_walk (sdents w) (si_head si) = Some l" using last_walk_dlist dl snoc ld by blast
  moreover have "sdents w l = Some d" using llist_objects [OF dl, of l d] snoc ld by simp
  ultimately show ?thesis using si by (simp add: link_entry_def)
qed

lemma create_total:
  assumes inv: "obj_inv w" and d: "dir_on w dir i ds m" and q: "m_used m < quota m" and nn: "name \<notin> set (names ds)"
    and room: "heap_room (heap w) (k + 312)" and k: "5 \<le> k" and t: "type = VFS_TYPE_FILE \<or> type = VFS_TYPE_DIR"
  shows "\<exists>a w'. shadowfs_create w dir name type = Some (a, w') \<and> a \<noteq> 0 \<and> heap_room (heap w') k"
proof -
  let ?M = "sb_private (mount_table w ! i)"
  obtain ino si where ino: "dir \<noteq> 0" "inodes w dir = Some ino" "i_sb ino = Some i" and
    si: "i_private ino \<noteq> 0" "sinodes w (i_private ino) = Some si" and dl: "dlist (sdents w) (si_head si) ds"
    using d by (auto simp: dir_on_def dir_view_def)
  have m: "smounts w ?M = Some m" using d by (simp add: dir_on_def)
  have "heap_room (heap w) ((k + 104) + 208)" using room by (simp add: ac_simps)
  from create_inode_total [OF inv m this _ t] k obtain a w1 where
    c: "shadowfs_create_inode w (Some i) type = Some (a, w1)" "heap_room (heap w1) (k + 104)" by auto
  have s1: "obj_inv w1" "a \<noteq> 0" using create_inode_step [OF inv c(1)] fs_step_inv by blast+
  obtain p and m' :: shadowfs_mount and nd :: inode where
    o1: "objs w1 = (objs w)(a \<mapsto> OInode nd, p \<mapsto> OSInode \<lparr>si_head = 0, si_count = 0\<rparr>,
           ?M \<mapsto> OSMount (m'\<lparr>next_inode_num := next_inode_num m' + 1\<rparr>))" and fr: "objs w a = None" "objs w p = None"
    using create_inode_objs [OF inv c(1)] by (metis option.inject)
  have keep: "objs w1 x = Some o'" if "objs w x = Some o'" "\<forall>m. o' \<noteq> OSMount m" for x o'
    using that o1 fr m by (auto simp: access_iff)
  let ?d0 = "\<lparr>e_name = take (VFS_MAX_NAME - 1) name, e_inode = a, e_next = 0\<rparr> :: shadowfs_dentry"
  from new_room [OF s1(1) c(2) k, of "ODentry ?d0"] obtain de w2 where
    n: "new (ODentry ?d0) w1 = Some (de, w2)" "heap_room (heap w2) k" "de \<noteq> 0" "objs w1 de = None"
       "objs w2 = (objs w1)(de \<mapsto> ODentry ?d0)" by blast
  have keep2: "objs w2 x = Some o'" if "objs w x = Some o'" "\<forall>m. o' \<noteq> OSMount m" for x o'
    using keep [OF that] n by auto
  have si2: "sinodes w2 (i_private ino) = Some si" using si(2) keep2 by (simp add: access_iff)
  have dl2: "dlist (sdents w2) (si_head si) ds" using dl by (rule llist_cong) (simp add: access_iff keep2)
  from link_entry_total [OF si2 dl2, of de] obtain w3 where l: "link_entry w2 (i_private ino) de = Some w3" "heap w3 = heap w2" by blast
  have "de \<notin> fst ` set ds" using llist_objects [OF dl] n(4) keep by (fastforce simp: access_iff)
  with link_entry_view [OF si2 dl2 _ _ n(3) _ l(1)] n(5) have keep3: "\<forall>x o'. x \<noteq> i_private ino \<longrightarrow> objs w2 x = Some o' \<longrightarrow>
      (\<forall>d. o' \<noteq> ODentry d) \<longrightarrow> objs w3 x = Some o'" by (auto simp: access_iff)
  have "objs w2 ?M = Some (OSMount (m'\<lparr>next_inode_num := next_inode_num m' + 1\<rparr>))" using o1 n(4,5) by auto
  moreover have "?M \<noteq> i_private ino" using m si by (auto simp: access_iff)
  ultimately have "smounts w3 ?M = Some (m'\<lparr>next_inode_num := next_inode_num m' + 1\<rparr>)" using keep3 by (simp add: access_iff)
  then show ?thesis
    using ino si m q exists_walk_dlist [OF dl, of name] nn c s1 n l
    by (auto simp: shadowfs_create_def mount_of_def)
qed

section \<open>Mounting\<close>

lemma find_mount_loop_cong:
  "map mount_point xs = map mount_point ys \<Longrightarrow> find_mount_loop xs i p b l = find_mount_loop ys i p b l"
proof (induction xs arbitrary: ys i b l)
  case (Cons x xs)
  then obtain y zs where "ys = y # zs" "mount_point x = mount_point y" "map mount_point xs = map mount_point zs" by auto
  then show ?case using Cons.IH by (simp add: Let_def)
qed simp

lemma find_mount_cong:
  "map mount_point (mount_table w) = map mount_point (mount_table w') \<Longrightarrow> mount_count w = mount_count w' \<Longrightarrow>
    vfs_find_mount w p = vfs_find_mount w' p"
  unfolding vfs_find_mount_def by (intro find_mount_loop_cong) (simp flip: take_map)

lemma mount_total:
  assumes inv: "obj_inv w" and tab: "length (mount_table w) = VFS_MAX_MOUNTS" "mount_count w < VFS_MAX_MOUNTS"
    and path: "\<forall>i < mount_count w. mount_point (mount_table w ! i) \<noteq> path" "length path < VFS_MAX_PATH"
    and q: "q \<le> ucast (pmm_free_pages (pages w) * PAGE_SIZE) div 2" and room: "heap_room (heap w) (k + 312)" and k: "5 \<le> k"
  shows "\<exists>w' root. shadowfs_mount w path q = Some (0, w') \<and> obj_inv w' \<and> heap_room (heap w') k \<and> pages w' = pages w \<and>
    file_table w' = file_table w \<and> vfs_find_mount w' path = Some (mount_count w) \<and> sb_root (mount_table w' ! mount_count w) = root \<and>
    dir_on w' root (mount_count w) [] \<lparr>quota = q, m_used = 0, next_inode_num = 2, root_inode = root\<rparr> \<and>
    map mount_point (mount_table w') = (map mount_point (mount_table w))[mount_count w := path] \<and> mount_count w' = Suc (mount_count w) \<and>
    (\<forall>ino. inodes w' root = Some ino \<longrightarrow> i_ops ino = Some SHADOWFS)"
proof -
  let ?n = "mount_count w" and ?m0 = "\<lparr>quota = q, m_used = 0, next_inode_num = 1, root_inode = 0\<rparr> :: shadowfs_mount"
  have "heap_room (heap w) ((k + 208) + 104)" using room by (simp add: ac_simps)
  moreover have "5 \<le> k + 208" using k by simp
  ultimately obtain M w1 where n: "new (OSMount ?m0) w = Some (M, w1)" "heap_room (heap w1) (k + 208)" "obj_inv w1" "M \<noteq> 0"
    "objs w1 = (objs w)(M \<mapsto> OSMount ?m0)" using new_room [OF inv, of "k + 208" "OSMount ?m0"] by blast
  note t1 = new_tables [OF n(1)]
  define w2 where "w2 = snd (vfs_mount w1 path SHADOWFS M)"
  let ?sb = "\<lparr>mount_point = path, sb_root = 0, sb_ops = Some SHADOWFS, sb_private = M, sb_flags = 0\<rparr>"
  have w2: "w2 = w1\<lparr>mount_table := (mount_table w)[?n := ?sb], mount_count := Suc ?n\<rparr>"
    and vm: "vfs_mount w1 path SHADOWFS M = (0, w2)"
    using tab path t1 by (auto simp: w2_def vfs_mount_def Let_def)
  have fm: "vfs_find_mount w2 path = Some ?n" using vfs_mount_found [OF _ path(2) vm] t1 tab by simp
  have inv2: "obj_inv w2" using n(3) by (simp add: w2 obj_inv_def)
  have mt2: "mount_table w2 ! ?n = ?sb" using tab by (simp add: w2)
  have M2: "smounts w2 (sb_private (mount_table w2 ! ?n)) = Some ?m0" using n(5) mt2 by (simp add: w2 access_iff)
  have "heap_room (heap w2) (k + 208)" using n(2) by (simp add: w2)
  from create_inode_total [OF inv2 M2 this k, of VFS_TYPE_DIR] obtain r w3 where
    c: "shadowfs_create_inode w2 (Some ?n) VFS_TYPE_DIR = Some (r, w3)" "heap_room (heap w3) k" by auto
  have s3: "obj_inv w3" "r \<noteq> 0" using create_inode_step [OF inv2 c(1)] fs_step_inv by blast+
  obtain p and m' :: shadowfs_mount and nd :: inode where
    o3: "objs w3 = (objs w2)(r \<mapsto> OInode nd, p \<mapsto> OSInode \<lparr>si_head = 0, si_count = 0\<rparr>,
           M \<mapsto> OSMount (m'\<lparr>next_inode_num := next_inode_num m' + 1\<rparr>))" and
    fr: "objs w2 r = None" "objs w2 p = None" "objs w2 M = Some (OSMount m')" "r \<noteq> p" "p \<noteq> 0" "i_private nd = p" "i_sb nd = Some ?n"
      "mount_table w3 = mount_table w2" "i_ops nd = Some SHADOWFS"
    using create_inode_objs [OF inv2 c(1)] mt2 by (metis option.inject superblock.select_convs(4))
  have ne: "M \<noteq> r" "M \<noteq> p" using fr by auto
  have m': "m' = ?m0" using fr(3) M2 mt2 by (simp add: access_iff)
  let ?m3 = "?m0\<lparr>next_inode_num := 2\<rparr>"
  have M3: "smounts w3 M = Some ?m3" using o3 by (simp add: access_iff m')
  define w4 where "w4 = put M (OSMount (?m3\<lparr>root_inode := r\<rparr>))
    (w3\<lparr>mount_table := (mount_table w3)[?n := (mount_table w3 ! ?n)\<lparr>sb_root := r\<rparr>]\<rparr>)"
  have "shadowfs_mount w path q = Some (0, w4)"
    using q n(1,4) vm fm c(1) s3(2) M3 by (simp add: shadowfs_mount_def w4_def Let_def not_less)
  moreover have "obj_inv w4" using s3(1) M3 unfolding w4_def by (intro put_inv) (auto simp: obj_inv_def access_iff)
  moreover have t4: "mount_table w4 = (mount_table w)[?n := ?sb\<lparr>sb_root := r\<rparr>]" using tab fr(8) by (simp add: w4_def w2)
  moreover have "heap w4 = heap w3" "mount_count w4 = mount_count w2" "pages w4 = pages w" "file_table w4 = file_table w"
    using create_inode_rest [OF c(1)] t1 n(1) by (auto simp: w4_def w2 put_def new_def split: option.splits)
  moreover have "dir_on w4 r ?n [] \<lparr>quota = q, m_used = 0, next_inode_num = 2, root_inode = r\<rparr>"
  proof -
    have "sb_private (mount_table w4 ! ?n) = M" using tab by (simp add: t4)
    moreover have "objs w4 = (objs w3)(M \<mapsto> OSMount (?m3\<lparr>root_inode := r\<rparr>))" by (simp add: w4_def)
    ultimately show ?thesis using o3 fr(4-7) ne s3(2) by (simp add: dir_on_def dir_view_def access_iff)
  qed
  moreover have "map mount_point (mount_table w4) = (map mount_point (mount_table w))[?n := path]" unfolding t4 by (simp add: map_update)
  moreover have "inodes w4 r = Some nd" "mount_count w2 = Suc ?n" using o3 fr(4) ne by (simp_all add: w4_def access_iff w2)
  moreover have "vfs_find_mount w4 path = vfs_find_mount w2 path"
    using create_inode_rest [OF c(1)] t4 by (intro find_mount_cong) (auto simp: w4_def w2 put_def map_update)
  ultimately show ?thesis using c(2) fm tab fr(9) by (intro exI [of _ w4] exI [of _ r]) simp
qed

section \<open>A booted system\<close>

text \<open>The state after boot with eight physical pages, two of them in use, and a shadowFS on the
  root directory with one empty file in it that is open twice.\<close>

definition boot_world :: sst where
  "boot_world = \<lparr>heap = mem_init (\<lambda>_. \<lparr>bh_size = 0, bh_free = 0, bh_next = 0\<rparr>), objs = Map.empty,
     mount_table = replicate VFS_MAX_MOUNTS \<lparr>mount_point = '''', sb_root = 0, sb_ops = None, sb_private = 0, sb_flags = 0\<rparr>,
     mount_count = 0, file_table = replicate VFS_MAX_FDS 0,
     pages = \<lparr>bitmap = (\<lambda>_. 0x03), total_pages = 8, used_pages = 2\<rparr>, page_mem = (\<lambda>_ _. 0), rtc_now = 0\<rparr>"

lemma boot_inv: "obj_inv boot_world" "heap_room (heap boot_world) 10000"
  by (auto simp: boot_world_def obj_inv_def mem_init_inv heap_room_def mem_init_blocks)

lemma boot_mounted:
  "\<exists>w root. shadowfs_mount boot_world ''/'' 8192 = Some (0, w) \<and> obj_inv w \<and> heap_room (heap w) 9000 \<and>
     pages w = pages boot_world \<and> dir_on w root 0 [] \<lparr>quota = 8192, m_used = 0, next_inode_num = 2, root_inode = root\<rparr>"
proof -
  have "heap_room (heap boot_world) (9000 + 312)" using boot_inv(2) by (rule heap_room_mono) simp
  from mount_total [OF boot_inv(1) _ _ _ _ _ this, of "''/''" 8192] show ?thesis
    by (auto simp: boot_world_def pmm_free_pages_def)
qed

lemma boot_file:
  "\<exists>(w :: sst) a n m. obj_inv w \<and> heap_room (heap w) 8000 \<and> pages w = pages boot_world \<and> a \<noteq> 0 \<and> inodes w a = Some n \<and> i_size n = 0 \<and>
     i_sb n = Some 0 \<and> i_private n \<noteq> 0 \<and> sinodes w (i_private n) = Some \<lparr>si_head = 0, si_count = 0\<rparr> \<and>
     smounts w (sb_private (mount_table w ! 0)) = Some m \<and> quota m = 8192 \<and> m_used m = 144"
proof -
  obtain w :: sst and root where w: "obj_inv w" "heap_room (heap w) 9000" "pages w = pages boot_world" and
    d: "dir_on w root 0 [] \<lparr>quota = 8192, m_used = 0, next_inode_num = 2, root_inode = root\<rparr>" using boot_mounted by blast
  have "heap_room (heap w) (8000 + 312)" using w(2) by (rule heap_room_mono) simp
  from create_total [OF w(1) d _ _ this, of "''a''" VFS_TYPE_FILE] obtain a w' where
    c: "shadowfs_create w root ''a'' VFS_TYPE_FILE = Some (a, w')" "a \<noteq> 0" "heap_room (heap w') 8000" by auto
  have "obj_inv w'" using create_step [OF w(1) c(1)] fs_step_inv by blast
  then show ?thesis using create_view [OF w(1) d c(1,2)] c w(3) unfolding dir_on_def
    by (intro exI [of _ w'] exI [of _ a]) auto
qed

lemma boot_enough: "heap_room (heap w) 317 \<Longrightarrow> pages w = pages boot_world \<Longrightarrow> enough w 2"
proof -
  assume a: "heap_room (heap w) 317" "pages w = pages boot_world"
  have "{0x2000, 0x3000} \<subseteq> pmm_avail (pages boot_world)"
    by (auto simp: pmm_avail_def boot_world_def bitmap_test_def intro: exI [of _ 2] exI [of _ 3])
  then have "card {0x2000, 0x3000 :: u64} \<le> card (pmm_avail (pages boot_world))" by (rule card_mono [rotated]) simp
  with a show "enough w 2" by (simp add: enough_def)
qed

definition two_files :: "sst \<Rightarrow> u64 \<Rightarrow> u64 \<Rightarrow> inode \<Rightarrow> u8 list \<Rightarrow> u32 \<Rightarrow> bool" where
  "two_files w f g ino c u \<longleftrightarrow> obj_inv w \<and> f \<noteq> g \<and>
     (\<exists>fl bs. file_view w f fl ino bs c \<and> (\<exists>gl. file_view w g gl ino bs c \<and> f_inode gl = f_inode fl \<and> f_position gl = 0)) \<and>
     (\<exists>M m. mount_of w ino = Some M \<and> smounts w M = Some m \<and> m_used m = u \<and> quota m = 8192)"

lemma boot_open: "\<exists>w f g ino. two_files w f g ino [] 144 \<and> enough w 2"
proof -
  obtain w :: sst and a n m where w: "obj_inv w" "heap_room (heap w) 8000" "pages w = pages boot_world" and
    n: "a \<noteq> 0" "inodes w a = Some n" "i_size n = 0" "i_sb n = Some 0" "i_private n \<noteq> 0"
      "sinodes w (i_private n) = Some \<lparr>si_head = 0, si_count = 0\<rparr>" and
    m: "smounts w (sb_private (mount_table w ! 0)) = Some m" "quota m = 8192" "m_used m = 144" using boot_file by blast
  let ?fl = "\<lparr>f_inode = a, f_position = 0, f_flags = O_RDWR, f_ref_count = 1, f_private = 0\<rparr> :: file_t"
  have "heap_room (heap w) ((400 + 104) + 104)" using w(2) by (rule heap_room_mono) simp
  then obtain f w1 where f: "new (OFile ?fl) w = Some (f, w1)" "heap_room (heap w1) (400 + 104)" "obj_inv w1" "f \<noteq> 0"
    "objs w f = None" "objs w1 = (objs w)(f \<mapsto> OFile ?fl)" using new_room [OF w(1), of "400 + 104" "OFile ?fl"] by auto
  then obtain g w2 where g: "new (OFile ?fl) w1 = Some (g, w2)" "heap_room (heap w2) 400" "obj_inv w2" "g \<noteq> 0"
    "objs w1 g = None" "objs w2 = (objs w1)(g \<mapsto> OFile ?fl)" using new_room [OF f(3,2), of "OFile ?fl"] by auto
  have keep: "objs w2 x = Some o'" if "objs w x = Some o'" for x o' using that f g by auto
  have fl: "files w2 f = Some ?fl" "files w2 g = Some ?fl" "f \<noteq> g" using f g by (auto simp: access_iff)
  have pg: "pages w2 = pages boot_world" "mount_table w2 = mount_table w"
    using f(1) g(1) w(3) by (auto simp: new_def split: option.splits)
  have en: "enough w2 2" using boot_enough [OF heap_room_mono [OF g(2)] pg(1)] by simp
  have si: "inodes w2 a = Some n" "sinodes w2 (i_private n) = Some \<lparr>si_head = 0, si_count = 0\<rparr>"
    "smounts w2 (sb_private (mount_table w2 ! 0)) = Some m" using n m keep pg(2) by (simp_all add: access_iff)
  have "fblocks w2 (i_private n) []" using si pg by (simp add: fblocks_def boot_world_def pmm_wf_def)
  then have "file_view w2 f ?fl n [] []" "file_view w2 g ?fl n [] []"
    using si n fl f(4) g(4) by (simp_all add: file_view_def)
  then have "two_files w2 f g n [] 144"
    using si(3) g(3) fl(3) n(4) m unfolding two_files_def mount_of_def by fastforce
  then show ?thesis using en by blast
qed

lemma two_files_write:
  assumes t: "two_files w f g ino [] 144" and en: "enough w 2" and src: "unat n = length src" "length src \<le> 4096"
  shows "\<exists>w' ino' u. shadowfs_write w f (Some src) n = Some (int (length src), w') \<and> two_files w' f g ino' src u \<and> enough w' 1 \<and> u \<le> 168"
proof -
  obtain fl gl bs M m where v: "obj_inv w" "file_view w f fl ino bs []" "mount_of w ino = Some M" "smounts w M = Some m"
    "m_used m = 144" "quota m = 8192" "f \<noteq> g" and g: "file_view w g gl ino bs []" "f_inode gl = f_inode fl" "f_position gl = 0"
    using t by (auto simp: two_files_def)
  have "(unat n + 4095) div 4096 \<le> 1" using src by simp
  then have "1 + (unat n + 4095) div 4096 \<le> 2" by simp
  with en have "enough w (1 + (unat n + 4095) div 4096)" by (rule enough_mono)
  then obtain r w' where op: "shadowfs_write w f (Some src) n = Some (r, w')" "enough w' 1"
    using write_returns_room [OF v(1-4), of n src 1] src(1) by force
  from write_returned [OF v(1-4) _ _ op(1)] src obtain j bs' ino' fl' m' where
    x: "r = int j" "j \<le> unat n" "file_view w' f fl' ino' bs' (take j src)" "smounts w' M = Some m'"
      "m_used m' = m_used m + SIZEOF_BLOCK * of_nat (length bs' - length bs)" "quota m' = quota m"
      "length bs' \<le> length bs + (unat n + 4095) div 4096" "j < unat n \<longrightarrow> m_used m' \<ge> quota m'"
      "f_inode fl' = f_inode fl" "\<forall>g. g \<noteq> f \<longrightarrow> files w' g = files w g" "i_sb ino' = i_sb ino" by fastforce
  have "length bs' - length bs \<le> 1" using x(7) src by linarith
  then have used: "m_used m' \<le> 168" using x(5) v(5) by (cases "length bs' - length bs") auto
  have "\<not> m_used m' \<ge> quota m'" using used x(6) v(6) by (auto simp: word_le_nat_alt)
  then have j: "j = length src" using x(2,8) src(1) by (metis le_neq_implies_less)
  have s: "fs_step w w'" using write_step [OF v(1) op(1)] .
  have "mount_of w' ino' = Some M" using s v(3) x(11) by (simp add: mount_of_def fs_step_def vfs_frame_def split: option.splits)
  moreover have "file_view w' g gl ino' bs' src" using x(3,9,10) j g v(7) unfolding file_view_def by (metis take_all_iff order_refl)
  ultimately have "two_files w' f g ino' src (m_used m')"
    using x(3,4,6,9) j v(6,7) g(2,3) fs_step_inv [OF s] unfolding two_files_def by fastforce
  then show ?thesis using op x(1) j used by blast
qed

lemma boot_written: "\<exists>w f g ino u. two_files w f g ino [72, 105, 33] u \<and> enough w 1 \<and> u \<le> 168"
  using boot_open two_files_write [of _ _ _ _ 3 "[72, 105, 33]"] by fastforce

lemma file_view_seek: "file_view w g fl ino bs c \<Longrightarrow> file_view (put g (OFile (fl\<lparr>f_position := p\<rparr>)) w) g (fl\<lparr>f_position := p\<rparr>) ino bs c"
proof -
  assume v: "file_view w g fl ino bs c"
  then have "objs w g = Some (OFile fl)" by (simp add: file_view_def access_iff)
  then have "sblocks (put g (OFile (fl\<lparr>f_position := p\<rparr>)) w) = sblocks w" by (auto simp: fun_eq_iff sblocks_def)
  with v show ?thesis by (auto simp: file_view_def fblocks_def access_iff)
qed

text \<open>C17: \<open>shadowfs_read\<close> returns exactly the bytes of the file from the current position on, at most
  as many as asked for and none past the end, for every position and size (including
  positions past the end and sums that wrap around), and advances the position by that many.\<close>

theorem shadowfs_read_slice:
  assumes v: "file_view w f fl ino bs c"
  shows "\<exists>w'. shadowfs_read w f True n =
      Some (int (length (take (unat n) (drop (unat (f_position fl)) c))), take (unat n) (drop (unat (f_position fl)) c), w') \<and>
    files w' f = Some (fl\<lparr>f_position := f_position fl + of_nat (length (take (unat n) (drop (unat (f_position fl)) c)))\<rparr>)"
  using v by (rule shadowfs_read_content)

theorem shadowfs_read_slice_witness:
  "\<exists>w f w'. shadowfs_read (w :: sst) f True 2 = Some (2, [105, 33], w')"
proof -
  obtain w f g ino u where "two_files w f g ino [72, 105, 33] u" using boot_written by blast
  then obtain fl bs where v: "file_view w g fl ino bs [72, 105, 33]" "f_position fl = 0" by (auto simp: two_files_def)
  define w1 where "w1 = put g (OFile (fl\<lparr>f_position := 1\<rparr>)) w"
  have "file_view w1 g (fl\<lparr>f_position := 1\<rparr>) ino bs [72, 105, 33]"
    using v(1) unfolding w1_def by (rule file_view_seek)
  from shadowfs_read_slice [OF this, of 2] show ?thesis by auto
qed

text \<open>What \<open>shadowfs_write\<close> does, at any position: the bytes go to the end of the file, the position moves on by their number,
  and each block added is charged to the quota with the 24 bytes of its descriptor, not with the 4096 bytes of its page.\<close>

lemma shadowfs_write_appends:
  assumes inv: "obj_inv w" and v: "file_view w f fl ino bs c" and M: "mount_of w ino = Some M" "smounts w M = Some m"
    and n: "unat n \<le> length src" "length c + unat n < 2 ^ 31" and en: "enough w ((unat n + 4095) div 4096)"
  shows "\<exists>j w' bs' ino' fl' m'. shadowfs_write w f (Some src) n = Some (int j, w') \<and> j \<le> unat n \<and>
    file_view w' f fl' ino' bs' (c @ take j src) \<and> f_position fl' = f_position fl + of_nat j \<and> smounts w' M = Some m' \<and>
    m_used m' = m_used m + SIZEOF_BLOCK * of_nat (length bs' - length bs) \<and> quota m' = quota m \<and>
    length bs' \<le> length bs + (unat n + 4095) div 4096 \<and> (j < unat n \<longrightarrow> m_used m' \<ge> quota m')"
proof -
  obtain r w' where "shadowfs_write w f (Some src) n = Some (r, w')" using write_returns [OF inv v M n(1) en] by blast
  with write_returned [OF inv v M n this] show ?thesis by blast
qed

text \<open>With quota left for every block it may add, a write takes all the bytes.\<close>

lemma charged_less:
  assumes "unat (u :: u32) + 24 * k < unat (q :: u32)" "i \<le> k"
  shows "u + SIZEOF_BLOCK * of_nat i < q"
proof -
  have b: "unat u + 24 * i < unat q" using assms by auto
  then have "unat u + 24 * i < 2 ^ 32" using unsigned_less [of q, where ?'a = nat] by simp
  moreover have "u + SIZEOF_BLOCK * of_nat i = of_nat (unat u + 24 * i)" by simp
  ultimately have "unat (u + SIZEOF_BLOCK * of_nat i) = unat u + 24 * i" by (simp only: unat_of_nat) (simp add: take_bit_nat_eq_self)
  then show ?thesis using b by (simp add: word_less_nat_alt)
qed

lemma shadowfs_write_all:
  assumes "obj_inv w" and "file_view w f fl ino bs c" and "mount_of w ino = Some M" "smounts w M = Some m"
    and "unat n \<le> length src" "length c + unat n < 2 ^ 31" and "enough w ((unat n + 4095) div 4096)"
    and q: "unat (m_used m) + 24 * ((unat n + 4095) div 4096) < unat (quota m)"
  shows "\<exists>w' bs' ino' fl'. shadowfs_write w f (Some src) n = Some (int (unat n), w') \<and>
    file_view w' f fl' ino' bs' (c @ take (unat n) src) \<and> f_position fl' = f_position fl + n"
proof -
  from shadowfs_write_appends [OF assms(1-7)] obtain j w' bs' ino' fl' and m' :: shadowfs_mount where
    x: "shadowfs_write w f (Some src) n = Some (int j, w')" "j \<le> unat n" "file_view w' f fl' ino' bs' (c @ take j src)"
      "f_position fl' = f_position fl + of_nat j" "m_used m' = m_used m + SIZEOF_BLOCK * of_nat (length bs' - length bs)"
      "quota m' = quota m" "length bs' \<le> length bs + (unat n + 4095) div 4096" "j < unat n \<longrightarrow> m_used m' \<ge> quota m'"
    by blast
  have "m_used m' < quota m'" unfolding x(5,6) by (rule charged_less [OF q]) (use x(7) in simp)
  with x(2,8) have "j = unat n" by (auto simp: not_le [symmetric] intro: ccontr)
  with x(1,3,4) show ?thesis by auto
qed

text \<open>The contract of a write in \<open>vfs.h\<close>: the bytes replace those from the current position on.\<close>

definition write_at :: "u8 list \<Rightarrow> nat \<Rightarrow> u8 list \<Rightarrow> u8 list" where
  "write_at c k xs = take k c @ xs @ drop (k + length xs) c"

lemma write_at_end: "write_at c (length c) xs = c @ xs"
  by (simp add: write_at_def)

lemma write_at_inside: "k < length c \<Longrightarrow> xs \<noteq> [] \<Longrightarrow> write_at c k xs \<noteq> c @ xs"
proof
  assume a: "k < length c" "xs \<noteq> []" and "write_at c k xs = c @ xs"
  then have "length (write_at c k xs) = length c + length xs" by simp
  moreover have "0 < length xs" using a(2) by simp
  ultimately show False using a(1) by (simp add: write_at_def del: length_greater_0_conv)
qed



text \<open>C26: The position is ignored. \<open>vfs.h\<close> says that a write goes to the current position of the file. \<open>shadowfs_write\<close> at a
  position before the end does not: with quota and memory left it reports all bytes as written and advances the position by
  their number, but the bytes are put after the end of the file and the bytes at the position are kept, which is never what the
  contract asks for.\<close>

theorem shadowfs_write_ignores_position:
  assumes "obj_inv w" and "file_view w f fl ino bs c" and "mount_of w ino = Some M" "smounts w M = Some m"
    and "unat n \<le> length src" "length c + unat n < 2 ^ 31" and "enough w ((unat n + 4095) div 4096)"
    and "unat (m_used m) + 24 * ((unat n + 4095) div 4096) < unat (quota m)"
    and p: "unat (f_position fl) < length c" and n: "n \<noteq> 0"
  shows "\<exists>w' bs' ino' fl' c'. shadowfs_write w f (Some src) n = Some (int (unat n), w') \<and> file_view w' f fl' ino' bs' c' \<and>
    f_position fl' = f_position fl + n \<and> c' = c @ take (unat n) src \<and>
    c' \<noteq> write_at c (unat (f_position fl)) (take (unat n) src)"
proof -
  have "take (unat n) src \<noteq> []" using n assms(5) by (auto simp: unat_eq_zero)
  with write_at_inside [OF p this] shadowfs_write_all [OF assms(1-8)] show ?thesis by metis
qed

text \<open>After boot, with \<open>Hi!\<close> in a file, \<open>J\<close> is written at position 1: the file then holds \<open>Hi!J\<close>.\<close>

theorem shadowfs_write_ignores_position_witness:
  "\<exists>(w :: sst) f fl ino bs w' fl' ino' bs'. file_view w f fl ino bs [72, 105, 33] \<and> f_position fl = 1 \<and>
     shadowfs_write w f (Some [74]) 1 = Some (1, w') \<and> file_view w' f fl' ino' bs' [72, 105, 33, 74] \<and> write_at [72, 105, 33] 1 [74] = [72, 74, 33]"
proof -
  obtain w f g ino u where t: "two_files w f g ino [72, 105, 33] u" "enough w 1" "u \<le> 168" using boot_written by blast
  then obtain fl bs M m where v: "obj_inv w" "file_view w g fl ino bs [72, 105, 33]" "mount_of w ino = Some M" "smounts w M = Some m"
      "m_used m = u" "quota m = 8192" by (auto simp: two_files_def)
  define w1 where "w1 = put g (OFile (fl\<lparr>f_position := 1\<rparr>)) w"
  have v1: "file_view w1 g (fl\<lparr>f_position := 1\<rparr>) ino bs [72, 105, 33]" using v(2) unfolding w1_def by (rule file_view_seek)
  have o: "objs w g = Some (OFile fl)" using v(2) by (simp add: file_view_def access_iff)
  have "obj_inv w1" unfolding w1_def by (rule put_inv [OF v(1) o]) simp
  moreover have "mount_of w1 ino = Some M" "smounts w1 M = Some m" "enough w1 1"
    using v(3,4) o t(2) unfolding w1_def by (auto simp: mount_of_def smounts_def enough_def split: option.splits)
  moreover have "unat u + 24 < 8192" using t(3) by (simp add: word_le_nat_alt)
  ultimately have "\<exists>w' bs' ino' fl'. shadowfs_write w1 g (Some [74]) 1 = Some (1, w') \<and> file_view w' g fl' ino' bs' [72, 105, 33, 74]"
    using shadowfs_write_ignores_position [of w1 g "fl\<lparr>f_position := 1\<rparr>" ino bs "[72, 105, 33]" M m 1 "[74]"] v1 v(5,6) by auto
  moreover have "f_position (fl\<lparr>f_position := 1\<rparr>) = 1" "write_at [72, 105, 33] 1 [74] = [72, 74, 33 :: u8]" by (simp_all add: write_at_def)
  ultimately show ?thesis using v1 by blast
qed

text \<open>What one open file writes, every other open file on the same inode reads back, at its own
  position: the read returns the slice of the old contents followed by the bytes the write reported.\<close>

theorem shadowfs_write_then_read:
  assumes inv: "obj_inv w" and v: "file_view w f fl ino bs c" and M: "mount_of w ino = Some M" "smounts w M = Some m"
    and n: "unat n \<le> length src" "length c + unat n < 2 ^ 31" and en: "enough w ((unat n + 4095) div 4096)"
    and g: "g \<noteq> 0" "g \<noteq> f" "files w g = Some gl" "f_inode gl = f_inode fl"
  shows "\<exists>j w' w''. shadowfs_write w f (Some src) n = Some (int j, w') \<and>
    (let x = take (unat k) (drop (unat (f_position gl)) (c @ take j src)) in
      shadowfs_read w' g True k = Some (int (length x), x, w''))"
proof -
  obtain r w' where op: "shadowfs_write w f (Some src) n = Some (r, w')" using write_returns [OF inv v M n(1) en] by blast
  from write_returned [OF inv v M n op] obtain j bs' ino' fl' where
    x: "r = int j" "file_view w' f fl' ino' bs' (c @ take j src)" "f_inode fl' = f_inode fl" "files w' g = files w g"
    using g(2) by blast
  have "file_view w' g gl ino' bs' (c @ take j src)" using x(2-4) g unfolding file_view_def by metis
  from shadowfs_read_content [OF this, of k] op x(1) show ?thesis by (auto simp: Let_def)
qed

text \<open>C18: With quota and heap left, \<open>shadowfs_create\<close> of a new name always succeeds: the directory
  gains exactly that entry, every other name is looked up as before, the new inode is empty and of
  the requested type, 144 bytes are charged to the quota, and creating the same name again fails
  and changes nothing.\<close>

theorem shadowfs_create_lookup:
  assumes inv: "obj_inv w" and d: "dir_on w dir i ds m" and q: "m_used m < quota m" and nn: "name \<notin> set (names ds)"
    and len: "length name < VFS_MAX_NAME" and room: "heap_room (heap w) 317"
    and t: "type = VFS_TYPE_FILE \<or> type = VFS_TYPE_DIR"
  shows "\<exists>a w' n m'. shadowfs_create w dir name type = Some (a, w') \<and> a \<noteq> 0 \<and>
    (\<forall>x. map_option fst (shadowfs_lookup w' dir x) = (if x = name then Some a else map_option fst (shadowfs_lookup w dir x))) \<and>
    inodes w' a = Some n \<and> i_type n = type \<and> i_size n = 0 \<and>
    smounts w' (sb_private (mount_table w ! i)) = Some m' \<and> m_used m' = m_used m + 144 \<and> quota m' = quota m \<and>
    shadowfs_create w' dir name type = Some (0, w')"
proof -
  from create_total [OF inv d q nn, of 5 type] room t obtain a w' where
    c: "shadowfs_create w dir name type = Some (a, w')" "a \<noteq> 0" by auto
  from create_view [OF inv d c len] obtain ds' n where
    v: "dir_on w' dir i ds' (m\<lparr>next_inode_num := next_inode_num m + 1, m_used := m_used m + SIZEOF_ENTRY\<rparr>)"
      "entries ds' = entries ds @ [(name, a)]" "inodes w' a = Some n" "i_type n = type" "i_size n = 0"
      "mount_table w' = mount_table w" by blast
  have dv: "dir_view w' dir ds'" "dir_view w dir ds" using v(1) d by (simp_all add: dir_on_def)
  have "map_option fst (shadowfs_lookup w' dir x) = (if x = name then Some a else map_option fst (shadowfs_lookup w dir x))" for x
    using nn unfolding lookup_view [OF dv(1)] lookup_view [OF dv(2)] find_inode_entries v(2) names_entries
    by (auto simp: assoc_inode_append assoc_inode_none)
  moreover have "shadowfs_create w' dir name type = Some (0, w')"
  proof -
    obtain ino si where "inodes w' dir = Some ino" "i_sb ino = Some i" "i_private ino \<noteq> 0" "sinodes w' (i_private ino) = Some si"
      "dlist (sdents w') (si_head si) ds'" using v(1) by (auto simp: dir_on_def dir_view_def)
    moreover have "name \<in> set (names ds')" by (simp add: names_entries v(2))
    ultimately show ?thesis using v(1) by (auto simp: shadowfs_create_def mount_of_def dir_on_def exists_walk_dlist)
  qed
  moreover have "smounts w' (sb_private (mount_table w ! i)) = Some (m\<lparr>next_inode_num := next_inode_num m + 1, m_used := m_used m + SIZEOF_ENTRY\<rparr>)"
    using v(1,6) by (simp add: dir_on_def)
  ultimately show ?thesis using c v(3,4,5)
    by (intro exI [of _ a] exI [of _ w'] exI [of _ n]
        exI [of _ "m\<lparr>next_inode_num := next_inode_num m + 1, m_used := m_used m + SIZEOF_ENTRY\<rparr>"]) simp
qed

theorem shadowfs_create_lookup_witness:
  "\<exists>w dir a w'. shadowfs_create (w :: sst) dir ''a'' VFS_TYPE_FILE = Some (a, w') \<and> a \<noteq> 0 \<and> map_option fst (shadowfs_lookup w' dir ''a'') = Some a"
proof -
  obtain w :: sst and root where w: "obj_inv w" "heap_room (heap w) 9000" and
    d: "dir_on w root 0 [] \<lparr>quota = 8192, m_used = 0, next_inode_num = 2, root_inode = root\<rparr>" using boot_mounted by blast
  have "heap_room (heap w) 317" using w(2) by (rule heap_room_mono) simp
  then have "\<exists>a w'. shadowfs_create w root ''a'' VFS_TYPE_FILE = Some (a, w') \<and> a \<noteq> 0 \<and>
      (\<forall>x. map_option fst (shadowfs_lookup w' root x) = (if x = ''a'' then Some a else map_option fst (shadowfs_lookup w root x)))"
    using shadowfs_create_lookup [OF w(1) d, of "''a''" VFS_TYPE_FILE] by fastforce
  then have "\<exists>a w'. shadowfs_create w root ''a'' VFS_TYPE_FILE = Some (a, w') \<and> a \<noteq> 0 \<and>
      map_option fst (shadowfs_lookup w' root ''a'') = Some a" by metis
  then show ?thesis by blast
qed

text \<open>\<open>shadowfs_mount\<close> on a free path with a quota of at most half the free memory gives an empty
  root directory, registered in the mount table under that path, with nothing charged to the
  quota and inode number 1 used.\<close>

theorem shadowfs_mount_empty_root:
  assumes "obj_inv w" and "length (mount_table w) = VFS_MAX_MOUNTS" and "mount_count w < VFS_MAX_MOUNTS"
    and "\<forall>i < mount_count w. mount_point (mount_table w ! i) \<noteq> path" and "length path < VFS_MAX_PATH"
    and "q \<le> ucast (pmm_free_pages (pages w) * PAGE_SIZE) div 2" and "heap_room (heap w) 317"
  shows "\<exists>w' root. shadowfs_mount w path q = Some (0, w') \<and> obj_inv w' \<and> vfs_find_mount w' path = Some (mount_count w) \<and>
    sb_root (mount_table w' ! mount_count w) = root \<and> pages w' = pages w \<and>
    dir_on w' root (mount_count w) [] \<lparr>quota = q, m_used = 0, next_inode_num = 2, root_inode = root\<rparr>"
proof -
  have "heap_room (heap w) (5 + 312)" using assms(7) by simp
  from mount_total [OF assms(1-6) this] show ?thesis by auto
qed

theorem shadowfs_mount_empty_root_witness:
  "\<exists>w. shadowfs_mount boot_world ''/'' 8192 = Some (0, w) \<and> vfs_find_mount w ''/'' = Some 0"
proof -
  have "mount_count boot_world = 0" "length (mount_table boot_world) = VFS_MAX_MOUNTS" by (simp_all add: boot_world_def)
  moreover have "(8192 :: u32) \<le> ucast (pmm_free_pages (pages boot_world) * PAGE_SIZE) div 2"
    by (simp add: boot_world_def pmm_free_pages_def)
  ultimately show ?thesis
    using shadowfs_mount_empty_root [OF boot_inv(1), of "''/''" 8192] heap_room_mono [OF boot_inv(2), of 317] by auto
qed

end
