(* ===== verification/Page_Tables.thy ===== *)
theory Page_Tables
  imports Shadowfs
begin

text \<open>
  Address spaces, \<open>src/kernel/architecture/x86_64/paging.c\<close>. Page tables live in the pages of the
  physical memory manager and are read and written through the direct map, so they share the
  memory of the pages with shadowFS: a table is named by the direct-map address of its page, and
  its entry \<open>i\<close> is the little-endian word at offset \<open>8 * i\<close> of the page. A pointer to an entry is
  the pair of the table and the index. The TLB and the log output are left out.
\<close>

record ast = sst +
  kernel_pml4 :: u64
  cr3 :: u64

section \<open>Entries\<close>

definition rd64 :: "(u32 \<Rightarrow> u8) \<Rightarrow> u32 \<Rightarrow> u64" where
  "rd64 pg a = ucast (pg a) OR push_bit 8 (ucast (pg (a + 1))) OR push_bit 16 (ucast (pg (a + 2))) OR
     push_bit 24 (ucast (pg (a + 3))) OR push_bit 32 (ucast (pg (a + 4))) OR push_bit 40 (ucast (pg (a + 5))) OR
     push_bit 48 (ucast (pg (a + 6))) OR push_bit 56 (ucast (pg (a + 7)))"

definition wr64 :: "(u32 \<Rightarrow> u8) \<Rightarrow> u32 \<Rightarrow> u64 \<Rightarrow> (u32 \<Rightarrow> u8)" where
  "wr64 pg a v = pg(a := ucast v, a + 1 := ucast (drop_bit 8 v), a + 2 := ucast (drop_bit 16 v), a + 3 := ucast (drop_bit 24 v),
     a + 4 := ucast (drop_bit 32 v), a + 5 := ucast (drop_bit 40 v), a + 6 := ucast (drop_bit 48 v), a + 7 := ucast (drop_bit 56 v))"

definition entry_at :: "'a ast_scheme \<Rightarrow> u64 \<Rightarrow> u64 \<Rightarrow> u64" where
  "entry_at w t i = rd64 (page_mem w t) (8 * ucast i)"

definition set_entry :: "u64 \<Rightarrow> u64 \<Rightarrow> u64 \<Rightarrow> 'a ast_scheme \<Rightarrow> 'a ast_scheme" where
  "set_entry t i v w = w\<lparr>page_mem := (page_mem w)(t := wr64 (page_mem w t) (8 * ucast i) v)\<rparr>"

text \<open>The bit fields of an entry.\<close>

definition e_present :: "u64 \<Rightarrow> bool" where "e_present e = bit e 0"
definition e_huge :: "u64 \<Rightarrow> bool" where "e_huge e = bit e 7"
definition e_frame :: "u64 \<Rightarrow> u64" where "e_frame e = take_bit 40 (drop_bit 12 e)"

definition set_frame :: "u64 \<Rightarrow> u64 \<Rightarrow> u64" where
  "set_frame f e = (e AND NOT (push_bit 12 (mask 40))) OR push_bit 12 (take_bit 40 f)"

definition set_flag :: "nat \<Rightarrow> bool \<Rightarrow> u64 \<Rightarrow> u64" where
  "set_flag n b e = (if b then set_bit n e else unset_bit n e)"

definition make_leaf :: "u64 \<Rightarrow> bool \<Rightarrow> bool \<Rightarrow> bool \<Rightarrow> u64" where
  "make_leaf frame present writable user = set_flag 2 user (set_flag 1 writable (set_flag 0 present (set_frame frame 0)))"

definition PML4_INDEX :: "u64 \<Rightarrow> u64" where "PML4_INDEX a = drop_bit 39 a AND 0x1FF"
definition PDPT_INDEX :: "u64 \<Rightarrow> u64" where "PDPT_INDEX a = drop_bit 30 a AND 0x1FF"
definition PD_INDEX :: "u64 \<Rightarrow> u64" where "PD_INDEX a = drop_bit 21 a AND 0x1FF"
definition PT_INDEX :: "u64 \<Rightarrow> u64" where "PT_INDEX a = drop_bit 12 a AND 0x1FF"
definition PG_OFFSET :: "u64 \<Rightarrow> u64" where "PG_OFFSET a = a AND 0xFFF"

definition next_table :: "u64 \<Rightarrow> u64" where
  "next_table e = physical_to_virtual (push_bit 12 (e_frame e))"

definition page_of :: "u64 \<Rightarrow> u64" where
  "page_of a = a AND NOT 0xFFF"

section \<open>Walking and building the tables\<close>

definition alloc_table :: "'a ast_scheme \<Rightarrow> (u64 \<times> 'a ast_scheme) option" where
  "alloc_table w =
     do { (physical, pm) \<leftarrow> pmm_alloc (pages w);
          if physical = 0 then None
          else let table = physical_to_virtual physical in
            Some (table, fold (\<lambda>i. set_entry table (of_nat i) 0) [0..<512] (w\<lparr>pages := pm\<rparr>)) }"

text \<open>One level of the walk: follow a present entry, or create the table below it.\<close>

definition descend :: "'a ast_scheme \<Rightarrow> u64 \<Rightarrow> u64 \<Rightarrow> bool \<Rightarrow> (u64 option \<times> 'a ast_scheme) option" where
  "descend w t i create =
     (if e_present (entry_at w t i) then Some (Some (next_table (entry_at w t i)), w)
      else if \<not> create then Some (None, w)
      else do { (below, w1) \<leftarrow> alloc_table w;
                let w2 = set_entry t i (make_leaf (drop_bit 12 (virtual_to_physical below)) True True True) w1;
                Some (Some (next_table (entry_at w2 t i)), w2) })"

definition get_pt_entry :: "'a ast_scheme \<Rightarrow> u64 \<Rightarrow> u64 \<Rightarrow> bool \<Rightarrow> ((u64 \<times> u64) option \<times> 'a ast_scheme) option" where
  "get_pt_entry w pml4 vaddr create =
     do { (r1, w1) \<leftarrow> descend w pml4 (PML4_INDEX vaddr) create;
          case r1 of None \<Rightarrow> Some (None, w1) | Some pdpt \<Rightarrow>
            do { (r2, w2) \<leftarrow> descend w1 pdpt (PDPT_INDEX vaddr) create;
                 case r2 of None \<Rightarrow> Some (None, w2) | Some pd \<Rightarrow>
                   do { (r3, w3) \<leftarrow> descend w2 pd (PD_INDEX vaddr) create;
                        case r3 of None \<Rightarrow> Some (None, w3) | Some pt \<Rightarrow> Some (Some (pt, PT_INDEX vaddr), w3) } } }"

definition paging_init :: "'a ast_scheme \<Rightarrow> 'a ast_scheme" where
  "paging_init w = w\<lparr>kernel_pml4 := physical_to_virtual (cr3 w)\<rparr>"

definition map_page_in :: "'a ast_scheme \<Rightarrow> u64 \<Rightarrow> u64 \<Rightarrow> u64 \<Rightarrow> u64 \<Rightarrow> 'a ast_scheme option" where
  "map_page_in w pml4 vaddr paddr flags =
     (if pml4 = 0 then None
      else do { (r, w1) \<leftarrow> get_pt_entry w pml4 (page_of vaddr) True;
                case r of None \<Rightarrow> None
                | Some (pt, i) \<Rightarrow>
                    Some (set_entry pt i (make_leaf (drop_bit 12 (page_of paddr))
                            (flags AND 1 \<noteq> 0) (flags AND 2 \<noteq> 0) (flags AND 4 \<noteq> 0)) w1) })"

definition map_page :: "'a ast_scheme \<Rightarrow> u64 \<Rightarrow> u64 \<Rightarrow> u64 \<Rightarrow> 'a ast_scheme option" where
  "map_page w vaddr paddr flags =
     do { (r, w1) \<leftarrow> get_pt_entry w (kernel_pml4 w) (page_of vaddr) True;
          case r of None \<Rightarrow> None
          | Some (pt, i) \<Rightarrow>
              Some (set_entry pt i (make_leaf (drop_bit 12 (page_of paddr))
                      (flags AND 1 \<noteq> 0) (flags AND 2 \<noteq> 0) (flags AND 4 \<noteq> 0)) w1) }"

definition unmap_page :: "'a ast_scheme \<Rightarrow> u64 \<Rightarrow> 'a ast_scheme option" where
  "unmap_page w vaddr =
     do { (r, w1) \<leftarrow> get_pt_entry w (kernel_pml4 w) (vaddr AND NOT 0xFF) False;
          case r of None \<Rightarrow> Some w1 | Some (pt, i) \<Rightarrow> Some (set_entry pt i 0 w1) }"

definition get_physical_in :: "'a ast_scheme \<Rightarrow> u64 \<Rightarrow> u64 \<Rightarrow> u64 option" where
  "get_physical_in w pml4 vaddr =
     do { (r, w1) \<leftarrow> get_pt_entry w pml4 vaddr False;
          case r of None \<Rightarrow> Some 0
          | Some (pt, i) \<Rightarrow>
              let e = entry_at w1 pt i in
              if e_present e then Some (push_bit 12 (e_frame e) OR PG_OFFSET vaddr) else Some 0 }"

definition get_physical :: "'a ast_scheme \<Rightarrow> u64 \<Rightarrow> u64 option" where
  "get_physical w vaddr = get_physical_in w (kernel_pml4 w) vaddr"

definition copy_entries :: "u64 \<Rightarrow> u64 \<Rightarrow> nat list \<Rightarrow> 'a ast_scheme \<Rightarrow> 'a ast_scheme" where
  "copy_entries dst src is w = fold (\<lambda>i w. set_entry dst (of_nat i) (entry_at w src (of_nat i)) w) is w"

definition paging_clone_directory :: "'a ast_scheme \<Rightarrow> (u64 \<times> 'a ast_scheme) option" where
  "paging_clone_directory w =
     do { (new_pml4, w1) \<leftarrow> alloc_table w;
          Some (new_pml4, copy_entries new_pml4 (kernel_pml4 w) [256..<512] w1) }"

definition paging_switch_directory :: "u64 \<Rightarrow> 'a ast_scheme \<Rightarrow> 'a ast_scheme" where
  "paging_switch_directory pml4 w = (if pml4 = 0 then w else w\<lparr>cr3 := virtual_to_physical pml4\<rparr>)"

section \<open>Copying and freeing a whole address space\<close>

text \<open>A counting loop whose body may not return.\<close>

fun loop_over :: "nat list \<Rightarrow> (nat \<Rightarrow> 's \<Rightarrow> 's option) \<Rightarrow> 's \<Rightarrow> 's option" where
  "loop_over [] body s = Some s"
| "loop_over (i # is) body s = do { s1 \<leftarrow> body i s; loop_over is body s1 }"

definition copy_page :: "'a ast_scheme \<Rightarrow> u64 \<Rightarrow> u64 \<Rightarrow> 'a ast_scheme" where
  "copy_page w src dst =
     fold (\<lambda>b w. w\<lparr>page_mem := (page_mem w)(dst := (page_mem w dst)(of_nat b := page_mem w src (of_nat b)))\<rparr>) [0..<4096] w"

definition copy_leaf :: "u64 \<Rightarrow> u64 \<Rightarrow> nat \<Rightarrow> 'a ast_scheme \<Rightarrow> 'a ast_scheme option" where
  "copy_leaf src_pt dst_pt k w =
     (let e = entry_at w src_pt (of_nat k) in
      if \<not> e_present e then Some w
      else do { (new_physical, pm) \<leftarrow> pmm_alloc (pages w);
                if new_physical = 0 then None
                else let w1 = copy_page (w\<lparr>pages := pm\<rparr>) (next_table e) (physical_to_virtual new_physical);
                         w2 = set_entry dst_pt (of_nat k) (entry_at w1 src_pt (of_nat k)) w1 in
                     Some (set_entry dst_pt (of_nat k) (set_frame (drop_bit 12 new_physical) (entry_at w2 dst_pt (of_nat k))) w2) })"

text \<open>The table below an entry: a new table, linked with the attributes of the source entry, then
  the loop \<open>below\<close> over the two tables.\<close>

definition copy_level :: "(u64 \<Rightarrow> u64 \<Rightarrow> nat \<Rightarrow> 'a ast_scheme \<Rightarrow> 'a ast_scheme option) \<Rightarrow> u64 \<Rightarrow> u64 \<Rightarrow> nat \<Rightarrow>
    'a ast_scheme \<Rightarrow> 'a ast_scheme option" where
  "copy_level below src dst k w =
     (if \<not> e_present (entry_at w src (of_nat k)) then Some w
      else do { (table, w1) \<leftarrow> alloc_table w;
                let w2 = set_entry dst (of_nat k) (entry_at w1 src (of_nat k)) w1;
                let w3 = set_entry dst (of_nat k) (set_frame (drop_bit 12 (virtual_to_physical table)) (entry_at w2 dst (of_nat k))) w2;
                loop_over [0..<512] (below (next_table (entry_at w3 src (of_nat k))) table) w3 })"

definition copy_pd_entry :: "u64 \<Rightarrow> u64 \<Rightarrow> nat \<Rightarrow> 'a ast_scheme \<Rightarrow> 'a ast_scheme option" where
  "copy_pd_entry src_pd dst_pd k w =
     (let e = entry_at w src_pd (of_nat k) in
      if e_present e \<and> e_huge e then Some (set_entry dst_pd (of_nat k) e w)
      else copy_level copy_leaf src_pd dst_pd k w)"

definition paging_deep_copy_directory :: "'a ast_scheme \<Rightarrow> u64 \<Rightarrow> (u64 \<times> 'a ast_scheme) option" where
  "paging_deep_copy_directory w src =
     (if src = 0 then None
      else do { (dst_pml4, w1) \<leftarrow> alloc_table w;
                let w2 = copy_entries dst_pml4 src [256..<512] w1;
                w3 \<leftarrow> loop_over [0..<256] (copy_level (copy_level copy_pd_entry) src dst_pml4) w2;
                Some (dst_pml4, w3) })"

definition free_physical :: "u64 \<Rightarrow> 'a ast_scheme \<Rightarrow> 'a ast_scheme" where
  "free_physical p w = w\<lparr>pages := pmm_free (pages w) p\<rparr>"

definition free_leaf :: "u64 \<Rightarrow> nat \<Rightarrow> 'a ast_scheme \<Rightarrow> 'a ast_scheme" where
  "free_leaf pt k w =
     (let e = entry_at w pt (of_nat k) in if e_present e then free_physical (push_bit 12 (e_frame e)) w else w)"

definition free_level :: "nat \<Rightarrow> (u64 \<Rightarrow> nat \<Rightarrow> 'a ast_scheme \<Rightarrow> 'a ast_scheme) \<Rightarrow> u64 \<Rightarrow> nat \<Rightarrow> 'a ast_scheme \<Rightarrow> 'a ast_scheme" where
  "free_level n below t k w =
     (let e = entry_at w t (of_nat k) in
      if e_present e
      then free_physical (virtual_to_physical (next_table e)) (fold (below (next_table e)) [0..<n] w)
      else w)"

definition free_pd_entry :: "u64 \<Rightarrow> nat \<Rightarrow> 'a ast_scheme \<Rightarrow> 'a ast_scheme" where
  "free_pd_entry pd k w =
     (let e = entry_at w pd (of_nat k) in if e_present e \<and> e_huge e then w else free_level 512 free_leaf pd k w)"

definition paging_free_directory :: "u64 \<Rightarrow> 'a ast_scheme \<Rightarrow> 'a ast_scheme" where
  "paging_free_directory dir w =
     (if dir = 0 then w
      else free_physical (virtual_to_physical dir)
             (fold (free_level 512 (free_level 512 free_pd_entry) dir) [0..<256] w))"

section \<open>Entries of a table\<close>

lemma rd64_cong:
  assumes "\<And>k. k < 8 \<Longrightarrow> pg (a + of_nat k) = pg' (a + of_nat k)"
  shows "rd64 pg a = rd64 pg' a"
  using assms [of 0] assms [of 1] assms [of 2] assms [of 3] assms [of 4] assms [of 5] assms [of 6] assms [of 7]
  by (simp add: rd64_def)

lemma wr64_outside:
  assumes "\<And>k. k < 8 \<Longrightarrow> x \<noteq> a + of_nat k"
  shows "wr64 pg a v x = pg x"
  using assms [of 0] assms [of 1] assms [of 2] assms [of 3] assms [of 4] assms [of 5] assms [of 6] assms [of 7]
  by (simp add: wr64_def)

lemma byte_bit:
  "m \<le> 56 \<Longrightarrow> bit (push_bit m (ucast (ucast (drop_bit m v) :: u8)) :: u64) n \<longleftrightarrow> m \<le> n \<and> n < m + 8 \<and> bit (v :: u64) n"
  by (auto simp: bit_simps)

lemma u64_bytes:
  fixes v :: u64
  shows "v = ucast (ucast v :: u8) OR push_bit 8 (ucast (ucast (drop_bit 8 v) :: u8)) OR push_bit 16 (ucast (ucast (drop_bit 16 v) :: u8)) OR
     push_bit 24 (ucast (ucast (drop_bit 24 v) :: u8)) OR push_bit 32 (ucast (ucast (drop_bit 32 v) :: u8)) OR
     push_bit 40 (ucast (ucast (drop_bit 40 v) :: u8)) OR push_bit 48 (ucast (ucast (drop_bit 48 v) :: u8)) OR
     push_bit 56 (ucast (ucast (drop_bit 56 v) :: u8))"
  (is "v = ?b")
proof (rule bit_eqI)
  fix n assume "possible_bit TYPE(u64) n"
  then consider "n < 8" | "8 \<le> n" "n < 16" | "16 \<le> n" "n < 24" | "24 \<le> n" "n < 32" | "32 \<le> n" "n < 40"
    | "40 \<le> n" "n < 48" | "48 \<le> n" "n < 56" | "56 \<le> n" "n < 64" by fastforce
  then show "bit v n = bit ?b n" using byte_bit [of 0 v n]
    by cases (simp_all add: bit_or_iff byte_bit del: push_bit_of_0)
qed

lemma rd_wr_same: "rd64 (wr64 pg a v) a = v"
  by (subst u64_bytes [of v]) (simp add: rd64_def wr64_def)

lemma slot_offset: "i < 512 \<Longrightarrow> k < 8 \<Longrightarrow> unat (8 * ucast (i :: u64) + of_nat k :: u32) = 8 * unat i + k"
proof -
  assume a: "i < 512" "k < 8"
  have i: "unat i < 512" using a(1) by (simp add: word_less_nat_alt)
  then have "unat (ucast i :: u32) = unat i" by (simp add: unsigned_ucast_eq take_bit_nat_eq_self)
  with i a(2) show ?thesis by (simp add: unat_word_ariths unat_of_nat)
qed

lemma slots_apart:
  assumes "i < 512" "j < 512" "i \<noteq> (j :: u64)" "k < 8" "l < 8"
  shows "8 * ucast j + of_nat l \<noteq> (8 * ucast i + of_nat k :: u32)"
proof
  assume "8 * ucast j + of_nat l = (8 * ucast i + of_nat k :: u32)"
  then have "8 * unat j + l = 8 * unat i + k" using assms slot_offset by metis
  with assms(4,5) have "unat i = unat j" by linarith
  with assms(3) show False by (simp add: word_unat_eq_iff)
qed

lemma rd_wr_other:
  assumes "i < 512" "j < 512" "i \<noteq> j"
  shows "rd64 (wr64 pg (8 * ucast i) v) (8 * ucast j) = rd64 pg (8 * ucast (j :: u64))"
  using assms by (intro rd64_cong wr64_outside slots_apart)

lemma entry_set_entry:
  assumes "i < 512" "j < 512"
  shows "entry_at (set_entry t i v w) u j = (if u = t \<and> j = i then v else entry_at w u j)"
  using assms by (auto simp: entry_at_def set_entry_def rd_wr_same rd_wr_other)

lemma entry_other_table: "u \<noteq> t \<Longrightarrow> entry_at (set_entry t i v w) u j = entry_at w u j"
  by (simp add: entry_at_def set_entry_def)

lemma set_entry_frame [simp]:
  "pages (set_entry t i v w) = pages w" "kernel_pml4 (set_entry t i v w) = kernel_pml4 w" "cr3 (set_entry t i v w) = cr3 w"
  by (simp_all add: set_entry_def)

lemma page_mem_set_entry: "u \<noteq> t \<Longrightarrow> page_mem (set_entry t i v w) u = page_mem w u"
  by (simp add: set_entry_def)

lemma entry_at_pages [simp]: "entry_at (w\<lparr>pages := pm\<rparr>) = entry_at w"
  by (intro ext) (simp add: entry_at_def)

lemma index_less [simp]:
  "PML4_INDEX v < 512" "PDPT_INDEX v < 512" "PD_INDEX v < 512" "PT_INDEX v < 512"
proof -
  have "x AND 0x1FF < 512" for x :: u64
  proof -
    have "x AND 0x1FF = take_bit 9 x" by (simp add: take_bit_eq_mask mask_eq_exp_minus_1)
    then show ?thesis using take_bit_nat_less_exp [of 9 "unat x"] by (simp add: word_less_nat_alt unsigned_take_bit_eq)
  qed
  then show "PML4_INDEX v < 512" "PDPT_INDEX v < 512" "PD_INDEX v < 512" "PT_INDEX v < 512"
    by (simp_all add: PML4_INDEX_def PDPT_INDEX_def PD_INDEX_def PT_INDEX_def)
qed

lemma make_leaf_fields:
  "e_present (make_leaf f p wr u) = p" "e_frame (make_leaf f p wr u) = take_bit 40 f"
proof -
  show "e_present (make_leaf f p wr u) = p"
    by (simp add: e_present_def make_leaf_def set_flag_def set_frame_def bit_simps)
  show "e_frame (make_leaf f p wr u) = take_bit 40 f"
    by (rule bit_eqI) (auto simp: e_frame_def make_leaf_def set_flag_def set_frame_def bit_simps)
qed

section \<open>Address spaces as trees of tables\<close>

text \<open>The table reached from \<open>t\<close> along a list of indices, and the translation it gives.\<close>

fun table_at :: "'a ast_scheme \<Rightarrow> u64 \<Rightarrow> u64 list \<Rightarrow> u64 option" where
  "table_at w t [] = Some t"
| "table_at w t (i # is) = (if e_present (entry_at w t i) then table_at w (next_table (entry_at w t i)) is else None)"

definition vpath :: "u64 \<Rightarrow> u64 list" where
  "vpath v = [PML4_INDEX v, PDPT_INDEX v, PD_INDEX v]"

definition translate :: "'a ast_scheme \<Rightarrow> u64 \<Rightarrow> u64 \<Rightarrow> u64" where
  "translate w p v =
     (case table_at w p (vpath v) of
        None \<Rightarrow> 0
      | Some t \<Rightarrow> let e = entry_at w t (PT_INDEX v) in
          if e_present e then push_bit 12 (e_frame e) OR PG_OFFSET v else 0)"

text \<open>Index lists of the user half, and the invariant of a set of address spaces: every table of
  the user half is an allocated page, and no table is used twice.\<close>

definition upath :: "u64 list \<Rightarrow> bool" where
  "upath is \<longleftrightarrow> length is \<le> 3 \<and> (\<forall>i \<in> set is. i < 512) \<and> (is \<noteq> [] \<longrightarrow> hd is < 256)"

definition page_used :: "'a ast_scheme \<Rightarrow> u64 \<Rightarrow> bool" where
  "page_used w t \<longleftrightarrow> virtual_to_physical t \<notin> pmm_avail (pages w)"

definition spaces :: "'a ast_scheme \<Rightarrow> u64 set \<Rightarrow> bool" where
  "spaces w P \<longleftrightarrow> pmm_wf (pages w) \<and> total_pages (pages w) \<le> 2 ^ 40 \<and> 0 \<notin> pmm_avail (pages w) \<and>
     (\<forall>p \<in> P. \<forall>is t. upath is \<longrightarrow> table_at w p is = Some t \<longrightarrow> page_used w t) \<and>
     (\<forall>p \<in> P. \<forall>q \<in> P. \<forall>is js t. upath is \<longrightarrow> upath js \<longrightarrow> table_at w p is = Some t \<longrightarrow> table_at w q js = Some t \<longrightarrow> p = q \<and> is = js)"

lemma get_physical_in_translate: "get_physical_in w p v = Some (translate w p v)"
  by (simp add: get_physical_in_def get_pt_entry_def descend_def translate_def vpath_def Let_def)

lemma table_at_append:
  "table_at w p (is @ js) = (case table_at w p is of None \<Rightarrow> None | Some t \<Rightarrow> table_at w t js)"
  by (induction "is" arbitrary: p) simp_all

lemma table_at_same:
  assumes "\<And>k u. k < length is \<Longrightarrow> table_at w p (take k is) = Some u \<Longrightarrow> entry_at w' u (is ! k) = entry_at w u (is ! k)"
  shows "table_at w' p is = table_at w p is"
  using assms
proof (induction "is" arbitrary: p)
  case (Cons i js)
  have e: "entry_at w' p i = entry_at w p i" using Cons.prems [of 0 p] by simp
  show ?case
  proof (cases "e_present (entry_at w p i)")
    case True
    have "table_at w' (next_table (entry_at w p i)) js = table_at w (next_table (entry_at w p i)) js"
      using True Cons.prems [of "Suc k" for k] by (intro Cons.IH) auto
    then show ?thesis by (simp add: e)
  qed (simp add: e)
qed simp

lemma upath_take: "upath is \<Longrightarrow> upath (take k is)"
  unfolding upath_def by (auto dest: in_set_takeD simp: hd_take)

lemma upath_nth: "upath is \<Longrightarrow> k < length is \<Longrightarrow> is ! k < 512"
  by (simp add: upath_def)

lemma upath_prefix: "upath (is @ js) \<Longrightarrow> upath is"
  using upath_take [of "is @ js" "length is"] by simp

lemma vpath_upath: "PML4_INDEX v < 256 \<Longrightarrow> upath (vpath v)"
  by (simp add: upath_def vpath_def)

lemma spaces_used: "spaces w P \<Longrightarrow> p \<in> P \<Longrightarrow> upath is \<Longrightarrow> table_at w p is = Some t \<Longrightarrow> page_used w t"
  by (simp add: spaces_def)

lemma spaces_inj:
  "spaces w P \<Longrightarrow> p \<in> P \<Longrightarrow> q \<in> P \<Longrightarrow> upath is \<Longrightarrow> upath js \<Longrightarrow> table_at w p is = Some t \<Longrightarrow> table_at w q js = Some t \<Longrightarrow> p = q \<and> is = js"
  unfolding spaces_def by blast

text \<open>Hanging a fresh empty table \<open>f\<close> below an entry that is not present.\<close>

definition new_table :: "'a ast_scheme \<Rightarrow> 'a ast_scheme \<Rightarrow> u64 set \<Rightarrow> u64 \<Rightarrow> u64 list \<Rightarrow> u64 \<Rightarrow> u64 \<Rightarrow> u64 \<Rightarrow> bool" where
  "new_table w w' P p path t i f \<longleftrightarrow> spaces w P \<and> p \<in> P \<and> upath (path @ [i]) \<and> table_at w p path = Some t \<and>
     \<not> e_present (entry_at w t i) \<and> \<not> page_used w f \<and>
     pmm_avail (pages w') = pmm_avail (pages w) - {virtual_to_physical f} \<and>
     pmm_wf (pages w') \<and> total_pages (pages w') = total_pages (pages w) \<and>
     e_present (entry_at w' t i) \<and> next_table (entry_at w' t i) = f \<and> (\<forall>j < 512. entry_at w' f j = 0) \<and>
     (\<forall>u j. j < 512 \<longrightarrow> u \<noteq> f \<longrightarrow> u \<noteq> t \<or> j \<noteq> i \<longrightarrow> entry_at w' u j = entry_at w u j)"

lemma new_tableD:
  assumes "new_table w w' P p path t i f"
  shows "spaces w P" "p \<in> P" "upath path" "upath (path @ [i])" "table_at w p path = Some t" "\<not> e_present (entry_at w t i)"
    "e_present (entry_at w' t i)" "next_table (entry_at w' t i) = f" "\<And>j. j < 512 \<Longrightarrow> entry_at w' f j = 0"
    "\<And>u j. j < 512 \<Longrightarrow> u \<noteq> f \<Longrightarrow> u \<noteq> t \<or> j \<noteq> i \<Longrightarrow> entry_at w' u j = entry_at w u j"
    "\<And>q js. q \<in> P \<Longrightarrow> upath js \<Longrightarrow> table_at w q js \<noteq> Some f"
proof -
  note d = assms [unfolded new_table_def]
  show "spaces w P" "p \<in> P" "upath (path @ [i])" "table_at w p path = Some t" "\<not> e_present (entry_at w t i)"
    "e_present (entry_at w' t i)" "next_table (entry_at w' t i) = f" "\<And>j. j < 512 \<Longrightarrow> entry_at w' f j = 0"
    "\<And>u j. j < 512 \<Longrightarrow> u \<noteq> f \<Longrightarrow> u \<noteq> t \<or> j \<noteq> i \<Longrightarrow> entry_at w' u j = entry_at w u j"
    using d by simp_all
  then show "upath path" by (simp add: upath_prefix)
  show "\<And>q js. q \<in> P \<Longrightarrow> upath js \<Longrightarrow> table_at w q js \<noteq> Some f"
    using d spaces_used by metis
qed

lemma new_table_elsewhere:
  assumes nt: "new_table w w' P p path t i f"
    and q: "q \<in> P" "upath js" and off: "q = p \<Longrightarrow> take (Suc (length path)) js \<noteq> path @ [i]"
  shows "table_at w' q js = table_at w q js"
proof (rule table_at_same)
  note D = new_tableD [OF nt]
  fix k u assume k: "k < length js" "table_at w q (take k js) = Some u"
  have uk: "upath (take k js)" using q(2) by (rule upath_take)
  have "u \<noteq> f" using D(11) [OF q(1) uk] k(2) by auto
  moreover have "u \<noteq> t \<or> js ! k \<noteq> i"
  proof (rule ccontr)
    assume "\<not> (u \<noteq> t \<or> js ! k \<noteq> i)"
    then have h: "u = t" "js ! k = i" by auto
    then have "q = p \<and> take k js = path" using spaces_inj [OF D(1) q(1) D(2) uk D(3) k(2)] D(5) by simp
    moreover from this have "length path = k" using k(1) by (metis length_take min.absorb4)
    ultimately show False using off h(2) k(1) by (simp add: take_Suc_conv_app_nth)
  qed
  ultimately show "entry_at w' u (js ! k) = entry_at w u (js ! k)"
    using D(10) upath_nth [OF q(2) k(1)] by blast
qed

lemma new_table_there: "new_table w w' P p path t i f \<Longrightarrow> table_at w' p (path @ [i]) = Some f"
  using new_tableD [of w w' P p path t i f] new_table_elsewhere [of w w' P p path t i f p path] by (simp add: table_at_append)

lemma new_table_below:
  "new_table w w' P p path t i f \<Longrightarrow> upath (path @ i # j # js) \<Longrightarrow> table_at w' p (path @ i # j # js) = None"
  using table_at_append [of w' p "path @ [i]" "j # js"] new_table_there [of w w' P p path t i f]
    new_tableD(9) [of w w' P p path t i f j] by (simp add: upath_def e_present_def)

lemma through_new_table: "take (Suc (length path)) js = path @ [i] \<Longrightarrow> \<exists>ks. js = path @ i # ks"
  by (metis append_Cons append_Nil append_assoc append_take_drop_id)

lemma new_table_cases:
  assumes nt: "new_table w w' P p path t i f" and q: "q \<in> P" "upath js" "table_at w' q js = Some u"
  shows "table_at w q js = Some u \<or> q = p \<and> js = path @ [i] \<and> u = f"
proof (cases "q = p \<and> take (Suc (length path)) js = path @ [i]")
  case True
  then obtain ks where js: "js = path @ i # ks" using through_new_table [of path js i] by blast
  show ?thesis
  proof (cases ks)
    case Nil
    then show ?thesis using True js new_table_there [OF nt] q(3) by simp
  next
    case (Cons k ls)
    then show ?thesis using new_table_below [OF nt] q(2,3) js True by simp
  qed
qed (use new_table_elsewhere [OF nt q(1,2)] q(3) in auto)

lemma new_table_keeps:
  assumes nt: "new_table w w' P p path t i f" and q: "q \<in> P" "upath js" "table_at w q js = Some u"
  shows "table_at w' q js = Some u"
proof (rule ccontr)
  assume "table_at w' q js \<noteq> Some u"
  then have "q = p" "take (Suc (length path)) js = path @ [i]" using new_table_elsewhere [OF nt q(1,2)] q(3) by fastforce+
  then show False using q(3) new_tableD(5,6) [OF nt] through_new_table [of path js i] by (auto simp: table_at_append)
qed

lemma new_table_spaces:
  assumes nt: "new_table w w' P p path t i f"
  shows "spaces w' P"
proof -
  note D = new_tableD [OF nt]
  have used: "page_used w' u" if "page_used w u \<or> u = f" for u
    using that nt by (auto simp: page_used_def new_table_def)
  have "page_used w' u" if "q \<in> P" "upath js" "table_at w' q js = Some u" for q js u
    using new_table_cases [OF nt that] spaces_used [OF D(1) that(1,2)] used by blast
  moreover have "q = r \<and> js = ks"
    if "q \<in> P" "r \<in> P" "upath js" "upath ks" "table_at w' q js = Some u" "table_at w' r ks = Some u" for q r js ks u
    using new_table_cases [OF nt that(1,3,5)] new_table_cases [OF nt that(2,4,6)] spaces_inj [OF D(1) that(1-4)]
      D(11) [OF that(1,3)] D(11) [OF that(2,4)] by blast
  ultimately show ?thesis using nt D(1) by (auto simp: spaces_def new_table_def)
qed

lemma new_table_translate:
  assumes nt: "new_table w w' P p path t i f" and q: "q \<in> P" "PML4_INDEX v < 256"
  shows "translate w' q v = translate w q v"
proof (cases "table_at w q (vpath v)")
  case (Some u)
  note D = new_tableD [OF nt] and uv = vpath_upath [OF q(2)]
  have "u \<noteq> f" using D(11) [OF q(1) uv] Some by auto
  moreover have "u \<noteq> t \<or> PT_INDEX v \<noteq> i"
  proof (rule ccontr)
    assume "\<not> (u \<noteq> t \<or> PT_INDEX v \<noteq> i)"
    then have "vpath v = path" using spaces_inj [OF D(1) q(1) D(2) uv D(3) Some] D(5) by simp
    then show False using D(4) by (auto simp: upath_def vpath_def)
  qed
  ultimately have "entry_at w' u (PT_INDEX v) = entry_at w u (PT_INDEX v)" using D(10) by simp
  then show ?thesis using Some new_table_keeps [OF nt q(1) uv Some] by (simp add: translate_def)
next
  case None
  have "table_at w' q (vpath v) = None \<or> table_at w' q (vpath v) = Some f"
    using new_table_cases [OF nt q(1) vpath_upath [OF q(2)]] None by (cases "table_at w' q (vpath v)") auto
  then show ?thesis using None new_tableD(9) [OF nt, of "PT_INDEX v"] by (auto simp: translate_def e_present_def)
qed

section \<open>Allocating tables\<close>

lemma zero_entries:
  assumes "n \<le> 512"
  shows "\<forall>j < 512. unat j < n \<longrightarrow> entry_at (fold (\<lambda>i. set_entry f (of_nat i) 0) [0..<n] w) f j = 0"
  using assms
proof (induction n)
  case (Suc n)
  have n: "(of_nat n :: u64) < 512" using Suc.prems by (simp add: word_less_nat_alt unat_of_nat_u64)
  have "unat j < Suc n \<longleftrightarrow> unat j < n \<or> j = of_nat n" for j :: u64
    using Suc.prems by (auto simp: less_Suc_eq word_unat_eq_iff unat_of_nat_u64)
  then show ?case using Suc n by (simp add: entry_set_entry)
qed simp

lemma fold_set_entry_frame:
  "pages (fold (\<lambda>i. set_entry f (g i) v) is w) = pages w"
  "kernel_pml4 (fold (\<lambda>i. set_entry f (g i) v) is w) = kernel_pml4 w"
  "u \<noteq> f \<Longrightarrow> page_mem (fold (\<lambda>i. set_entry f (g i) v) is w) u = page_mem w u"
  by (induction "is" arbitrary: w) (simp_all add: page_mem_set_entry)

lemma page_frame:
  assumes "i < (2 ^ 40 :: u64)"
  shows "push_bit 12 (take_bit 40 (drop_bit 12 (i * PAGE_SIZE))) = i * PAGE_SIZE"
proof -
  have "unat i < 2 ^ 40" using assms by (simp add: word_less_nat_alt)
  then have "take_bit 40 i = i" by (simp add: word_unat_eq_iff unsigned_take_bit_eq take_bit_nat_eq_self)
  moreover have "i < 2 ^ 52" using \<open>unat i < 2 ^ 40\<close> by (simp add: word_less_nat_alt)
  then have "drop_bit 12 (i * PAGE_SIZE) = i" using page_address(2) [of i] by (simp add: drop_bit_eq_div)
  ultimately show ?thesis by (simp add: push_bit_eq_mult)
qed

lemma avail_frame:
  assumes "spaces w P" "a \<in> pmm_avail (pages w)"
  shows "push_bit 12 (take_bit 40 (drop_bit 12 a)) = a"
  using assms page_frame unfolding pmm_avail_def spaces_def by (auto dest: less_le_trans)

lemma alloc_table_Some:
  assumes "spaces w P" "alloc_table w = Some (f, w')"
  shows "virtual_to_physical f \<in> pmm_avail (pages w)" "pmm_avail (pages w') = pmm_avail (pages w) - {virtual_to_physical f}"
    "pmm_wf (pages w')" "total_pages (pages w') = total_pages (pages w)" "\<And>j. j < 512 \<Longrightarrow> entry_at w' f j = 0"
    "\<And>u. u \<noteq> f \<Longrightarrow> page_mem w' u = page_mem w u" "kernel_pml4 w' = kernel_pml4 w"
proof -
  from assms(2) obtain a pm where a: "pmm_alloc (pages w) = Some (a, pm)" "f = physical_to_virtual a"
    "w' = fold (\<lambda>i. set_entry f (of_nat i) 0) [0..<512] (w\<lparr>pages := pm\<rparr>)"
    by (auto simp: alloc_table_def Let_def bind_eq_Some_conv split: if_splits)
  have wf: "pmm_wf (pages w)" using assms(1) by (simp add: spaces_def)
  note al = pa.alloc_Some [OF wf a(1)]
  show "virtual_to_physical f \<in> pmm_avail (pages w)" "pmm_avail (pages w') = pmm_avail (pages w) - {virtual_to_physical f}"
    "pmm_wf (pages w')" using al a by (simp_all add: fold_set_entry_frame)
  show "total_pages (pages w') = total_pages (pages w)"
    using a(1,3) by (auto simp: fold_set_entry_frame elim: pmm_alloc_Some)
  show "entry_at w' f j = 0" if "j < 512" for j
  proof -
    have "unat j < 512" using that by (simp add: word_less_nat_alt)
    then show ?thesis using zero_entries [of 512 f "w\<lparr>pages := pm\<rparr>"] that a(3) by simp
  qed
  show "u \<noteq> f \<Longrightarrow> page_mem w' u = page_mem w u" for u using a(3) by (simp add: fold_set_entry_frame)
  show "kernel_pml4 w' = kernel_pml4 w" using a(3) by (simp add: fold_set_entry_frame)
qed

lemma alloc_table_total:
  assumes "spaces w P" "pmm_avail (pages w) \<noteq> {}"
  shows "\<exists>f w'. alloc_table w = Some (f, w')"
proof -
  have wf: "pmm_wf (pages w)" and z: "0 \<notin> pmm_avail (pages w)" using assms(1) by (simp_all add: spaces_def)
  then obtain a pm where a: "pmm_alloc (pages w) = Some (a, pm)" using pa.alloc_None assms(2) by fastforce
  then have "a \<noteq> 0" using pa.alloc_Some [OF wf a] z by auto
  with a show ?thesis by (simp add: alloc_table_def Let_def)
qed

section \<open>One level of the walk\<close>

text \<open>What building tables for the address space \<open>p\<close> keeps: all translations, the tables there are,
  the kernel half, and every page that is not a table of \<open>p\<close>. At most \<open>n\<close> pages are taken.\<close>

definition grows :: "nat \<Rightarrow> 'a ast_scheme \<Rightarrow> 'a ast_scheme \<Rightarrow> u64 set \<Rightarrow> u64 \<Rightarrow> bool" where
  "grows n w w' P p \<longleftrightarrow> spaces w' P \<and>
     (\<forall>q \<in> P. \<forall>v. PML4_INDEX v < 256 \<longrightarrow> translate w' q v = translate w q v) \<and>
     (\<forall>q \<in> P. \<forall>js u. upath js \<longrightarrow> table_at w q js = Some u \<longrightarrow> table_at w' q js = Some u) \<and>
     (\<forall>js u. upath js \<longrightarrow> table_at w' p js = Some u \<longrightarrow> table_at w p js = Some u \<or> \<not> page_used w u) \<and>
     (\<forall>j. 256 \<le> j \<longrightarrow> j < 512 \<longrightarrow> entry_at w' p j = entry_at w p j) \<and>
     (\<forall>a. page_used w a \<longrightarrow> (\<forall>js. upath js \<longrightarrow> table_at w p js \<noteq> Some a) \<longrightarrow> page_mem w' a = page_mem w a) \<and>
     pmm_avail (pages w') \<subseteq> pmm_avail (pages w) \<and> card (pmm_avail (pages w)) \<le> card (pmm_avail (pages w')) + n \<and>
     kernel_pml4 w' = kernel_pml4 w"

lemma grows_refl: "spaces w P \<Longrightarrow> grows n w w P p"
  by (simp add: grows_def)

lemma grows_trans:
  assumes "grows m w w1 P p" "grows n w1 w2 P p" "p \<in> P"
  shows "grows (m + n) w w2 P p"
proof -
  have used: "page_used w1 a" if "page_used w a" for a
    using that assms(1) by (auto simp: grows_def page_used_def)
  have "table_at w p js = Some u \<or> \<not> page_used w u" if "upath js" "table_at w2 p js = Some u" for js u
    using that assms(1,2) used unfolding grows_def by metis
  moreover have "page_mem w2 a = page_mem w a" if "page_used w a" "\<forall>js. upath js \<longrightarrow> table_at w p js \<noteq> Some a" for a
  proof -
    have "\<forall>js. upath js \<longrightarrow> table_at w1 p js \<noteq> Some a" using that assms(1) unfolding grows_def by metis
    then show ?thesis using that used assms(1,2) by (simp add: grows_def)
  qed
  ultimately show ?thesis using assms unfolding grows_def by auto
qed

lemma descend_grows:
  assumes sp: "spaces w P" and p: "p \<in> P" and up: "upath (path @ [i])" and t: "table_at w p path = Some t"
    and op: "descend w t i True = Some (r, w')"
  shows "\<exists>u. r = Some u \<and> table_at w' p (path @ [i]) = Some u \<and> grows 1 w w' P p"
proof (cases "e_present (entry_at w t i)")
  case True
  then show ?thesis using op t grows_refl [OF sp] by (auto simp: descend_def table_at_append)
next
  case False
  then obtain f w1 where f: "alloc_table w = Some (f, w1)"
    and w': "w' = set_entry t i (make_leaf (drop_bit 12 (virtual_to_physical f)) True True True) w1"
    and r: "r = Some (next_table (entry_at w' t i))"
    using op by (auto simp: descend_def Let_def bind_eq_Some_conv)
  note al = alloc_table_Some [OF sp f]
  have i: "i < 512" using up by (simp add: upath_def)
  have fr: "\<not> page_used w f" using al(1) by (simp add: page_used_def)
  have "page_used w t" using spaces_used [OF sp p upath_prefix [OF up] t] .
  with fr have tf: "t \<noteq> f" by auto
  have nx: "next_table (entry_at w' t i) = f"
    using i w' avail_frame [OF sp al(1)] by (simp add: entry_set_entry next_table_def make_leaf_fields)
  have same: "entry_at w' u j = entry_at w u j" if "j < 512" "u \<noteq> f" "u \<noteq> t \<or> j \<noteq> i" for u j
    using that i w' al(6) [of u] by (auto simp: entry_set_entry) (simp_all add: entry_at_def)
  have nt: "new_table w w' P p path t i f"
    unfolding new_table_def using sp p up t False fr al(2-5) w' nx same tf i
    by (simp add: entry_set_entry make_leaf_fields)
  have pm: "page_mem w' a = page_mem w a" if "page_used w a" "\<forall>js. upath js \<longrightarrow> table_at w p js \<noteq> Some a" for a
    using that fr t upath_prefix [OF up] al(6) [of a] w' by (auto simp: set_entry_def)
  have pu: "page_used w p" using spaces_used [OF sp p, of "[]"] by (simp add: upath_def)
  have hi: "entry_at w' p j = entry_at w p j" if "256 \<le> j" "j < 512" for j
  proof (rule same [OF that(2)])
    show "p \<noteq> f" using pu fr by auto
    have "i < 256" if "p = t"
      using spaces_inj [OF sp p p _ upath_prefix [OF up], of "[]" t] t that up by (auto simp: upath_def)
    then show "p \<noteq> t \<or> j \<noteq> i" using that(1) by auto
  qed
  have av: "card (pmm_avail (pages w)) \<le> card (pmm_avail (pages w')) + 1" "pmm_avail (pages w') \<subseteq> pmm_avail (pages w)"
    "kernel_pml4 w' = kernel_pml4 w"
    using al(1,2,7) w' by (auto simp: card_Diff_singleton)
  have "table_at w p js = Some u \<or> \<not> page_used w u" if "upath js" "table_at w' p js = Some u" for js u
    using new_table_cases [OF nt p that] fr by blast
  then have "grows 1 w w' P p"
    unfolding grows_def
    using new_table_spaces [OF nt] new_table_translate [OF nt] new_table_keeps [OF nt] hi pm av
    by (intro conjI) blast+
  then show ?thesis using r nx new_table_there [OF nt] by simp
qed

lemma descend_total:
  assumes "spaces w P" "pmm_avail (pages w) \<noteq> {}"
  shows "\<exists>r w'. descend w t i True = Some (r, w')"
  using alloc_table_total [OF assms] by (auto simp: descend_def Let_def)

section \<open>Pages of the user half\<close>

lemma low_bits: "x AND 0xFFF = take_bit 12 (x :: u64)" "x AND 0x1FF = take_bit 9 (x :: u64)" "page_of x = x AND NOT (mask 12)"
  by (simp_all add: take_bit_eq_mask mask_eq_exp_minus_1 page_of_def)

lemma index_bits:
  "bit (PML4_INDEX v) n \<longleftrightarrow> n < 9 \<and> bit v (39 + n)" "bit (PDPT_INDEX v) n \<longleftrightarrow> n < 9 \<and> bit v (30 + n)"
  "bit (PD_INDEX v) n \<longleftrightarrow> n < 9 \<and> bit v (21 + n)" "bit (PT_INDEX v) n \<longleftrightarrow> n < 9 \<and> bit v (12 + n)"
  by (simp_all only: PML4_INDEX_def PDPT_INDEX_def PD_INDEX_def PT_INDEX_def low_bits bit_take_bit_iff bit_drop_bit_eq comp_apply)

lemma user_bits: "v < 2 ^ 47 \<Longrightarrow> bit (v :: u64) n \<Longrightarrow> n < 47"
proof -
  assume "v < 2 ^ 47" "bit v n"
  then have "unat v < 2 ^ 47" "bit (unat v) n" by (simp_all add: word_less_nat_alt bit_simps)
  then have "take_bit 47 (unat v) = unat v" "bit (unat v) n" by (simp_all add: take_bit_nat_eq_self)
  then show ?thesis by (metis bit_take_bit_iff)
qed

lemma user_index: "v < 2 ^ 47 \<Longrightarrow> PML4_INDEX v < 256"
proof -
  assume v: "v < 2 ^ 47"
  have "PML4_INDEX v = take_bit 8 (PML4_INDEX v)"
    by (rule bit_eqI) (use user_bits [OF v] in \<open>fastforce simp: index_bits bit_take_bit_iff\<close>)
  then have "unat (PML4_INDEX v) = take_bit 8 (unat (PML4_INDEX v))" by (metis unsigned_take_bit_eq)
  then show ?thesis using take_bit_nat_less_exp [of 8 "unat (PML4_INDEX v)"] by (simp add: word_less_nat_alt)
qed

lemma page_indices:
  "PML4_INDEX (page_of v) = PML4_INDEX v" "PDPT_INDEX (page_of v) = PDPT_INDEX v"
  "PD_INDEX (page_of v) = PD_INDEX v" "PT_INDEX (page_of v) = PT_INDEX v"
  unfolding low_bits by (rule bit_eqI; auto simp: index_bits bit_simps)+

lemma same_page_iff:
  assumes "u < 2 ^ 47" "v < 2 ^ 47"
  shows "vpath u = vpath v \<and> PT_INDEX u = PT_INDEX v \<longleftrightarrow> page_of u = page_of v"
proof
  assume eq: "vpath u = vpath v \<and> PT_INDEX u = PT_INDEX v"
  have "bit u n = bit v n" if n: "12 \<le> n" for n
  proof (cases "n < 48")
    case True
    with n consider "n < 21" | "21 \<le> n" "n < 30" | "30 \<le> n" "n < 39" | "39 \<le> n" by linarith
    then show ?thesis
    proof cases
      case 1
      then show ?thesis using eq n index_bits(4) [of u "n - 12"] index_bits(4) [of v "n - 12"] by auto
    next
      case 2
      then show ?thesis using eq index_bits(3) [of u "n - 21"] index_bits(3) [of v "n - 21"] by (auto simp: vpath_def)
    next
      case 3
      then show ?thesis using eq index_bits(2) [of u "n - 30"] index_bits(2) [of v "n - 30"] by (auto simp: vpath_def)
    next
      case 4
      then show ?thesis using eq True index_bits(1) [of u "n - 39"] index_bits(1) [of v "n - 39"] by (auto simp: vpath_def)
    qed
  qed (use user_bits assms in force)
  then show "page_of u = page_of v"
    unfolding low_bits by (intro bit_eqI) (auto simp: bit_simps not_less)
next
  assume "page_of u = page_of v"
  then show "vpath u = vpath v \<and> PT_INDEX u = PT_INDEX v" unfolding vpath_def by (metis page_indices)
qed

lemma leaf_frame:
  assumes "a < 2 ^ 52"
  shows "push_bit 12 (take_bit 40 (drop_bit 12 (page_of a))) = page_of a"
proof (rule bit_eqI)
  fix n assume "possible_bit TYPE(u64) n"
  have "n < 52" if "bit a n"
  proof -
    have "unat a < 2 ^ 52" "bit (unat a) n" using assms that by (simp_all add: word_less_nat_alt bit_simps)
    then show ?thesis by (metis bit_take_bit_iff take_bit_nat_eq_self)
  qed
  then show "bit (push_bit 12 (take_bit 40 (drop_bit 12 (page_of a)))) n = bit (page_of a) n"
    unfolding low_bits by (auto simp: bit_simps)
qed

section \<open>Mapping a page\<close>

lemma vpath_take:
  "PML4_INDEX v < 256 \<Longrightarrow> upath ([] @ [PML4_INDEX v]) \<and> upath ([PML4_INDEX v] @ [PDPT_INDEX v]) \<and>
     upath ([PML4_INDEX v, PDPT_INDEX v] @ [PD_INDEX v])"
  by (simp add: upath_def)

lemma grows_spaces: "grows n w w' P p \<Longrightarrow> spaces w' P"
  by (simp add: grows_def)

lemma get_pt_entry_grows:
  assumes sp: "spaces w P" and p: "p \<in> P" and v: "PML4_INDEX v < 256" and n: "3 \<le> card (pmm_avail (pages w))"
  shows "\<exists>t w'. get_pt_entry w p v True = Some (Some (t, PT_INDEX v), w') \<and> table_at w' p (vpath v) = Some t \<and> grows 3 w w' P p"
proof -
  note up = vpath_take [OF v]
  have ne: "pmm_avail (pages x) \<noteq> {}" if "1 \<le> card (pmm_avail (pages x))" for x :: "'a ast_scheme" using that by auto
  obtain r1 w1 where 1: "descend w p (PML4_INDEX v) True = Some (r1, w1)" using descend_total [OF sp ne] n by force
  from descend_grows [OF sp p _ _ 1, of "[]"] up obtain t1 where
    t1: "r1 = Some t1" "table_at w1 p [PML4_INDEX v] = Some t1" and g1: "grows 1 w w1 P p" by auto
  have n1: "2 \<le> card (pmm_avail (pages w1))" using n g1 by (simp add: grows_def)
  note sp1 = grows_spaces [OF g1]
  obtain r2 w2 where 2: "descend w1 t1 (PDPT_INDEX v) True = Some (r2, w2)" using descend_total [OF sp1 ne] n1 by force
  from descend_grows [OF sp1 p _ t1(2) 2] up obtain t2 where
    t2: "r2 = Some t2" "table_at w2 p [PML4_INDEX v, PDPT_INDEX v] = Some t2" and g2: "grows 1 w1 w2 P p" by auto
  have n2: "1 \<le> card (pmm_avail (pages w2))" using n1 g2 by (simp add: grows_def)
  note sp2 = grows_spaces [OF g2]
  obtain r3 w3 where 3: "descend w2 t2 (PD_INDEX v) True = Some (r3, w3)" using descend_total [OF sp2 ne [OF n2]] by blast
  from descend_grows [OF sp2 p _ t2(2) 3] up obtain t3 where
    t3: "r3 = Some t3" "table_at w3 p (vpath v) = Some t3" and g3: "grows 1 w2 w3 P p" by (auto simp: vpath_def)
  have "grows 3 w w3 P p" using grows_trans [OF grows_trans [OF g1 g2 p] g3 p] by (simp add: numeral_3_eq_3)
  then show ?thesis using 1 2 3 t1 t2 t3 by (auto simp: get_pt_entry_def)
qed

text \<open>Storing a leaf changes no table and only one translation.\<close>

lemma set_leaf:
  assumes sp: "spaces w P" and p: "p \<in> P" and t: "table_at w p (vpath v) = Some t" and v: "PML4_INDEX v < 256"
    and w': "w' = set_entry t (PT_INDEX v) e w"
  shows "q \<in> P \<Longrightarrow> upath js \<Longrightarrow> table_at w' q js = table_at w q js" and "spaces w' P"
    and "q \<in> P \<Longrightarrow> PML4_INDEX u < 256 \<Longrightarrow> translate w' q u =
      (if q = p \<and> vpath u = vpath v \<and> PT_INDEX u = PT_INDEX v
       then if e_present e then push_bit 12 (e_frame e) OR PG_OFFSET u else 0 else translate w q u)"
proof -
  note uv = vpath_upath [OF v]
  show tabs: "table_at w' q js = table_at w q js" if q: "q \<in> P" "upath js" for q js
  proof (rule table_at_same)
    fix k x assume k: "k < length js" "table_at w q (take k js) = Some x"
    have "x \<noteq> t"
    proof
      assume "x = t"
      then have "take k js = vpath v" using spaces_inj [OF sp q(1) p upath_take [OF q(2)] uv k(2)] t by simp
      then have "3 \<le> k" by (metis length_take min.cobounded2 vpath_def length_Cons list.size(3) numeral_3_eq_3)
      then show False using k(1) q(2) by (simp add: upath_def)
    qed
    then show "entry_at w' x (js ! k) = entry_at w x (js ! k)" by (simp add: w' entry_other_table)
  qed
  have pg: "pages w' = pages w" by (simp add: w')
  show "spaces w' P" using sp tabs unfolding spaces_def page_used_def pg by metis
  assume q: "q \<in> P" "PML4_INDEX u < 256"
  note uu = vpath_upath [OF q(2)]
  show "translate w' q u =
      (if q = p \<and> vpath u = vpath v \<and> PT_INDEX u = PT_INDEX v
       then if e_present e then push_bit 12 (e_frame e) OR PG_OFFSET u else 0 else translate w q u)"
  proof (cases "table_at w q (vpath u)")
    case (Some x)
    have "x = t \<longleftrightarrow> q = p \<and> vpath u = vpath v" using spaces_inj [OF sp q(1) p uu uv Some] t Some by auto
    then show ?thesis using Some tabs [OF q(1) uu] by (auto simp: translate_def w' entry_set_entry)
  qed (use t tabs [OF q(1) uu] in \<open>auto simp: translate_def\<close>)
qed

text \<open>The tables of an address space, the kernel half of its top table, and the pages outside it.\<close>

definition same_outside :: "'a ast_scheme \<Rightarrow> 'a ast_scheme \<Rightarrow> u64 \<Rightarrow> bool" where
  "same_outside w w' p \<longleftrightarrow> (\<forall>j. 256 \<le> j \<longrightarrow> j < 512 \<longrightarrow> entry_at w' p j = entry_at w p j) \<and>
     (\<forall>a. page_used w a \<longrightarrow> (\<forall>js. upath js \<longrightarrow> table_at w p js \<noteq> Some a) \<longrightarrow> page_mem w' a = page_mem w a)"

lemma map_page_in_grows:
  assumes sp: "spaces w P" and p: "p \<in> P" "p \<noteq> 0" and v: "v < 2 ^ 47" and n: "3 \<le> card (pmm_avail (pages w))"
  shows "\<exists>w1 w' t. map_page_in w p v a flags = Some w' \<and> grows 3 w w1 P p \<and> table_at w1 p (vpath v) = Some t \<and>
    w' = set_entry t (PT_INDEX v) (make_leaf (drop_bit 12 (page_of a)) (flags AND 1 \<noteq> 0) (flags AND 2 \<noteq> 0) (flags AND 4 \<noteq> 0)) w1"
proof -
  let ?v = "page_of v"
  have "PML4_INDEX ?v < 256" "vpath ?v = vpath v" using user_index [OF v] by (simp_all add: vpath_def page_indices)
  with get_pt_entry_grows [OF sp p(1) _ n, of ?v] obtain t w1 where
    "get_pt_entry w p ?v True = Some (Some (t, PT_INDEX v), w1)" "table_at w1 p (vpath v) = Some t" "grows 3 w w1 P p"
    by (auto simp: page_indices)
  then show ?thesis using p(2) by (intro exI [of _ w1] exI) (auto simp: map_page_in_def)
qed

text \<open>Mapping a page, with what becomes of the tables.\<close>

lemma map_page_in_effect:
  assumes sp: "spaces w P" and p: "p \<in> P" "p \<noteq> 0" and v: "v < 2 ^ 47" and a: "a < 2 ^ 52"
    and fl: "flags AND 1 \<noteq> 0" and n: "3 \<le> card (pmm_avail (pages w))"
  shows "\<exists>w'. map_page_in w p v a flags = Some w' \<and> spaces w' P \<and> same_outside w w' p \<and>
    (\<forall>q \<in> P. \<forall>u < 2 ^ 47. get_physical_in w' q u =
       (if q = p \<and> page_of u = page_of v then Some ((page_of a) OR (u AND 0xFFF)) else get_physical_in w q u)) \<and>
    (\<forall>js u. upath js \<longrightarrow> table_at w' p js = Some u \<longrightarrow> table_at w p js = Some u \<or> \<not> page_used w u)"
proof -
  let ?e = "make_leaf (drop_bit 12 (page_of a)) (flags AND 1 \<noteq> 0) (flags AND 2 \<noteq> 0) (flags AND 4 \<noteq> 0)"
  obtain w1 w' t where op: "map_page_in w p v a flags = Some w'" and g: "grows 3 w w1 P p"
    and t: "table_at w1 p (vpath v) = Some t" and w': "w' = set_entry t (PT_INDEX v) ?e w1"
    using map_page_in_grows [OF sp p v n] by blast
  note iv = user_index [OF v] and sp1 = grows_spaces [OF g]
  note leaf = set_leaf [OF sp1 p(1) t iv w']
  have "translate w' q u = (if q = p \<and> page_of u = page_of v then (page_of a) OR (u AND 0xFFF) else translate w q u)"
    if "q \<in> P" "u < 2 ^ 47" for q u
    using leaf(3) [OF that(1) user_index [OF that(2)]] fl a g that(1) user_index [OF that(2)] same_page_iff [OF that(2) v]
    by (simp add: make_leaf_fields leaf_frame PG_OFFSET_def grows_def)
  moreover have tabs: "x \<noteq> t" if "page_used w x" "\<forall>js. upath js \<longrightarrow> table_at w p js \<noteq> Some x" for x
    using that g t vpath_upath [OF iv] unfolding grows_def by metis
  moreover have "t \<noteq> p"
    using spaces_inj [OF sp1 p(1) p(1) vpath_upath [OF iv], of "[]" t] t by (auto simp: upath_def vpath_def)
  ultimately have "same_outside w w' p" using g
    by (auto simp: same_outside_def grows_def w' entry_other_table page_mem_set_entry [OF tabs])
  moreover have "\<forall>js u. upath js \<longrightarrow> table_at w' p js = Some u \<longrightarrow> table_at w p js = Some u \<or> \<not> page_used w u"
    using leaf(1) [OF p(1)] g unfolding grows_def by metis
  ultimately show ?thesis using op leaf(2) \<open>\<And>u q. q \<in> P \<Longrightarrow> u < 2 ^ 47 \<Longrightarrow> translate w' q u = _\<close> by (auto simp: get_physical_in_translate)
qed

text \<open>C5: Mapping a page in an address space always succeeds when three pages are available for tables. Afterwards
  exactly the addresses of that page translate to the given frame; all other addresses of this address space and
  every address of all other address spaces translate as before (processes are isolated from each other), the
  kernel half and every allocated page that is not a page table of this address space are untouched, and the
  tables still form disjoint trees of allocated pages.\<close>

theorem map_page_in_maps:
  assumes sp: "spaces w P" and p: "p \<in> P" "p \<noteq> 0" and v: "v < 2 ^ 47" and a: "a < 2 ^ 52"
    and fl: "flags AND 1 \<noteq> 0" and n: "3 \<le> card (pmm_avail (pages w))"
  shows "\<exists>w'. map_page_in w p v a flags = Some w' \<and> spaces w' P \<and> same_outside w w' p \<and>
    (\<forall>q \<in> P. \<forall>u < 2 ^ 47. get_physical_in w' q u =
       (if q = p \<and> page_of u = page_of v then Some ((page_of a) OR (u AND 0xFFF)) else get_physical_in w q u))"
  using map_page_in_effect [OF assms] by blast

section \<open>A new address space\<close>

lemma spacesI:
  assumes "pmm_wf (pages w)" "total_pages (pages w) \<le> 2 ^ 40" "0 \<notin> pmm_avail (pages w)"
    and "\<And>p js t. p \<in> P \<Longrightarrow> upath js \<Longrightarrow> table_at w p js = Some t \<Longrightarrow> page_used w t"
    and "\<And>p q js ks t. p \<in> P \<Longrightarrow> q \<in> P \<Longrightarrow> upath js \<Longrightarrow> upath ks \<Longrightarrow> table_at w p js = Some t \<Longrightarrow> table_at w q ks = Some t \<Longrightarrow> p = q \<and> js = ks"
  shows "spaces w P"
proof -
  have "\<forall>p \<in> P. \<forall>js t. upath js \<longrightarrow> table_at w p js = Some t \<longrightarrow> page_used w t" using assms(4) by blast
  moreover have "\<forall>p \<in> P. \<forall>q \<in> P. \<forall>js ks t. upath js \<longrightarrow> upath ks \<longrightarrow> table_at w p js = Some t \<longrightarrow> table_at w q ks = Some t \<longrightarrow> p = q \<and> js = ks"
    by (intro ballI allI impI) (rule assms(5))
  ultimately show ?thesis using assms(1-3) by (simp add: spaces_def)
qed

lemma copy_entries_frame:
  "pages (copy_entries dst src is w) = pages w" "kernel_pml4 (copy_entries dst src is w) = kernel_pml4 w"
  "u \<noteq> dst \<Longrightarrow> page_mem (copy_entries dst src is w) u = page_mem w u"
  unfolding copy_entries_def by (induction "is" arbitrary: w) (simp_all add: page_mem_set_entry)

lemma copy_entries_at:
  assumes "dst \<noteq> src" "n \<le> 512" "j < 512"
  shows "entry_at (copy_entries dst src [m..<n] w) dst j = (if m \<le> unat j \<and> unat j < n then entry_at w src j else entry_at w dst j)"
  using assms(2)
proof (induction n)
  case (Suc n)
  have i: "(of_nat n :: u64) < 512" using Suc.prems by (simp add: word_less_nat_alt unat_of_nat_u64)
  have "j = of_nat n \<longleftrightarrow> unat j = n" using Suc.prems by (auto simp: word_unat_eq_iff unat_of_nat_u64)
  moreover have "entry_at (copy_entries dst src [m..<n] w) src j = entry_at w src j" for j
    using copy_entries_frame(3) [of src dst src "[m..<n]" w] assms(1) by (simp add: entry_at_def)
  ultimately show ?case using Suc i assms(1,3) by (auto simp: copy_entries_def entry_set_entry)
qed (simp add: copy_entries_def)

text \<open>Every table the walk visits is an allocated page, so the walk does not see a page that was
  just taken.\<close>

lemma table_at_fresh:
  assumes sp: "spaces w P" and q: "q \<in> P" "upath js" and f: "\<not> page_used w f"
    and pm: "\<And>u. u \<noteq> f \<Longrightarrow> page_mem w' u = page_mem w u"
  shows "table_at w' q js = table_at w q js"
proof (rule table_at_same)
  fix k u assume k: "k < length js" "table_at w q (take k js) = Some u"
  have "page_used w u" using spaces_used [OF sp q(1) upath_take [OF q(2)] k(2)] .
  with f have "u \<noteq> f" by auto
  then show "entry_at w' u (js ! k) = entry_at w u (js ! k)" using pm [of u] by (simp add: entry_at_def)
qed

lemma table_at_empty:
  assumes "\<And>j. j < 256 \<Longrightarrow> entry_at w d j = 0" "upath js" "table_at w d js = Some u"
  shows "js = [] \<and> u = d"
  using assms by (cases js) (auto simp: upath_def e_present_def split: if_splits)

text \<open>A fresh table with an empty user half becomes the root of a new address space.\<close>

lemma fresh_space:
  assumes sp: "spaces w P" and fr: "\<not> page_used w d" and pm: "\<And>u. u \<noteq> d \<Longrightarrow> page_mem w' u = page_mem w u"
    and lo: "\<And>j. j < 256 \<Longrightarrow> entry_at w' d j = 0"
    and av: "pmm_avail (pages w') = pmm_avail (pages w) - {virtual_to_physical d}" "pmm_wf (pages w')" "total_pages (pages w') = total_pages (pages w)"
  shows "d \<notin> P" "spaces w' (insert d P)" "\<And>u. u < 2 ^ 47 \<Longrightarrow> translate w' d u = 0" "\<And>q u. q \<in> P \<Longrightarrow> u < 2 ^ 47 \<Longrightarrow> translate w' q u = translate w q u"
proof -
  have tabs: "table_at w' q js = table_at w q js" if "q \<in> P" "upath js" for q js
    using table_at_fresh [OF sp that fr pm] .
  show dP: "d \<notin> P" using spaces_used [OF sp, of d "[]" d] fr by (auto simp: upath_def)
  note td = table_at_empty [OF lo]
  have cases: "table_at w' q js = Some u \<Longrightarrow> upath js \<Longrightarrow> q \<in> insert d P \<Longrightarrow>
      q = d \<and> js = [] \<and> u = d \<or> q \<in> P \<and> table_at w q js = Some u \<and> page_used w u" for q js u
    using td tabs spaces_used [OF sp] by (metis insertE)
  have used: "page_used w' u" if "page_used w u \<or> u = d" for u using that av by (auto simp: page_used_def)
  have "q = r \<and> js = ks" if "q \<in> insert d P" "r \<in> insert d P" "upath js" "upath ks" "table_at w' q js = Some u" "table_at w' r ks = Some u" for q r js ks u
  proof -
    have "q = d \<and> js = [] \<and> r = d \<and> ks = [] \<or> q \<in> P \<and> r \<in> P \<and> table_at w q js = Some u \<and> table_at w r ks = Some u"
      using cases [OF that(5,3,1)] cases [OF that(6,4,2)] fr by auto
    then show ?thesis using spaces_inj [OF sp, of q r js ks u] that(3,4) by auto
  qed
  moreover have "page_used w' u" if "q \<in> insert d P" "upath js" "table_at w' q js = Some u" for q js u
    using cases [OF that(3,2,1)] used by blast
  moreover have "total_pages (pages w') \<le> 2 ^ 40" "0 \<notin> pmm_avail (pages w')" using sp av by (auto simp: spaces_def)
  ultimately show "spaces w' (insert d P)" using av(2) by (intro spacesI)
  show "translate w' d u = 0" if "u < 2 ^ 47" for u
    using td [of "vpath u"] vpath_upath [OF user_index [OF that]] by (auto simp: translate_def vpath_def split: option.split)
  show "translate w' q u = translate w q u" if "q \<in> P" "u < 2 ^ 47" for q u
  proof (cases "table_at w q (vpath u)")
    case (Some t)
    have "page_used w t" using spaces_used [OF sp that(1) vpath_upath [OF user_index [OF that(2)]] Some] .
    then have "t \<noteq> d" using fr by auto
    then show ?thesis using Some tabs [OF that(1) vpath_upath [OF user_index [OF that(2)]]] pm [of t]
      by (simp add: translate_def entry_at_def)
  qed (use tabs [OF that(1) vpath_upath [OF user_index [OF that(2)]]] in \<open>simp add: translate_def\<close>)
qed

text \<open>C16: A cloned page directory is a new address space with nothing mapped in the user half and the kernel half
  of the kernel's own directory; the address spaces there are and every allocated page stay as they were.\<close>

theorem paging_clone_directory_fresh:
  assumes sp: "spaces w P" and k: "page_used w (kernel_pml4 w)" and n: "pmm_avail (pages w) \<noteq> {}"
  shows "\<exists>d w'. paging_clone_directory w = Some (d, w') \<and> d \<notin> P \<and> spaces w' (insert d P) \<and>
    (\<forall>u < 2 ^ 47. get_physical_in w' d u = Some 0) \<and>
    (\<forall>q \<in> P. \<forall>u < 2 ^ 47. get_physical_in w' q u = get_physical_in w q u) \<and>
    (\<forall>j. 256 \<le> j \<and> j < 512 \<longrightarrow> entry_at w' d j = entry_at w (kernel_pml4 w) j) \<and>
    (\<forall>a. page_used w a \<longrightarrow> page_mem w' a = page_mem w a)"
proof -
  obtain d w1 where d: "alloc_table w = Some (d, w1)" using alloc_table_total [OF sp n] by blast
  note al = alloc_table_Some [OF sp d]
  define w' where "w' = copy_entries d (kernel_pml4 w) [256..<512] w1"
  have op: "paging_clone_directory w = Some (d, w')" using d by (simp add: paging_clone_directory_def w'_def)
  have fr: "\<not> page_used w d" using al(1) by (simp add: page_used_def)
  have dk: "d \<noteq> kernel_pml4 w" using fr k by auto
  have pm: "page_mem w' u = page_mem w u" if "u \<noteq> d" for u using that al(6) by (simp add: w'_def copy_entries_frame)
  have ent: "entry_at w' d j = (if 256 \<le> j then entry_at w (kernel_pml4 w) j else 0)" if "j < 512" for j
  proof -
    have "unat j < 512" using that by (simp add: word_less_nat_alt)
    moreover have "entry_at w1 (kernel_pml4 w) j = entry_at w (kernel_pml4 w) j" using al(6) [of "kernel_pml4 w"] dk by (simp add: entry_at_def)
    ultimately show ?thesis using copy_entries_at [OF dk _ that, of 512 256 w1] al(5) [OF that] unfolding w'_def word_le_nat_alt by (simp del: upt_rec_numeral)
  qed
  have lo: "entry_at w' d j = 0" if "j < 256" for j
  proof -
    have "j < 512" using that by (simp add: word_less_nat_alt)
    then show ?thesis using ent that by (simp add: not_le [symmetric])
  qed
  have av: "pmm_avail (pages w') = pmm_avail (pages w) - {virtual_to_physical d}" "pmm_wf (pages w')" "total_pages (pages w') = total_pages (pages w)"
    using al(2-4) by (simp_all add: w'_def copy_entries_frame)
  note sp' = fresh_space [OF sp fr pm lo av]
  have "page_mem w' a = page_mem w a" if "page_used w a" for a using pm fr that by metis
  then show ?thesis using op sp' ent by (auto simp: get_physical_in_translate intro!: exI [of _ d] exI [of _ w'])
qed

text \<open>A machine with sixteen pages, of which page 0 is reserved, as a concrete instance.\<close>

definition small_pmm :: pmm where
  "small_pmm = \<lparr>bitmap = (\<lambda>i. if i = 0 then 1 else 0), total_pages = 16, used_pages = 1\<rparr>"

definition small_machine :: ast where
  "small_machine = \<lparr>heap = mem_init (\<lambda>_. \<lparr>bh_size = 0, bh_free = 0, bh_next = 0\<rparr>), objs = Map.empty,
     mount_table = [], mount_count = 0, file_table = [], pages = small_pmm, page_mem = (\<lambda>_ _. 0), rtc_now = 0,
     kernel_pml4 = PHYSICAL_MAP_BASE, cr3 = 0\<rparr>"

lemma small_avail: "0 \<notin> pmm_avail small_pmm" "{4096, 8192, 12288, 16384} \<subseteq> pmm_avail small_pmm"
  "virtual_to_physical PHYSICAL_MAP_BASE \<notin> pmm_avail small_pmm"
proof -
  have "i * PAGE_SIZE \<noteq> 0" if "page_free small_pmm i" "i < 16" for i
  proof
    assume "i * PAGE_SIZE = 0"
    moreover have "i < 2 ^ 52" using that(2) by (simp add: word_less_nat_alt)
    ultimately have "i = 0" using page_address(4) by blast
    with that(1) show False by (simp add: small_pmm_def bitmap_test_def)
  qed
  then show z: "0 \<notin> pmm_avail small_pmm" unfolding pmm_avail_def by (force simp: small_pmm_def)
  then show "virtual_to_physical PHYSICAL_MAP_BASE \<notin> pmm_avail small_pmm" by (simp add: virtual_to_physical_def)
  have "page_free small_pmm 1" "page_free small_pmm 2" "page_free small_pmm 3" "page_free small_pmm 4"
    by (code_simp)+
  then show "{4096, 8192, 12288, 16384} \<subseteq> pmm_avail small_pmm"
    unfolding pmm_avail_def by (auto simp: small_pmm_def intro: exI [of _ 1] exI [of _ 2] exI [of _ 3] exI [of _ 4])
qed

lemma small_machine_spaces: "P \<subseteq> {PHYSICAL_MAP_BASE} \<Longrightarrow> spaces small_machine P"
proof (rule spacesI)
  have "entry_at small_machine t j = 0" for t j by (simp add: entry_at_def small_machine_def rd64_def)
  note empty = table_at_empty [OF this]
  assume P: "P \<subseteq> {PHYSICAL_MAP_BASE}"
  show "page_used small_machine t" if "p \<in> P" "upath js" "table_at small_machine p js = Some t" for p js t
    using empty [OF that(2,3)] that(1) P small_avail(3) by (auto simp: page_used_def small_machine_def)
  show "p = q \<and> js = ks" if "upath js" "upath ks" "table_at small_machine p js = Some t" "table_at small_machine q ks = Some t" for p q js ks t
    using empty [OF that(1,3)] empty [OF that(2,4)] by simp
qed (use small_avail(1) in \<open>simp_all add: small_machine_def pmm_wf_def, simp_all add: small_pmm_def\<close>)

theorem paging_clone_directory_fresh_witness:
  "\<exists>d w'. paging_clone_directory small_machine = Some (d, w') \<and> spaces w' {d} \<and> get_physical_in w' d 0x400000 = Some 0"
proof -
  have "page_used small_machine (kernel_pml4 small_machine)" "pmm_avail (pages small_machine) \<noteq> {}"
    using small_avail by (auto simp: small_machine_def page_used_def)
  from paging_clone_directory_fresh [OF small_machine_spaces [of "{}"] this] show ?thesis by auto
qed

theorem map_page_in_maps_witness:
  "\<exists>w'. map_page_in small_machine PHYSICAL_MAP_BASE 0x400123 0x5678 7 = Some w' \<and>
     get_physical_in w' PHYSICAL_MAP_BASE 0x400ABC = Some (page_of 0x5678 OR (0x400ABC AND 0xFFF)) \<and>
     get_physical_in w' PHYSICAL_MAP_BASE 0x401000 = get_physical_in small_machine PHYSICAL_MAP_BASE 0x401000"
proof -
  have "card {4096, 8192, 12288, 16384 :: u64} \<le> card (pmm_avail (pages small_machine))"
    using small_avail(2) by (intro card_mono) (simp_all add: small_machine_def)
  then have "3 \<le> card (pmm_avail (pages small_machine))" by simp
  from map_page_in_maps [OF small_machine_spaces [OF subset_refl [of "{PHYSICAL_MAP_BASE}"]] _ _ _ _ _ this, where p = PHYSICAL_MAP_BASE and v = "0x400123" and a = "0x5678" and flags = 7]
  obtain w' where "map_page_in small_machine PHYSICAL_MAP_BASE 0x400123 0x5678 7 = Some w'"
    and "\<forall>q \<in> {PHYSICAL_MAP_BASE}. \<forall>u < 2 ^ 47. get_physical_in w' q u =
       (if q = PHYSICAL_MAP_BASE \<and> page_of u = page_of 0x400123 then Some (page_of 0x5678 OR (u AND 0xFFF)) else get_physical_in small_machine q u)"
    by auto
  then show ?thesis by (auto simp: page_of_def)
qed

end
