(* ===== verification/Kprintf.thy ===== *)
theory Kprintf
  imports Acorn_Prelude
begin

text \<open>
  The kernel's formatted output, \<open>src/kernel/core/kprintf.c\<close>: the number writers and
  \<open>kvsnprintf\<close>. A buffer is the list of its characters, a C string the list of its characters
  before the terminator. The variable arguments are a list of tagged values; fetching an argument
  at another type than it was passed with, and a format that ends inside a specifier (the code
  then reads past the terminator), are undefined, so \<^term>\<open>None\<close>.
\<close>

section \<open>Writing numbers\<close>

definition digit_char :: "nat \<Rightarrow> char" where
  "digit_char d = char_of (48 + d)"

text \<open>The loop that collects the digits, last digit first; the 32-bit writer runs it on its argument
  as well.\<close>

function dec_digits :: "u64 \<Rightarrow> string \<Rightarrow> string" where
  "dec_digits n tmp =
     (if n > 0 then dec_digits (n div 10) (tmp @ [digit_char (unat (n mod 10))]) else tmp)"
  by pat_completeness auto
termination
  by (relation "measure (\<lambda>(n, tmp). unat n)") (auto simp: unat_div word_less_nat_alt)

declare dec_digits.simps [simp del]

definition uint_to_dec :: "u32 \<Rightarrow> string" where
  "uint_to_dec n = (if n = 0 then ''0'' else rev (dec_digits (ucast n) []))"

definition uint64_to_dec :: "u64 \<Rightarrow> string" where
  "uint64_to_dec n = (if n = 0 then ''0'' else rev (dec_digits n []))"

text \<open>Negation wraps around, as on the machine, for the smallest number.\<close>

definition int_to_dec :: "u32 \<Rightarrow> string" where
  "int_to_dec n = (if sint n < 0 then CHR ''-'' # uint_to_dec (- n) else uint_to_dec n)"

definition hex_digit :: "nat \<Rightarrow> char" where
  "hex_digit d = ''0123456789ABCDEF'' ! d"

fun hex_loop :: "nat \<Rightarrow> 'a::len word \<Rightarrow> string \<Rightarrow> string" where
  "hex_loop 0 n buf = buf"
| "hex_loop (Suc i) n buf = hex_loop i (drop_bit 4 n) (hex_digit (unat (n AND 0xF)) # buf)"

definition uint_to_hex :: "u32 \<Rightarrow> string" where
  "uint_to_hex n = hex_loop 8 n []"

definition uint64_to_hex :: "u64 \<Rightarrow> string" where
  "uint64_to_hex n = hex_loop 16 n []"

section \<open>Formatting\<close>

datatype va = VInt u32 | VLong u64 | VStr "string option"

fun next_int :: "va list \<Rightarrow> (u32 \<times> va list) option" where
  "next_int (VInt n # args) = Some (n, args)"
| "next_int _ = None"

fun next_long :: "va list \<Rightarrow> (u64 \<times> va list) option" where
  "next_long (VLong n # args) = Some (n, args)"
| "next_long _ = None"

fun next_str :: "va list \<Rightarrow> (string option \<times> va list) option" where
  "next_str (VStr s # args) = Some (s, args)"
| "next_str _ = None"

text \<open>The text a conversion contributes: the cases of the switch.\<close>

definition convert :: "bool \<Rightarrow> char \<Rightarrow> va list \<Rightarrow> (string \<times> va list) option" where
  "convert is_long c args =
     (if c = CHR ''d'' then
        if is_long
        then do { (n, rest) \<leftarrow> next_long args;
                  Some (if sint n < 0 then CHR ''-'' # uint64_to_dec (- n) else uint64_to_dec n, rest) }
        else do { (n, rest) \<leftarrow> next_int args; Some (int_to_dec n, rest) }
      else if c = CHR ''u'' then
        if is_long
        then do { (n, rest) \<leftarrow> next_long args; Some (uint64_to_dec n, rest) }
        else do { (n, rest) \<leftarrow> next_int args; Some (uint_to_dec n, rest) }
      else if c = CHR ''x'' then
        if is_long
        then do { (n, rest) \<leftarrow> next_long args; Some (uint64_to_hex n, rest) }
        else do { (n, rest) \<leftarrow> next_int args; Some (uint_to_hex n, rest) }
      else if c = CHR ''s'' then
        do { (s, rest) \<leftarrow> next_str args; Some (case s of None \<Rightarrow> ''(null)'' | Some t \<Rightarrow> t, rest) }
      else if c = CHR ''c'' then
        do { (n, rest) \<leftarrow> next_int args; Some ([char_of (unat n mod 256)], rest) }
      else if c = CHR ''%'' then Some (''%'', args)
      else Some ([CHR ''%'', c], args))"

text \<open>The macro \<open>PUTC\<close> on the buffer and the position.\<close>

fun putc :: "int \<Rightarrow> char \<Rightarrow> string \<times> nat \<Rightarrow> string \<times> nat" where
  "putc sz c (buf, pos) = (if int pos < sz - 1 then buf[pos := c] else buf, Suc pos)"

definition long_prefix :: "string \<Rightarrow> bool \<times> string" where
  "long_prefix fmt = (if fmt \<noteq> [] \<and> hd fmt = CHR ''l'' then (True, tl fmt) else (False, fmt))"

lemma long_prefix_length: "length (snd (long_prefix fmt)) \<le> length fmt"
  by (simp add: long_prefix_def)

function kvs_loop :: "int \<Rightarrow> string \<Rightarrow> va list \<Rightarrow> string \<times> nat \<Rightarrow> (string \<times> nat) option" where
  "kvs_loop sz [] args st = Some st"
| "kvs_loop sz (c # fmt) args st =
     (if c \<noteq> CHR ''%'' then kvs_loop sz fmt args (putc sz c st)
      else case snd (long_prefix fmt) of
          [] \<Rightarrow> None
        | s # rest \<Rightarrow>
            (case convert (fst (long_prefix fmt)) s args of
               None \<Rightarrow> None
             | Some (out, args') \<Rightarrow> kvs_loop sz rest args' (fold (putc sz) out st)))"
  by pat_completeness auto
termination
proof (relation "measure (\<lambda>(sz, fmt, args, st). length fmt)", goal_cases)
  case (3 sz c fmt args st s rest)
  then show ?case using long_prefix_length [of fmt] by simp
qed simp_all

definition kvsnprintf :: "string \<Rightarrow> int \<Rightarrow> string \<Rightarrow> va list \<Rightarrow> (string \<times> nat) option" where
  "kvsnprintf buf sz fmt args =
     (case kvs_loop sz fmt args (buf, 0) of
        None \<Rightarrow> None
      | Some (buf', pos) \<Rightarrow>
          Some (if int pos < sz then buf'[pos := CHR 0x00]
                else if sz > 0 then buf'[nat (sz - 1) := CHR 0x00] else buf', pos))"

definition ksnprintf :: "string \<Rightarrow> int \<Rightarrow> string \<Rightarrow> va list \<Rightarrow> (string \<times> nat) option" where
  "ksnprintf buf sz fmt args = kvsnprintf buf sz fmt args"

section \<open>Numbers read back\<close>

definition dec_value :: "string \<Rightarrow> nat" where
  "dec_value s = foldl (\<lambda>v c. v * 10 + (of_char c - 48)) 0 s"

lemma dec_value_simps [simp]: "dec_value [] = 0" "dec_value (s @ [c]) = dec_value s * 10 + (of_char c - 48)"
  by (simp_all add: dec_value_def)

lemma of_digit_char [simp]: "d < 10 \<Longrightarrow> (of_char (digit_char d) :: nat) = 48 + d"
  by (simp add: digit_char_def)

definition is_digit :: "char \<Rightarrow> bool" where
  "is_digit c \<longleftrightarrow> (of_char c :: nat) \<in> {48..57}"

lemma is_digit_char [simp]: "d < 10 \<Longrightarrow> is_digit (digit_char d)"
  by (simp add: is_digit_def)

lemma dec_digits_value:
  "dec_value (rev (dec_digits n tmp)) = foldl (\<lambda>v c. v * 10 + (of_char c - 48)) (unat n) (rev tmp)"
proof (induction n tmp rule: dec_digits.induct)
  case (1 n tmp)
  show ?case
  proof (cases "n > 0")
    case True
    have "unat (n div 10) * 10 + unat (n mod 10) = unat n" "unat (n mod 10) < 10" by (simp_all add: unat_div unat_mod)
    then show ?thesis using 1 [OF True] True by (simp add: dec_digits.simps [of n])
  qed (simp add: dec_digits.simps dec_value_def word_gt_0)
qed

lemma dec_digits_shape:
  assumes "unat n < 10 ^ k"
  shows "length (dec_digits n tmp) \<le> length tmp + k \<and>
    (\<exists>ds. dec_digits n tmp = tmp @ ds \<and> (\<forall>c \<in> set ds. is_digit c) \<and> (n \<noteq> 0 \<longrightarrow> ds \<noteq> [] \<and> last ds \<noteq> CHR ''0''))"
  using assms
proof (induction n tmp arbitrary: k rule: dec_digits.induct)
  case (1 n tmp)
  show ?case
  proof (cases "n > 0")
    case True
    then obtain j where k: "k = Suc j" using 1(2) by (cases k) (auto simp: word_less_nat_alt)
    have lt: "unat (n mod 10) < 10" by (simp add: unat_mod)
    have "unat (n div 10) < 10 ^ j" using 1(2) k by (simp add: unat_div less_mult_imp_div_less mult.commute)
    from 1(1) [OF True this] obtain ds where
      ds: "dec_digits (n div 10) (tmp @ [digit_char (unat (n mod 10))]) = (tmp @ [digit_char (unat (n mod 10))]) @ ds"
        "\<forall>c \<in> set ds. is_digit c" "n div 10 \<noteq> 0 \<longrightarrow> ds \<noteq> [] \<and> last ds \<noteq> CHR ''0''"
        "length ((tmp @ [digit_char (unat (n mod 10))]) @ ds) \<le> length tmp + 1 + j" by auto
    let ?d = "digit_char (unat (n mod 10))"
    have "last (?d # ds) \<noteq> CHR ''0''"
    proof (cases "n div 10 = 0")
      case zero: True
      then have "ds = []" using ds(1) by (simp add: dec_digits.simps)
      moreover have "unat (n mod 10) = unat n" using arg_cong [OF zero, of unat] by (simp add: unat_div unat_mod)
      then have "of_char ?d \<noteq> (48 :: nat)" using True lt by (simp add: word_less_nat_alt)
      then have "?d \<noteq> CHR ''0''" by auto
      ultimately show ?thesis by simp
    qed (use ds(3) in simp)
    moreover have "dec_digits n tmp = tmp @ ?d # ds" using ds(1) True by (simp add: dec_digits.simps [of n])
    moreover have "\<forall>c \<in> set (?d # ds). is_digit c" using ds(2) lt by simp
    ultimately show ?thesis using ds(4) k by (intro conjI exI [of _ "?d # ds"]) auto
  qed (simp add: dec_digits.simps word_gt_0)
qed

definition hex_value :: "string \<Rightarrow> nat" where
  "hex_value s = foldl (\<lambda>v c. v * 16 + (if of_char c < (58 :: nat) then of_char c - 48 else of_char c - 55)) 0 s"

lemma hex_digit_value:
  assumes "d < 16"
  shows "(if of_char (hex_digit d) < (58 :: nat) then of_char (hex_digit d) - 48 else of_char (hex_digit d) - 55) = d"
proof -
  have "d \<in> {0, 1, 2, 3, 4, 5, 6, 7, 8, 9, 10, 11, 12, 13, 14, 15}" unfolding insert_iff empty_iff using assms by presburger
  then show ?thesis by (auto simp: hex_digit_def)
qed

lemma hex_loop_value:
  fixes n :: "'a::len word"
  assumes "unat n < 16 ^ k"
  shows "hex_value (hex_loop k n buf) =
    foldl (\<lambda>v c. v * 16 + (if of_char c < (58 :: nat) then of_char c - 48 else of_char c - 55)) (unat n) buf"
  using assms
proof (induction k n buf rule: hex_loop.induct)
  case (1 n buf)
  then show ?case by (simp add: hex_value_def)
next
  case (2 i n buf)
  have u: "unat (drop_bit 4 n) = unat n div 16" by (subst unat_drop_bit_eq) (simp add: drop_bit_eq_div)
  have "unat (drop_bit 4 n) < 16 ^ i" unfolding u using 2(2) by (simp add: less_mult_imp_div_less mult.commute)
  moreover have "unat (n AND 0xF) = unat n mod 16"
  proof -
    have "n AND 0xF = take_bit 4 n" by (simp add: take_bit_eq_mask mask_eq_exp_minus_1)
    then show ?thesis by (simp only: unsigned_take_bit_eq) (simp add: take_bit_eq_mod)
  qed
  moreover have "unat (drop_bit 4 n) * 16 + unat n mod 16 = unat n" unfolding u by simp
  ultimately show ?case using 2(1) hex_digit_value [of "unat n mod 16"] by simp
qed

lemma hex_loop_length [simp]: "length (hex_loop k n buf) = k + length buf"
  by (induction k n buf rule: hex_loop.induct) auto

text \<open>What the writers produce.\<close>

lemma uint64_to_dec_shape:
  "dec_value (uint64_to_dec n) = unat n" "length (uint64_to_dec n) \<le> 20" "\<forall>c \<in> set (uint64_to_dec n). is_digit c"
  "n \<noteq> 0 \<longrightarrow> hd (uint64_to_dec n) \<noteq> CHR ''0''" "uint64_to_dec n \<noteq> []"
proof -
  have "unat n < 10 ^ 20" using unat_u64_bound [of n] by simp
  from dec_digits_shape [OF this, of "[]"] dec_digits_value [of n "[]"]
  show "dec_value (uint64_to_dec n) = unat n" "length (uint64_to_dec n) \<le> 20" "\<forall>c \<in> set (uint64_to_dec n). is_digit c"
    "n \<noteq> 0 \<longrightarrow> hd (uint64_to_dec n) \<noteq> CHR ''0''" "uint64_to_dec n \<noteq> []"
    by (auto simp: uint64_to_dec_def hd_rev dec_value_def is_digit_def)
qed

lemma uint_to_dec_shape:
  "dec_value (uint_to_dec n) = unat n" "length (uint_to_dec n) \<le> 10" "\<forall>c \<in> set (uint_to_dec n). is_digit c"
  "n \<noteq> 0 \<longrightarrow> hd (uint_to_dec n) \<noteq> CHR ''0''" "uint_to_dec n \<noteq> []"
proof -
  have "unat (ucast n :: u64) = unat n" using unat_u32_bound [of n] by (simp add: unsigned_ucast_eq take_bit_nat_eq_self)
  moreover have "(ucast n :: u64) = 0 \<longleftrightarrow> n = 0" using calculation by (metis unat_eq_0)
  moreover have "unat (ucast n :: u64) < 10 ^ 10" using unat_u32_bound [of n] calculation by simp
  ultimately show "dec_value (uint_to_dec n) = unat n" "length (uint_to_dec n) \<le> 10" "\<forall>c \<in> set (uint_to_dec n). is_digit c"
    "n \<noteq> 0 \<longrightarrow> hd (uint_to_dec n) \<noteq> CHR ''0''" "uint_to_dec n \<noteq> []"
    using dec_digits_shape [of "ucast n" 10 "[]"] dec_digits_value [of "ucast n" "[]"]
    by (auto simp: uint_to_dec_def hd_rev dec_value_def is_digit_def)
qed

definition int_value :: "string \<Rightarrow> int" where
  "int_value s = (if hd s = CHR ''-'' then - int (dec_value (tl s)) else int (dec_value s))"

lemma int_to_dec_value: "int_value (int_to_dec n) = sint n"
proof (cases "sint n < 0")
  case True
  then have "2 ^ 31 \<le> uint n" by (simp add: sint_u32 split: if_splits)
  then have "int (unat (- n)) = - sint n"
    using uint_lt2p [of n] by (simp add: sint_u32 uint_word_ariths zmod_zminus1_eq_if)
  then show ?thesis using True uint_to_dec_shape(1) [of "- n"] by (simp add: int_to_dec_def int_value_def)
next
  case False
  have "is_digit (hd (uint_to_dec n))" using uint_to_dec_shape(3,5) [of n] by simp
  then have "hd (uint_to_dec n) \<noteq> CHR ''-''" by (auto simp: is_digit_def)
  moreover have "int (unat n) = sint n" using False uint_lt2p [of n] by (auto simp: sint_u32 split: if_splits)
  ultimately show ?thesis using False uint_to_dec_shape(1) [of n] by (simp add: int_to_dec_def int_value_def)
qed

text \<open>The number writers are right for every number and never leave their buffers: the decimal
  writers produce at most 10 and 20 digits without leading zeros that read back as the number, the
  signed writer's text reads back as the signed number (also for the smallest one), and the
  hexadecimal writers produce exactly 8 and 16 digits that read back as the number.\<close>

theorem number_writers_correct:
  "dec_value (uint_to_dec n) = unat n \<and> length (uint_to_dec n) \<le> 10 \<and> (n \<noteq> 0 \<longrightarrow> hd (uint_to_dec n) \<noteq> CHR ''0'') \<and>
   dec_value (uint64_to_dec m) = unat m \<and> length (uint64_to_dec m) \<le> 20 \<and> (m \<noteq> 0 \<longrightarrow> hd (uint64_to_dec m) \<noteq> CHR ''0'') \<and>
   int_value (int_to_dec n) = sint n \<and> length (int_to_dec n) \<le> 11 \<and>
   hex_value (uint_to_hex n) = unat n \<and> length (uint_to_hex n) = 8 \<and>
   hex_value (uint64_to_hex m) = unat m \<and> length (uint64_to_hex m) = 16"
proof -
  have "length (int_to_dec n) \<le> 11" using uint_to_dec_shape(2) [of n] uint_to_dec_shape(2) [of "- n"] by (simp add: int_to_dec_def)
  moreover have "hex_value (uint_to_hex n) = unat n"
    using hex_loop_value [of n 8 "[]"] unat_u32_bound [of n] by (simp add: uint_to_hex_def)
  moreover have "hex_value (uint64_to_hex m) = unat m"
    using hex_loop_value [of m 16 "[]"] unat_u64_bound [of m] by (simp add: uint64_to_hex_def)
  ultimately show ?thesis
    using uint_to_dec_shape [of n] uint64_to_dec_shape [of m] int_to_dec_value [of n]
    by (simp add: uint_to_hex_def uint64_to_hex_def)
qed

section \<open>The formatter against its specification\<close>

text \<open>The whole text of a format, without a buffer.\<close>

function fmt_text :: "string \<Rightarrow> va list \<Rightarrow> string option" where
  "fmt_text [] args = Some []"
| "fmt_text (c # fmt) args =
     (if c \<noteq> CHR ''%'' then map_option (Cons c) (fmt_text fmt args)
      else case snd (long_prefix fmt) of
          [] \<Rightarrow> None
        | s # rest \<Rightarrow>
            (case convert (fst (long_prefix fmt)) s args of
               None \<Rightarrow> None
             | Some (out, args') \<Rightarrow> map_option ((@) out) (fmt_text rest args')))"
  by pat_completeness auto
termination
proof (relation "measure (\<lambda>(fmt, args). length fmt)", goal_cases)
  case (3 c fmt args s rest)
  then show ?case using long_prefix_length [of fmt] by simp
qed simp_all

lemma kvs_loop_text:
  "kvs_loop sz fmt args st = map_option (\<lambda>out. fold (putc sz) out st) (fmt_text fmt args)"
  by (induction sz fmt args st rule: kvs_loop.induct)
    (auto simp: option.map_comp comp_def split: list.splits option.splits)

text \<open>Putting a text into a buffer keeps what fits before the last byte.\<close>

lemma putc_text:
  assumes "int (length buf) \<ge> sz"
  shows "fold (putc sz) out (buf, pos) =
    (take pos buf @ take (nat (sz - 1) - pos) out @ drop (pos + min (length out) (nat (sz - 1) - pos)) buf, pos + length out)"
  using assms
proof (induction out arbitrary: buf pos)
  case Nil
  then show ?case by simp
next
  case (Cons c out)
  show ?case
  proof (cases "int pos < sz - 1")
    case True
    then have "pos < length buf" "pos < nat (sz - 1)" using Cons.prems by linarith+
    then obtain m where m: "nat (sz - 1) - pos = Suc m" "nat (sz - 1) - Suc pos = m" by (metis Suc_diff_Suc)
    from True \<open>pos < length buf\<close> Cons m show ?thesis by (simp add: take_Suc_conv_app_nth)
  next
    case False
    then have "nat (sz - 1) - pos = 0" by simp
    with False Cons show ?thesis by simp
  qed
qed

lemma kvsnprintf_text:
  assumes "0 < n" and "n \<le> length buf"
  shows "kvsnprintf buf (int n) fmt args =
    map_option (\<lambda>out. (take (n - 1) out @ CHR 0x00 # drop (Suc (min (length out) (n - 1))) buf, length out)) (fmt_text fmt args)"
proof (cases "fmt_text fmt args")
  case (Some out)
  let ?b = "take (n - 1) out @ drop (min (length out) (n - 1)) buf"
  have l: "nat (int n - 1) = n - 1" using assms(1) by simp
  have f: "fold (putc (int n)) out (buf, 0) = (?b, length out)"
    using putc_text [of "int n" buf out 0] assms(2) l by simp
  have d: "drop (min (length out) (n - 1)) buf = buf ! min (length out) (n - 1) # drop (Suc (min (length out) (n - 1))) buf"
    using assms by (intro Cons_nth_drop_Suc [symmetric]) auto
  have u: "?b[min (length out) (n - 1) := CHR 0x00] = take (n - 1) out @ CHR 0x00 # drop (Suc (min (length out) (n - 1))) buf"
    unfolding d by (simp add: list_update_append min.commute)
  show ?thesis
  proof (cases "length out < n")
    case True
    then have "min (length out) (n - 1) = length out" by simp
    then show ?thesis using Some f u True by (simp add: kvsnprintf_def kvs_loop_text)
  next
    case False
    then have "min (length out) (n - 1) = n - 1" by simp
    then show ?thesis using Some f u False assms(1) l by (simp add: kvsnprintf_def kvs_loop_text)
  qed
qed (simp add: kvsnprintf_def kvs_loop_text)

text \<open>C12: \<open>kvsnprintf\<close> into a buffer of \<open>n\<close> bytes writes the text of the format cut to \<open>n - 1\<close>
  characters, then the terminator, and leaves the rest of the buffer alone; it returns the length of the whole
  text. It is undefined exactly when the format ends inside a specifier or an argument is missing or has
  another type.\<close>

theorem kvsnprintf_spec:
  assumes "0 < n" and "n \<le> length buf"
  shows "kvsnprintf buf (int n) fmt args =
    map_option (\<lambda>out. (take (n - 1) out @ CHR 0x00 # drop (Suc (min (length out) (n - 1))) buf, length out)) (fmt_text fmt args)"
  using assms by (rule kvsnprintf_text)

theorem kvsnprintf_spec_witness:
  "kvsnprintf ''........'' 8 ''n=%u!'' [VInt 42] = Some (''n=42!'' @ CHR 0x00 # ''..'', 5)"
proof -
  have "fmt_text ''n=%u!'' [VInt 42] = Some ''n=42!''"
    by (simp add: long_prefix_def convert_def uint_to_dec_def dec_digits.simps digit_char_def) code_simp
  with kvsnprintf_spec [of 8 "''........''" "''n=%u!''" "[VInt 42]"] show ?thesis by simp
qed

end
