(* ===== verification/Rtc.thy ===== *)
theory Rtc
  imports Kprintf "HOL-Library.Signed_Division"
begin

text \<open>
  The real-time clock, \<open>src/drivers/rtc/rtc.c\<close>: decoding of the CMOS registers, conversion to
  seconds since 1970 and the text of \<open>/devices/rtc\<close>. The CMOS chip is the environment: the
  sequence of raw readings it delivers between updates, and its status register B.
\<close>

section \<open>Reading the clock\<close>

record raw_time =
  raw_second :: u8
  raw_minute :: u8
  raw_hour :: u8
  raw_day :: u8
  raw_month :: u8
  raw_year :: u8

record rtc_time =
  t_year :: u32
  t_month :: u8
  t_day :: u8
  t_hour :: u8
  t_minute :: u8
  t_second :: u8

text \<open>The loop of \<open>rtc_read\<close>: two readings per round until they agree. It keeps waiting (\<^term>\<open>None\<close>)
  as long as the chip has delivered no pair of equal readings.\<close>

fun rtc_poll :: "raw_time list \<Rightarrow> (raw_time \<times> raw_time list) option" where
  "rtc_poll (a # b # rest) = (if a = b then Some (a, rest) else rtc_poll rest)"
| "rtc_poll _ = None"

definition bcd :: "u8 \<Rightarrow> u8" where
  "bcd v = (v AND 0x0F) + (v div 16) * 10"

definition rtc_hour :: "u8 \<Rightarrow> u8 \<Rightarrow> u8" where
  "rtc_hour status_b hour =
     (let h = (if status_b AND 0x04 = 0
               then ((hour AND 0x0F) + ((hour AND 0x70) div 16) * 10) OR (hour AND 0x80)
               else hour) in
      if status_b AND 0x02 = 0 \<and> h AND 0x80 \<noteq> 0 then ((h AND 0x7F) + 12) mod 24
      else h AND 0x7F)"

definition rtc_decode :: "u8 \<Rightarrow> raw_time \<Rightarrow> rtc_time" where
  "rtc_decode status_b r =
     (let dec = (\<lambda>v. if status_b AND 0x04 = 0 then bcd v else v) in
      \<lparr>t_year = 2000 + ucast (dec (raw_year r)), t_month = dec (raw_month r), t_day = dec (raw_day r),
       t_hour = rtc_hour status_b (raw_hour r), t_minute = dec (raw_minute r), t_second = dec (raw_second r)\<rparr>)"

definition rtc_read :: "u8 \<Rightarrow> raw_time list \<Rightarrow> (rtc_time \<times> raw_time list) option" where
  "rtc_read status_b readings =
     do { (r, rest) \<leftarrow> rtc_poll readings; Some (rtc_decode status_b r, rest) }"

section \<open>Seconds since 1970\<close>

text \<open>The year is an \<open>int64_t\<close>, here an integer: the product of \<open>era\<close> overflows only for years beyond 25 quadrillion, and the
  only caller passes at most 2255.\<close>

definition days_from_civil :: "int \<Rightarrow> u32 \<Rightarrow> u32 \<Rightarrow> int" where
  "days_from_civil year0 month day =
     (let year = (if month \<le> 2 then year0 - 1 else year0);
          era = (if year \<ge> 0 then year else year - 399) sdiv 400;
          year_of_era = of_int (year - era * 400) :: u32;
          day_of_year = (153 * (month + (if month > 2 then - 3 else 9)) + 2) div 5 + day - 1;
          day_of_era = year_of_era * 365 + year_of_era div 4 - year_of_era div 100 + day_of_year in
      era * 146097 + uint day_of_era - 719468)"

definition epoch_of :: "rtc_time \<Rightarrow> u64" where
  "epoch_of t =
     of_int (days_from_civil (uint (t_year t)) (ucast (t_month t)) (ucast (t_day t))) * 86400 +
     ucast (t_hour t) * 3600 + ucast (t_minute t) * 60 + ucast (t_second t)"

definition rtc_now_epoch :: "u8 \<Rightarrow> raw_time list \<Rightarrow> (u64 \<times> raw_time list) option" where
  "rtc_now_epoch status_b readings =
     do { (t, rest) \<leftarrow> rtc_read status_b readings; Some (epoch_of t, rest) }"

section \<open>The device\<close>

definition write_2digit :: "u8 \<Rightarrow> string" where
  "write_2digit v = [digit_char (unat v div 10), digit_char (unat v mod 10)]"

definition write_4digit :: "u32 \<Rightarrow> string" where
  "write_4digit v = [digit_char (unat v div 1000 mod 10), digit_char (unat v div 100 mod 10),
     digit_char (unat v div 10 mod 10), digit_char (unat v mod 10)]"

definition rtc_format :: "rtc_time \<Rightarrow> string" where
  "rtc_format t = write_4digit (t_year t) @ ''-'' @ write_2digit (t_month t) @ ''-'' @ write_2digit (t_day t) @ '' '' @
     write_2digit (t_hour t) @ '':'' @ write_2digit (t_minute t) @ '':'' @ write_2digit (t_second t) @ [CHR 0x0A]"

definition dev_rtc_read :: "u8 \<Rightarrow> raw_time list \<Rightarrow> u32 \<Rightarrow> (string \<times> raw_time list) option" where
  "dev_rtc_read status_b readings n =
     do { (t, rest) \<leftarrow> rtc_read status_b readings;
          let len = (if n < 20 then n else 20);
          Some (take (unat len) (rtc_format t), rest) }"

section \<open>The calendar\<close>

definition leap :: "nat \<Rightarrow> bool" where
  "leap y \<longleftrightarrow> 4 dvd y \<and> (\<not> 100 dvd y \<or> 400 dvd y)"

definition month_length :: "nat \<Rightarrow> nat \<Rightarrow> nat" where
  "month_length y m = (if m = 2 then if leap y then 29 else 28 else if m \<in> {4, 6, 9, 11} then 30 else 31)"

fun days_before_year :: "nat \<Rightarrow> nat" where
  "days_before_year 0 = 0"
| "days_before_year (Suc y) = days_before_year y + (if leap y then 366 else 365)"

definition days_before_month :: "nat \<Rightarrow> nat \<Rightarrow> nat" where
  "days_before_month y m = (\<Sum>k \<in> {1..<m}. month_length y k)"

text \<open>Days from 1 January 1970 to a date.\<close>

definition civil_days :: "nat \<Rightarrow> nat \<Rightarrow> nat \<Rightarrow> int" where
  "civil_days y m d = int (days_before_year y + days_before_month y m + d - 1) - int (days_before_year 1970)"

lemma uint_of_nat_u32: "n < 2 ^ 32 \<Longrightarrow> uint (of_nat n :: u32) = int n"
  by (simp add: unsigned_of_nat take_bit_nat_eq_self)

lemma div_Suc_dvd: "Suc y div n = y div n + (if n dvd Suc y then 1 else 0)"
  by (simp add: div_Suc dvd_eq_mod_eq_0)

lemma leap_Suc_arith:
  "(Suc y) div 4 + (y div 100) + (Suc y) div 400 = y div 4 + (Suc y) div 100 + y div 400 + (if leap (Suc y) then 1 else 0)"
proof -
  have "400 dvd Suc y \<longrightarrow> 100 dvd Suc y" "100 dvd Suc y \<longrightarrow> 4 dvd Suc y" by presburger+
  then show ?thesis unfolding leap_def div_Suc_dvd [of y 4] div_Suc_dvd [of y 100] div_Suc_dvd [of y 400]
    by (cases "4 dvd Suc y"; cases "100 dvd Suc y"; cases "400 dvd Suc y"; simp only: simp_thms if_True if_False)
qed

lemma first_of_march:
  "days_before_year y + 59 + (if leap y then 1 else 0) + y div 100 = 365 * y + y div 4 + y div 400 + 60"
proof (induction y)
  case 0
  then show ?case by (simp add: leap_def)
next
  case (Suc y)
  then show ?case using leap_Suc_arith [of y] by (auto split: if_splits)
qed

text \<open>The formula of the code in terms of the years before March.\<close>

lemma era_arith:
  fixes y :: nat
  shows "int (y div 400) * 146097 + int (y mod 400 * 365 + y mod 400 div 4 - y mod 400 div 100)
    = 365 * int y + int (y div 4) - int (y div 100) + int (y div 400)"
proof -
  obtain e r where y: "y = 400 * e + r" "r < 400" by (metis mod_less_divisor mult_div_mod_eq zero_less_numeral)
  have "y div 4 = 100 * e + r div 4" "y div 100 = 4 * e + r div 100" using y(1) by presburger+
  moreover have "r div 100 \<le> r * 365 + r div 4" by simp
  ultimately show ?thesis using y by (simp add: of_nat_diff algebra_simps)
qed

lemma days_from_civil_march:
  fixes y doy :: nat
  assumes "doy \<le> 367"
  shows "int (y div 400) * 146097 +
      uint ((of_nat (y mod 400) :: u32) * 365 + of_nat (y mod 400) div 4 - of_nat (y mod 400) div 100 + of_nat doy)
    = 365 * int y + int (y div 4) - int (y div 100) + int (y div 400) + int doy"
proof -
  let ?r = "y mod 400"
  have r: "?r < 400" by simp
  have d: "(of_nat ?r :: u32) div 4 = of_nat (?r div 4)" "(of_nat ?r :: u32) div 100 = of_nat (?r div 100)"
    using r by (simp_all add: word_arith_nat_div unat_of_nat)
  have "(of_nat ?r :: u32) * 365 + of_nat ?r div 4 - of_nat ?r div 100 + of_nat doy
      = of_nat (?r * 365 + ?r div 4 - ?r div 100 + doy)"
    unfolding d by (simp add: of_nat_diff)
  moreover have "?r * 365 + ?r div 4 - ?r div 100 + doy < 2 ^ 32" using r assms by simp
  then have "uint (of_nat (?r * 365 + ?r div 4 - ?r div 100 + doy) :: u32) = int (?r * 365 + ?r div 4 - ?r div 100 + doy)"
    by (rule uint_of_nat_u32)
  ultimately have "uint ((of_nat ?r :: u32) * 365 + of_nat ?r div 4 - of_nat ?r div 100 + of_nat doy)
      = int (?r * 365 + ?r div 4 - ?r div 100) + int doy" by (simp only: of_nat_add)
  with era_arith [of y] show ?thesis by (simp only: add.assoc)
qed

lemma days_before_month_step: "1 < m \<Longrightarrow> days_before_month y m = days_before_month y (m - 1) + month_length y (m - 1)"
  by (cases m) (auto simp: days_before_month_def atLeastLessThanSuc)

lemma days_before_month_values:
  "days_before_month y (Suc 0) = 0" "days_before_month y 2 = 31"
  "days_before_month y 3 = 59 + (if leap y then 1 else 0)" "days_before_month y 4 = 90 + (if leap y then 1 else 0)"
  "days_before_month y 5 = 120 + (if leap y then 1 else 0)" "days_before_month y 6 = 151 + (if leap y then 1 else 0)"
  "days_before_month y 7 = 181 + (if leap y then 1 else 0)" "days_before_month y 8 = 212 + (if leap y then 1 else 0)"
  "days_before_month y 9 = 243 + (if leap y then 1 else 0)" "days_before_month y 10 = 273 + (if leap y then 1 else 0)"
  "days_before_month y 11 = 304 + (if leap y then 1 else 0)" "days_before_month y 12 = 334 + (if leap y then 1 else 0)"
  by (simp_all add: days_before_month_step month_length_def) (simp_all add: days_before_month_def)

lemma epoch_year: "days_before_year 1970 = 719528"
  using first_of_march [of 1970] by (simp add: leap_def)

text \<open>Days from 1 March to the first of a month.\<close>

definition march_days :: "nat \<Rightarrow> nat" where
  "march_days m = [306, 337, 0, 31, 61, 92, 122, 153, 184, 214, 245, 275] ! (m - 1)"

lemma month_cases:
  assumes "1 \<le> (m :: nat)" and "m \<le> 12"
  obtains "m = 1" | "m = 2" | "m = 3" | "m = 4" | "m = 5" | "m = 6" | "m = 7" | "m = 8" | "m = 9" | "m = 10" | "m = 11" | "m = 12"
proof -
  have "m = 1 \<or> m = 2 \<or> m = 3 \<or> m = 4 \<or> m = 5 \<or> m = 6 \<or> m = 7 \<or> m = 8 \<or> m = 9 \<or> m = 10 \<or> m = 11 \<or> m = 12"
    using assms by presburger
  then show thesis using that by blast
qed

lemma march_days_word:
  assumes "1 \<le> m" and "m \<le> 12"
  shows "(153 * (of_nat m + (if (of_nat m :: u32) > 2 then - 3 else 9)) + 2) div 5 + of_nat (Suc e) - 1 = (of_nat (march_days m + e) :: u32)"
  using assms by (cases rule: month_cases) (simp_all add: march_days_def)

lemma days_before_month_march:
  assumes "1 \<le> m" and "m \<le> 12"
  shows "days_before_month y m + (if m \<le> 2 then 306 else 0) = march_days m + (if m \<le> 2 then 0 else 59 + (if leap y then 1 else 0))"
  using assms by (cases rule: month_cases) (simp_all add: march_days_def days_before_month_values)

lemma days_from_civil_calendar:
  assumes y: "1 \<le> y" and m: "1 \<le> m" "m \<le> 12" and d: "1 \<le> d" "d \<le> 31"
  shows "days_from_civil (int y) (of_nat m) (of_nat d) = civil_days y m d"
proof -
  define Y where "Y = (if m \<le> 2 then y - 1 else y)"
  obtain e where e: "d = Suc e" "e \<le> 30" using d by (cases d) auto
  have m2: "(of_nat m :: u32) \<le> 2 \<longleftrightarrow> m \<le> 2" using m(2) by (simp add: word_le_nat_alt unat_of_nat)
  have year: "(if (of_nat m :: u32) \<le> 2 then int y - 1 else int y) = int Y" using y by (simp add: m2 Y_def of_nat_diff)
  have era: "int Y sdiv 400 = int (Y div 400)" by (cases "Y = 0") (simp_all add: signed_divide_int_def zdiv_int)
  have yoe: "(of_int (int Y - int (Y div 400) * 400) :: u32) = of_nat (Y mod 400)"
  proof -
    have "int Y = int (Y div 400) * 400 + int (Y mod 400)" by (simp add: zdiv_int zmod_int)
    then show ?thesis by (metis add_diff_cancel_left' of_int_of_nat_eq)
  qed
  have doy: "march_days m + e \<le> 367" using e m by (cases rule: month_cases [OF m]) (simp_all add: march_days_def)
  have "days_from_civil (int y) (of_nat m) (of_nat d) =
      365 * int Y + int (Y div 4) - int (Y div 100) + int (Y div 400) + int (march_days m + e) - 719468"
    unfolding days_from_civil_def Let_def year e(1) march_days_word [OF m]
    by (simp only: of_nat_0_le_iff if_True era yoe days_from_civil_march [OF doy])
  also have "\<dots> = civil_days y m d"
  proof (cases "m \<le> 2")
    case True
    then have "y = Suc Y" using y by (simp add: Y_def)
    then show ?thesis using True first_of_march [of Y] days_before_month_march [OF m, of y] e(1)
      by (auto simp: civil_days_def epoch_year)
  next
    case False
    then show ?thesis using first_of_march [of y] days_before_month_march [OF m, of y] e(1)
      by (auto simp: civil_days_def epoch_year Y_def)
  qed
  finally show ?thesis .
qed

text \<open>C13: \<open>days_from_civil\<close> counts the days of the Gregorian calendar: for every date from year 1 on it
  returns the number of days from 1 January 1970, as given by adding up the years and months
  with the leap year rule.\<close>

theorem days_from_civil_correct:
  assumes y: "1 \<le> y" and m: "1 \<le> m" "m \<le> 12" and d: "1 \<le> d" "d \<le> 31"
  shows "days_from_civil (int y) (of_nat m) (of_nat d) = civil_days y m d"
  using assms by (rule days_from_civil_calendar)

theorem days_from_civil_correct_witness: "days_from_civil 2000 3 1 = 11017"
proof -
  have "days_before_year 2000 = 730485" using first_of_march [of 2000] by (simp add: leap_def)
  then have "civil_days 2000 3 1 = 11017" by (simp add: civil_days_def epoch_year days_before_month_values leap_def)
  with days_from_civil_correct [of 2000 3 1] show ?thesis by simp
qed

section \<open>From the registers to the epoch\<close>

definition to_bcd :: "nat \<Rightarrow> u8" where
  "to_bcd n = of_nat (n div 10 * 16 + n mod 10)"

text \<open>The registers of a clock that shows a time, by its status register B: two BCD digits or, with bit 2 set, a binary number;
  the hour from 0 to 23 with bit 1 set, otherwise from 1 to 12 with the top bit for the afternoon.\<close>

definition enc :: "u8 \<Rightarrow> nat \<Rightarrow> u8" where
  "enc status_b n = (if status_b AND 0x04 = 0 then to_bcd n else of_nat n)"

definition enc_hour :: "u8 \<Rightarrow> nat \<Rightarrow> u8" where
  "enc_hour status_b h =
     (if status_b AND 0x02 \<noteq> 0 then enc status_b h
      else enc status_b (if h mod 12 = 0 then 12 else h mod 12) OR (if 12 \<le> h then 0x80 else 0))"

definition raw_of :: "u8 \<Rightarrow> nat \<Rightarrow> nat \<Rightarrow> nat \<Rightarrow> nat \<Rightarrow> nat \<Rightarrow> nat \<Rightarrow> raw_time" where
  "raw_of status_b y m d h mi s = \<lparr>raw_second = enc status_b s, raw_minute = enc status_b mi, raw_hour = enc_hour status_b h,
     raw_day = enc status_b d, raw_month = enc status_b m, raw_year = enc status_b (y - 2000)\<rparr>"

lemma unat_to_bcd: "n < 100 \<Longrightarrow> unat (to_bcd n) = n div 10 * 16 + n mod 10"
  by (simp only: to_bcd_def unat_of_nat) (simp add: less_mult_imp_div_less)

lemma u8_low_nibble: "unat ((v :: u8) AND 0x0F) = unat v mod 16"
proof -
  have "v AND 0x0F = take_bit 4 v" by (simp add: take_bit_eq_mask mask_eq_exp_minus_1)
  then show ?thesis by (simp only: unsigned_take_bit_eq) (simp add: take_bit_eq_mod)
qed

lemma bcd_to_bcd: "n < 100 \<Longrightarrow> bcd (to_bcd n) = of_nat n"
proof -
  assume n: "n < 100"
  have "unat (bcd (to_bcd n)) = n"
    using n unat_to_bcd [OF n] by (simp add: bcd_def u8_low_nibble unat_word_ariths unat_div)
  then have "of_nat (unat (bcd (to_bcd n))) = (of_nat n :: u8)" by (simp only:)
  then show ?thesis by simp
qed

lemma dec_enc: "n < 100 \<Longrightarrow> (if status_b AND 0x04 = 0 then bcd (enc status_b n) else enc status_b n) = of_nat n"
  by (simp add: enc_def bcd_to_bcd)

text \<open>The hour register is decoded right in all four modes, except at noon and midnight in 12-hour mode.\<close>

lemma rtc_hour_modes:
  "list_all (\<lambda>h. rtc_hour 0 (enc_hour 0 h) = of_nat h \<or> h = 0 \<or> h = 12) [0..<24]"
  "list_all (\<lambda>h. rtc_hour 2 (enc_hour 2 h) = of_nat h) [0..<24]"
  "list_all (\<lambda>h. rtc_hour 4 (enc_hour 4 h) = of_nat h \<or> h = 0 \<or> h = 12) [0..<24]"
  "list_all (\<lambda>h. rtc_hour 6 (enc_hour 6 h) = of_nat h) [0..<24]"
  by code_simp+

lemma rtc_hour_enc:
  assumes "h < 24" and "status_b AND 0x02 \<noteq> 0 \<or> h \<notin> {0, 12}"
  shows "rtc_hour status_b (enc_hour status_b h) = of_nat h"
proof -
  define c :: u8 where "c = (if status_b AND 0x04 = 0 then 0 else 4) + (if status_b AND 0x02 = 0 then 0 else 2)"
  have c: "c AND 0x04 = 0 \<longleftrightarrow> status_b AND 0x04 = 0" "c AND 0x02 = 0 \<longleftrightarrow> status_b AND 0x02 = 0" by (simp_all add: c_def)
  then have "rtc_hour status_b v = rtc_hour c v" "enc_hour status_b h = enc_hour c h" for v
    by (simp_all add: rtc_hour_def enc_hour_def enc_def)
  moreover have "c \<in> {0, 2, 4, 6}" by (simp add: c_def)
  moreover have "c AND 0x02 = 0 \<Longrightarrow> h \<notin> {0, 12}" using assms(2) c(2) by simp
  ultimately show ?thesis using assms(1) rtc_hour_modes by (auto simp: list_all_iff)
qed

lemma ucast_small: "n < 256 \<Longrightarrow> (ucast (of_nat n :: u8) :: 'a::len word) = of_nat n"
  by (simp add: unsigned_of_nat take_bit_nat_eq_self)

lemma rtc_poll_torn: "list_all (\<lambda>(a, b). a \<noteq> b) ps \<Longrightarrow> rtc_poll (concat (map (\<lambda>(a, b). [a, b]) ps) @ r # r # rest) = Some (r, rest)"
  by (induction ps) auto

text \<open>C37: A clock that shows a date and time of this century, in BCD or binary mode, delivers any number of pairs of readings torn
  by an update (none included) and then two that agree. \<open>rtc_now_epoch\<close> skips the torn pairs and returns the number of seconds
  from 1 January 1970 to the time shown. This holds for every value of status register B with the 24-hour mode set, and in
  12-hour mode for all hours but noon and midnight.\<close>

theorem rtc_epoch_correct:
  assumes y: "2000 \<le> y" "y < 2100" and m: "1 \<le> m" "m \<le> 12" and d: "1 \<le> d" "d \<le> 31"
    and t: "h < 24" "mi < 60" "s < 60" and mode: "status_b AND 0x02 \<noteq> 0 \<or> h \<notin> {0, 12}"
    and torn: "list_all (\<lambda>(a, b). a \<noteq> b) ps" and r: "r = raw_of status_b y m d h mi s"
  shows "rtc_now_epoch status_b (concat (map (\<lambda>(a, b). [a, b]) ps) @ r # r # rest) =
    Some (of_int (civil_days y m d * 86400 + int h * 3600 + int mi * 60 + int s), rest)"
proof -
  have "rtc_decode status_b r = \<lparr>t_year = 2000 + ucast (of_nat (y - 2000) :: u8), t_month = of_nat m, t_day = of_nat d,
      t_hour = of_nat h, t_minute = of_nat mi, t_second = of_nat s\<rparr>"
    using y m d t unfolding rtc_decode_def Let_def r raw_of_def raw_time.select_convs by (simp add: dec_enc rtc_hour_enc [OF t(1) mode] split del: if_split)
  moreover have "2000 + (ucast (of_nat (y - 2000) :: u8) :: u32) = of_nat y"
  proof -
    have "(ucast (of_nat (y - 2000) :: u8) :: u32) = of_nat (y - 2000)" using y by (intro ucast_small) simp
    then show ?thesis using y by (simp add: of_nat_diff)
  qed
  ultimately have dec: "rtc_decode status_b r = \<lparr>t_year = of_nat y, t_month = of_nat m, t_day = of_nat d,
      t_hour = of_nat h, t_minute = of_nat mi, t_second = of_nat s\<rparr>" by simp
  have "uint (of_nat y :: u32) = int y" using y by (intro uint_of_nat_u32) simp
  then have "epoch_of (rtc_decode status_b r) = of_int (civil_days y m d * 86400 + int h * 3600 + int mi * 60 + int s)"
    using y m d t days_from_civil_calendar [of y m d] by (simp add: epoch_of_def dec ucast_small)
  then show ?thesis by (simp add: rtc_now_epoch_def rtc_read_def rtc_poll_torn [OF torn])
qed

text \<open>A torn pair, then one second past noon on 1 January 2000, in 24-hour BCD mode.\<close>

theorem rtc_epoch_correct_witness:
  "rtc_now_epoch 2 [raw_of 2 2000 1 1 12 0 0, raw_of 2 2000 1 1 12 0 1, raw_of 2 2000 1 1 12 0 1, raw_of 2 2000 1 1 12 0 1] = Some (946728001, [])"
proof -
  have "list_all (\<lambda>(a, b). a \<noteq> b) [(raw_of 2 2000 1 1 12 0 0, raw_of 2 2000 1 1 12 0 1)]" by (simp add: raw_of_def enc_def to_bcd_def)
  from rtc_epoch_correct [OF _ _ _ _ _ _ _ _ _ _ this refl, of 2000 1 1 12 0 1 2 "[]"]
  have "rtc_now_epoch 2 [raw_of 2 2000 1 1 12 0 0, raw_of 2 2000 1 1 12 0 1, raw_of 2 2000 1 1 12 0 1, raw_of 2 2000 1 1 12 0 1] =
    Some (of_int (civil_days 2000 1 1 * 86400 + 43201), [])" by simp
  moreover have "days_before_year 2000 = 730485" using first_of_march [of 2000] by (simp add: leap_def)
  then have "civil_days 2000 1 1 = 10957" by (simp add: civil_days_def epoch_year days_before_month_values)
  ultimately show ?thesis by simp
qed

text \<open>In 12-hour mode twelve o'clock is converted wrongly: noon (12 PM) becomes hour 0 and midnight
  (12 AM) becomes hour 12, while the other hours are right.\<close>

theorem rtc_12_hour_swaps_noon:
  "rtc_hour 0 0x92 = 0 \<and> rtc_hour 0 0x12 = 12 \<and> (\<forall>h. 1 \<le> h \<and> h \<le> 11 \<longrightarrow> rtc_hour 0 (to_bcd h) = of_nat h \<and> rtc_hour 0 (to_bcd h OR 0x80) = of_nat (h + 12))"
proof (intro conjI allI impI)
  show "rtc_hour 0 0x92 = 0" "rtc_hour 0 0x12 = 12" by code_simp+
  fix h :: nat assume "1 \<le> h \<and> h \<le> 11"
  moreover have "list_all (\<lambda>h. rtc_hour 0 (to_bcd h) = of_nat h \<and> rtc_hour 0 (to_bcd h OR 0x80) = of_nat (h + 12)) [1..<12]" by code_simp
  ultimately show "rtc_hour 0 (to_bcd h) = of_nat h" "rtc_hour 0 (to_bcd h OR 0x80) = of_nat (h + 12)"
    by (auto simp: list_all_iff)
qed

end
