(* ===== verification/Drivers.thy ===== *)
theory Drivers
  imports Rtc
begin

text \<open>
  The device drivers that need no process: the text screen (\<open>src/drivers/display/vga.c\<close>), the serial
  port (\<open>src/drivers/serial/serial.c\<close>), the timer (\<open>src/drivers/timer/timer.c\<close>), the null and random
  devices (\<open>src/drivers/null/null.c\<close>, \<open>src/drivers/random/random.c\<close>) and the two \<open>printf\<close> functions of
  \<open>kprintf.c\<close> that end in them. Writes to I/O ports are recorded as the sequence of port and byte;
  the values \<open>rdrand\<close> will deliver are the environment.
\<close>

section \<open>The screen\<close>

abbreviation VGA_WIDTH :: nat where "VGA_WIDTH \<equiv> 80"
abbreviation VGA_HEIGHT :: nat where "VGA_HEIGHT \<equiv> 25"

record vga_st =
  cells :: "nat \<Rightarrow> u16"
  cursor_x :: nat
  cursor_y :: nat
  colour :: u8

text \<open>\<open>char\<close> is signed, so the cast to \<open>unsigned short\<close> extends the sign.\<close>

definition make_entry :: "u8 \<Rightarrow> u8 \<Rightarrow> u16" where
  "make_entry c col = scast c OR push_bit 8 (ucast col)"

definition vga_set_colour :: "u8 \<Rightarrow> u8 \<Rightarrow> vga_st \<Rightarrow> vga_st" where
  "vga_set_colour fg bg s = s\<lparr>colour := push_bit 4 bg OR fg\<rparr>"

definition set_cell :: "nat \<Rightarrow> u16 \<Rightarrow> vga_st \<Rightarrow> vga_st" where
  "set_cell i e s = s\<lparr>cells := (cells s)(i := e)\<rparr>"

abbreviation space :: u8 where "space \<equiv> 0x20"

definition vga_clear :: "vga_st \<Rightarrow> vga_st" where
  "vga_clear s =
     (fold (\<lambda>i s. set_cell i (make_entry space (colour s)) s) [0..<VGA_WIDTH * VGA_HEIGHT] s)\<lparr>cursor_x := 0, cursor_y := 0\<rparr>"

definition move_row :: "nat \<Rightarrow> vga_st \<Rightarrow> vga_st" where
  "move_row y s =
     fold (\<lambda>x s. set_cell (y * VGA_WIDTH + x) (cells s ((y + 1) * VGA_WIDTH + x)) s) [0..<VGA_WIDTH] s"

definition scroll :: "vga_st \<Rightarrow> vga_st" where
  "scroll s =
     (if cursor_y s < VGA_HEIGHT then s
      else let s1 = fold move_row [0..<VGA_HEIGHT - 1] s;
               s2 = fold (\<lambda>x s. set_cell ((VGA_HEIGHT - 1) * VGA_WIDTH + x) (make_entry space (colour s)) s) [0..<VGA_WIDTH] s1
           in s2\<lparr>cursor_y := VGA_HEIGHT - 1\<rparr>)"

definition vga_putchar :: "u8 \<Rightarrow> vga_st \<Rightarrow> vga_st" where
  "vga_putchar c s =
     scroll
      (if c = 0x0A then s\<lparr>cursor_x := 0, cursor_y := cursor_y s + 1\<rparr>
       else if c = 0x0D then s\<lparr>cursor_x := 0\<rparr>
       else if c = 0x08 then
         if cursor_x s > 0
         then set_cell (cursor_y s * VGA_WIDTH + (cursor_x s - 1)) (make_entry space (colour s)) (s\<lparr>cursor_x := cursor_x s - 1\<rparr>)
         else s
       else
         let s1 = (set_cell (cursor_y s * VGA_WIDTH + cursor_x s) (make_entry c (colour s)) s)\<lparr>cursor_x := cursor_x s + 1\<rparr> in
         if cursor_x s1 \<ge> VGA_WIDTH then s1\<lparr>cursor_x := 0, cursor_y := cursor_y s1 + 1\<rparr> else s1)"

definition vga_print :: "u8 list \<Rightarrow> vga_st \<Rightarrow> vga_st" where
  "vga_print str s = fold vga_putchar str s"

definition vga_init :: "vga_st \<Rightarrow> vga_st" where
  "vga_init s = vga_clear (vga_set_colour 15 0 s)"

definition dev_display_write :: "u8 list \<Rightarrow> u32 \<Rightarrow> vga_st \<Rightarrow> (int \<times> vga_st) option" where
  "dev_display_write buf n s =
     (if unat n \<le> length buf then Some (sint n, fold vga_putchar (take (unat n) buf) s) else None)"

section \<open>The serial port\<close>

type_synonym io_trace = "(u16 \<times> u8) list"

abbreviation COM1 :: u16 where "COM1 \<equiv> 0x3F8"

text \<open>The transmitter is awaited before every byte; the model starts when it is ready.\<close>

definition serial_putchar :: "u8 \<Rightarrow> io_trace \<Rightarrow> io_trace" where
  "serial_putchar c io = io @ [(COM1, c)]"

definition serial_print :: "u8 list \<Rightarrow> io_trace \<Rightarrow> io_trace" where
  "serial_print str io = fold (\<lambda>c io. serial_putchar c (if c = 0x0A then serial_putchar 0x0D io else io)) str io"

definition serial_println :: "u8 list \<Rightarrow> io_trace \<Rightarrow> io_trace" where
  "serial_println str io = serial_print [0x0A] (serial_print str io)"

definition bytes_of :: "string \<Rightarrow> u8 list" where
  "bytes_of s = map (\<lambda>c. of_nat (of_char c)) s"

definition serial_init :: "io_trace \<Rightarrow> io_trace" where
  "serial_init io =
     serial_println (bytes_of ''-----------------------------'')
      (serial_println (bytes_of ''acornOS serial output online.'')
        (io @ [(COM1 + 1, 0x00), (COM1 + 3, 0x80), (COM1, 0x03), (COM1 + 1, 0x00), (COM1 + 3, 0x03), (COM1 + 2, 0xC7), (COM1 + 4, 0x03)]))"

definition dev_serial_read :: "u32 \<Rightarrow> int \<times> u8 list" where
  "dev_serial_read n = (0, [])"

definition dev_serial_write :: "u8 list \<Rightarrow> u32 \<Rightarrow> io_trace \<Rightarrow> (int \<times> io_trace) option" where
  "dev_serial_write buf n io =
     (if unat n \<le> length buf then Some (sint n, fold serial_putchar (take (unat n) buf) io) else None)"

section \<open>printf to the screen and to the serial port\<close>

text \<open>The text in the stack buffer up to the terminator; \<open>buf\<close> is what the stack holds before.\<close>

definition kprintf :: "string \<Rightarrow> string \<Rightarrow> va list \<Rightarrow> vga_st \<Rightarrow> vga_st option" where
  "kprintf buf fmt args s =
     do { (buf', n) \<leftarrow> kvsnprintf buf 1024 fmt args;
          Some (fold vga_putchar (bytes_of (takeWhile (\<lambda>c. c \<noteq> CHR 0x00) buf')) s) }"

definition kserial_printf :: "string \<Rightarrow> string \<Rightarrow> va list \<Rightarrow> io_trace \<Rightarrow> io_trace option" where
  "kserial_printf buf fmt args io =
     do { (buf', n) \<leftarrow> kvsnprintf buf 1024 fmt args;
          Some (serial_print (bytes_of (takeWhile (\<lambda>c. c \<noteq> CHR 0x00) buf')) io) }"

section \<open>The timer\<close>

abbreviation TIMER_FREQUENCY :: u32 where "TIMER_FREQUENCY \<equiv> 100"

definition clock_text :: "u32 \<Rightarrow> u8 list" where
  "clock_text ticks =
     (let seconds = ticks div TIMER_FREQUENCY;
          minutes = seconds div 60;
          hours = minutes div 60;
          secs = seconds mod 60;
          mins = minutes mod 60 in
      [0x55, 0x50, 0x20, 0x30 + ucast (hours div 10), 0x30 + ucast (hours mod 10), 0x3A,
       0x30 + ucast (mins div 10), 0x30 + ucast (mins mod 10), 0x3A,
       0x30 + ucast (secs div 10), 0x30 + ucast (secs mod 10)])"

definition update_clock :: "u32 \<Rightarrow> vga_st \<Rightarrow> vga_st" where
  "update_clock ticks s =
     fold (\<lambda>i s. set_cell (69 + i) (scast (clock_text ticks ! i) OR push_bit 8 0x0A) s) [0..<11] s"

definition timer_handler :: "u32 \<Rightarrow> vga_st \<Rightarrow> u32 \<times> vga_st" where
  "timer_handler ticks s =
     (let t = ticks + 1 in (t, if t mod TIMER_FREQUENCY = 0 then update_clock t s else s))"

definition timer_get_seconds :: "u32 \<Rightarrow> u32" where
  "timer_get_seconds ticks = ticks div TIMER_FREQUENCY"

definition timer_init :: "io_trace \<Rightarrow> io_trace" where
  "timer_init io =
     (let reload = 1193180 div TIMER_FREQUENCY in
      io @ [(0x43, 0x36), (0x40, ucast (reload AND 0xFF)), (0x40, ucast (drop_bit 8 reload AND 0xFF))])"

section \<open>The null and random devices\<close>

definition dev_null_read :: "u32 \<Rightarrow> int \<times> u8 list" where
  "dev_null_read n = (0, [])"

definition dev_null_write :: "u32 \<Rightarrow> int" where
  "dev_null_write n = sint n"

definition rand_next :: "u64 \<Rightarrow> u32 \<Rightarrow> u64" where
  "rand_next seed ticks = (seed XOR ucast ticks) * 6364136223846793005 + 1442695040888963407"

text \<open>The bytes of a random word, low byte first; one word for every eight bytes. For the seven largest sizes the step of eight
  wraps around to 0 before the end is reached: the loop starts over for ever and uses up every list of values (\<^term>\<open>None\<close>).\<close>

function random_bytes :: "u64 list \<Rightarrow> u32 \<Rightarrow> u32 \<Rightarrow> u8 list \<Rightarrow> (u8 list \<times> u64 list) option" where
  "random_bytes vals n i dst =
     (if i < n
      then case vals of
          [] \<Rightarrow> None
        | val # rest \<Rightarrow>
            let to_copy = (if n - i < 8 then n - i else 8);
                dst' = dst @ map (\<lambda>j. ucast (drop_bit (j * 8) val)) [0..<unat to_copy] in
            random_bytes rest n (i + 8) dst'
      else Some (dst, vals))"
  by pat_completeness auto
termination
  by (relation "measure (\<lambda>(vals, n, i, dst). length vals)") auto

definition dev_random_read :: "bool \<Rightarrow> u64 list \<Rightarrow> u32 \<Rightarrow> (int \<times> u8 list \<times> u64 list) option" where
  "dev_random_read rdrand_supported vals n =
     (if rdrand_supported
      then do { (bs, rest) \<leftarrow> random_bytes vals n 0 []; Some (sint n, bs, rest) }
      else Some (sint n, replicate (unat n) 0, vals))"

lemma bytes_of_append: "bytes_of (a @ b) = bytes_of a @ bytes_of b"
  by (simp add: bytes_of_def)

section \<open>What the screen shows\<close>

text \<open>The cursor lies inside the 80 by 25 screen.\<close>

definition on_screen :: "vga_st \<Rightarrow> bool" where
  "on_screen s \<longleftrightarrow> cursor_x s < VGA_WIDTH \<and> cursor_y s < VGA_HEIGHT"

lemma set_cell_fields [simp]:
  "cells (set_cell i e s) = (cells s)(i := e)" "cursor_x (set_cell i e s) = cursor_x s"
  "cursor_y (set_cell i e s) = cursor_y s" "colour (set_cell i e s) = colour s"
  by (simp_all add: set_cell_def)

text \<open>A loop over the columns of a row that stores a value read elsewhere: what it leaves behind.\<close>

lemma fill_row:
  fixes f :: "nat \<Rightarrow> vga_st \<Rightarrow> u16"
  assumes "\<And>x t u. x < n \<Longrightarrow> (\<forall>i. i \<notin> {b..<b + n} \<longrightarrow> cells t i = cells u i) \<Longrightarrow> colour t = colour u \<Longrightarrow> f x t = f x u"
  shows "fold (\<lambda>x s. set_cell (b + x) (f x s) s) [0..<n] s =
    s\<lparr>cells := (\<lambda>i. if b \<le> i \<and> i < b + n then f (i - b) s else cells s i)\<rparr>"
proof -
  let ?g = "\<lambda>m. s\<lparr>cells := (\<lambda>i. if b \<le> i \<and> i < b + m then f (i - b) s else cells s i)\<rparr>"
  have "m \<le> n \<Longrightarrow> fold (\<lambda>x s. set_cell (b + x) (f x s) s) [0..<m] s = ?g m" for m
  proof (induction m)
    case (Suc m)
    then have IH: "fold (\<lambda>x s. set_cell (b + x) (f x s) s) [0..<m] s = ?g m" by simp
    have "f m (?g m) = f m s" using Suc.prems by (intro assms) auto
    then show ?case unfolding upt_Suc_append [OF zero_le] fold_append comp_apply IH
      by (auto simp: set_cell_def fun_eq_iff less_Suc_eq intro!: vga_st.equality)
  qed (auto simp: fun_eq_iff intro!: vga_st.equality)
  from this [of n] show ?thesis by simp
qed

lemma move_row_cells:
  "move_row y s = s\<lparr>cells := (\<lambda>i. if y * 80 \<le> i \<and> i < y * 80 + 80 then cells s (i + 80) else cells s i)\<rparr>"
proof -
  have "move_row y s = s\<lparr>cells := (\<lambda>i. if y * 80 \<le> i \<and> i < y * 80 + 80 then cells s ((y + 1) * 80 + (i - y * 80)) else cells s i)\<rparr>"
    unfolding move_row_def by (rule fill_row) auto
  then show ?thesis by (simp add: add.commute cong: if_cong)
qed

lemma move_rows_cells:
  "fold move_row [0..<n] s = s\<lparr>cells := (\<lambda>i. if i < n * 80 then cells s (i + 80) else cells s i)\<rparr>"
proof (induction n)
  case (Suc n)
  then show ?case by (auto simp: move_row_cells fun_eq_iff intro!: vga_st.equality)
qed simp

lemma scroll_cells:
  assumes "cursor_y s \<ge> 25"
  shows "scroll s = s\<lparr>cursor_y := 24, cells :=
    (\<lambda>i. if i < 1920 then cells s (i + 80) else if i < 2000 then make_entry space (colour s) else cells s i)\<rparr>"
proof -
  let ?t = "s\<lparr>cells := (\<lambda>i. if i < 1920 then cells s (i + 80) else cells s i)\<rparr>"
  have "fold move_row [0..<24] s = ?t" using move_rows_cells [of 24 s] by simp
  moreover have "fold (\<lambda>x s. set_cell (1920 + x) (make_entry space (colour s)) s) [0..<80] ?t =
      ?t\<lparr>cells := (\<lambda>i. if 1920 \<le> i \<and> i < 1920 + 80 then make_entry space (colour ?t) else cells ?t i)\<rparr>"
    by (rule fill_row) auto
  ultimately show ?thesis using assms by (auto simp: scroll_def Let_def fun_eq_iff intro!: vga_st.equality)
qed

lemma scroll_on_screen: "cursor_x s < 80 \<Longrightarrow> on_screen (scroll s)"
  by (cases "cursor_y s < 25") (simp_all add: scroll_cells on_screen_def, simp add: scroll_def)

lemma scroll_outside: "2000 \<le> i \<Longrightarrow> cells (scroll s) i = cells s i"
  by (cases "cursor_y s < 25") (simp_all add: scroll_cells, simp add: scroll_def)

lemma scroll_colour: "colour (scroll s) = colour s"
  by (cases "cursor_y s < 25") (simp_all add: scroll_cells, simp add: scroll_def)

lemma vga_putchar_on_screen:
  assumes "on_screen s"
  shows "on_screen (vga_putchar c s)" and "2000 \<le> i \<Longrightarrow> cells (vga_putchar c s) i = cells s i"
    and "colour (vga_putchar c s) = colour s"
  using assms unfolding vga_putchar_def
  by (auto simp: Let_def on_screen_def scroll_outside scroll_colour intro!: scroll_on_screen [unfolded on_screen_def])

lemma vga_print_on_screen:
  "on_screen s \<Longrightarrow> on_screen (vga_print str s) \<and> (\<forall>i \<ge> 2000. cells (vga_print str s) i = cells s i) \<and>
    colour (vga_print str s) = colour s"
  unfolding vga_print_def by (induction str arbitrary: s) (simp_all add: vga_putchar_on_screen)

lemma vga_init_cells:
  "vga_init s = (vga_set_colour 15 0 s)\<lparr>cells := (\<lambda>i. if i < 2000 then make_entry space (colour (vga_set_colour 15 0 s)) else cells s i),
     cursor_x := 0, cursor_y := 0\<rparr>"
proof -
  have "fold (\<lambda>i s. set_cell (0 + i) (make_entry space (colour s)) s) [0..<2000] (vga_set_colour 15 0 s) =
     (vga_set_colour 15 0 s)\<lparr>cells := (\<lambda>i. if 0 \<le> i \<and> i < 0 + 2000 then make_entry space (colour (vga_set_colour 15 0 s))
        else cells (vga_set_colour 15 0 s) i)\<rparr>"
    by (rule fill_row) auto
  moreover have "cells (vga_set_colour 15 0 s) = cells s" by (simp add: vga_set_colour_def)
  ultimately show ?thesis by (simp add: vga_init_def vga_clear_def cong: if_cong)
qed

text \<open>C38: Printing never leaves the text screen: whatever bytes are written, the cursor stays inside the 80 by 25
  screen, only the 2000 cells of the screen are touched and the colour is kept. A line feed on the last row moves
  every row up by one, blanks the last row and keeps the cursor there; after \<open>vga_init\<close> the screen is blank with the
  cursor in the corner, so this holds from then on.\<close>

theorem vga_print_stays_on_screen:
  assumes "on_screen s"
  shows "on_screen (vga_print str s) \<and> (\<forall>i \<ge> 2000. cells (vga_print str s) i = cells s i) \<and>
    colour (vga_print str s) = colour s \<and>
    (cursor_y s = 24 \<longrightarrow> vga_print [0x0A] s = s\<lparr>cursor_x := 0, cells :=
      (\<lambda>i. if i < 1920 then cells s (i + 80) else if i < 2000 then make_entry space (colour s) else cells s i)\<rparr>) \<and>
    on_screen (vga_init s0) \<and> (\<forall>i < 2000. cells (vga_init s0) i = 0x0F20)"
proof -
  have "cursor_y s = 24 \<Longrightarrow> vga_print [0x0A] s = s\<lparr>cursor_x := 0, cells :=
      (\<lambda>i. if i < 1920 then cells s (i + 80) else if i < 2000 then make_entry space (colour s) else cells s i)\<rparr>"
    by (auto simp: vga_print_def vga_putchar_def scroll_cells intro!: vga_st.equality)
  moreover have "on_screen (vga_init s0) \<and> (\<forall>i < 2000. cells (vga_init s0) i = 0x0F20)"
    by (simp add: vga_init_cells on_screen_def vga_set_colour_def make_entry_def)
  ultimately show ?thesis using assms vga_print_on_screen by blast
qed

theorem vga_print_stays_on_screen_witness:
  "on_screen (vga_print [0x41, 0x0A] \<lparr>cells = \<lambda>i. 0x0F20, cursor_x = 79, cursor_y = 24, colour = 15\<rparr>)"
  using vga_print_stays_on_screen [of "\<lparr>cells = \<lambda>i. 0x0F20, cursor_x = 79, cursor_y = 24, colour = 15\<rparr>" "[0x41, 0x0A]"]
  by (simp add: on_screen_def)

end
