(* ===== verification/Scheduler.thy ===== *)
theory Scheduler
  imports Page_Tables Drivers
begin

text \<open>
  Processes and the scheduler: the process control block of \<open>src/include/kernel/processes/process.h\<close>
  and \<open>src/kernel/processes/scheduler.c\<close>. Control blocks live on the kernel heap and are named by
  their address; the run queue is the circular list through their \<open>next\<close> fields. The registers of
  the processor at the moment of a switch are part of the state. A dereference of an address that
  holds no control block has the result \<^term>\<open>None\<close>.
\<close>

section \<open>Process control blocks\<close>

datatype process_state = PROCESS_READY | PROCESS_RUNNING | PROCESS_BLOCKED | PROCESS_DEAD | PROCESS_SLEEPING

record cpu_state =
  c_rax :: u64
  c_rbx :: u64
  c_rcx :: u64
  c_rdx :: u64
  c_rsi :: u64
  c_rdi :: u64
  c_rbp :: u64
  c_rsp :: u64
  c_rip :: u64
  c_rflags :: u64
  c_cs :: u64
  c_ds :: u64
  c_ss :: u64
  c_r12 :: u64
  c_r13 :: u64
  c_r14 :: u64
  c_r15 :: u64

record process =
  pid :: u64
  pname :: string
  pstate :: process_state
  cpu :: cpu_state
  stack :: u64
  stack_top :: u64
  page_dir :: u64
  time_slice :: int
  ticks_remaining :: int
  pnext :: u64
  user_esp :: u64
  user_eip :: u64
  parent_pid :: u64
  exit_code :: int
  is_user :: int
  heap_base :: u64
  heap_end :: u64
  wake_at_tick :: u32

abbreviation MAX_PROCESSES :: nat where "MAX_PROCESSES \<equiv> 16"

record pst = ast +
  procs :: "u64 \<rightharpoonup> process"
  process_table :: "u64 list"
  current_process :: u64
  next_pid :: u64
  run_queue_head :: u64
  run_queue_tail :: u64
  ticks :: u32
  tss_rsp0 :: u64
  registers :: cpu_state

definition upd_proc :: "u64 \<Rightarrow> (process \<Rightarrow> process) \<Rightarrow> 'a pst_scheme \<Rightarrow> 'a pst_scheme option" where
  "upd_proc p f w = (case procs w p of None \<Rightarrow> None | Some x \<Rightarrow> Some (w\<lparr>procs := (procs w)(p \<mapsto> f x)\<rparr>))"

section \<open>The run queue\<close>

definition scheduler_init :: "'a pst_scheme \<Rightarrow> 'a pst_scheme" where
  "scheduler_init w = w\<lparr>run_queue_head := 0, run_queue_tail := 0\<rparr>"

definition scheduler_add :: "u64 \<Rightarrow> 'a pst_scheme \<Rightarrow> 'a pst_scheme option" where
  "scheduler_add proc w =
     (if proc = 0 then None
      else do {
        w1 \<leftarrow> upd_proc proc (\<lambda>p. p\<lparr>pstate := PROCESS_READY, pnext := 0\<rparr>) w;
        if run_queue_head w1 = 0
        then upd_proc proc (\<lambda>p. p\<lparr>pnext := proc\<rparr>) (w1\<lparr>run_queue_head := proc, run_queue_tail := proc\<rparr>)
        else do {
          w2 \<leftarrow> upd_proc (run_queue_tail w1) (\<lambda>p. p\<lparr>pnext := proc\<rparr>) w1;
          w3 \<leftarrow> upd_proc proc (\<lambda>p. p\<lparr>pnext := run_queue_head w2\<rparr>) w2;
          Some (w3\<lparr>run_queue_tail := proc\<rparr>) } })"

text \<open>The loop that looks for the predecessor; \<open>n\<close> iterations are left.\<close>

fun remove_loop :: "nat \<Rightarrow> u64 \<Rightarrow> u64 \<Rightarrow> u64 \<Rightarrow> 'a pst_scheme \<Rightarrow> 'a pst_scheme option" where
  "remove_loop 0 proc prev node w = Some w"
| "remove_loop (Suc n) proc prev node w =
     do { x \<leftarrow> procs w node;
          if node = proc
          then do {
            w1 \<leftarrow> upd_proc prev (\<lambda>p. p\<lparr>pnext := pnext x\<rparr>) w;
            x1 \<leftarrow> procs w1 node;
            let w2 = (if run_queue_head w1 = proc then w1\<lparr>run_queue_head := pnext x1\<rparr> else w1);
            Some (if run_queue_tail w2 = proc then w2\<lparr>run_queue_tail := prev\<rparr> else w2) }
          else remove_loop n proc node (pnext x) w }"

definition scheduler_remove :: "u64 \<Rightarrow> 'a pst_scheme \<Rightarrow> 'a pst_scheme option" where
  "scheduler_remove proc w =
     (if proc = 0 \<or> run_queue_head w = 0 then Some w
      else if run_queue_head w = proc \<and> run_queue_head w = run_queue_tail w
      then Some (w\<lparr>run_queue_head := 0, run_queue_tail := 0\<rparr>)
      else remove_loop MAX_PROCESSES proc (run_queue_tail w) (run_queue_head w) w)"

section \<open>Ticks\<close>

definition wake_sleeper :: "u32 \<Rightarrow> nat \<Rightarrow> 'a pst_scheme \<Rightarrow> 'a pst_scheme option" where
  "wake_sleeper now i w =
     (let proc = process_table w ! i in
      if proc = 0 then Some w
      else do { p \<leftarrow> procs w proc;
                if pstate p = PROCESS_SLEEPING \<and> now \<ge> wake_at_tick p
                then upd_proc proc (\<lambda>p. p\<lparr>pstate := PROCESS_READY\<rparr>) w
                else Some w })"

definition scheduler_wake_sleepers :: "'a pst_scheme \<Rightarrow> 'a pst_scheme option" where
  "scheduler_wake_sleepers w = loop_over [0..<MAX_PROCESSES] (wake_sleeper (ticks w)) w"

text \<open>The walk to the next process that can run; \<open>n\<close> iterations are left.\<close>

fun pick_next :: "nat \<Rightarrow> 'a pst_scheme \<Rightarrow> u64 \<Rightarrow> u64 \<Rightarrow> u64 option" where
  "pick_next 0 w old nw = Some nw"
| "pick_next (Suc n) w old nw =
     do { x \<leftarrow> procs w nw;
          if pstate x = PROCESS_READY \<or> pstate x = PROCESS_RUNNING \<and> nw \<noteq> old then Some nw
          else if nw = old then Some nw
          else pick_next n w old (pnext x) }"

text \<open>Words on a kernel stack, through the direct map.\<close>

definition mem64 :: "'a sst_scheme \<Rightarrow> u64 \<Rightarrow> u64" where
  "mem64 w a = rd64 (page_mem w (page_of a)) (ucast (PG_OFFSET a))"

definition set_mem64 :: "u64 \<Rightarrow> u64 \<Rightarrow> 'a sst_scheme \<Rightarrow> 'a sst_scheme" where
  "set_mem64 a v w = w\<lparr>page_mem := (page_mem w)(page_of a := wr64 (page_mem w (page_of a)) (ucast (PG_OFFSET a)) v)\<rparr>"

text \<open>\<open>enter_ring3\<close>: the general registers come from the control block, the rest is popped by \<open>iretq\<close>.\<close>

definition enter_ring3 :: "u64 \<Rightarrow> 'a pst_scheme \<Rightarrow> 'a pst_scheme option" where
  "enter_ring3 proc w =
     do { p \<leftarrow> procs w proc;
          let c = cpu p; f = c_rsp c in
          Some (w\<lparr>registers := c\<lparr>c_rip := mem64 w f, c_cs := mem64 w (f + 8), c_rflags := mem64 w (f + 16),
                    c_rsp := mem64 w (f + 24), c_ss := mem64 w (f + 32), c_ds := 0x23\<rparr>\<rparr>) }"

definition switch_context :: "u64 \<Rightarrow> u64 \<Rightarrow> 'a pst_scheme \<Rightarrow> 'a pst_scheme option" where
  "switch_context old nw w =
     do { w1 \<leftarrow> upd_proc old (\<lambda>p. p\<lparr>cpu := (registers w)\<lparr>c_rax := 0, c_rsi := nw, c_rdi := old\<rparr>\<rparr>) w;
          p \<leftarrow> procs w1 nw;
          let w2 = paging_switch_directory (page_dir p) w1;
          if c_cs (cpu p) AND 3 \<noteq> 0 then enter_ring3 nw w2
          else Some (w2\<lparr>registers := (cpu p)\<lparr>c_rdi := c_rdi (registers w), c_rflags := c_rflags (registers w),
                 c_cs := c_cs (registers w), c_ds := c_ds (registers w), c_ss := c_ss (registers w)\<rparr>\<rparr>) }"

definition switch_to :: "u64 \<Rightarrow> u64 \<Rightarrow> 'a pst_scheme \<Rightarrow> 'a pst_scheme option" where
  "switch_to old nw w =
     do { w1 \<leftarrow> upd_proc nw (\<lambda>p. p\<lparr>ticks_remaining := time_slice p\<rparr>) w;
          w2 \<leftarrow> upd_proc old (\<lambda>p. if pstate p = PROCESS_RUNNING then p\<lparr>pstate := PROCESS_READY\<rparr> else p) w1;
          w3 \<leftarrow> upd_proc nw (\<lambda>p. p\<lparr>pstate := PROCESS_RUNNING\<rparr>) w2;
          p \<leftarrow> procs w3 nw;
          switch_context old nw (w3\<lparr>current_process := nw, tss_rsp0 := stack_top p\<rparr>) }"

definition scheduler_tick :: "'a pst_scheme \<Rightarrow> 'a pst_scheme option" where
  "scheduler_tick w =
     do { w1 \<leftarrow> scheduler_wake_sleepers w;
          let old = current_process w1;
          if old = 0 \<or> run_queue_head w1 = 0 then Some w1
          else do {
            w2 \<leftarrow> upd_proc old (\<lambda>p. p\<lparr>ticks_remaining := ticks_remaining p - 1\<rparr>) w1;
            c \<leftarrow> procs w2 old;
            if ticks_remaining c > 0 \<and> pid c \<noteq> 0 \<and> pstate c = PROCESS_RUNNING then Some w2
            else if pnext c = 0 then None
            else do {
              nw \<leftarrow> pick_next MAX_PROCESSES w2 old (pnext c);
              x \<leftarrow> procs w2 nw;
              if pstate x \<noteq> PROCESS_READY \<and> pstate x \<noteq> PROCESS_RUNNING \<or> nw = old
              then upd_proc old (\<lambda>p. p\<lparr>ticks_remaining := time_slice p\<rparr>) w2
              else switch_to old nw w2 } } }"

definition scheduler_yield :: "'a pst_scheme \<Rightarrow> 'a pst_scheme option" where
  "scheduler_yield w =
     (if current_process w = 0 then Some w
      else do { w1 \<leftarrow> upd_proc (current_process w) (\<lambda>p. p\<lparr>ticks_remaining := 0\<rparr>) w; scheduler_tick w1 })"

definition scheduler_start :: "'a pst_scheme \<Rightarrow> 'a pst_scheme option" where
  "scheduler_start w =
     (if run_queue_head w = 0 then None
      else do {
        w1 \<leftarrow> upd_proc (run_queue_head w) (\<lambda>p. p\<lparr>pstate := PROCESS_RUNNING, ticks_remaining := time_slice p\<rparr>)
               (w\<lparr>current_process := run_queue_head w\<rparr>);
        p \<leftarrow> procs w1 (current_process w1);
        Some (w1\<lparr>registers := (registers w1)\<lparr>c_rip := mem64 w1 (c_rsp (cpu p)), c_rsp := c_rsp (cpu p) + 8\<rparr>\<rparr>) })"

section \<open>The run queue as a list\<close>

text \<open>The processes of \<open>xs\<close> are linked in this order and the last one points to \<open>e\<close>.\<close>

fun chain :: "(u64 \<rightharpoonup> process) \<Rightarrow> u64 list \<Rightarrow> u64 \<Rightarrow> bool" where
  "chain m [] e = True"
| "chain m (x # xs) e = ((\<exists>p. m x = Some p \<and> pnext p = hd (xs @ [e])) \<and> chain m xs e)"

definition run_queue :: "'a pst_scheme \<Rightarrow> u64 list \<Rightarrow> bool" where
  "run_queue w xs \<longleftrightarrow> distinct xs \<and> 0 \<notin> set xs \<and> chain (procs w) xs (hd xs) \<and>
     (if xs = [] then run_queue_head w = 0 else run_queue_head w = hd xs \<and> run_queue_tail w = last xs)"

text \<open>Two process maps that differ at most in the links.\<close>

definition same_but_next :: "(u64 \<rightharpoonup> process) \<Rightarrow> (u64 \<rightharpoonup> process) \<Rightarrow> bool" where
  "same_but_next m m' \<longleftrightarrow> (\<forall>q. map_option (\<lambda>p. p\<lparr>pnext := 0\<rparr>) (m' q) = map_option (\<lambda>p. p\<lparr>pnext := 0\<rparr>) (m q))"

lemma upd_proc_Some: "procs w q = Some x \<Longrightarrow> upd_proc q f w = Some (w\<lparr>procs := (procs w)(q \<mapsto> f x)\<rparr>)"
  by (simp add: upd_proc_def)

lemma hd_append_one: "hd (xs @ [e]) = (if xs = [] then e else hd xs)"
  by (cases xs) simp_all

lemma chain_append: "chain m (xs @ ys) e \<longleftrightarrow> chain m xs (hd (ys @ [e])) \<and> chain m ys e"
  by (induction xs) (auto simp: hd_append_one hd_append)

lemma chain_upd_other: "q \<notin> set xs \<Longrightarrow> chain (m(q \<mapsto> x)) xs e \<longleftrightarrow> chain m xs e"
  by (induction xs) auto

lemma chain_mapped: "chain m xs e \<Longrightarrow> q \<in> set xs \<Longrightarrow> \<exists>p. m q = Some p"
  by (induction xs) auto

lemma chain_view:
  assumes "\<And>q. q \<in> set xs \<Longrightarrow> map_option pnext (m' q) = map_option pnext (m q)"
  shows "chain m' xs e \<longleftrightarrow> chain m xs e"
  using assms
proof (induction xs)
  case (Cons x xs)
  have "(\<exists>p. m' x = Some p \<and> pnext p = n) \<longleftrightarrow> (\<exists>p. m x = Some p \<and> pnext p = n)" for n
    using Cons.prems [of x] by (cases "m x"; cases "m' x") auto
  then show ?case using Cons by auto
qed simp

text \<open>Redirecting the last link of a chain.\<close>

lemma chain_relink: "chain m (xs @ [l]) e \<Longrightarrow> l \<notin> set xs \<Longrightarrow> m l = Some x \<Longrightarrow> chain (m(l \<mapsto> x\<lparr>pnext := e'\<rparr>)) (xs @ [l]) e'"
  by (auto simp: chain_append chain_upd_other)

lemma run_queue_ring: "run_queue w (as @ c # bs) \<Longrightarrow> chain (procs w) (bs @ as) c"
  by (cases "as") (auto simp: run_queue_def chain_append hd_append_one)

lemma scheduler_add_appends:
  assumes q: "run_queue w xs" and p: "procs w p = Some x" "p \<noteq> 0" "p \<notin> set xs"
  shows "\<exists>w'. scheduler_add p w = Some w' \<and> run_queue w' (xs @ [p]) \<and>
    same_but_next ((procs w)(p \<mapsto> x\<lparr>pstate := PROCESS_READY\<rparr>)) (procs w')"
proof (cases "xs = []")
  case True
  then show ?thesis using q p by (auto simp: scheduler_add_def upd_proc_def run_queue_def same_but_next_def)
next
  case False
  then obtain bs l where xs: "xs = bs @ [l]" by (metis rev_exhaust)
  have d: "distinct xs" "0 \<notin> set xs" "chain (procs w) xs (hd xs)" "run_queue_head w = hd xs" "run_queue_tail w = l"
    using q False xs by (simp_all add: run_queue_def)
  then obtain y where y: "procs w l = Some y" using chain_mapped [of "procs w" xs "hd xs" l] xs by auto
  have lp: "l \<noteq> p" using p(3) xs by auto
  have h0: "hd xs \<noteq> 0" using d(2) False hd_in_set by metis
  let ?m = "(procs w)(p \<mapsto> x\<lparr>pstate := PROCESS_READY, pnext := hd xs\<rparr>, l \<mapsto> y\<lparr>pnext := p\<rparr>)"
  have op: "scheduler_add p w = Some (w\<lparr>procs := ?m, run_queue_tail := p\<rparr>)"
    using p y lp d(4,5) h0 by (auto simp: scheduler_add_def upd_proc_def fun_upd_twist)
  have "chain ((procs w)(l \<mapsto> y\<lparr>pnext := p\<rparr>)) xs p"
    using chain_relink [of "procs w" bs l "hd xs" y p] d(1,3) y xs by simp
  then have "chain ?m (xs @ [p]) (hd xs)"
    using p(3) lp by (simp add: chain_append chain_upd_other fun_upd_twist [of p l])
  then have "run_queue (w\<lparr>procs := ?m, run_queue_tail := p\<rparr>) (xs @ [p])"
    using d p False by (simp add: run_queue_def)
  moreover have "same_but_next ((procs w)(p \<mapsto> x\<lparr>pstate := PROCESS_READY\<rparr>)) ?m" using y lp by (auto simp: same_but_next_def)
  ultimately show ?thesis using op by auto
qed

text \<open>The search for the predecessor walks along the chain.\<close>

definition splice :: "u64 \<Rightarrow> u64 \<Rightarrow> 'a pst_scheme \<Rightarrow> 'a pst_scheme option" where
  "splice proc prev w = remove_loop 1 proc prev proc w"

lemma remove_loop_finds:
  "chain (procs w) (as @ [p]) e \<Longrightarrow> p \<notin> set as \<Longrightarrow> length as < n \<Longrightarrow>
    remove_loop n p prev (hd (as @ [p])) w = splice p (last (prev # as)) w"
proof (induction "as" arbitrary: n prev)
  case Nil
  then obtain m where "n = Suc m" by (cases n) auto
  then show ?case using Nil by (simp add: splice_def)
next
  case (Cons a as')
  then obtain m where n: "n = Suc m" by (cases n) auto
  from Cons.prems obtain x where x: "procs w a = Some x" "pnext x = hd (as' @ [p])" by (auto simp: hd_append)
  then have "remove_loop n p prev (hd ((a # as') @ [p])) w = remove_loop m p a (hd (as' @ [p])) w"
    using Cons.prems n by auto
  also have "\<dots> = splice p (last (a # as')) w" using Cons.prems n by (intro Cons.IH) auto
  finally show ?case by simp
qed

lemma remove_loop_absent:
  assumes "\<And>y. y \<in> S \<Longrightarrow> \<exists>x. procs w y = Some x \<and> pnext x \<in> S" "p \<notin> S" "node \<in> S"
  shows "remove_loop n p prev node w = Some w"
  using assms(3)
proof (induction n arbitrary: prev node)
  case (Suc n)
  obtain x where "procs w node = Some x" "pnext x \<in> S" using assms(1) Suc.prems by blast
  then show ?case using Suc assms(2) by auto
qed simp

lemma ring_closed:
  assumes "chain m xs (hd xs)" "y \<in> set xs"
  shows "\<exists>x. m y = Some x \<and> pnext x \<in> set xs"
proof -
  obtain as' bs where xs: "xs = as' @ y # bs" using assms(2) by (metis split_list)
  then obtain x where "m y = Some x" "pnext x = hd (bs @ [hd xs])" using assms(1) by (auto simp: chain_append)
  moreover have "hd (bs @ [hd xs]) \<in> set xs" using xs by (cases bs) (auto simp: hd_append)
  ultimately show ?thesis by auto
qed

lemma ring_rotate: "chain m (bs @ as) (hd (bs @ as)) \<Longrightarrow> chain m (as @ bs) (hd (as @ bs))"
  by (cases "as"; cases bs) (auto simp: chain_append hd_append)

lemma scheduler_remove_removes:
  assumes q: "run_queue w xs" and n: "length xs \<le> MAX_PROCESSES"
  shows "\<exists>w'. scheduler_remove p w = Some w' \<and> run_queue w' (remove1 p xs) \<and> same_but_next (procs w) (procs w')"
proof (cases "p \<in> set xs")
  case False
  have "scheduler_remove p w = Some w"
  proof (cases "xs = []")
    case False
    then have "hd xs \<in> set xs" by simp
    then show ?thesis using q False \<open>p \<notin> set xs\<close> remove_loop_absent [of "set xs" w p] ring_closed [of "procs w" xs]
      by (auto simp: scheduler_remove_def run_queue_def)
  qed (use q in \<open>simp add: scheduler_remove_def run_queue_def\<close>)
  then show ?thesis using q False by (simp add: remove1_idem same_but_next_def)
next
  case True
  then obtain as' bs where xs: "xs = as' @ p # bs" and pa: "p \<notin> set as'" by (metis split_list_first)
  have d: "distinct xs" "0 \<notin> set xs" "chain (procs w) xs (hd xs)" "run_queue_head w = hd xs" "run_queue_tail w = last xs"
    using q True by (auto simp: run_queue_def split: if_splits)
  have "hd xs \<in> set xs" using True by (intro hd_in_set) auto
  then have p0: "p \<noteq> 0" "hd xs \<noteq> 0" using d(2) True by metis+
  have rm: "remove1 p xs = as' @ bs" using xs pa by (simp add: remove1_append)
  show ?thesis
  proof (cases "as' @ bs = []")
    case True
    then show ?thesis using xs d p0 rm by (auto simp: scheduler_remove_def run_queue_def same_but_next_def)
  next
    case False
    define prev where "prev = last (last xs # as')"
    obtain cs where cs: "bs @ as' = cs @ [prev]"
      using False xs by (cases "as' = []") (auto simp: prev_def, metis append_butlast_last_id, metis append_assoc append_butlast_last_id)
    have ring: "chain (procs w) (cs @ [prev]) p" using run_queue_ring [of w as' p bs] q xs cs by simp
    obtain y where y: "procs w prev = Some y" using chain_mapped [OF ring, of prev] by auto
    obtain x where x: "procs w p = Some x" "pnext x = hd (bs @ [hd xs])" using d(3) xs by (auto simp: chain_append)
    have pp: "prev \<noteq> p" "prev \<notin> set cs" "distinct (cs @ [prev])" "p \<notin> set (cs @ [prev])"
    proof -
      have "distinct (bs @ as')" "p \<notin> set (bs @ as')" using d(1) xs by auto
      then show "prev \<noteq> p" "prev \<notin> set cs" "distinct (cs @ [prev])" "p \<notin> set (cs @ [prev])" unfolding cs by auto
    qed
    let ?m = "(procs w)(prev \<mapsto> y\<lparr>pnext := pnext x\<rparr>)"
    let ?w = "w\<lparr>procs := ?m, run_queue_head := if hd xs = p then pnext x else hd xs, run_queue_tail := if last xs = p then prev else last xs\<rparr>"
    have "remove_loop MAX_PROCESSES p (last xs) (hd xs) w = splice p prev w"
    proof -
      have "chain (procs w) (as' @ [p]) (hd (bs @ [hd xs]))" "length as' < MAX_PROCESSES" using d(3) xs n by (auto simp: chain_append)
      moreover have "hd (as' @ [p]) = hd xs" using xs by (simp add: hd_append)
      ultimately show ?thesis using remove_loop_finds [of w as' p "hd (bs @ [hd xs])" MAX_PROCESSES "last xs"] pa
        by (simp only: prev_def) simp
    qed
    also have "splice p prev w = Some ?w" using x y pp d(4,5) by (auto simp: splice_def upd_proc_def)
    finally have loop: "remove_loop MAX_PROCESSES p (last xs) (hd xs) w = Some ?w" .
    have ends: "hd xs = p \<longleftrightarrow> as' = []" "last xs = p \<longleftrightarrow> bs = []" using xs d(1) by (cases as'; cases bs rule: rev_cases; auto)+
    then have "scheduler_remove p w = remove_loop MAX_PROCESSES p (last xs) (hd xs) w"
      using p0 d(4,5) False by (auto simp: scheduler_remove_def)
    with loop have op: "scheduler_remove p w = Some ?w" by simp
    have nx: "pnext x = hd (bs @ as')"
    proof (cases bs)
      case Nil
      then show ?thesis using x(2) xs False by simp
    qed (use x(2) in simp)
    have "chain ?m (bs @ as') (hd (bs @ as'))" using chain_relink [OF ring pp(2) y, of "pnext x"] cs nx by simp
    then have "chain ?m (as' @ bs) (hd (as' @ bs))" by (rule ring_rotate)
    moreover have "(if last xs = p then prev else last xs) = last (as' @ bs)"
      using ends xs False by (simp add: prev_def)
    moreover have "(if hd xs = p then pnext x else hd xs) = hd (as' @ bs)"
      using ends xs nx by (auto simp: hd_append)
    ultimately have "run_queue ?w (as' @ bs)" using d(1,2) xs False by (auto simp: run_queue_def)
    moreover have "same_but_next (procs w) ?m" using y by (auto simp: same_but_next_def)
    ultimately show ?thesis using op rm by auto
  qed
qed

section \<open>Waking sleepers\<close>

text \<open>The control blocks after a tick has woken the processes whose time has come.\<close>

definition woken_of :: "u64 set \<Rightarrow> 'a pst_scheme \<Rightarrow> (u64 \<rightharpoonup> process)" where
  "woken_of T w = (\<lambda>q. map_option (\<lambda>p. if q \<in> T \<and> q \<noteq> 0 \<and> pstate p = PROCESS_SLEEPING \<and> wake_at_tick p \<le> ticks w
     then p\<lparr>pstate := PROCESS_READY\<rparr> else p) (procs w q))"

abbreviation woken :: "'a pst_scheme \<Rightarrow> (u64 \<rightharpoonup> process)" where
  "woken w \<equiv> woken_of (set (process_table w)) w"

definition table_ok :: "'a pst_scheme \<Rightarrow> bool" where
  "table_ok w \<longleftrightarrow> length (process_table w) = MAX_PROCESSES \<and> (\<forall>q \<in> set (process_table w). q \<noteq> 0 \<longrightarrow> procs w q \<noteq> None)"

lemma loop_over_append: "loop_over (xs @ ys) body s = do { s1 \<leftarrow> loop_over xs body s; loop_over ys body s1 }"
  by (induction xs arbitrary: s) (auto split: Option.bind_split)

lemma wake_sleepers_upto:
  assumes "table_ok w" "k \<le> MAX_PROCESSES"
  shows "loop_over [0..<k] (wake_sleeper (ticks w)) w = Some (w\<lparr>procs := woken_of (set (take k (process_table w))) w\<rparr>)"
  using assms(2)
proof (induction k)
  case 0
  have "procs w = woken_of {} w" by (rule ext) (simp add: woken_of_def option.map_ident)
  then show ?case by simp
next
  case (Suc k)
  let ?T = "set (take k (process_table w))" and ?q = "process_table w ! k"
  have len: "k < length (process_table w)" using assms(1) Suc.prems by (simp add: table_ok_def)
  have T: "set (take (Suc k) (process_table w)) = insert ?q ?T" using len by (simp add: take_Suc_conv_app_nth)
  have "wake_sleeper (ticks w) k (w\<lparr>procs := woken_of ?T w\<rparr>) = Some (w\<lparr>procs := woken_of (insert ?q ?T) w\<rparr>)"
  proof (cases "?q = 0")
    case True
    then have "woken_of (insert ?q ?T) w = woken_of ?T w" by (auto simp: woken_of_def fun_eq_iff intro!: option.map_cong)
    then show ?thesis using True by (simp add: wake_sleeper_def)
  next
    case False
    then obtain p where p: "procs w ?q = Some p" using assms(1) len by (auto simp: table_ok_def)
    then obtain y where y: "woken_of ?T w ?q = Some y" by (simp add: woken_of_def)
    have "woken_of (insert ?q ?T) w = (woken_of ?T w)(?q \<mapsto> if pstate y = PROCESS_SLEEPING \<and> wake_at_tick y \<le> ticks w then y\<lparr>pstate := PROCESS_READY\<rparr> else y)"
      using False p y by (auto simp: woken_of_def fun_eq_iff intro!: option.map_cong split: if_splits)
    then show ?thesis using False y by (auto simp: wake_sleeper_def upd_proc_def fun_upd_idem Let_def)
  qed
  then show ?case using Suc T by (simp add: loop_over_append)
qed

lemma wake_sleepers: "table_ok w \<Longrightarrow> scheduler_wake_sleepers w = Some (w\<lparr>procs := woken w\<rparr>)"
  using wake_sleepers_upto [of w MAX_PROCESSES] by (simp add: scheduler_wake_sleepers_def table_ok_def del: upt_rec_numeral)

section \<open>Round robin\<close>

definition sched_inv :: "'a pst_scheme \<Rightarrow> u64 list \<Rightarrow> bool" where
  "sched_inv w xs \<longleftrightarrow> run_queue w xs \<and> length xs \<le> MAX_PROCESSES \<and> table_ok w \<and> current_process w \<in> set xs \<and>
     (\<forall>q \<in> set xs. \<forall>p. procs w q = Some p \<longrightarrow> pstate p = PROCESS_RUNNING \<longrightarrow> q = current_process w)"

abbreviation state_of :: "(u64 \<rightharpoonup> process) \<Rightarrow> u64 \<Rightarrow> process_state option" where
  "state_of m q \<equiv> map_option pstate (m q)"

text \<open>The process that runs next, given the other processes of the queue in the order they follow.\<close>

definition next_ready :: "(u64 \<rightharpoonup> process) \<Rightarrow> u64 \<Rightarrow> u64 list \<Rightarrow> u64" where
  "next_ready m c ys = (case find (\<lambda>q. state_of m q = Some PROCESS_READY) ys of None \<Rightarrow> c | Some r \<Rightarrow> r)"

lemma pick_next_finds:
  assumes "chain (procs w) ys c" "c \<notin> set ys" "length ys \<le> n" "\<forall>q \<in> set ys. state_of (procs w) q \<noteq> Some PROCESS_RUNNING" "procs w c \<noteq> None"
  shows "pick_next n w c (hd (ys @ [c])) = Some (next_ready (procs w) c ys)"
  using assms(1-4)
proof (induction ys arbitrary: n)
  case Nil
  then show ?case using assms(5) by (cases n) (auto simp: next_ready_def)
next
  case (Cons y ys)
  then obtain m x where n: "n = Suc m" and x: "procs w y = Some x" "pnext x = hd (ys @ [c])" by (cases n) auto
  then show ?case using Cons by (auto simp: next_ready_def)
qed

text \<open>A step that keeps the links, the table and the queue and updates states.\<close>

lemma same_links_inv:
  assumes "sched_inv w xs" "\<forall>q. map_option pnext (procs w' q) = map_option pnext (procs w q)"
    and "run_queue_head w' = run_queue_head w" "run_queue_tail w' = run_queue_tail w" "process_table w' = process_table w"
    and "current_process w' \<in> set xs"
    and "\<forall>q \<in> set xs. \<forall>p. procs w' q = Some p \<longrightarrow> pstate p = PROCESS_RUNNING \<longrightarrow> q = current_process w'"
  shows "sched_inv w' xs"
proof -
  have dom: "procs w' q = None \<longleftrightarrow> procs w q = None" for q using assms(2) by (metis option.map_disc_iff)
  have "run_queue w' xs" using assms(1-4) chain_view [of xs "procs w'" "procs w" "hd xs"] by (simp add: sched_inv_def run_queue_def)
  then show ?thesis using assms dom by (simp add: sched_inv_def table_ok_def)
qed

text \<open>The states after a switch from \<open>c\<close> to \<open>r\<close>.\<close>

definition switched :: "(u64 \<rightharpoonup> process) \<Rightarrow> u64 \<Rightarrow> u64 \<Rightarrow> (u64 \<Rightarrow> process_state option)" where
  "switched m c r q =
     (if r = c then state_of m q
      else if q = r then Some PROCESS_RUNNING
      else if q = c \<and> state_of m c = Some PROCESS_RUNNING then Some PROCESS_READY else state_of m q)"

lemma switch_context_effect:
  assumes "procs w c = Some p" "procs w r = Some p'"
  shows "\<exists>w'. switch_context c r w = Some w' \<and> (\<forall>q. state_of (procs w') q = state_of (procs w) q \<and> map_option pnext (procs w' q) = map_option pnext (procs w q)) \<and>
    run_queue_head w' = run_queue_head w \<and> run_queue_tail w' = run_queue_tail w \<and> process_table w' = process_table w \<and>
    current_process w' = current_process w \<and> ticks w' = ticks w \<and> (\<forall>q. map_option wake_at_tick (procs w' q) = map_option wake_at_tick (procs w q))"
  using assms
  by (cases "c = r"; cases "page_dir p' = 0"; auto simp: switch_context_def upd_proc_def enter_ring3_def Let_def paging_switch_directory_def)

definition steps_to :: "'a pst_scheme \<Rightarrow> 'a pst_scheme \<Rightarrow> u64 \<Rightarrow> bool" where
  "steps_to w w' r \<longleftrightarrow> current_process w' = r \<and> (\<forall>q. state_of (procs w') q = switched (woken w) (current_process w) r q) \<and>
     process_table w' = process_table w \<and> ticks w' = ticks w \<and>
     (\<forall>q. map_option wake_at_tick (procs w' q) = map_option wake_at_tick (procs w q))"

lemma woken_links [simp]:
  "map_option pnext (woken_of T w q) = map_option pnext (procs w q)"
  "map_option wake_at_tick (woken_of T w q) = map_option wake_at_tick (procs w q)"
  "woken_of T w q = None \<longleftrightarrow> procs w q = None"
  by (auto simp: woken_of_def option.map_comp comp_def intro!: option.map_cong)

lemma woken_running: "state_of (woken_of T w) q = Some PROCESS_RUNNING \<longleftrightarrow> state_of (procs w) q = Some PROCESS_RUNNING"
  by (cases "procs w q") (auto simp: woken_of_def)

lemma state_of_upd: "state_of (m(a \<mapsto> x)) q = (if q = a then Some (pstate x) else state_of m q)"
  by simp

lemma steps_to_inv:
  assumes inv: "sched_inv w xs" and st: "steps_to w w' r" and r: "r \<in> set xs"
    and ln: "\<forall>q. map_option pnext (procs w' q) = map_option pnext (procs w q)"
    and q: "run_queue_head w' = run_queue_head w" "run_queue_tail w' = run_queue_tail w"
  shows "sched_inv w' xs"
proof (rule same_links_inv [OF inv ln q])
  show "process_table w' = process_table w" "current_process w' \<in> set xs" using st r by (simp_all add: steps_to_def)
  show "\<forall>q \<in> set xs. \<forall>p. procs w' q = Some p \<longrightarrow> pstate p = PROCESS_RUNNING \<longrightarrow> q = current_process w'"
  proof (intro ballI allI impI)
    fix a p assume a: "a \<in> set xs" "procs w' a = Some p" "pstate p = PROCESS_RUNNING"
    then have sw: "switched (woken w) (current_process w) r a = Some PROCESS_RUNNING" using st unfolding steps_to_def by (metis option.simps(9))
    have run: "a = current_process w" if "state_of (woken w) a = Some PROCESS_RUNNING"
      using that inv a(1) woken_running [of "set (process_table w)" w a] by (auto simp: sched_inv_def)
    show "a = current_process w'" using sw run st by (auto simp: switched_def steps_to_def split: if_splits)
  qed
qed

lemma pick_next_view:
  assumes "\<forall>q. state_of (procs w) q = state_of (procs w') q" "\<forall>q. map_option pnext (procs w q) = map_option pnext (procs w' q)"
  shows "next_ready (procs w) c ys = next_ready (procs w') c ys"
  using assms by (simp add: next_ready_def)

lemma next_ready_in: "next_ready m c ys = c \<or> next_ready m c ys \<in> set ys \<and> state_of m (next_ready m c ys) = Some PROCESS_READY"
  by (auto simp: next_ready_def find_Some_iff split: option.split)

lemma switch_to_effect:
  assumes c: "procs w c = Some p" and r: "procs w r = Some p'" and rc: "r \<noteq> c"
  shows "\<exists>w'. switch_to c r w = Some w' \<and> current_process w' = r \<and>
    (\<forall>q. state_of (procs w') q = switched (procs w) c r q) \<and> (\<forall>q. map_option pnext (procs w' q) = map_option pnext (procs w q)) \<and>
    (\<forall>q. map_option wake_at_tick (procs w' q) = map_option wake_at_tick (procs w q)) \<and>
    run_queue_head w' = run_queue_head w \<and> run_queue_tail w' = run_queue_tail w \<and> process_table w' = process_table w \<and> ticks w' = ticks w"
proof -
  let ?p = "if pstate p = PROCESS_RUNNING then p\<lparr>pstate := PROCESS_READY\<rparr> else p"
  let ?r = "p'\<lparr>ticks_remaining := time_slice p', pstate := PROCESS_RUNNING\<rparr>"
  let ?w = "w\<lparr>procs := (procs w)(c \<mapsto> ?p, r \<mapsto> ?r), current_process := r, tss_rsp0 := stack_top p'\<rparr>"
  have "switch_to c r w = switch_context c r ?w"
    using c r rc by (simp add: switch_to_def upd_proc_def fun_upd_twist [of r c])
  moreover obtain w' where "switch_context c r ?w = Some w'"
    "\<forall>q. state_of (procs w') q = state_of (procs ?w) q \<and> map_option pnext (procs w' q) = map_option pnext (procs ?w q)"
    "run_queue_head w' = run_queue_head ?w \<and> run_queue_tail w' = run_queue_tail ?w \<and> process_table w' = process_table ?w \<and>
      current_process w' = current_process ?w \<and> ticks w' = ticks ?w \<and> (\<forall>q. map_option wake_at_tick (procs w' q) = map_option wake_at_tick (procs ?w q))"
    using switch_context_effect [of ?w c ?p r ?r] rc by auto
  ultimately show ?thesis using c r rc by (intro exI [of _ w']) (auto simp: switched_def)
qed

lemma tick_effect:
  assumes inv: "sched_inv w (as @ c # bs)" and c: "current_process w = c" "woken w c = Some p"
    and ex: "ticks_remaining p \<le> 1 \<or> pid p = 0 \<or> pstate p \<noteq> PROCESS_RUNNING"
  shows "\<exists>w'. scheduler_tick w = Some w' \<and> steps_to w w' (next_ready (woken w) c (bs @ as)) \<and> sched_inv w' (as @ c # bs)"
proof -
  let ?ys = "bs @ as" and ?p = "p\<lparr>ticks_remaining := ticks_remaining p - 1\<rparr>"
  define w2 where "w2 = w\<lparr>procs := (woken w)(c \<mapsto> ?p)\<rparr>"
  define r where "r = next_ready (woken w) c ?ys"
  have q: "run_queue w (as @ c # bs)" "table_ok w" "length (as @ c # bs) \<le> MAX_PROCESSES" using inv by (simp_all add: sched_inv_def)
  have wp: "map_option pnext (procs w c) = Some (pnext p)" "map_option wake_at_tick (procs w c) = Some (wake_at_tick p)"
    using c(2) woken_links(1,2) [of "set (process_table w)" w c] by simp_all
  have view: "\<forall>q. state_of (procs w2) q = state_of (woken w) q" "\<forall>q. map_option pnext (procs w2 q) = map_option pnext (procs w q)"
    "\<forall>q. map_option wake_at_tick (procs w2 q) = map_option wake_at_tick (procs w q)"
    using c woken_links(1,2) [of "set (process_table w)" w c] by (auto simp: w2_def)
  have ring: "chain (procs w2) ?ys c"
    using run_queue_ring [OF q(1)] chain_view [of ?ys "procs w2" "procs w" c] view by simp
  have d: "c \<notin> set ?ys" "c \<noteq> 0" "0 \<notin> set ?ys" using q(1) by (auto simp: run_queue_def)
  have run: "state_of (procs w2) a \<noteq> Some PROCESS_RUNNING" if "a \<in> set ?ys" for a
    using that d(1) view(1) woken_running [of "set (process_table w)" w a] inv c(1) by (auto simp: sched_inv_def)
  have nx: "pnext p = hd (?ys @ [c])"
  proof -
    have "chain (procs w) (as @ c # bs) (hd (as @ c # bs))" using q(1) by (simp add: run_queue_def)
    then obtain x where "procs w c = Some x" "pnext x = hd (bs @ [hd (as @ c # bs)])" by (auto simp: chain_append)
    moreover have "hd (bs @ [hd (as @ c # bs)]) = hd (?ys @ [c])" by (cases bs; cases "as") auto
    ultimately show ?thesis using c(2) woken_links(1) [of "set (process_table w)" w c] by simp
  qed
  have nz: "pnext p \<noteq> 0" unfolding nx using d by (cases ?ys) auto
  have "pick_next MAX_PROCESSES w2 c (hd (?ys @ [c])) = Some (next_ready (procs w2) c ?ys)"
    using q(3) by (intro pick_next_finds [OF ring d(1)]) (use run in \<open>auto simp: w2_def\<close>)
  then have pick: "pick_next MAX_PROCESSES w2 c (pnext p) = Some r" using view(1) by (simp add: nx r_def next_ready_def)
  obtain pr where pr: "procs w2 r = Some pr"
    using next_ready_in [of "woken w" c ?ys] chain_mapped [OF ring, of r] by (auto simp: r_def w2_def)
  have head: "run_queue_head w \<noteq> 0"
  proof -
    have "hd (as @ c # bs) \<in> set (as @ c # bs)" by (rule hd_in_set) simp
    then show ?thesis using q(1) unfolding run_queue_def by auto
  qed
  have tick: "scheduler_tick w =
      (if pstate pr \<noteq> PROCESS_READY \<and> pstate pr \<noteq> PROCESS_RUNNING \<or> r = c
       then upd_proc c (\<lambda>p. p\<lparr>ticks_remaining := time_slice p\<rparr>) w2 else switch_to c r w2)"
    using wake_sleepers [OF q(2)] c d(2) head ex nz pick pr
    unfolding scheduler_tick_def by (auto simp: upd_proc_def w2_def)
  have rin: "r \<in> set (as @ c # bs)" using next_ready_in [of "woken w" c ?ys] by (auto simp: r_def)
  show ?thesis
  proof (cases "r = c")
    case True
    let ?w' = "w2\<lparr>procs := (procs w2)(c \<mapsto> ?p\<lparr>ticks_remaining := time_slice p\<rparr>)\<rparr>"
    have "scheduler_tick w = Some ?w'" using tick True by (simp add: upd_proc_def w2_def)
    moreover have st: "steps_to w ?w' r" using True c wp by (auto simp: steps_to_def switched_def w2_def)
    moreover have "sched_inv ?w' (as @ c # bs)"
      using wp by (intro steps_to_inv [OF inv st rin]) (auto simp: w2_def)
    ultimately show ?thesis by (auto simp: r_def)
  next
    case False
    then have "pstate pr = PROCESS_READY" using next_ready_in [of "woken w" c ?ys] pr view(1) by (metis r_def option.simps(9) option.inject)
    then have sw: "scheduler_tick w = switch_to c r w2" using tick False by simp
    obtain w' where w': "switch_to c r w2 = Some w'" "current_process w' = r" "\<forall>q. state_of (procs w') q = switched (procs w2) c r q"
      "\<forall>q. map_option pnext (procs w' q) = map_option pnext (procs w2 q)" "\<forall>q. map_option wake_at_tick (procs w' q) = map_option wake_at_tick (procs w2 q)"
      "run_queue_head w' = run_queue_head w2" "run_queue_tail w' = run_queue_tail w2" "process_table w' = process_table w2" "ticks w' = ticks w2"
      using switch_to_effect [of w2 c ?p r pr] pr False by (auto simp: w2_def)
    have st: "steps_to w w' r"
      unfolding steps_to_def using w'(2,3,5,8,9) c(1) view by (simp add: switched_def del: map_option_eq_Some) (simp add: w2_def)
    moreover have "sched_inv w' (as @ c # bs)"
      using w' view(2) by (intro steps_to_inv [OF inv st rin]) (simp_all add: w2_def)
    ultimately show ?thesis using sw w'(1) by (auto simp: r_def)
  qed
qed

lemma sched_inv_mapped: "sched_inv w xs \<Longrightarrow> q \<in> set xs \<Longrightarrow> \<exists>p. procs w q = Some p"
  unfolding sched_inv_def run_queue_def by (meson chain_mapped)

lemma expire_inv:
  assumes "sched_inv w xs" "procs w c = Some p"
  shows "sched_inv (w\<lparr>procs := (procs w)(c \<mapsto> p\<lparr>ticks_remaining := n\<rparr>)\<rparr>) xs"
  using assms(2) by (intro same_links_inv [OF assms(1)]) (use assms in \<open>auto simp: sched_inv_def\<close>)

lemma yield_effect:
  assumes inv: "sched_inv w (as @ c # bs)" and c: "current_process w = c"
  shows "\<exists>w'. scheduler_yield w = Some w' \<and> sched_inv w' (as @ c # bs) \<and>
    current_process w' = next_ready (woken w) c (bs @ as) \<and>
    (\<forall>q. state_of (procs w') q = switched (woken w) c (next_ready (woken w) c (bs @ as)) q)"
proof -
  obtain p where p: "procs w c = Some p" using sched_inv_mapped [OF inv, of c] by auto
  let ?w = "w\<lparr>procs := (procs w)(c \<mapsto> p\<lparr>ticks_remaining := 0\<rparr>)\<rparr>"
  have "c \<noteq> 0" using inv by (auto simp: sched_inv_def run_queue_def)
  then have y: "scheduler_yield w = scheduler_tick ?w" using c p by (simp add: scheduler_yield_def upd_proc_def)
  have wk: "state_of (woken ?w) q = state_of (woken w) q" for q using p by (simp add: woken_of_def)
  obtain p' where p': "woken ?w c = Some p'" "ticks_remaining p' = 0" by (simp add: woken_of_def)
  obtain w' where "scheduler_tick ?w = Some w'" "steps_to ?w w' (next_ready (woken ?w) c (bs @ as))" "sched_inv w' (as @ c # bs)"
    using tick_effect [OF expire_inv [OF inv p, of 0] _ p'(1)] c p'(2) by auto
  moreover have "next_ready (woken ?w) c (bs @ as) = next_ready (woken w) c (bs @ as)" by (simp only: next_ready_def wk)
  ultimately show ?thesis using y c wk by (auto simp: steps_to_def switched_def)
qed

section \<open>Fairness\<close>

fun yields :: "nat \<Rightarrow> 'a pst_scheme \<Rightarrow> 'a pst_scheme option" where
  "yields 0 w = Some w"
| "yields (Suc n) w = do { w1 \<leftarrow> scheduler_yield w; yields n w1 }"

lemma find_in_append: "find P (xs @ ys) = (case find P xs of None \<Rightarrow> find P ys | Some x \<Rightarrow> Some x)"
  by (induction xs) auto

lemma rotate_to:
  assumes "bs @ as = us @ r # vs"
  shows "\<exists>as' bs'. as @ c # bs = as' @ r # bs' \<and> bs' @ as' = vs @ c # us"
proof -
  from assms consider ts where "bs = us @ ts" "ts @ as = r # vs" | ts where "us = bs @ ts" "as = ts @ r # vs"
    by (auto simp: append_eq_append_conv2)
  then show ?thesis
  proof cases
    case 1
    then show ?thesis by (cases ts) (auto intro: exI [of _ "[]"] exI [of _ "as @ c # us"])
  next
    case 2
    then have "as @ c # bs = ts @ r # (vs @ c # bs)" "(vs @ c # bs) @ ts = vs @ c # us" by auto
    then show ?thesis by blast
  qed
qed

lemma ready_stays:
  assumes "state_of (woken w) p = Some PROCESS_READY" "\<forall>q. state_of (procs w') q = switched (woken w) c r q" "p \<noteq> r"
  shows "state_of (woken w') p = Some PROCESS_READY"
proof -
  have "state_of (procs w') p = Some PROCESS_READY" using assms by (auto simp: switched_def)
  then show ?thesis by (cases "procs w' p") (auto simp: woken_of_def)
qed

lemma reaches:
  assumes "sched_inv w (as @ c # bs)" "current_process w = c" "bs @ as = us @ p # vs" "state_of (woken w) p = Some PROCESS_READY"
  shows "\<exists>k w'. k \<le> Suc (length us) \<and> yields k w = Some w' \<and> current_process w' = p \<and> state_of (procs w') p = Some PROCESS_RUNNING \<and> sched_inv w' (as @ c # bs)"
  using assms
proof (induction "length us" arbitrary: w "as" c bs us vs rule: less_induct)
  case less
  let ?r = "next_ready (woken w) c (bs @ as)"
  obtain w1 where w1: "scheduler_yield w = Some w1" "sched_inv w1 (as @ c # bs)" "current_process w1 = ?r"
    "\<forall>q. state_of (procs w1) q = switched (woken w) c ?r q"
    using yield_effect [OF less.prems(1,2)] by blast
  have d: "distinct (as @ c # bs)" using less.prems(1) by (simp add: sched_inv_def run_queue_def)
  show ?case
  proof (cases "?r = p")
    case True
    have "p \<in> set (bs @ as)" using less.prems(3) by simp
    then have "p \<noteq> c" using d by auto
    then have "state_of (procs w1) p = Some PROCESS_RUNNING" using w1(4) True by (simp add: switched_def)
    then show ?thesis using w1 True by (intro exI [of _ 1] exI [of _ w1]) simp
  next
    case False
    obtain r where r: "find (\<lambda>q. state_of (woken w) q = Some PROCESS_READY) us = Some r"
    proof (cases "find (\<lambda>q. state_of (woken w) q = Some PROCESS_READY) us")
      case None
      then have "?r = p" using less.prems(3,4) by (simp add: next_ready_def find_in_append)
      with False show ?thesis by simp
    qed auto
    then have rr: "?r = r" using less.prems(3) by (simp add: next_ready_def find_in_append)
    from r obtain u1 u2 where us: "us = u1 @ r # u2" by (metis find_Some_iff in_set_conv_nth split_list)
    obtain as' bs' where ab: "as @ c # bs = as' @ r # bs'" "bs' @ as' = (u2 @ p # vs) @ c # u1"
      using rotate_to [of bs "as" u1 r "u2 @ p # vs" c] less.prems(3) us by auto
    have "state_of (woken w1) p = Some PROCESS_READY" using ready_stays [OF less.prems(4) w1(4)] False by auto
    then obtain k w' where "k \<le> Suc (length u2)" "yields k w1 = Some w'" "current_process w' = p" "state_of (procs w') p = Some PROCESS_RUNNING"
      "sched_inv w' (as @ c # bs)"
      using less.hyps [of u2 w1 as' r bs' "vs @ c # u1"] us w1 rr ab by auto
    then show ?thesis using w1(1) us by (intro exI [of _ "Suc k"] exI [of _ w']) simp
  qed
qed

text \<open>Yielding is round robin. In a scheduler state with the circular run queue \<open>as @ c # bs\<close> and the current process
  \<open>c\<close>, a yield always returns, wakes the sleepers that are due, and hands the processor to the first READY process that
  follows \<open>c\<close> in the queue; when there is none \<open>c\<close> keeps it. The chosen process becomes RUNNING, the old one READY if it
  was running (a blocked, sleeping or dead one keeps its state), all other states, the queue and the invariant (at most
  the current process is RUNNING) are kept.\<close>

theorem scheduler_yield_round_robin:
  assumes inv: "sched_inv w (as @ c # bs)" and c: "current_process w = c"
  shows "\<exists>w'. scheduler_yield w = Some w' \<and> sched_inv w' (as @ c # bs) \<and>
    current_process w' = next_ready (woken w) c (bs @ as) \<and>
    (\<forall>q. state_of (procs w') q = switched (woken w) c (next_ready (woken w) c (bs @ as)) q)"
  using yield_effect [OF assms] .

lemma fair_round:
  assumes inv: "sched_inv w xs" and p: "p \<in> set xs" "p \<noteq> current_process w" and r: "state_of (woken w) p = Some PROCESS_READY"
  shows "\<exists>k w'. k < length xs \<and> yields k w = Some w' \<and> current_process w' = p \<and> state_of (procs w') p = Some PROCESS_RUNNING \<and> sched_inv w' xs"
proof -
  obtain as' bs where xs: "xs = as' @ current_process w # bs" using inv by (metis sched_inv_def split_list)
  then have "p \<in> set (bs @ as')" using p by auto
  then obtain us vs where us: "bs @ as' = us @ p # vs" by (metis split_list)
  have "length (bs @ as') = length (us @ p # vs)" by (simp only: us)
  then have n: "Suc (length us) < length xs" using xs by simp
  obtain k w' where "k \<le> Suc (length us)" "yields k w = Some w'" "current_process w' = p" "state_of (procs w') p = Some PROCESS_RUNNING" "sched_inv w' xs"
    using reaches [of w as' "current_process w" bs us p vs] inv us r xs by blast
  then show ?thesis using n by (intro exI [of _ k] exI [of _ w']) simp
qed

text \<open>C4: The scheduler is fair: a READY process of the run queue other than the current one gets the processor after at
  most as many yields as there are processes in the queue, and is RUNNING then.\<close>

theorem scheduler_fair:
  assumes inv: "sched_inv w xs" and p: "p \<in> set xs" "p \<noteq> current_process w" and r: "state_of (woken w) p = Some PROCESS_READY"
  shows "\<exists>k w'. k < length xs \<and> yields k w = Some w' \<and> current_process w' = p \<and> state_of (procs w') p = Some PROCESS_RUNNING \<and> sched_inv w' xs"
  using assms by (rule fair_round)

section \<open>The queue interface\<close>

text \<open>What process creation, fork and reaping rely on: adding appends, removing takes out one process, and neither
  releases a control block.\<close>

locale process_queue =
  fixes rep :: "'s \<Rightarrow> u64 list \<Rightarrow> bool"
    and mapped :: "'s \<Rightarrow> u64 set"
    and add :: "u64 \<Rightarrow> 's \<Rightarrow> 's option"
    and remove :: "u64 \<Rightarrow> 's \<Rightarrow> 's option"
  assumes add: "rep s xs \<Longrightarrow> p \<in> mapped s \<Longrightarrow> p \<noteq> 0 \<Longrightarrow> p \<notin> set xs \<Longrightarrow>
      \<exists>s'. add p s = Some s' \<and> rep s' (xs @ [p]) \<and> mapped s' = mapped s"
    and remove: "rep s xs \<Longrightarrow> length xs \<le> MAX_PROCESSES \<Longrightarrow>
      \<exists>s'. remove p s = Some s' \<and> rep s' (remove1 p xs) \<and> mapped s' = mapped s"
begin

text \<open>Adding several processes one after the other queues them in this order.\<close>

lemma add_all:
  "rep s xs \<Longrightarrow> distinct (xs @ ps) \<Longrightarrow> set ps \<subseteq> mapped s - {0} \<Longrightarrow>
    \<exists>s'. fold (\<lambda>p r. Option.bind r (add p)) ps (Some s) = Some s' \<and> rep s' (xs @ ps) \<and> mapped s' = mapped s"
proof (induction ps arbitrary: s xs)
  case (Cons p ps)
  then obtain s1 where s1: "add p s = Some s1" "rep s1 (xs @ [p])" "mapped s1 = mapped s" using add [of s xs p] by auto
  then obtain s' where "fold (\<lambda>p r. Option.bind r (add p)) ps (Some s1) = Some s'" "rep s' ((xs @ [p]) @ ps)" "mapped s' = mapped s1"
    using Cons.IH [of s1 "xs @ [p]"] Cons.prems by auto
  then show ?case using s1 by auto
qed simp

lemma add_remove:
  assumes "rep s xs" "p \<in> mapped s" "p \<noteq> 0" "p \<notin> set xs" "length xs < MAX_PROCESSES"
  shows "\<exists>s1 s2. add p s = Some s1 \<and> remove p s1 = Some s2 \<and> rep s2 xs \<and> mapped s2 = mapped s"
proof -
  obtain s1 where s1: "add p s = Some s1" "rep s1 (xs @ [p])" "mapped s1 = mapped s" using add [OF assms(1-4)] by auto
  then obtain s2 where "remove p s1 = Some s2" "rep s2 (remove1 p (xs @ [p]))" "mapped s2 = mapped s1"
    using remove [of s1 "xs @ [p]" p] assms(5) by auto
  then show ?thesis using s1 assms(4) by (auto simp: remove1_append)
qed

end

lemma same_but_next_dom: "same_but_next m m' \<Longrightarrow> dom m' = dom m"
proof -
  assume "same_but_next m m'"
  then have "m' q = None \<longleftrightarrow> m q = None" for q unfolding same_but_next_def by (metis option.map_disc_iff)
  then show ?thesis by (simp add: dom_def)
qed

interpretation rq: process_queue run_queue "\<lambda>w. dom (procs w)" scheduler_add scheduler_remove
proof (unfold_locales, goal_cases)
  case (1 w xs p)
  then obtain x where x: "procs w p = Some x" by auto
  obtain w' where w': "scheduler_add p w = Some w'" "run_queue w' (xs @ [p])" "same_but_next ((procs w)(p \<mapsto> x\<lparr>pstate := PROCESS_READY\<rparr>)) (procs w')"
    using scheduler_add_appends [OF 1(1) x 1(3,4)] by blast
  have "dom (procs w') = dom (procs w)" using same_but_next_dom [OF w'(3)] x by auto
  with w' show ?case by blast
next
  case (2 w xs p)
  obtain w' where w': "scheduler_remove p w = Some w'" "run_queue w' (remove1 p xs)" "same_but_next (procs w) (procs w')"
    using scheduler_remove_removes [OF 2] by blast
  then show ?case using same_but_next_dom [OF w'(3)] by blast
qed

text \<open>C14: The circular linked run queue implements a list. Adding a process appends it and marks it READY; removing a
  process takes it out of the list, wherever it is, and is harmless when it is not queued; apart from the links no
  other field of any process changes; removing the process just added restores the queue.\<close>

theorem run_queue_refines_list:
  assumes q: "run_queue w xs" and n: "length xs < MAX_PROCESSES" and p: "procs w p = Some x" "p \<noteq> 0" "p \<notin> set xs"
  shows "(\<exists>w1 w2. scheduler_add p w = Some w1 \<and> run_queue w1 (xs @ [p]) \<and>
      same_but_next ((procs w)(p \<mapsto> x\<lparr>pstate := PROCESS_READY\<rparr>)) (procs w1) \<and> scheduler_remove p w1 = Some w2 \<and> run_queue w2 xs) \<and>
    (\<forall>y. \<exists>w1. scheduler_remove y w = Some w1 \<and> run_queue w1 (remove1 y xs) \<and> same_but_next (procs w) (procs w1))"
proof -
  obtain w1 w2 where "scheduler_add p w = Some w1" "scheduler_remove p w1 = Some w2" "run_queue w2 xs"
    using rq.add_remove [OF q _ p(2,3) n] p(1) by blast
  then show ?thesis using scheduler_add_appends [OF q p] scheduler_remove_removes [OF q] n by auto
qed

text \<open>Two processes, the idle process running and a second one ready, as a concrete instance.\<close>

definition zero_cpu :: cpu_state where
  "zero_cpu = \<lparr>c_rax = 0, c_rbx = 0, c_rcx = 0, c_rdx = 0, c_rsi = 0, c_rdi = 0, c_rbp = 0, c_rsp = 0, c_rip = 0, c_rflags = 0,
     c_cs = 0, c_ds = 0, c_ss = 0, c_r12 = 0, c_r13 = 0, c_r14 = 0, c_r15 = 0\<rparr>"

definition zero_process :: process where
  "zero_process = \<lparr>pid = 0, pname = [], pstate = PROCESS_READY, cpu = zero_cpu, stack = 0, stack_top = 0, page_dir = 0, time_slice = 0,
     ticks_remaining = 0, pnext = 0, user_esp = 0, user_eip = 0, parent_pid = 0, exit_code = 0, is_user = 0, heap_base = 0, heap_end = 0,
     wake_at_tick = 0\<rparr>"

definition two_processes :: pst where
  "two_processes = ast.extend small_machine
     \<lparr>procs = [0x1000 \<mapsto> zero_process\<lparr>pstate := PROCESS_RUNNING, pnext := 0x2000\<rparr>, 0x2000 \<mapsto> zero_process\<lparr>pid := 1, pnext := 0x1000\<rparr>],
      process_table = [0x1000, 0x2000, 0, 0, 0, 0, 0, 0, 0, 0, 0, 0, 0, 0, 0, 0], current_process = 0x1000, next_pid = 2,
      run_queue_head = 0x1000, run_queue_tail = 0x2000, ticks = 0, tss_rsp0 = 0, registers = zero_cpu\<rparr>"

lemma two_processes_inv: "sched_inv two_processes [0x1000, 0x2000]" "woken two_processes 0x2000 = procs two_processes 0x2000"
  by (simp_all add: sched_inv_def run_queue_def table_ok_def woken_of_def two_processes_def zero_process_def ast.defs)

theorem scheduler_yield_round_robin_witness:
  "\<exists>w'. scheduler_yield two_processes = Some w' \<and> current_process w' = next_ready (woken two_processes) 0x1000 [0x2000]"
  using scheduler_yield_round_robin [of two_processes "[]" "0x1000" "[0x2000]"] two_processes_inv(1)
  by (auto simp: two_processes_def ast.defs)

theorem scheduler_fair_witness:
  "\<exists>k w'. k < Suc (Suc 0) \<and> yields k two_processes = Some w' \<and> current_process w' = 0x2000"
proof -
  have "current_process two_processes = 0x1000" "state_of (woken two_processes) 0x2000 = Some PROCESS_READY"
    unfolding two_processes_inv(2) by (simp_all add: two_processes_def zero_process_def ast.defs)
  from scheduler_fair [OF two_processes_inv(1), of "0x2000"] this show ?thesis by auto
qed

theorem run_queue_refines_list_witness:
  "\<exists>w1 w2. scheduler_add 0x3000 (two_processes\<lparr>procs := (procs two_processes)(0x3000 \<mapsto> zero_process)\<rparr>) = Some w1 \<and>
     run_queue w1 [0x1000, 0x2000, 0x3000] \<and> scheduler_remove 0x3000 w1 = Some w2 \<and> run_queue w2 [0x1000, 0x2000]"
proof -
  let ?w = "two_processes\<lparr>procs := (procs two_processes)(0x3000 \<mapsto> zero_process)\<rparr>"
  have "run_queue ?w [0x1000, 0x2000]" by (simp add: run_queue_def two_processes_def zero_process_def ast.defs)
  from run_queue_refines_list [OF this, of "0x3000" zero_process] show ?thesis by auto
qed

end
