(* ===== verification/Process.thy ===== *)
theory Process
  imports Scheduler
begin

text \<open>
  Process management, \<open>src/kernel/processes/process.c\<close>: creation, fork, blocking and waking, and the
  reaping of a dead child. Control blocks are allocated on the kernel heap; kernel stacks are pages
  of the physical memory manager and are written through the direct map. Entry points are
  addresses. Loading a program into a process is in \<open>Exec\<close>.
\<close>

section \<open>Control blocks on the heap\<close>

abbreviation SIZEOF_PROCESS :: u64 where "SIZEOF_PROCESS \<equiv> 280"
abbreviation PROCESS_USER :: u64 where "PROCESS_USER \<equiv> 1"

definition new_proc :: "process \<Rightarrow> 'a pst_scheme \<Rightarrow> (u64 \<times> 'a pst_scheme) option" where
  "new_proc x w =
     do { (p, h) \<leftarrow> kmalloc (heap w) SIZEOF_PROCESS; Some (p, w\<lparr>heap := h, procs := (procs w)(p \<mapsto> x)\<rparr>) }"

definition free_proc :: "u64 \<Rightarrow> 'a pst_scheme \<Rightarrow> 'a pst_scheme option" where
  "free_proc p w =
     (case procs w p of None \<Rightarrow> None
      | Some x \<Rightarrow> do { h \<leftarrow> kfree (heap w) p; Some (w\<lparr>heap := h, procs := (procs w)(p := None)\<rparr>) })"

definition process_init :: "'a pst_scheme \<Rightarrow> 'a pst_scheme" where
  "process_init w = w\<lparr>process_table := replicate MAX_PROCESSES 0, next_pid := 0, current_process := 0\<rparr>"

text \<open>The first index of the table with a given property.\<close>

fun find_slot :: "(u64 \<Rightarrow> bool) \<Rightarrow> u64 list \<Rightarrow> nat \<Rightarrow> nat option" where
  "find_slot P [] i = None"
| "find_slot P (x # xs) i = (if P x then Some i else find_slot P xs (i + 1))"

section \<open>Creation\<close>

text \<open>\<open>kstrcpy(proc->name, name, 32)\<close> keeps at most 31 characters.\<close>

definition proc_name :: "string \<Rightarrow> string" where
  "proc_name name = take 31 name"

definition process_create :: "string option \<Rightarrow> u64 \<Rightarrow> u64 \<Rightarrow> 'a pst_scheme \<Rightarrow> (u64 \<times> 'a pst_scheme) option" where
  "process_create name entry flags w =
     (if entry = 0 then None
      else case name of None \<Rightarrow> None
      | Some nm \<Rightarrow>
         do { slot \<leftarrow> find_slot (\<lambda>x. x = 0) (process_table w) 0;
              parent \<leftarrow> (if current_process w = 0 then Some 0 else map_option pid (procs w (current_process w)));
              (proc, w1) \<leftarrow> new_proc (zero_process\<lparr>parent_pid := parent, pid := next_pid w, pname := proc_name nm,
                                 pstate := PROCESS_READY, time_slice := 10, ticks_remaining := 10, pnext := 0\<rparr>)
                              w;
              (stack_physical, pm) \<leftarrow> pmm_alloc (pages w1);
              let st = stack_physical + 0xFFFF800000000000;
              let ktop = st + 4096 - 8;
              let c = (if flags AND PROCESS_USER \<noteq> 0
                       then zero_cpu\<lparr>c_cs := 0x2B, c_ds := 0x23, c_ss := 0x23, c_rflags := 0x200\<rparr>
                       else zero_cpu\<lparr>c_rip := entry, c_rsp := ktop, c_rbp := ktop, c_rflags := 0x200, c_cs := 0x08, c_ds := 0x10, c_ss := 0x10\<rparr>);
              let w2 = w1\<lparr>pages := pm, next_pid := next_pid w1 + 1\<rparr>;
              let w3 = (if flags AND PROCESS_USER \<noteq> 0 then w2 else set_mem64 ktop entry w2);
              w4 \<leftarrow> upd_proc proc (\<lambda>p. p\<lparr>stack := st, stack_top := ktop, cpu := c\<rparr>) w3;
              (dir, w5) \<leftarrow> paging_clone_directory w4;
              w6 \<leftarrow> upd_proc proc (\<lambda>p. p\<lparr>page_dir := dir\<rparr>) w5;
              Some (proc, w6\<lparr>process_table := (process_table w6)[slot := proc]\<rparr>) })"

text \<open>The frame \<open>iretq\<close> pops, from the top of a kernel stack downwards, with the value of \<open>rax\<close> below it.\<close>

definition push_frame :: "u64 \<Rightarrow> u64 \<Rightarrow> u64 \<Rightarrow> 'a sst_scheme \<Rightarrow> 'a sst_scheme" where
  "push_frame ktop user_rsp rip w =
     set_mem64 (ktop - 32) rip (set_mem64 (ktop - 24) 0x2B (set_mem64 (ktop - 16) 0x200 (set_mem64 (ktop - 8) user_rsp (set_mem64 ktop 0x23 w))))"

definition create_user_process :: "u64 \<Rightarrow> string option \<Rightarrow> u64 \<Rightarrow> 'a pst_scheme \<Rightarrow> (u64 \<times> 'a pst_scheme) option" where
  "create_user_process iret_to_usermode name entry w =
     (case name of None \<Rightarrow> None
      | Some nm \<Rightarrow>
         do { slot \<leftarrow> find_slot (\<lambda>x. x = 0) (process_table w) 0;
              (proc, w1) \<leftarrow> new_proc (zero_process\<lparr>parent_pid := 0, pid := next_pid w, pname := proc_name nm,
                                 pstate := PROCESS_READY, time_slice := 10, ticks_remaining := 10, pnext := 0\<rparr>)
                              w;
              (st, pm) \<leftarrow> pmm_alloc (pages w1);
              let ktop = st + PAGE_SIZE - 8;
              (user_stack, pm2) \<leftarrow> pmm_alloc pm;
              (dir, w2) \<leftarrow> paging_clone_directory (w1\<lparr>pages := pm2, next_pid := next_pid w1 + 1\<rparr>);
              if dir = 0
              then do { w3 \<leftarrow> upd_proc proc (\<lambda>p. p\<lparr>stack := st, stack_top := ktop, page_dir := 0\<rparr>) w2; Some (0, w3) }
              else do {
                w3 \<leftarrow> map_page_in w2 dir 0xBFFFF000 user_stack 7;
                let w4 = set_mem64 (ktop - 40) 0 (push_frame ktop (0xBFFFF000 + PAGE_SIZE - 8) entry w3);
                w5 \<leftarrow> upd_proc proc (\<lambda>p. p\<lparr>stack := st, stack_top := ktop, page_dir := dir,
                        cpu := zero_cpu\<lparr>c_rsp := ktop - 40, c_rip := iret_to_usermode, c_rflags := 0x200, c_cs := 0x08, c_ds := 0x10, c_ss := 0x10\<rparr>\<rparr>) w4;
                Some (proc, w5\<lparr>process_table := (process_table w5)[slot := proc]\<rparr>) } })"

section \<open>States\<close>

definition set_pstate :: "u64 \<Rightarrow> process_state \<Rightarrow> 'a pst_scheme \<Rightarrow> 'a pst_scheme option" where
  "set_pstate proc s w = upd_proc proc (\<lambda>p. p\<lparr>pstate := s\<rparr>) w"

definition process_exit :: "u64 \<Rightarrow> 'a pst_scheme \<Rightarrow> 'a pst_scheme option" where
  "process_exit proc w = (if proc = 0 then Some w else set_pstate proc PROCESS_DEAD w)"

definition process_block :: "u64 \<Rightarrow> 'a pst_scheme \<Rightarrow> 'a pst_scheme option" where
  "process_block proc w = (if proc = 0 then Some w else set_pstate proc PROCESS_BLOCKED w)"

definition process_wake :: "u64 \<Rightarrow> 'a pst_scheme \<Rightarrow> 'a pst_scheme option" where
  "process_wake proc w =
     (if proc = 0 then Some w
      else do { p \<leftarrow> procs w proc;
                if pstate p \<noteq> PROCESS_BLOCKED then Some w else set_pstate proc PROCESS_READY w })"

section \<open>Waiting for a child\<close>

text \<open>Release everything a dead process owns.\<close>

definition reap :: "nat \<Rightarrow> u64 \<Rightarrow> 'a pst_scheme \<Rightarrow> 'a pst_scheme option" where
  "reap i child w =
     do { w1 \<leftarrow> scheduler_remove child w;
          p \<leftarrow> procs w1 child;
          let w2 = free_physical (virtual_to_physical (stack p)) (paging_free_directory (page_dir p) w1);
          free_proc child (w2\<lparr>process_table := (process_table w2)[i := 0]\<rparr>) }"

text \<open>The first entry from \<open>i\<close> on whose process satisfies \<open>P\<close>.\<close>

fun find_proc :: "(process \<Rightarrow> bool) \<Rightarrow> (u64 \<rightharpoonup> process) \<Rightarrow> u64 list \<Rightarrow> nat \<Rightarrow> (nat \<times> u64) option option" where
  "find_proc P m [] i = Some None"
| "find_proc P m (x # xs) i =
     (if x = 0 then find_proc P m xs (i + 1)
      else case m x of None \<Rightarrow> None
        | Some p \<Rightarrow> if P p then Some (Some (i, x)) else find_proc P m xs (i + 1))"

text \<open>One round of the loop in \<open>process_wait\<close>: \<^term>\<open>True\<close> when it returns, \<^term>\<open>False\<close> when the caller was
  blocked and the processor given away, to go round again when it runs next.\<close>

definition process_wait :: "u64 \<Rightarrow> 'a pst_scheme \<Rightarrow> (bool \<times> 'a pst_scheme) option" where
  "process_wait target w =
     (if current_process w = 0 then Some (True, w)
      else do {
        found \<leftarrow> find_proc (\<lambda>p. pid p = target \<and> pstate p = PROCESS_DEAD) (procs w) (process_table w) 0;
        case found of
          Some (i, child) \<Rightarrow> do { w1 \<leftarrow> reap i child w; Some (True, w1) }
        | None \<Rightarrow> do { w1 \<leftarrow> process_block (current_process w) w; w2 \<leftarrow> scheduler_yield w1; Some (False, w2) } })"

section \<open>Fork\<close>

text \<open>The child's processor state; \<open>p\<close> is the parent, \<open>ktop\<close> the top of the child's kernel stack.\<close>

definition fork_cpu :: "u64 \<Rightarrow> process \<Rightarrow> u64 \<Rightarrow> cpu_state" where
  "fork_cpu iret_to_usermode p ktop =
     (if is_user p = 0
      then (cpu p)\<lparr>c_rax := 0, c_rsp := ktop - (stack_top p - c_rsp (cpu p)), c_rbp := ktop - (stack_top p - c_rbp (cpu p))\<rparr>
      else (cpu p)\<lparr>c_rsp := ktop - 40, c_rip := iret_to_usermode, c_rax := 0, c_rflags := 0x200, c_cs := 0x08, c_ds := 0x10, c_ss := 0x10\<rparr>)"

definition process_fork :: "u64 \<Rightarrow> 'a pst_scheme \<Rightarrow> (u64 \<times> 'a pst_scheme) option" where
  "process_fork iret_to_usermode w =
     (if current_process w = 0 then None
      else do {
        slot \<leftarrow> find_slot (\<lambda>x. x = 0) (process_table w) 0;
        parent \<leftarrow> procs w (current_process w);
        (child, w1) \<leftarrow> new_proc (parent\<lparr>pid := next_pid w, parent_pid := pid parent, pname := proc_name (pname parent)\<rparr>) w;
        if child = 0 then Some (- 1, w)
        else do {
          (stack_physical, pm) \<leftarrow> pmm_alloc (pages w1);
          let w2 = w1\<lparr>pages := pm, next_pid := next_pid w1 + 1\<rparr>;
          let st = physical_to_virtual stack_physical;
          if stack_physical = 0 \<or> st = 0 then do { w3 \<leftarrow> free_proc child w2; Some (- 1, w3) }
          else do {
            let w3 = copy_page w2 (stack parent) st;
            let ktop = st + PAGE_SIZE - 8;
            (dir, w4) \<leftarrow> paging_deep_copy_directory w3 (page_dir parent);
            if dir = 0 then None
            else do {
              let w5 = (if is_user parent = 0 then w4 else set_mem64 (ktop - 40) 0 (push_frame ktop (user_esp parent) (user_eip parent) w4));
              w6 \<leftarrow> upd_proc child (\<lambda>p. p\<lparr>stack := st, stack_top := ktop, page_dir := dir, cpu := fork_cpu iret_to_usermode parent ktop,
                      pstate := PROCESS_READY, ticks_remaining := time_slice p, pnext := 0\<rparr>) w5;
              w7 \<leftarrow> scheduler_add child (w6\<lparr>process_table := (process_table w6)[slot := child]\<rparr>);
              Some (next_pid w, w7) } } } })"

end
