(* ===== verification/Keyboard.thy ===== *)
theory Keyboard
  imports Process
begin

text \<open>
  The device state and the keyboard, \<open>src/drivers/input/keyboard.c\<close>. The state extends the process
  state with what the drivers keep and with the environment they read: the screen, the bytes written
  to the ports, the values of \<open>rdrand\<close>, the readings of the real-time clock, and the key that is
  pending. The interrupt handler gets the scancode it reads from the port as an argument. Waiting for
  a key gives the processor away, so a read is a sequence of rounds; a round reports whether a
  character was taken.
\<close>

text \<open>The handlers a device entry can point to.\<close>

datatype read_handler = R_KEYBOARD | R_SERIAL | R_NULL | R_RANDOM | R_RTC
datatype write_handler = W_DISPLAY | W_SERIAL | W_NULL

record device =
  dev_name :: string
  dev_read :: "read_handler option"
  dev_write :: "write_handler option"

record dst = pst +
  device_table :: "device list"
  device_count :: nat
  device_capacity :: nat
  devfs_root :: u64
  screen :: vga_st
  ports :: io_trace
  rdrand_supported :: bool
  rdrand_values :: "u64 list"
  cmos_status :: u8
  cmos_readings :: "raw_time list"
  keyboard_waiting :: u64
  pending_key :: u8

section \<open>The interrupt handler\<close>

definition scancode_table :: "u8 list" where
  "scancode_table =
     [0, 0] @ bytes_of ''1234567890-='' @ [8, 9] @ bytes_of ''qwertyuiop[]'' @ [10, 0] @ bytes_of ''asdfghjkl;'' @ [39, 96, 0, 92] @
     bytes_of ''zxcvbnm,./'' @ [0, 42, 0, 32, 0]"

definition keyboard_handler :: "u8 \<Rightarrow> 'a dst_scheme \<Rightarrow> 'a dst_scheme option" where
  "keyboard_handler scancode w =
     (if scancode AND 0x80 \<noteq> 0 then Some w
      else if unat scancode < length scancode_table
      then let c = scancode_table ! unat scancode in
        if c \<noteq> 0
        then let w1 = w\<lparr>pending_key := c\<rparr> in
          if keyboard_waiting w1 \<noteq> 0
          then do { w2 \<leftarrow> process_wake (keyboard_waiting w1) w1; Some (w2\<lparr>keyboard_waiting := 0\<rparr>) }
          else Some w1
        else Some w
      else Some w)"

section \<open>Reading keys\<close>

text \<open>The end-of-interrupt command to the interrupt controller, then the switch.\<close>

definition keyboard_wait :: "u64 \<Rightarrow> 'a dst_scheme \<Rightarrow> 'a dst_scheme option" where
  "keyboard_wait proc w =
     do { w1 \<leftarrow> process_block proc (w\<lparr>keyboard_waiting := proc\<rparr>);
          scheduler_yield (w1\<lparr>ports := ports w1 @ [(0x20, 0x20)]\<rparr>) }"

text \<open>One round of \<open>keyboard_getchar\<close>: the test of the pending key, and either the key or a wait. An interrupt may
  come between the test and the wait.\<close>

definition getchar_ready :: "'a dst_scheme \<Rightarrow> bool" where
  "getchar_ready w \<longleftrightarrow> pending_key w \<noteq> 0"

definition getchar_take :: "'a dst_scheme \<Rightarrow> u8 \<times> 'a dst_scheme" where
  "getchar_take w = (pending_key w, w\<lparr>pending_key := 0\<rparr>)"

definition keyboard_getchar :: "'a dst_scheme \<Rightarrow> (u8 option \<times> 'a dst_scheme) option" where
  "keyboard_getchar w =
     (if getchar_ready w then let (c, w1) = getchar_take w in Some (Some c, w1)
      else do { w1 \<leftarrow> keyboard_wait (current_process w) w; Some (None, w1) })"

text \<open>A read of the device without giving the processor away: \<^term>\<open>None\<close> when it would have to wait.\<close>

fun keyboard_read_loop :: "nat \<Rightarrow> u8 list \<Rightarrow> 'a dst_scheme \<Rightarrow> (u8 list \<times> 'a dst_scheme) option" where
  "keyboard_read_loop 0 dst w = Some (dst, w)"
| "keyboard_read_loop (Suc n) dst w =
     (if getchar_ready w then let (c, w1) = getchar_take w in keyboard_read_loop n (dst @ [c]) w1 else None)"

definition dev_keyboard_read :: "u32 \<Rightarrow> 'a dst_scheme \<Rightarrow> (int \<times> u8 list \<times> 'a dst_scheme) option" where
  "dev_keyboard_read n w =
     do { (dst, w1) \<leftarrow> keyboard_read_loop (unat n) [] w; Some (sint n, dst, w1) }"

section \<open>What the scheduler leaves alone\<close>

lemma upd_proc_more: "upd_proc p f w = Some w' \<Longrightarrow> pst.more w' = pst.more w"
  by (auto simp: upd_proc_def split: option.splits)

lemma loop_over_more:
  assumes "\<And>i w w'. body i w = Some w' \<Longrightarrow> pst.more w' = pst.more w"
  shows "loop_over is body w = Some w' \<Longrightarrow> pst.more w' = pst.more w"
  by (induction "is" arbitrary: w) (auto simp: bind_eq_Some_conv dest: assms)

lemma wake_sleeper_more: "wake_sleeper now i w = Some w' \<Longrightarrow> pst.more w' = pst.more w"
  by (auto simp: wake_sleeper_def Let_def bind_eq_Some_conv split: if_splits dest!: upd_proc_more)

lemma wake_sleepers_more: "scheduler_wake_sleepers w = Some w' \<Longrightarrow> pst.more w' = pst.more w"
  unfolding scheduler_wake_sleepers_def
  by (rule loop_over_more [OF wake_sleeper_more])

lemma enter_ring3_more: "enter_ring3 p w = Some w' \<Longrightarrow> pst.more w' = pst.more w"
  by (cases "procs w p") (auto simp: enter_ring3_def Let_def)

lemma switch_directory_more: "pst.more (paging_switch_directory d w) = pst.more w" "procs (paging_switch_directory d w) = procs w"
  by (simp_all add: paging_switch_directory_def)

lemma switch_context_more:
  assumes "switch_context old nw w = Some w'"
  shows "pst.more w' = pst.more w"
proof -
  obtain w1 and p :: process where w1: "upd_proc old (\<lambda>p. p\<lparr>cpu := (registers w)\<lparr>c_rax := 0, c_rsi := nw, c_rdi := old\<rparr>\<rparr>) w = Some w1" "procs w1 nw = Some p"
    using assms unfolding switch_context_def Option.bind_eq_Some_conv by blast
  have "enter_ring3 nw (paging_switch_directory (page_dir p) w1) = Some w' \<or> (\<exists>r. w' = (paging_switch_directory (page_dir p) w1)\<lparr>registers := r\<rparr>)"
    using assms w1 by (auto simp: switch_context_def Let_def split: if_splits)
  then have "pst.more w' = pst.more w1" by (elim disjE exE) (simp_all add: enter_ring3_more switch_directory_more)
  then show ?thesis using upd_proc_more [OF w1(1)] by simp
qed

lemma switch_to_more:
  assumes "switch_to old nw w = Some w'"
  shows "pst.more w' = pst.more w"
proof -
  obtain w1 w2 w3 and p :: process where "upd_proc nw (\<lambda>p. p\<lparr>ticks_remaining := time_slice p\<rparr>) w = Some w1"
    "upd_proc old (\<lambda>p. if pstate p = PROCESS_RUNNING then p\<lparr>pstate := PROCESS_READY\<rparr> else p) w1 = Some w2"
    "upd_proc nw (\<lambda>p. p\<lparr>pstate := PROCESS_RUNNING\<rparr>) w2 = Some w3"
    "switch_context old nw (w3\<lparr>current_process := nw, tss_rsp0 := stack_top p\<rparr>) = Some w'"
    using assms unfolding switch_to_def Option.bind_eq_Some_conv by blast
  from this(1-3)[THEN upd_proc_more] switch_context_more [OF this(4)] show ?thesis by simp
qed

lemma scheduler_tick_more:
  assumes "scheduler_tick w = Some w'"
  shows "pst.more w' = pst.more w"
proof -
  obtain w1 where w1: "scheduler_wake_sleepers w = Some w1" using assms unfolding scheduler_tick_def Option.bind_eq_Some_conv by blast
  have "pst.more w' = pst.more w1"
  proof (cases "current_process w1 = 0 \<or> run_queue_head w1 = 0")
    case True
    then show ?thesis using assms w1 by (simp add: scheduler_tick_def)
  next
    case False
    let ?old = "current_process w1"
    obtain w2 and c :: process where w2: "upd_proc ?old (\<lambda>p. p\<lparr>ticks_remaining := ticks_remaining p - 1\<rparr>) w1 = Some w2" "procs w2 ?old = Some c"
      using assms w1 False unfolding scheduler_tick_def
      by (simp add: Let_def, simp only: Option.bind_eq_Some_conv, blast)
    consider "w' = w2" | "upd_proc ?old (\<lambda>p. p\<lparr>ticks_remaining := time_slice p\<rparr>) w2 = Some w'" | nw where "switch_to ?old nw w2 = Some w'"
    proof (cases "ticks_remaining c > 0 \<and> pid c \<noteq> 0 \<and> pstate c = PROCESS_RUNNING")
      case True
      then show ?thesis using that(1) assms w1 False w2 unfolding scheduler_tick_def by (simp add: Let_def)
    next
      case e: False
      then have "pnext c \<noteq> 0" using assms w1 False w2 unfolding scheduler_tick_def by (auto simp: Let_def)
      then have "do { nw \<leftarrow> pick_next MAX_PROCESSES w2 ?old (pnext c); x \<leftarrow> procs w2 nw;
          if pstate x \<noteq> PROCESS_READY \<and> pstate x \<noteq> PROCESS_RUNNING \<or> nw = ?old
          then upd_proc ?old (\<lambda>p. p\<lparr>ticks_remaining := time_slice p\<rparr>) w2 else switch_to ?old nw w2 } = Some w'"
        using assms w1 False w2 e unfolding scheduler_tick_def by (simp add: Let_def)
      then obtain nw and x :: process where "(if pstate x \<noteq> PROCESS_READY \<and> pstate x \<noteq> PROCESS_RUNNING \<or> nw = ?old
          then upd_proc ?old (\<lambda>p. p\<lparr>ticks_remaining := time_slice p\<rparr>) w2 else switch_to ?old nw w2) = Some w'"
        unfolding Option.bind_eq_Some_conv by blast
      then show ?thesis using that(2,3) by (metis (full_types))
    qed
    then show ?thesis using upd_proc_more [OF w2(1)] by cases (auto dest!: upd_proc_more switch_to_more)
  qed
  then show ?thesis using wake_sleepers_more [OF w1] by simp
qed

lemma scheduler_yield_more: "scheduler_yield w = Some w' \<Longrightarrow> pst.more w' = pst.more w"
  by (auto simp: scheduler_yield_def bind_eq_Some_conv split: if_splits dest!: upd_proc_more scheduler_tick_more)

lemma yields_more: "yields n w = Some w' \<Longrightarrow> pst.more w' = pst.more w"
  by (induction n arbitrary: w) (auto simp: bind_eq_Some_conv dest!: scheduler_yield_more)

lemma device_fields:
  fixes w w' :: "'a dst_scheme"
  assumes "pst.more w' = pst.more w"
  shows "pending_key w' = pending_key w" "keyboard_waiting w' = keyboard_waiting w"
  using assms by (cases w; cases w'; simp)+

section \<open>Blocked processes stay blocked\<close>

lemma set_pstate_inv:
  assumes "sched_inv w xs" "procs w p = Some x" "s \<noteq> PROCESS_RUNNING"
  shows "set_pstate p s w = Some (w\<lparr>procs := (procs w)(p \<mapsto> x\<lparr>pstate := s\<rparr>)\<rparr>)"
    and "sched_inv (w\<lparr>procs := (procs w)(p \<mapsto> x\<lparr>pstate := s\<rparr>)\<rparr>) xs"
  using assms(2,3)
  by (simp_all add: set_pstate_def upd_proc_def, intro same_links_inv [OF assms(1)]) (use assms in \<open>auto simp: sched_inv_def\<close>)

lemma yield_blocked:
  assumes inv: "sched_inv w xs" and b: "state_of (procs w) p = Some PROCESS_BLOCKED"
  shows "\<exists>w'. scheduler_yield w = Some w' \<and> sched_inv w' xs \<and> state_of (procs w') p = Some PROCESS_BLOCKED"
proof -
  obtain as' bs where xs: "xs = as' @ current_process w # bs" using inv by (metis sched_inv_def split_list)
  let ?r = "next_ready (woken w) (current_process w) (bs @ as')"
  obtain w' where w': "scheduler_yield w = Some w'" "sched_inv w' xs"
    "\<forall>q. state_of (procs w') q = switched (woken w) (current_process w) ?r q"
    using yield_effect [of w as' "current_process w" bs] inv xs by blast
  have wb: "state_of (woken w) p = Some PROCESS_BLOCKED" using b by (cases "procs w p") (auto simp: woken_of_def)
  have "?r = current_process w \<or> ?r \<noteq> p" using next_ready_in [of "woken w" "current_process w" "bs @ as'"] wb by (metis option.inject process_state.distinct(3))
  then have "switched (woken w) (current_process w) ?r p = Some PROCESS_BLOCKED" using wb by (auto simp: switched_def)
  then have "state_of (procs w') p = Some PROCESS_BLOCKED" using w'(3) by metis
  then show ?thesis using w'(1,2) by blast
qed

lemma yields_blocked:
  assumes "sched_inv w xs" "state_of (procs w) p = Some PROCESS_BLOCKED"
  shows "\<exists>w'. yields n w = Some w' \<and> sched_inv w' xs \<and> state_of (procs w') p = Some PROCESS_BLOCKED"
  using assms
proof (induction n arbitrary: w)
  case (Suc n)
  obtain w1 where "scheduler_yield w = Some w1" "sched_inv w1 xs" "state_of (procs w1) p = Some PROCESS_BLOCKED"
    using yield_blocked [OF Suc.prems] by blast
  then show ?case using Suc.IH [of w1] by auto
qed simp

section \<open>The lost wake-up\<close>

definition key_of :: "u8 \<Rightarrow> u8" where
  "key_of scancode = (if scancode AND 0x80 = 0 \<and> unat scancode < length scancode_table then scancode_table ! unat scancode else 0)"

text \<open>C22: The keyboard read can lose a wake-up. When the interrupt of a key press comes after \<open>keyboard_getchar\<close> has seen
  that no key is pending and before it has registered the waiting process, the handler finds nobody to wake; the
  process then blocks although the key is pending, and it stays blocked however often the other processes yield, until
  another key is pressed.\<close>

theorem keyboard_lost_wakeup:
  assumes inv: "sched_inv w xs" and none: "\<not> getchar_ready w" and wait: "keyboard_waiting w = 0" and key: "key_of scancode \<noteq> 0"
  shows "\<exists>w1 w2. keyboard_handler scancode w = Some w1 \<and> getchar_ready w1 \<and>
    keyboard_wait (current_process w) w1 = Some w2 \<and>
    (\<forall>n. \<exists>w3. yields n w2 = Some w3 \<and> getchar_ready w3 \<and> state_of (procs w3) (current_process w) = Some PROCESS_BLOCKED)"
proof -
  let ?c = "current_process w"
  define w1 where "w1 = w\<lparr>pending_key := key_of scancode\<rparr>"
  have h: "keyboard_handler scancode w = Some w1" "getchar_ready w1"
  proof -
    have "scancode AND 0x80 = 0" "unat scancode < length scancode_table" "scancode_table ! unat scancode = key_of scancode"
      using key by (simp_all add: key_of_def split: if_splits)
    then show "keyboard_handler scancode w = Some w1" "getchar_ready w1"
      using key wait by (simp_all add: keyboard_handler_def Let_def w1_def getchar_ready_def)
  qed
  have cin: "?c \<in> set xs" "0 \<notin> set xs" using inv by (simp_all add: sched_inv_def run_queue_def)
  then have c0: "?c \<noteq> 0" by metis
  obtain x where x: "procs w ?c = Some x" using sched_inv_mapped [OF inv cin(1)] by blast
  define w0 where "w0 = w1\<lparr>keyboard_waiting := ?c, ports := ports w @ [(0x20, 0x20)]\<rparr>"
  have inv0: "sched_inv w0 xs" using inv by (simp add: w0_def w1_def sched_inv_def run_queue_def table_ok_def)
  have x0: "procs w0 ?c = Some x" using x by (simp add: w0_def w1_def)
  let ?w = "w0\<lparr>procs := (procs w0)(?c \<mapsto> x\<lparr>pstate := PROCESS_BLOCKED\<rparr>)\<rparr>"
  have "sched_inv ?w xs" "state_of (procs ?w) ?c = Some PROCESS_BLOCKED"
    using set_pstate_inv(2) [OF inv0 x0] by simp_all
  then obtain w2 where w2: "scheduler_yield ?w = Some w2" "sched_inv w2 xs" "state_of (procs w2) ?c = Some PROCESS_BLOCKED"
    using yield_blocked by blast
  have wt: "keyboard_wait ?c w1 = Some w2"
  proof -
    let ?v = "(w1\<lparr>keyboard_waiting := ?c, procs := (procs w)(?c \<mapsto> x\<lparr>pstate := PROCESS_BLOCKED\<rparr>)\<rparr>)"
    have "keyboard_wait ?c w1 = scheduler_yield (?v\<lparr>ports := ports ?v @ [(0x20, 0x20)]\<rparr>)"
      using x c0 by (simp add: keyboard_wait_def process_block_def set_pstate_def upd_proc_def w1_def)
    moreover have "?v\<lparr>ports := ports ?v @ [(0x20, 0x20)]\<rparr> = ?w" by (cases w) (simp add: w0_def w1_def)
    ultimately show ?thesis using w2(1) by simp
  qed
  have "pending_key w2 = key_of scancode" using device_fields(1) [OF scheduler_yield_more [OF w2(1)]] by (simp add: w0_def w1_def)
  then have "\<exists>w3. yields n w2 = Some w3 \<and> getchar_ready w3 \<and> state_of (procs w3) ?c = Some PROCESS_BLOCKED" for n
    using yields_blocked [OF w2(2,3), of n] device_fields(1) [OF yields_more, of n w2] key unfolding getchar_ready_def by metis
  then show ?thesis using h wt by blast
qed

text \<open>The two processes of the scheduler's instance with the devices of a freshly started machine.\<close>

definition two_process_machine :: dst where
  "two_process_machine = pst.extend two_processes
     \<lparr>device_table = [], device_count = 0, device_capacity = 16, devfs_root = 0,
      screen = \<lparr>cells = \<lambda>_. 0, cursor_x = 0, cursor_y = 0, colour = 15\<rparr>, ports = [], rdrand_supported = False, rdrand_values = [],
      cmos_status = 2, cmos_readings = [], keyboard_waiting = 0, pending_key = 0\<rparr>"

lemma two_process_machine_inv: "sched_inv two_process_machine [0x1000, 0x2000]"
  by (simp add: sched_inv_def run_queue_def table_ok_def two_process_machine_def two_processes_def zero_process_def ast.defs pst.defs)

theorem keyboard_lost_wakeup_witness:
  "key_of 0x1E = 0x61 \<and> (\<exists>w1 w2. keyboard_handler 0x1E two_process_machine = Some w1 \<and>
     keyboard_wait (current_process two_process_machine) w1 = Some w2 \<and>
     (\<exists>w3. yields 100 w2 = Some w3 \<and> getchar_ready w3 \<and> state_of (procs w3) (current_process two_process_machine) = Some PROCESS_BLOCKED))"
proof -
  have k: "key_of 0x1E = 0x61" by code_simp
  have "\<not> getchar_ready two_process_machine" "keyboard_waiting two_process_machine = 0"
    by (simp_all add: getchar_ready_def two_process_machine_def pst.defs)
  from keyboard_lost_wakeup [OF two_process_machine_inv this, of "0x1E"] k show ?thesis by auto
qed

end
