(* ===== verification/Devfs.thy ===== *)
theory Devfs
  imports Keyboard
begin

text \<open>
  devFS, \<open>src/file_system/devfs/devfs.c\<close>: the file system of the devices. The device table holds the
  handlers of each device; a handler is named, and calling it runs the driver's model. The mount data
  is a static object of the kernel whose address is an argument.
\<close>

abbreviation DEVFS_MAX_DEVICES :: nat where "DEVFS_MAX_DEVICES \<equiv> 16"

abbreviation zero_device :: device where
  "zero_device \<equiv> \<lparr>dev_name = [], dev_read = None, dev_write = None\<rparr>"

definition devfs_create_inode :: "nat option \<Rightarrow> u32 \<Rightarrow> nat option \<Rightarrow> 'a dst_scheme \<Rightarrow> (u64 \<times> 'a dst_scheme) option" where
  "devfs_create_inode sb type device w =
     do { (inode, w1) \<leftarrow> new (OInode zero_inode) w;
          (priv, w2) \<leftarrow> new (ODevInode \<lparr>di_device = device\<rparr>) w1;
          Some (inode, put inode (OInode (zero_inode\<lparr>i_type := type, i_size := 0, permissions := 0x1B6, link_count := 1,
                         i_ops := Some DEVFS, i_sb := sb, i_private := priv\<rparr>)) w2) }"

definition devfs_mount :: "u64 \<Rightarrow> string \<Rightarrow> 'a dst_scheme \<Rightarrow> (int \<times> 'a dst_scheme) option" where
  "devfs_mount mount_data path w =
     (let w1 = w\<lparr>device_table := replicate DEVFS_MAX_DEVICES zero_device, device_count := 0,
                 device_capacity := DEVFS_MAX_DEVICES, devfs_root := 0\<rparr>;
          (res, w2) = vfs_mount w1 path DEVFS mount_data in
      if res < 0 then Some (- 1, w2)
      else case vfs_find_mount w2 path of
          None \<Rightarrow> Some (- 1, w2)
        | Some sb \<Rightarrow>
            do { (root, w3) \<leftarrow> devfs_create_inode (Some sb) VFS_TYPE_DIR None w2;
                 if root = 0 then Some (- 1, w3)
                 else Some (0, w3\<lparr>mount_table := (mount_table w3)[sb := (mount_table w3 ! sb)\<lparr>sb_root := root\<rparr>], devfs_root := root\<rparr>) })"

definition devfs_register :: "string \<Rightarrow> string \<Rightarrow> read_handler option \<Rightarrow> write_handler option \<Rightarrow> 'a dst_scheme \<Rightarrow> (int \<times> 'a dst_scheme) option" where
  "devfs_register path name rd wr w =
     (if device_count w \<ge> device_capacity w then Some (- 1, w)
      else case vfs_find_mount w path of
          None \<Rightarrow> Some (- 1, w)
        | Some sb \<Rightarrow>
            let n = device_count w;
                w1 = w\<lparr>device_table := (device_table w)[n := \<lparr>dev_name = take (VFS_MAX_NAME - 1) name, dev_read = rd, dev_write = wr\<rparr>],
                       device_count := n + 1\<rparr> in
            do { (inode, w2) \<leftarrow> devfs_create_inode (Some sb) VFS_TYPE_FILE (Some n) w1;
                 if inode = 0 then Some (- 1, w2)
                 else do { ino \<leftarrow> inodes w2 inode; Some (0, put inode (OInode (ino\<lparr>inode_num := of_nat n\<rparr>)) w2) } })"

fun find_device :: "device list \<Rightarrow> nat \<Rightarrow> string \<Rightarrow> nat option" where
  "find_device [] i name = None"
| "find_device (d # ds) i name = (if dev_name d = name then Some i else find_device ds (i + 1) name)"

definition devfs_lookup :: "'a dst_scheme \<Rightarrow> u64 \<Rightarrow> string \<Rightarrow> (u64 \<times> 'a dst_scheme) option" where
  "devfs_lookup w dir name =
     (if dir = 0 then Some (0, w)
      else do { d \<leftarrow> inodes w dir;
                case find_device (take (device_count w) (device_table w)) 0 name of
                  None \<Rightarrow> Some (0, w)
                | Some i \<Rightarrow> devfs_create_inode (i_sb d) VFS_TYPE_FILE (Some i) w })"

definition devfs_create :: "'a dst_scheme \<Rightarrow> u64 \<Rightarrow> string \<Rightarrow> u32 \<Rightarrow> (u64 \<times> 'a dst_scheme) option" where
  "devfs_create w dir name type = Some (0, w)"

definition devfs_open :: "'a dst_scheme \<Rightarrow> u64 \<Rightarrow> u64 \<Rightarrow> (int \<times> 'a dst_scheme) option" where
  "devfs_open w inode f = Some (0, w)"

definition devfs_close :: "'a dst_scheme \<Rightarrow> u64 \<Rightarrow> u64 \<Rightarrow> (int \<times> 'a dst_scheme) option" where
  "devfs_close w inode f = Some (0, w)"

section \<open>Reading and writing a device\<close>

fun call_read :: "read_handler \<Rightarrow> 'a dst_scheme \<Rightarrow> u32 \<Rightarrow> (int \<times> u8 list \<times> 'a dst_scheme) option" where
  "call_read R_KEYBOARD w n = dev_keyboard_read n w"
| "call_read R_SERIAL w n = (let (r, bs) = dev_serial_read n in Some (r, bs, w))"
| "call_read R_NULL w n = (let (r, bs) = dev_null_read n in Some (r, bs, w))"
| "call_read R_RANDOM w n =
     do { (r, bs, vals) \<leftarrow> dev_random_read (rdrand_supported w) (rdrand_values w) n; Some (r, bs, w\<lparr>rdrand_values := vals\<rparr>) }"
| "call_read R_RTC w n =
     do { (text, rest) \<leftarrow> dev_rtc_read (cmos_status w) (cmos_readings w) n;
          Some (int (length text), bytes_of text, w\<lparr>cmos_readings := rest\<rparr>) }"

fun call_write :: "write_handler \<Rightarrow> 'a dst_scheme \<Rightarrow> u8 list \<Rightarrow> u32 \<Rightarrow> (int \<times> 'a dst_scheme) option" where
  "call_write W_DISPLAY w buf n = do { (r, s) \<leftarrow> dev_display_write buf n (screen w); Some (r, w\<lparr>screen := s\<rparr>) }"
| "call_write W_SERIAL w buf n = do { (r, io) \<leftarrow> dev_serial_write buf n (ports w); Some (r, w\<lparr>ports := io\<rparr>) }"
| "call_write W_NULL w buf n = Some (dev_null_write n, w)"

text \<open>The device behind an open file: \<open>file->inode->private_data->device\<close>, with the early returns of the callers.\<close>

definition device_of :: "'a dst_scheme \<Rightarrow> u64 \<Rightarrow> device option option" where
  "device_of w f =
     (if f = 0 then Some None
      else do {
        fl \<leftarrow> files w f;
        if f_inode fl = 0 then Some None
        else do {
          ino \<leftarrow> inodes w (f_inode fl);
          if i_private ino = 0 then Some None
          else do {
            priv \<leftarrow> devinodes w (i_private ino);
            Some (case di_device priv of None \<Rightarrow> None | Some i \<Rightarrow> Some (device_table w ! i)) } } })"

text \<open>Storing bytes through a NULL buffer is undefined.\<close>

definition devfs_read :: "'a dst_scheme \<Rightarrow> u64 \<Rightarrow> bool \<Rightarrow> u32 \<Rightarrow> (int \<times> u8 list \<times> 'a dst_scheme) option" where
  "devfs_read w f buffer n =
     do { dev \<leftarrow> device_of w f;
          case dev of None \<Rightarrow> Some (- 1, [], w)
          | Some d \<Rightarrow>
              (case dev_read d of None \<Rightarrow> Some (- 1, [], w)
               | Some h \<Rightarrow> do { (r, bs, w1) \<leftarrow> call_read h w n; if \<not> buffer \<and> bs \<noteq> [] then None else Some (r, bs, w1) }) }"

definition devfs_write :: "'a dst_scheme \<Rightarrow> u64 \<Rightarrow> u8 list option \<Rightarrow> u32 \<Rightarrow> (int \<times> 'a dst_scheme) option" where
  "devfs_write w f buffer n =
     do { dev \<leftarrow> device_of w f;
          case dev of None \<Rightarrow> Some (- 1, w)
          | Some d \<Rightarrow>
              (case dev_write d of None \<Rightarrow> Some (- 1, w)
               | Some h \<Rightarrow> call_write h w (case buffer of None \<Rightarrow> [] | Some bs \<Rightarrow> bs) n) }"

definition devfs_readdir :: "'a dst_scheme \<Rightarrow> u64 \<Rightarrow> (int \<times> dentry option \<times> 'a dst_scheme) option" where
  "devfs_readdir w f =
     (if f = 0 then Some (- 1, None, w)
      else do { fl \<leftarrow> files w f;
                let idx = f_position fl;
                if unat idx \<ge> device_count w then Some (0, None, w)
                else Some (1, Some \<lparr>d_name = take (VFS_MAX_NAME - 1) (dev_name (device_table w ! unat idx)), d_inode = 0, d_type = VFS_TYPE_FILE\<rparr>,
                       put f (OFile (fl\<lparr>f_position := idx + 1\<rparr>)) w) })"

definition devfs_ops :: "'a dst_scheme fs_ops" where
  "devfs_ops = \<lparr>op_lookup = Some devfs_lookup, op_create = Some devfs_create, op_delete = None, op_truncate = None,
     op_open = Some devfs_open, op_close = Some devfs_close, op_read = Some devfs_read, op_write = Some devfs_write,
     op_readdir = Some devfs_readdir, op_mkdir = None\<rparr>"

end
