(* ===== verification/Procfs.thy ===== *)
theory Procfs
  imports Keyboard
begin

text \<open>
  procFS, \<open>src/file_system/procfs/procfs.c\<close>: the file system of the processes. Directories are generated
  from the process table and files from the control blocks. The text of a file is at most a few lines,
  so nothing of the uninitialised 512-byte buffer it is formatted into is ever returned; the buffer
  starts out as zeros here. A listing does not store the inode of an entry.
\<close>

definition procfs_create_inode ::
  "nat option \<Rightarrow> u32 \<Rightarrow> procfs_inode_type \<Rightarrow> u64 \<Rightarrow> string \<Rightarrow> 'a pst_scheme \<Rightarrow> (u64 \<times> 'a pst_scheme) option" where
  "procfs_create_inode sb type ptype num name w =
     do { (inode, w1) \<leftarrow> new (OInode zero_inode) w;
          (priv, w2) \<leftarrow> new (OProcInode \<lparr>pi_type = ptype, pi_pid = num, pi_name = name\<rparr>) w1;
          Some (inode, put inode (OInode (zero_inode\<lparr>i_type := type, i_size := 0, permissions := 0x124, link_count := 1,
                         i_ops := Some PROCFS, i_sb := sb, i_private := priv\<rparr>)) w2) }"

definition procfs_mount :: "string \<Rightarrow> 'a pst_scheme \<Rightarrow> (int \<times> 'a pst_scheme) option" where
  "procfs_mount path w =
     (let (res, w1) = vfs_mount w path PROCFS 0 in
      if res < 0 then Some (- 1, w1)
      else case vfs_find_mount w1 path of
          None \<Rightarrow> Some (- 1, w1)
        | Some sb \<Rightarrow>
            do { (root, w2) \<leftarrow> procfs_create_inode (Some sb) VFS_TYPE_DIR PROCFS_ROOT 0 ''process'' w1;
                 if root = 0 then Some (- 1, w2)
                 else Some (0, w2\<lparr>mount_table := (mount_table w2)[sb := (mount_table w2 ! sb)\<lparr>sb_root := root\<rparr>]\<rparr>) })"

section \<open>Lookup\<close>

text \<open>The digits at the front of a name as a number, and what follows them.\<close>

fun parse_pid :: "u64 \<Rightarrow> string \<Rightarrow> u64 \<times> string" where
  "parse_pid n [] = (n, [])"
| "parse_pid n (c # cs) =
     (if 48 \<le> (of_char c :: nat) \<and> (of_char c :: nat) \<le> 57 then parse_pid (n * 10 + of_nat (of_char c - 48)) cs else (n, c # cs))"

definition procfs_lookup :: "'a pst_scheme \<Rightarrow> u64 \<Rightarrow> string \<Rightarrow> (u64 \<times> 'a pst_scheme) option" where
  "procfs_lookup w dir name =
     (if dir = 0 then Some (0, w)
      else do {
        d \<leftarrow> inodes w dir;
        if i_private d = 0 then Some (0, w)
        else do {
          priv \<leftarrow> procinodes w (i_private d);
          let sb = i_sb d;
          if pi_type priv = PROCFS_ROOT
          then if name = ''meminfo'' then procfs_create_inode sb VFS_TYPE_FILE PROCFS_INFO_FILE 0 ''meminfo'' w
               else if name = ''mounts'' then procfs_create_inode sb VFS_TYPE_FILE PROCFS_INFO_FILE 0 ''mounts'' w
               else let (n, rest) = parse_pid 0 name in
                 if rest \<noteq> [] then Some (0, w)
                 else do {
                   found \<leftarrow> find_proc (\<lambda>p. pid p = n) (procs w) (process_table w) 0;
                   case found of None \<Rightarrow> Some (0, w) | Some _ \<Rightarrow> procfs_create_inode sb VFS_TYPE_DIR PROCFS_PID_DIR n name w }
          else if pi_type priv = PROCFS_PID_DIR
          then if name = ''status'' then procfs_create_inode sb VFS_TYPE_FILE PROCFS_PID_FILE (pi_pid priv) ''status'' w
               else if name = ''memory'' then procfs_create_inode sb VFS_TYPE_FILE PROCFS_PID_FILE (pi_pid priv) ''memory'' w
               else if name = ''files'' then procfs_create_inode sb VFS_TYPE_FILE PROCFS_PID_FILE (pi_pid priv) ''files'' w
               else Some (0, w)
          else Some (0, w) } })"

section \<open>Listing\<close>

definition pid_text :: "u64 \<Rightarrow> string" where
  "pid_text n = (if n = 0 then ''0'' else rev (dec_digits n []))"

text \<open>The process at a position among the used entries of the table.\<close>

fun nth_proc :: "(u64 \<rightharpoonup> process) \<Rightarrow> u64 list \<Rightarrow> u32 \<Rightarrow> u32 \<Rightarrow> process option option" where
  "nth_proc m [] found pid_index = Some None"
| "nth_proc m (x # xs) found pid_index =
     (if x = 0 then nth_proc m xs found pid_index
      else if found = pid_index then do { p \<leftarrow> m x; Some (Some p) }
      else nth_proc m xs (found + 1) pid_index)"

definition list_entry :: "u64 \<Rightarrow> file_t \<Rightarrow> string \<Rightarrow> u32 \<Rightarrow> 'a pst_scheme \<Rightarrow> (int \<times> dentry option \<times> 'a pst_scheme) option" where
  "list_entry f fl name type w =
     Some (1, Some \<lparr>d_name = name, d_inode = 0, d_type = type\<rparr>, put f (OFile (fl\<lparr>f_position := f_position fl + 1\<rparr>)) w)"

text \<open>The listing of a process directory indexes an array of four pointers with the position; beyond them the code
  reads whatever follows the array.\<close>

definition procfs_readdir :: "'a pst_scheme \<Rightarrow> u64 \<Rightarrow> (int \<times> dentry option \<times> 'a pst_scheme) option" where
  "procfs_readdir w f =
     (if f = 0 then Some (- 1, None, w)
      else do {
        fl \<leftarrow> files w f;
        ino \<leftarrow> inodes w (f_inode fl);
        priv \<leftarrow> procinodes w (i_private ino);
        let position = f_position fl;
        if pi_type priv = PROCFS_ROOT
        then if position = 0 then list_entry f fl ''meminfo'' VFS_TYPE_FILE w
             else if position = 1 then list_entry f fl ''mounts'' VFS_TYPE_FILE w
             else do {
               found \<leftarrow> nth_proc (procs w) (process_table w) 0 (position - 2);
               case found of None \<Rightarrow> Some (0, None, w) | Some p \<Rightarrow> list_entry f fl (pid_text (pid p)) VFS_TYPE_DIR w }
        else if pi_type priv = PROCFS_PID_DIR
        then if position < 3 then list_entry f fl ([''status'', ''memory'', ''files''] ! unat position) VFS_TYPE_FILE w
             else if position = 3 then Some (0, None, w)
             else None
        else Some (0, None, w) })"

definition procfs_open :: "'a pst_scheme \<Rightarrow> u64 \<Rightarrow> u64 \<Rightarrow> (int \<times> 'a pst_scheme) option" where
  "procfs_open w inode f = Some (0, w)"

definition procfs_close :: "'a pst_scheme \<Rightarrow> u64 \<Rightarrow> u64 \<Rightarrow> (int \<times> 'a pst_scheme) option" where
  "procfs_close w inode f = Some (0, w)"

section \<open>Reading\<close>

fun state_name :: "process_state \<Rightarrow> string" where
  "state_name PROCESS_READY = ''ready''"
| "state_name PROCESS_RUNNING = ''running''"
| "state_name PROCESS_BLOCKED = ''blocked''"
| "state_name PROCESS_DEAD = ''dead''"
| "state_name PROCESS_SLEEPING = ''sleeping''"

abbreviation newline :: string where "newline \<equiv> [CHR 0x0A]"

definition temp_printf :: "string \<Rightarrow> va list \<Rightarrow> (string \<times> nat) option" where
  "temp_printf fmt args = ksnprintf (replicate 512 (CHR 0x00)) 512 fmt args"

definition process_text :: "procfs_inode \<Rightarrow> process option \<Rightarrow> (string \<times> nat) option" where
  "process_text priv proc =
     (case proc of
        None \<Rightarrow> temp_printf (''Process not found'' @ newline) []
      | Some p \<Rightarrow>
          if pi_name priv = ''status''
          then temp_printf (''Name:      %s'' @ newline @ ''PID:       %lu'' @ newline @ ''Parent:    %lu'' @ newline @ ''State:     %s'' @ newline)
                 [VStr (Some (pname p)), VLong (pid p), VLong (parent_pid p), VStr (Some (state_name (pstate p)))]
          else if pi_name priv = ''memory''
          then temp_printf (''Stack:     0x%lx'' @ newline @ ''StackTop:  0x%lx'' @ newline) [VLong (stack p), VLong (stack_top p)]
          else if pi_name priv = ''files'' then temp_printf (''fd table not yet per-process'' @ newline) []
          else Some (replicate 512 (CHR 0x00), 0))"

definition info_text :: "procfs_inode \<Rightarrow> pmm \<Rightarrow> (string \<times> nat) option" where
  "info_text priv pm =
     (if pi_name priv = ''meminfo''
      then let free = pmm_free_pages pm; used = pmm_used_pages pm; total = free + used in
        temp_printf (''MemTotal:  %lu KB'' @ newline @ ''MemFree:   %lu KB'' @ newline @ ''MemUsed:   %lu KB'' @ newline)
          [VLong (total * 4), VLong (free * 4), VLong (used * 4)]
      else if pi_name priv = ''mounts''
      then temp_printf (''/temp        shadowFS'' @ newline @ ''/devices     devFS'' @ newline @ ''/process     procFS'' @ newline) []
      else Some (replicate 512 (CHR 0x00), 0))"

definition procfs_read :: "'a pst_scheme \<Rightarrow> u64 \<Rightarrow> bool \<Rightarrow> u32 \<Rightarrow> (int \<times> u8 list \<times> 'a pst_scheme) option" where
  "procfs_read w f buffer n =
     (if f = 0 \<or> \<not> buffer then Some (- 1, [], w)
      else do {
        fl \<leftarrow> files w f;
        ino \<leftarrow> inodes w (f_inode fl);
        if i_private ino = 0 then Some (- 1, [], w)
        else do {
          priv \<leftarrow> procinodes w (i_private ino);
          (temp, len) \<leftarrow>
            (if pi_type priv = PROCFS_INFO_FILE then info_text priv (pages w)
             else if pi_type priv = PROCFS_PID_FILE
             then do { found \<leftarrow> find_proc (\<lambda>p. pid p = pi_pid priv) (procs w) (process_table w) 0;
                       process_text priv (case found of None \<Rightarrow> None | Some (i, x) \<Rightarrow> procs w x) }
             else Some (replicate 512 (CHR 0x00), 0));
          let length32 = (of_nat len :: u32);
          if f_position fl \<ge> length32 then Some (0, [], w)
          else let available = length32 - f_position fl;
                   to_copy = (if n < available then n else available) in
            if unat (f_position fl) + unat to_copy \<le> length temp
            then Some (sint to_copy, bytes_of (take (unat to_copy) (drop (unat (f_position fl)) temp)),
                       put f (OFile (fl\<lparr>f_position := f_position fl + to_copy\<rparr>)) w)
            else None } })"

definition procfs_ops :: "'a pst_scheme fs_ops" where
  "procfs_ops = \<lparr>op_lookup = Some procfs_lookup, op_create = None, op_delete = None, op_truncate = None,
     op_open = Some procfs_open, op_close = Some procfs_close, op_read = Some procfs_read, op_write = None,
     op_readdir = Some procfs_readdir, op_mkdir = None\<rparr>"

section \<open>Listed processes can be looked up\<close>

lemma parse_pid_digits:
  "\<forall>c \<in> set s. is_digit c \<Longrightarrow> parse_pid (of_nat v) s = (of_nat (foldl (\<lambda>v c. v * 10 + (of_char c - 48)) v s), [])"
proof (induction s arbitrary: v)
  case (Cons c s)
  then have "48 \<le> (of_char c :: nat) \<and> (of_char c :: nat) \<le> 57" by (simp add: is_digit_def)
  then have "parse_pid (of_nat v) (c # s) = parse_pid (of_nat v * 10 + of_nat (of_char c - 48)) s" by (simp only: parse_pid.simps if_True simp_thms)
  also have "of_nat v * 10 + of_nat (of_char c - 48) = (of_nat (v * 10 + (of_char c - 48)) :: u64)" by (simp only: of_nat_add of_nat_mult of_nat_numeral)
  also have "parse_pid (of_nat (v * 10 + (of_char c - 48))) s = (of_nat (foldl (\<lambda>v c. v * 10 + (of_char c - 48)) (v * 10 + (of_char c - 48)) s), [])"
    using Cons.prems by (intro Cons.IH) simp
  finally show ?case by (simp only: foldl_Cons)
qed simp

lemma pid_text_parses: "parse_pid 0 (pid_text n) = (n, [])" "\<forall>c \<in> set (pid_text n). is_digit c" "pid_text n \<noteq> []"
proof -
  have t: "pid_text n = uint64_to_dec n" by (simp add: pid_text_def uint64_to_dec_def)
  show d: "\<forall>c \<in> set (pid_text n). is_digit c" "pid_text n \<noteq> []" unfolding t by (rule uint64_to_dec_shape)+
  have "parse_pid (of_nat 0) (pid_text n) = (of_nat (dec_value (pid_text n)), [])" using parse_pid_digits [OF d(1), of 0] by (simp add: dec_value_def)
  then show "parse_pid 0 (pid_text n) = (n, [])" using uint64_to_dec_shape(1) [of n] t by simp
qed

lemma nth_proc_in: "nth_proc m xs i k = Some (Some p) \<Longrightarrow> \<exists>x \<in> set xs. x \<noteq> 0 \<and> m x = Some p"
  by (induction xs arbitrary: i) (auto simp: bind_eq_Some_conv split: if_splits)

lemma find_proc_hit:
  assumes "x \<in> set xs" "x \<noteq> 0" "m x = Some p" "P p" "\<forall>y \<in> set xs. y \<noteq> 0 \<longrightarrow> m y \<noteq> None"
  shows "\<exists>i y. find_proc P m xs k = Some (Some (i, y))"
  using assms by (induction xs arbitrary: k) auto

text \<open>C39: Every process that a listing of \<open>/process\<close> shows can be looked up: an entry listed after the two information
  files is the decimal process number of a process in the table, and looking that name up creates the directory of
  exactly this process number (all 64-bit numbers are printed and parsed back without loss).\<close>

theorem procfs_listing_resolves:
  assumes d: "d \<noteq> 0" "inodes w d = Some ino" "i_private ino \<noteq> 0" "procinodes w (i_private ino) = Some priv" "pi_type priv = PROCFS_ROOT"
    and f: "f \<noteq> 0" "files w f = Some fl" "f_inode fl = d" "f_position fl \<noteq> 0" "f_position fl \<noteq> 1"
    and tab: "table_ok w" and rd: "procfs_readdir w f = Some (1, Some de, w')"
  shows "\<exists>x p. x \<in> set (process_table w) \<and> procs w x = Some p \<and> d_name de = pid_text (pid p) \<and> d_type de = VFS_TYPE_DIR \<and>
    parse_pid 0 (d_name de) = (pid p, []) \<and>
    procfs_lookup w' d (d_name de) = procfs_create_inode (i_sb ino) VFS_TYPE_DIR PROCFS_PID_DIR (pid p) (d_name de) w'"
proof -
  from rd d f obtain p where p: "nth_proc (procs w) (process_table w) 0 (f_position fl - 2) = Some (Some p)"
    and de: "d_name de = pid_text (pid p)" "d_type de = VFS_TYPE_DIR" and w': "w' = put f (OFile (fl\<lparr>f_position := f_position fl + 1\<rparr>)) w"
    by (auto simp: procfs_readdir_def list_entry_def bind_eq_Some_conv Let_def split: option.splits)
  obtain x where x: "x \<in> set (process_table w)" "x \<noteq> 0" "procs w x = Some p" using nth_proc_in [OF p] by blast
  have st: "procs w' = procs w" "process_table w' = process_table w" by (simp_all add: w' put_def)
  have "f \<noteq> d" "f \<noteq> i_private ino" using f(2) d(2,4) by (auto simp: access_iff)
  then have in': "inodes w' d = Some ino" "procinodes w' (i_private ino) = Some priv" using d by (simp_all add: w' access_iff)
  obtain i y where hit: "find_proc (\<lambda>r. pid r = pid p) (procs w) (process_table w) 0 = Some (Some (i, y))"
    using find_proc_hit [of x "process_table w" "procs w" p "\<lambda>r. pid r = pid p" 0] x tab by (auto simp: table_ok_def)
  have "is_digit (hd (pid_text (pid p)))" using pid_text_parses(2,3) [of "pid p"] hd_in_set by blast
  then have "pid_text (pid p) \<noteq> ''meminfo''" "pid_text (pid p) \<noteq> ''mounts''" by (auto simp: is_digit_def)
  then have "procfs_lookup w' d (d_name de) = procfs_create_inode (i_sb ino) VFS_TYPE_DIR PROCFS_PID_DIR (pid p) (d_name de) w'"
    using d in' hit de(1) pid_text_parses(1) [of "pid p"] by (simp add: procfs_lookup_def st Let_def)
  then show ?thesis using x de pid_text_parses(1) by auto
qed

definition listing_machine :: dst where
  "listing_machine = two_process_machine\<lparr>objs :=
     [0x100 \<mapsto> OInode (zero_inode\<lparr>i_type := VFS_TYPE_DIR, i_ops := Some PROCFS, i_private := 0x200\<rparr>),
      0x200 \<mapsto> OProcInode \<lparr>pi_type = PROCFS_ROOT, pi_pid = 0, pi_name = ''process''\<rparr>,
      0x300 \<mapsto> OFile \<lparr>f_inode = 0x100, f_position = 3, f_flags = 0, f_ref_count = 1, f_private = 0\<rparr>]\<rparr>"

theorem procfs_listing_resolves_witness:
  "\<exists>de w'. procfs_readdir listing_machine 0x300 = Some (1, Some de, w') \<and> d_name de = pid_text 1 \<and> parse_pid 0 (d_name de) = (1, [])"
proof -
  let ?w = listing_machine
  have acc: "inodes ?w 0x100 = Some (zero_inode\<lparr>i_type := VFS_TYPE_DIR, i_ops := Some PROCFS, i_private := 0x200\<rparr>)"
    "procinodes ?w 0x200 = Some \<lparr>pi_type = PROCFS_ROOT, pi_pid = 0, pi_name = ''process''\<rparr>"
    "files ?w 0x300 = Some \<lparr>f_inode = 0x100, f_position = 3, f_flags = 0, f_ref_count = 1, f_private = 0\<rparr>"
    by (simp_all add: access_iff listing_machine_def)
  have tab: "table_ok ?w" using two_process_machine_inv by (simp add: sched_inv_def table_ok_def listing_machine_def)
  have "nth_proc (procs ?w) (process_table ?w) 0 1 = Some (Some (zero_process\<lparr>pid := 1, pnext := 0x1000\<rparr>))"
    by (simp add: listing_machine_def two_process_machine_def two_processes_def ast.defs pst.defs)
  then obtain de w' where rd: "procfs_readdir ?w 0x300 = Some (1, Some de, w')" "d_name de = pid_text 1"
    using acc by (simp add: procfs_readdir_def list_entry_def Let_def zero_process_def)
  have "\<exists>x p. x \<in> set (process_table ?w) \<and> procs ?w x = Some p \<and> d_name de = pid_text (pid p) \<and> d_type de = VFS_TYPE_DIR \<and> parse_pid 0 (d_name de) = (pid p, []) \<and>
    procfs_lookup w' 0x100 (d_name de) = procfs_create_inode None VFS_TYPE_DIR PROCFS_PID_DIR (pid p) (d_name de) w'"
    using procfs_listing_resolves [OF _ acc(1) _ _ _ _ acc(3) _ _ _ tab rd(1)] acc(2) by simp
  then show ?thesis using rd pid_text_parses(1) by metis
qed

end
