(* ===== verification/System.thy ===== *)
theory System
  imports Shadow_Boot Devfs Procfs
begin

text \<open>
  The file systems together: the operation tables the VFS dispatches to, the proof that all three file
  systems keep the contract of the VFS (locale \<open>fs_driver\<close>), and the transition system of boot,
  mounting and file operations with the invariant of the descriptor table.
\<close>

fun fs_table :: "fs_kind \<Rightarrow> 'a dst_scheme fs_ops" where
  "fs_table SHADOWFS = shadowfs_ops"
| "fs_table DEVFS = devfs_ops"
| "fs_table PROCFS = procfs_ops"

section \<open>devFS and procFS keep the contract\<close>

lemma fs_step_outside:
  assumes "obj_inv w" "heap w' = heap w" "objs w' = objs w" "file_table w' = file_table w" "mount_table w' = mount_table w" "mount_count w' = mount_count w"
  shows "fs_step w w'"
  using assms by (simp add: fs_step_def vfs_frame_def obj_inv_def files_def)

lemma new_two_step:
  assumes inv: "obj_inv w" and n: "new (OInode i) w = Some (a, w1)" "new x w1 = Some (p, w2)" and x: "\<not> is_file x"
  shows "fs_step w (put a (OInode j) w2) \<and> a \<noteq> 0"
proof -
  have s1: "fs_step w w1" "a \<noteq> 0" using new_step [OF inv n(1)] by simp_all
  have s2: "fs_step w1 w2" using new_step [OF fs_step_inv [OF s1(1)] n(2) x] by simp
  have "objs w1 a = Some (OInode i)" "objs w1 p = None" "objs w2 = (objs w1)(p \<mapsto> x)"
    using new_inv [OF inv n(1)] new_inv [OF fs_step_inv [OF s1(1)] n(2)] by auto
  then have "inodes w2 a = Some i" by (auto simp: access_iff)
  from put_steps(1) [OF fs_step_inv [OF s2] this] s1 s2 show ?thesis by (meson fs_step_trans)
qed

lemma devfs_create_inode_step: "obj_inv w \<Longrightarrow> devfs_create_inode sb type device w = Some (a, w') \<Longrightarrow> fs_step w w' \<and> a \<noteq> 0"
  by (auto simp: devfs_create_inode_def bind_eq_Some_conv dest: new_two_step)

lemma procfs_create_inode_step: "obj_inv w \<Longrightarrow> procfs_create_inode sb type ptype num name w = Some (a, w') \<Longrightarrow> fs_step w w' \<and> a \<noteq> 0"
  by (auto simp: procfs_create_inode_def bind_eq_Some_conv dest: new_two_step)

lemma devfs_lookup_step: "obj_inv w \<Longrightarrow> devfs_lookup w dir name = Some (r, w') \<Longrightarrow> fs_step w w'"
  by (auto simp: devfs_lookup_def bind_eq_Some_conv fs_step_refl split: if_splits option.splits dest: devfs_create_inode_step)

lemma procfs_lookup_step: "obj_inv w \<Longrightarrow> procfs_lookup w dir name = Some (r, w') \<Longrightarrow> fs_step w w'"
  by (auto simp: procfs_lookup_def bind_eq_Some_conv Let_def fs_step_refl split: if_splits option.splits prod.splits dest: procfs_create_inode_step)

lemma keyboard_read_loop_step: "obj_inv w \<Longrightarrow> keyboard_read_loop n bs w = Some (r, w') \<Longrightarrow> fs_step w w'"
proof (induction n arbitrary: bs w)
  case (Suc n)
  then have "keyboard_read_loop n (bs @ [pending_key w]) (w\<lparr>pending_key := 0\<rparr>) = Some (r, w')"
    by (auto simp: getchar_take_def split: if_splits)
  moreover have s: "fs_step w (w\<lparr>pending_key := 0\<rparr>)" using Suc.prems(1) by (rule fs_step_outside) simp_all
  ultimately have "fs_step (w\<lparr>pending_key := 0\<rparr>) w'" using Suc.IH fs_step_inv by blast
  with s show ?case by (rule fs_step_trans)
qed (simp add: fs_step_refl)

lemma call_read_step: "obj_inv w \<Longrightarrow> call_read h w n = Some (r, bs, w') \<Longrightarrow> fs_step w w'"
  by (cases h) (auto simp: dev_keyboard_read_def bind_eq_Some_conv fs_step_refl split: prod.splits
      dest: keyboard_read_loop_step intro: fs_step_outside)

lemma call_write_step: "obj_inv w \<Longrightarrow> call_write h w buf n = Some (r, w') \<Longrightarrow> fs_step w w'"
  by (cases h) (auto simp: bind_eq_Some_conv fs_step_refl split: prod.splits intro: fs_step_outside)

lemma devfs_read_step:
  assumes inv: "obj_inv w" and op: "devfs_read w f b n = Some (r, bs, w')"
  shows "fs_step w w'"
proof -
  obtain dev where dev: "device_of w f = Some dev" using op by (cases "device_of w f") (simp_all add: devfs_read_def)
  show ?thesis
  proof (cases "dev = None \<or> dev_read (the dev) = None")
    case True
    then have "w' = w" using op dev by (cases dev) (auto simp: devfs_read_def)
    then show ?thesis using inv by (simp add: fs_step_refl)
  next
    case False
    then obtain d h where "dev = Some d" "dev_read d = Some h" by auto
    then obtain r1 bs1 where "call_read h w n = Some (r1, bs1, w')" using op dev by (auto simp: devfs_read_def bind_eq_Some_conv split: if_splits)
    then show ?thesis by (rule call_read_step [OF inv])
  qed
qed

lemma devfs_write_step:
  assumes inv: "obj_inv w" and op: "devfs_write w f b n = Some (r, w')"
  shows "fs_step w w'"
proof -
  obtain dev where dev: "device_of w f = Some dev" using op by (cases "device_of w f") (simp_all add: devfs_write_def)
  show ?thesis
  proof (cases "dev = None \<or> dev_write (the dev) = None")
    case True
    then have "w' = w" using op dev by (cases dev) (auto simp: devfs_write_def)
    then show ?thesis using inv by (simp add: fs_step_refl)
  next
    case False
    then obtain d h where "dev = Some d" "dev_write d = Some h" by auto
    then have "call_write h w (case b of None \<Rightarrow> [] | Some bs \<Rightarrow> bs) n = Some (r, w')" using op dev by (simp add: devfs_write_def)
    then show ?thesis by (rule call_write_step [OF inv])
  qed
qed

lemma position_step: "obj_inv w \<Longrightarrow> files w f = Some fl \<Longrightarrow> fs_step w (put f (OFile (fl\<lparr>f_position := n\<rparr>)) w)"
  by (rule put_file_step) (simp_all add: file_core_def)

lemma devfs_readdir_step: "obj_inv w \<Longrightarrow> devfs_readdir w f = Some (r, de, w') \<Longrightarrow> fs_step w w'"
  by (auto simp: devfs_readdir_def bind_eq_Some_conv Let_def fs_step_refl split: if_splits intro: position_step)

lemma procfs_readdir_step: "obj_inv w \<Longrightarrow> procfs_readdir w f = Some (r, de, w') \<Longrightarrow> fs_step w w'"
  by (auto simp: procfs_readdir_def list_entry_def bind_eq_Some_conv Let_def fs_step_refl split: if_splits option.splits intro: position_step)

lemma procfs_read_step:
  assumes inv: "obj_inv w" and op: "procfs_read w f b n = Some (r, bs, w')"
  shows "fs_step w w'"
proof (cases "f = 0 \<or> \<not> b")
  case True
  then show ?thesis using inv op by (auto simp: procfs_read_def fs_step_refl)
next
  case False
  then obtain fl ino where fl: "files w f = Some fl" and ino: "inodes w (f_inode fl) = Some ino"
    using op by (cases "files w f"; cases "inodes w (f_inode (the (files w f)))") (simp_all add: procfs_read_def)
  have "w' = w \<or> (\<exists>p. w' = put f (OFile (fl\<lparr>f_position := p\<rparr>)) w)"
  proof (cases "i_private ino = 0")
    case True
    then show ?thesis using op False fl ino by (simp add: procfs_read_def)
  next
    case p: False
    note op' = op [unfolded procfs_read_def, simplified False fl ino p if_False Option.bind.simps]
    from op' show ?thesis
      unfolding Let_def by (elim Option.bind_eq_Some_conv [THEN iffD1, elim_format] exE conjE) (simp only: split: prod.splits if_splits; blast)
  qed
  then show ?thesis using inv fl by (auto simp: fs_step_refl intro: position_step)
qed

lemmas device_steps = devfs_lookup_step devfs_read_step devfs_write_step devfs_readdir_step
  procfs_lookup_step procfs_read_step procfs_readdir_step

lemma fs_ops_sel [simp]:
  "op_lookup devfs_ops = Some devfs_lookup" "op_create devfs_ops = Some devfs_create" "op_delete devfs_ops = None" "op_truncate devfs_ops = None"
  "op_open devfs_ops = Some devfs_open" "op_close devfs_ops = Some devfs_close" "op_read devfs_ops = Some devfs_read"
  "op_write devfs_ops = Some devfs_write" "op_readdir devfs_ops = Some devfs_readdir" "op_mkdir devfs_ops = None"
  "op_lookup procfs_ops = Some procfs_lookup" "op_create procfs_ops = None" "op_delete procfs_ops = None" "op_truncate procfs_ops = None"
  "op_open procfs_ops = Some procfs_open" "op_close procfs_ops = Some procfs_close" "op_read procfs_ops = Some procfs_read"
  "op_write procfs_ops = None" "op_readdir procfs_ops = Some procfs_readdir" "op_mkdir procfs_ops = None"
  by (simp_all add: devfs_ops_def procfs_ops_def)

lemma trivial_steps:
  "obj_inv w \<Longrightarrow> devfs_create w d n t = Some (r, w') \<Longrightarrow> fs_step w w'"
  "obj_inv w \<Longrightarrow> devfs_open w d g = Some (res, w') \<Longrightarrow> fs_step w w'"
  "obj_inv w \<Longrightarrow> devfs_close w d g = Some (res, w') \<Longrightarrow> fs_step w w'"
  "obj_inv w \<Longrightarrow> procfs_open w d g = Some (res, w') \<Longrightarrow> fs_step w w'"
  "obj_inv w \<Longrightarrow> procfs_close w d g = Some (res, w') \<Longrightarrow> fs_step w w'"
  "obj_inv w \<Longrightarrow> shadowfs_open w d g = Some (res, w') \<Longrightarrow> fs_step w w'"
  "obj_inv w \<Longrightarrow> shadowfs_close w d g = Some (res, w') \<Longrightarrow> fs_step w w'"
  by (auto simp: devfs_create_def devfs_open_def devfs_close_def procfs_open_def procfs_close_def shadowfs_open_def shadowfs_close_def fs_step_refl)

text \<open>The three file systems of the kernel keep the contract the VFS relies on.\<close>

interpretation kernel_fs: fs_driver fs_table
proof unfold_locales
  fix k :: fs_kind and w w' :: "'a dst_scheme"
  assume inv: "obj_inv w"
  note unfold_step = fs_step_def [symmetric]
  show "op_lookup (fs_table k) = Some f1 \<Longrightarrow> f1 w d n = Some (r, w') \<Longrightarrow> obj_inv w' \<and> vfs_frame w w'" for f1 d n r
    unfolding unfold_step using inv by (cases k) (auto dest: shadowfs_steps device_steps)
  show "op_create (fs_table k) = Some f2 \<Longrightarrow> f2 w d n t = Some (r, w') \<Longrightarrow> obj_inv w' \<and> vfs_frame w w'" for f2 d n t r
    unfolding unfold_step using inv by (cases k) (auto dest: shadowfs_steps trivial_steps)
  show "op_delete (fs_table k) = Some f3 \<Longrightarrow> f3 w d n = Some (res, w') \<Longrightarrow> obj_inv w' \<and> vfs_frame w w'" for f3 d n res
    unfolding unfold_step using inv by (cases k) (auto dest: shadowfs_steps)
  show "op_truncate (fs_table k) = Some f4 \<Longrightarrow> f4 w d sz = Some (res, w') \<Longrightarrow> obj_inv w' \<and> vfs_frame w w'" for f4 d sz res
    unfolding unfold_step using inv by (cases k) (auto dest: shadowfs_steps)
  show "op_open (fs_table k) = Some f5 \<Longrightarrow> f5 w d g = Some (res, w') \<Longrightarrow> obj_inv w' \<and> vfs_frame w w'" for f5 d g res
    unfolding unfold_step using inv by (cases k) (auto dest: trivial_steps)
  show "op_close (fs_table k) = Some f6 \<Longrightarrow> f6 w d g = Some (res, w') \<Longrightarrow> obj_inv w' \<and> vfs_frame w w'" for f6 d g res
    unfolding unfold_step using inv by (cases k) (auto dest: trivial_steps)
  show "op_read (fs_table k) = Some f7 \<Longrightarrow> f7 w g b sz = Some (res, bs, w') \<Longrightarrow> obj_inv w' \<and> vfs_frame w w'" for f7 g b sz res bs
    unfolding unfold_step using inv by (cases k) (auto dest: shadowfs_steps device_steps)
  show "op_write (fs_table k) = Some f8 \<Longrightarrow> f8 w g bs' sz = Some (res, w') \<Longrightarrow> obj_inv w' \<and> vfs_frame w w'" for f8 g bs' sz res
    unfolding unfold_step using inv by (cases k) (auto dest: shadowfs_steps device_steps)
  show "op_readdir (fs_table k) = Some f9 \<Longrightarrow> f9 w g = Some (res, de, w') \<Longrightarrow> obj_inv w' \<and> vfs_frame w w'" for f9 g res de
    unfolding unfold_step using inv by (cases k) (auto dest: shadowfs_steps device_steps)
  show "op_mkdir (fs_table k) = Some f10 \<Longrightarrow> f10 w d n = Some (res, w') \<Longrightarrow> obj_inv w' \<and> vfs_frame w w'" for f10 d n res
    unfolding unfold_step using inv by (cases k) (auto dest: shadowfs_steps)
qed

section \<open>The states the file operations reach\<close>

text \<open>Boot leaves an empty object store and clears the tables. From there the kernel mounts file systems, registers
  devices, handles key presses and runs file operations, in any order and with any arguments and results.\<close>

inductive fs_reachable :: "dst \<Rightarrow> bool" where
  boot: "kheap_inv (heap w) \<Longrightarrow> objs w = Map.empty \<Longrightarrow> fs_reachable (vfs_init w)"
| mount_shadowfs: "fs_reachable w \<Longrightarrow> shadowfs_mount w path q = Some (res, w') \<Longrightarrow> fs_reachable w'"
| mount_devfs: "fs_reachable w \<Longrightarrow> devfs_mount mount_data path w = Some (res, w') \<Longrightarrow> fs_reachable w'"
| mount_procfs: "fs_reachable w \<Longrightarrow> procfs_mount path w = Some (res, w') \<Longrightarrow> fs_reachable w'"
| register: "fs_reachable w \<Longrightarrow> devfs_register path name rd wr w = Some (res, w') \<Longrightarrow> fs_reachable w'"
| key: "fs_reachable w \<Longrightarrow> keyboard_handler scancode w = Some w' \<Longrightarrow> fs_reachable w'"
| open_path: "fs_reachable w \<Longrightarrow> vfs_open fs_table w path flags = Some (fd, w') \<Longrightarrow> fs_reachable w'"
| open_at: "fs_reachable w \<Longrightarrow> vfs_open_at fs_table w path flags fd = Some (res, w') \<Longrightarrow> fs_reachable w'"
| close: "fs_reachable w \<Longrightarrow> vfs_close fs_table w fd = Some (res, w') \<Longrightarrow> fs_reachable w'"
| read_file: "fs_reachable w \<Longrightarrow> vfs_read fs_table w fd buffer n = Some (res, bs, w') \<Longrightarrow> fs_reachable w'"
| write_file: "fs_reachable w \<Longrightarrow> vfs_write fs_table w fd buf n = Some (res, w') \<Longrightarrow> fs_reachable w'"
| seek: "fs_reachable w \<Longrightarrow> vfs_seek w fd offset whence = Some (res, w') \<Longrightarrow> fs_reachable w'"
| readdir: "fs_reachable w \<Longrightarrow> vfs_readdir fs_table w fd = Some (res, de, w') \<Longrightarrow> fs_reachable w'"
| mkdir: "fs_reachable w \<Longrightarrow> vfs_mkdir fs_table w path = Some (res, w') \<Longrightarrow> fs_reachable w'"
| delete: "fs_reachable w \<Longrightarrow> vfs_delete fs_table w path = Some (res, w') \<Longrightarrow> fs_reachable w'"

lemma vfs_inv_outside:
  "vfs_inv w \<Longrightarrow> heap w' = heap w \<Longrightarrow> objs w' = objs w \<Longrightarrow> file_table w' = file_table w \<Longrightarrow> vfs_inv w'"
  by (simp add: vfs_inv_def obj_inv_def vfs_tab_def files_def)

lemma vfs_inv_step: "vfs_inv w \<Longrightarrow> fs_step w w' \<Longrightarrow> vfs_inv w'"
  using vfs_frame_tab by (auto simp: vfs_inv_def fs_step_def)

lemma vfs_inv_obj: "vfs_inv w \<Longrightarrow> obj_inv w"
  by (simp add: vfs_inv_def)

lemma vfs_mount_outside:
  "vfs_mount w path ops priv = (res, w') \<Longrightarrow> heap w' = heap w \<and> objs w' = objs w \<and> file_table w' = file_table w"
  by (auto simp: vfs_mount_def Let_def split: if_splits)

lemma vfs_mount_inv: "vfs_inv w \<Longrightarrow> vfs_mount w path ops priv = (res, w') \<Longrightarrow> vfs_inv w'"
  using vfs_mount_outside [of w path ops priv res w'] vfs_inv_outside by blast

lemma boot_keeps: "kheap_inv (heap w) \<Longrightarrow> objs w = Map.empty \<Longrightarrow> vfs_inv (vfs_init w)"
  by (simp add: vfs_inv_def obj_inv_def vfs_tab_def vfs_init_def files_def)

lemma mount_shadowfs_keeps:
  assumes inv: "vfs_inv w" and op: "shadowfs_mount w path q = Some (res, w')"
  shows "vfs_inv w'"
proof (cases "q > (ucast (pmm_free_pages (pages w) * PAGE_SIZE) :: u32) div 2")
  case True
  then show ?thesis using inv op by (simp add: shadowfs_mount_def Let_def)
next
  case False
  let ?o = "OSMount \<lparr>quota = q, m_used = 0, next_inode_num = 1, root_inode = 0\<rparr>"
  obtain m w1 where n: "new ?o w = Some (m, w1)" using op False by (auto simp: shadowfs_mount_def Let_def bind_eq_Some_conv)
  have i1: "vfs_inv w1" and m: "m \<noteq> 0" using new_step [OF vfs_inv_obj [OF inv] n] vfs_inv_step [OF inv] by auto
  obtain r2 w2 where v: "vfs_mount w1 path SHADOWFS m = (r2, w2)" by fastforce
  have i2: "vfs_inv w2" using vfs_mount_inv [OF i1 v] .
  note freed = vfs_inv_step [OF i2 release_steps(5) [OF vfs_inv_obj [OF i2]]]
  show ?thesis
  proof (cases "r2 < 0 \<or> vfs_find_mount w2 path = None")
    case True
    then have "release_as smounts m w2 = Some w'" using op False n m v by (auto simp: shadowfs_mount_def bind_eq_Some_conv split: if_splits)
    then show ?thesis by (rule freed)
  next
    case ok: False
    then obtain sb where sb: "vfs_find_mount w2 path = Some sb" by auto
    then obtain root w3 where c: "shadowfs_create_inode w2 (Some sb) VFS_TYPE_DIR = Some (root, w3)"
      using op False n m v ok by (cases "shadowfs_create_inode w2 (Some sb) VFS_TYPE_DIR") (simp_all add: shadowfs_mount_def, fastforce)
    have i3: "vfs_inv w3" and root: "root \<noteq> 0" using create_inode_step [OF vfs_inv_obj [OF i2] c] vfs_inv_step [OF i2] by auto
    let ?w4 = "w3\<lparr>mount_table := (mount_table w3)[sb := (mount_table w3 ! sb)\<lparr>sb_root := root\<rparr>]\<rparr>"
    have i4: "vfs_inv ?w4" using i3 by (rule vfs_inv_outside) simp_all
    obtain k where k: "smounts w3 m = Some k" and w': "w' = put m (OSMount (k\<lparr>root_inode := root\<rparr>)) ?w4"
      using op False n m v ok sb c root by (cases "smounts w3 m") (simp_all add: shadowfs_mount_def)
    have "smounts ?w4 m = Some k" using k by (simp add: access_iff)
    then show ?thesis unfolding w' by (rule vfs_inv_step [OF i4 put_steps(5) [OF vfs_inv_obj [OF i4]]])
  qed
qed

lemma mount_devfs_keeps:
  assumes inv: "vfs_inv w" and op: "devfs_mount mount_data path w = Some (res, w')"
  shows "vfs_inv w'"
proof -
  define w1 where "w1 = w\<lparr>device_table := replicate DEVFS_MAX_DEVICES zero_device, device_count := 0,
    device_capacity := DEVFS_MAX_DEVICES, devfs_root := 0\<rparr>"
  have i1: "vfs_inv w1" using inv by (rule vfs_inv_outside) (simp_all add: w1_def)
  obtain r w2 where v: "vfs_mount w1 path DEVFS mount_data = (r, w2)" by fastforce
  have i2: "vfs_inv w2" using vfs_mount_inv [OF i1 v] .
  note op' = op [unfolded devfs_mount_def Let_def, folded w1_def, unfolded v prod.case]
  show ?thesis
  proof (cases "r < 0 \<or> vfs_find_mount w2 path = None")
    case True
    then show ?thesis using op' i2 by (auto split: if_splits)
  next
    case False
    then obtain sb root w3 where c: "devfs_create_inode (Some sb) VFS_TYPE_DIR None w2 = Some (root, w3)" and
      w': "w' = w3\<lparr>mount_table := (mount_table w3)[sb := (mount_table w3 ! sb)\<lparr>sb_root := root\<rparr>], devfs_root := root\<rparr> \<or> w' = w3"
      using op' by (auto simp: bind_eq_Some_conv split: if_splits)
    have "vfs_inv w3" using devfs_create_inode_step [OF vfs_inv_obj [OF i2] c] vfs_inv_step [OF i2] by blast
    then show ?thesis using w' vfs_inv_outside [of w3 w'] by auto
  qed
qed

lemma mount_procfs_keeps:
  assumes inv: "vfs_inv w" and op: "procfs_mount path w = Some (res, w')"
  shows "vfs_inv w'"
proof -
  obtain r w2 where v: "vfs_mount w path PROCFS 0 = (r, w2)" by fastforce
  have i2: "vfs_inv w2" using vfs_mount_inv [OF inv v] .
  note op' = op [unfolded procfs_mount_def Let_def, unfolded v prod.case]
  show ?thesis
  proof (cases "r < 0 \<or> vfs_find_mount w2 path = None")
    case True
    then show ?thesis using op' i2 by (auto split: if_splits)
  next
    case False
    then obtain sb root w3 where c: "procfs_create_inode (Some sb) VFS_TYPE_DIR PROCFS_ROOT 0 ''process'' w2 = Some (root, w3)" and
      w': "w' = w3\<lparr>mount_table := (mount_table w3)[sb := (mount_table w3 ! sb)\<lparr>sb_root := root\<rparr>]\<rparr> \<or> w' = w3"
      using op' by (auto simp: bind_eq_Some_conv split: if_splits)
    have "vfs_inv w3" using procfs_create_inode_step [OF vfs_inv_obj [OF i2] c] vfs_inv_step [OF i2] by blast
    then show ?thesis using w' vfs_inv_outside [of w3 w'] by auto
  qed
qed

lemma register_keeps:
  assumes inv: "vfs_inv w" and op: "devfs_register path name rd wr w = Some (res, w')"
  shows "vfs_inv w'"
proof (cases "device_count w \<ge> device_capacity w \<or> vfs_find_mount w path = None")
  case True
  then show ?thesis using inv op by (auto simp: devfs_register_def split: if_splits)
next
  case False
  define w1 where "w1 = w\<lparr>device_table := (device_table w)[device_count w := \<lparr>dev_name = take (VFS_MAX_NAME - 1) name, dev_read = rd, dev_write = wr\<rparr>],
    device_count := device_count w + 1\<rparr>"
  from False obtain sb inode w2 where c: "devfs_create_inode (Some sb) VFS_TYPE_FILE (Some (device_count w)) w1 = Some (inode, w2)" and
    w': "w' = w2 \<or> (\<exists>ino. inodes w2 inode = Some ino \<and> w' = put inode (OInode (ino\<lparr>inode_num := of_nat (device_count w)\<rparr>)) w2)"
    using op by (auto simp: devfs_register_def Let_def w1_def bind_eq_Some_conv split: if_splits)
  have i1: "vfs_inv w1" using inv by (rule vfs_inv_outside) (simp_all add: w1_def)
  have i2: "vfs_inv w2" using devfs_create_inode_step [OF vfs_inv_obj [OF i1] c] vfs_inv_step [OF i1] by blast
  show ?thesis using w' i2 put_steps(1) [OF vfs_inv_obj [OF i2]] vfs_inv_step [OF i2] by blast
qed

lemma key_outside:
  "keyboard_handler scancode w = Some w' \<Longrightarrow> heap w' = heap w \<and> objs w' = objs w \<and> file_table w' = file_table w"
  by (auto simp: keyboard_handler_def process_wake_def set_pstate_def upd_proc_def Let_def bind_eq_Some_conv split: if_splits option.splits)

lemma key_keeps: "vfs_inv w \<Longrightarrow> keyboard_handler scancode w = Some w' \<Longrightarrow> vfs_inv w'"
  using key_outside [of scancode w w'] vfs_inv_outside by blast

lemma close_keeps:
  assumes inv: "vfs_inv w" and op: "vfs_close fs_table w fd = Some (res, w')"
  shows "vfs_inv w'"
proof (cases "0 \<le> fd \<and> fd < int VFS_MAX_FDS \<and> file_table w ! nat fd \<noteq> 0")
  case True
  then show ?thesis using kernel_fs.close_tab [OF inv _ _ _ op] by blast
next
  case False
  then have "w' = w" using op by (auto simp: vfs_close_def vfs_get_file_def split: if_splits)
  then show ?thesis using inv by simp
qed

lemma reachable_inv: "fs_reachable w \<Longrightarrow> vfs_inv w"
proof (induction rule: fs_reachable.induct)
  case (boot w)
  then show ?case by (rule boot_keeps)
next
  case (mount_shadowfs w path q res w')
  then show ?case using mount_shadowfs_keeps by blast
next
  case (mount_devfs w mount_data path res w')
  then show ?case using mount_devfs_keeps by blast
next
  case (mount_procfs w path res w')
  then show ?case using mount_procfs_keeps by blast
next
  case (register w path name rd wr res w')
  then show ?case using register_keeps by blast
next
  case (key w scancode w')
  then show ?case using key_keeps by blast
next
  case (open_path w path flags fd w')
  then show ?case using kernel_fs.open_tab by blast
next
  case (open_at w path flags fd res w')
  then show ?case using kernel_fs.open_at_tab by blast
next
  case (close w fd res w')
  then show ?case using close_keeps by blast
next
  case (read_file w fd buffer n res bs w')
  then show ?case using kernel_fs.read_tab by blast
next
  case (write_file w fd buf n res w')
  then show ?case using kernel_fs.write_tab by blast
next
  case (seek w fd offset whence res w')
  then show ?case using kernel_fs.seek_tab by blast
next
  case (readdir w fd res de w')
  then show ?case using kernel_fs.readdir_tab by blast
next
  case (mkdir w path res w')
  then show ?case using kernel_fs.mkdir_tab by blast
next
  case (delete w path res w')
  then show ?case using kernel_fs.delete_tab by blast
qed


text \<open>C6: In every state the kernel reaches from boot by mounting file systems, registering devices, key presses and
  file operations on shadowFS, devFS and procFS, in any order, the descriptor table is consistent: the open file
  objects are exactly its non-zero entries, no two descriptors share a file object, every file object has reference
  count one, and every object of the file systems lies in a live block of the kernel heap that is large enough for it.\<close>

theorem kernel_files_consistent:
  assumes "fs_reachable w"
  shows "length (file_table w) = VFS_MAX_FDS \<and> {f. files w f \<noteq> None} = set (file_table w) - {0} \<and>
    (\<forall>i < VFS_MAX_FDS. \<forall>j < VFS_MAX_FDS. file_table w ! i = file_table w ! j \<longrightarrow> file_table w ! i \<noteq> 0 \<longrightarrow> i = j) \<and>
    (\<forall>f fl. files w f = Some fl \<longrightarrow> f_ref_count fl = 1) \<and>
    kheap_inv (heap w) \<and> (\<forall>a x. objs w a = Some x \<longrightarrow> (\<exists>m. kheap_live (heap w) a = Some m \<and> unat (sizeof x) \<le> m))"
  using reachable_inv [OF assms] unfolding vfs_inv_def vfs_tab_def obj_inv_def by blast

text \<open>A machine at boot, with procFS mounted and its root directory open.\<close>

definition boot_machine :: dst where
  "boot_machine = two_process_machine\<lparr>mount_table := mount_table boot_world\<rparr>"

lemma new_at_boot:
  assumes "obj_inv w" "heap_room (heap w) (k + 104)" "5 \<le> k"
  shows "\<exists>p w'. new x w = Some (p, w') \<and> obj_inv w' \<and> heap_room (heap w') k \<and> p \<noteq> 0 \<and> objs w p = None \<and> objs w' = (objs w)(p \<mapsto> x) \<and>
    file_table w' = file_table w \<and> mount_table w' = mount_table w \<and> mount_count w' = mount_count w"
  using new_room [OF assms, of x] new_tables by metis

lemma procfs_mount_at_boot:
  "\<exists>w ino. procfs_mount ''/process'' (vfs_init boot_machine) = Some (0, w) \<and> heap_room (heap w) 9000 \<and>
     vfs_find_mount w ''/process'' = Some 0 \<and> mount_point (mount_table w ! 0) = ''/process'' \<and> sb_root (mount_table w ! 0) \<noteq> 0 \<and>
     inodes w (sb_root (mount_table w ! 0)) = Some ino \<and> i_ops ino = Some PROCFS \<and> file_table w = replicate VFS_MAX_FDS 0"
proof -
  let ?sb = "\<lparr>mount_point = ''/process'', sb_root = 0, sb_ops = Some PROCFS, sb_private = 0, sb_flags = 0\<rparr>"
  define w1 where "w1 = snd (vfs_mount (vfs_init boot_machine) ''/process'' PROCFS 0)"
  have v: "vfs_mount (vfs_init boot_machine) ''/process'' PROCFS 0 = (0, w1)"
    by (simp add: w1_def vfs_mount_def vfs_init_def)
  have t1: "heap w1 = heap boot_world" "objs w1 = Map.empty" "file_table w1 = replicate VFS_MAX_FDS 0" "mount_count w1 = 1"
    "length (mount_table w1) = VFS_MAX_MOUNTS" "mount_table w1 ! 0 = ?sb"
    by (simp_all add: w1_def vfs_mount_def vfs_init_def boot_machine_def boot_world_def two_process_machine_def two_processes_def small_machine_def ast.defs pst.defs)
  have fm: "vfs_find_mount w1 ''/process'' = Some 0" using t1(4-6) by (cases "mount_table w1") (simp_all add: vfs_find_mount_def)
  have o1: "obj_inv w1" "heap_room (heap w1) (9896 + 104)" using boot_inv t1(1,2) by (simp_all add: obj_inv_def)
  obtain a w2 where n1: "new (OInode zero_inode) w1 = Some (a, w2)" "obj_inv w2" "heap_room (heap w2) 9896" "a \<noteq> 0"
    "objs w2 = (objs w1)(a \<mapsto> OInode zero_inode)" "file_table w2 = file_table w1" "mount_table w2 = mount_table w1" "mount_count w2 = mount_count w1"
    using new_at_boot [OF o1, of "OInode zero_inode"] by auto
  have room2: "heap_room (heap w2) (9792 + 104)" using n1(3) by simp
  let ?x = "OProcInode \<lparr>pi_type = PROCFS_ROOT, pi_pid = 0, pi_name = ''process''\<rparr>"
  obtain p w3 where n2: "new ?x w2 = Some (p, w3)" "obj_inv w3" "heap_room (heap w3) 9792" "objs w2 p = None" "objs w3 = (objs w2)(p \<mapsto> ?x)"
    "file_table w3 = file_table w2" "mount_table w3 = mount_table w2" "mount_count w3 = mount_count w2"
    using new_at_boot [OF n1(2) room2, of ?x] by auto
  define ino where "ino = zero_inode\<lparr>i_type := VFS_TYPE_DIR, i_size := 0, permissions := 0x124, link_count := 1,
    i_ops := Some PROCFS, i_sb := Some 0, i_private := p\<rparr>"
  define w4 where "w4 = (put a (OInode ino) w3)\<lparr>mount_table := (mount_table w3)[0 := ?sb\<lparr>sb_root := a\<rparr>]\<rparr>"
  have "procfs_mount ''/process'' (vfs_init boot_machine) = Some (0, w4)"
    using v fm n1(1,4) n2(1) n1(7) n2(7) t1(6) by (simp add: procfs_mount_def procfs_create_inode_def w4_def ino_def)
  moreover have "heap_room (heap w4) 9000" using n2(3) unfolding w4_def by (simp add: put_def heap_room_mono)
  moreover have t4: "mount_table w4 ! 0 = ?sb\<lparr>sb_root := a\<rparr>" using t1(5) n1(7) n2(7) by (simp add: w4_def)
  moreover have "vfs_find_mount w4 ''/process'' = Some 0"
    using t1(4,5) n1(7,8) n2(7,8) by (cases "mount_table w1") (simp_all add: vfs_find_mount_def w4_def)
  moreover have "inodes w4 a = Some ino" by (simp add: w4_def access_iff)
  moreover have "file_table w4 = replicate VFS_MAX_FDS 0" using n1(6) n2(6) t1(3) by (simp add: w4_def)
  ultimately show ?thesis using n1(4) by (intro exI [of _ w4] exI [of _ ino]) (simp add: ino_def)
qed

text \<open>A reachable state in which \<open>/process\<close> is opened.\<close>

lemma process_opened:
  "\<exists>w w2 f. fs_reachable w \<and> vfs_open fs_table w ''/process'' 0 = Some (3, w2) \<and> file_table w2 = (replicate VFS_MAX_FDS 0)[3 := f] \<and> f \<noteq> 0"
proof -
  obtain w ino where m: "procfs_mount ''/process'' (vfs_init boot_machine) = Some (0, w)" "heap_room (heap w) 9000"
    "vfs_find_mount w ''/process'' = Some 0" "mount_point (mount_table w ! 0) = ''/process''" "sb_root (mount_table w ! 0) \<noteq> 0"
    "inodes w (sb_root (mount_table w ! 0)) = Some ino" "i_ops ino = Some PROCFS" "file_table w = replicate VFS_MAX_FDS 0"
    using procfs_mount_at_boot by blast
  have "kheap_inv (heap boot_machine)" "objs boot_machine = Map.empty"
    by (simp_all add: boot_machine_def two_process_machine_def two_processes_def small_machine_def ast.defs pst.defs)
  then have r: "fs_reachable w" using mount_procfs [OF boot m(1)] by blast
  have inv: "obj_inv w" using reachable_inv [OF r] by (rule vfs_inv_obj)
  let ?r = "sb_root (mount_table w ! 0)"
  let ?x = "OFile \<lparr>f_inode = ?r, f_position = 0, f_flags = 0, f_ref_count = 1, f_private = 0\<rparr>"
  have "heap_room (heap w) (8896 + 104)" using m(2) by simp
  from new_at_boot [OF inv this, of ?x] obtain f w1 where n: "new ?x w = Some (f, w1)" "f \<noteq> 0" "objs w f = None" "objs w1 = (objs w)(f \<mapsto> ?x)"
    "file_table w1 = file_table w" by auto
  have i1: "inodes w1 ?r = Some ino" using n(3,4) m(6) by (auto simp: access_iff)
  have "vfs_open_file fs_table w ''/process'' 0 = Some (f, w1)"
    using m(3-7) n(1,2) i1 by (simp add: vfs_open_file_def vfs_resolve_path_def open_inode_def call_open_def inode_op_def procfs_open_def)
  moreover have "alloc_fd_from (file_table w1) 3 = 3" using n(5) m(8) by (subst alloc_fd_from.simps) simp
  ultimately have o: "vfs_open fs_table w ''/process'' 0 = Some (3, w1\<lparr>file_table := (file_table w1)[3 := f]\<rparr>)"
    using n(2) by (simp add: vfs_open_def vfs_alloc_fd_def)
  then show ?thesis using r n(2,5) m(8) by (intro exI [of _ w] exI [of _ "w1\<lparr>file_table := (file_table w1)[3 := f]\<rparr>"] exI [of _ f]) simp
qed

theorem kernel_files_consistent_witness:
  "\<exists>w f. fs_reachable w \<and> file_table w ! 3 = f \<and> f \<noteq> 0 \<and> files w f \<noteq> None \<and> (\<forall>fl. files w f = Some fl \<longrightarrow> f_ref_count fl = 1)"
proof -
  obtain w w2 f where o: "fs_reachable w" "vfs_open fs_table w ''/process'' 0 = Some (3, w2)" "file_table w2 = (replicate VFS_MAX_FDS 0)[3 := f]" "f \<noteq> 0"
    using process_opened by blast
  have r: "fs_reachable w2" using open_path [OF o(1,2)] .
  have "f \<in> set (file_table w2)" using set_update_memI [of 3 "replicate VFS_MAX_FDS 0" f] o(3) by simp
  moreover note c = kernel_files_consistent [OF r, THEN conjunct2]
  ultimately have "files w2 f \<noteq> None" "\<forall>fl. files w2 f = Some fl \<longrightarrow> f_ref_count fl = 1"
    using o(4) c [THEN conjunct1] c [THEN conjunct2, THEN conjunct2, THEN conjunct1] by auto
  then show ?thesis using r o(3,4) by (intro exI [of _ w2] exI [of _ f]) simp
qed

lemma close_unopened: "vfs_get_file w fd = 0 \<Longrightarrow> vfs_close D w fd = Some (- 1, w)"
  by (simp add: vfs_close_def)

text \<open>C9: Descriptors are well typed. In every reachable state a descriptor that is not free refers to a file object. Opening a path gives
  \<open>-1\<close> and leaves the table alone, or gives a number from 3 to 255 that was free and now refers to a file object, with all other
  descriptors as they were. Closing an open descriptor gives 0, frees exactly this descriptor and its file object; closing anything
  else gives \<open>-1\<close> and changes nothing.\<close>

theorem descriptors_well_typed:
  assumes w: "fs_reachable w"
  shows "(vfs_get_file w fd = 0 \<or> (\<exists>fl. files w (vfs_get_file w fd) = Some fl)) \<and>
    (vfs_open fs_table w path flags = Some (r, w') \<longrightarrow>
      (if r < 0 then r = - 1 \<and> file_table w' = file_table w
       else 3 \<le> r \<and> r < int VFS_MAX_FDS \<and> vfs_get_file w r = 0 \<and> (\<exists>f fl. files w' f = Some fl \<and> file_table w' = (file_table w)[nat r := f]))) \<and>
    (vfs_close fs_table w fd = Some (c, w'') \<longrightarrow>
      (if vfs_get_file w fd = 0 then c = - 1 \<and> w'' = w
       else c = 0 \<and> file_table w'' = (file_table w)[nat fd := 0] \<and> files w'' (vfs_get_file w fd) = None))"
proof (intro conjI impI)
  have inv: "vfs_inv w" using reachable_inv [OF w] .
  then have t: "length (file_table w) = VFS_MAX_FDS" "\<And>f. files w f \<noteq> None \<longleftrightarrow> f \<in> set (file_table w) \<and> f \<noteq> 0"
    by (auto simp: vfs_inv_def vfs_tab_def)
  have g: "vfs_get_file w fd = (if 0 \<le> fd \<and> fd < int VFS_MAX_FDS then file_table w ! nat fd else 0)" for fd
    by (simp add: vfs_get_file_def)
  show "vfs_get_file w fd = 0 \<or> (\<exists>fl. files w (vfs_get_file w fd) = Some fl)"
    using t(2) [of "vfs_get_file w fd"] t(1) nth_mem [of "nat fd" "file_table w"] by (auto simp: g)
  show "if r < 0 then r = - 1 \<and> file_table w' = file_table w
       else 3 \<le> r \<and> r < int VFS_MAX_FDS \<and> vfs_get_file w r = 0 \<and> (\<exists>f fl. files w' f = Some fl \<and> file_table w' = (file_table w)[nat r := f])"
    if o: "vfs_open fs_table w path flags = Some (r, w')"
  proof -
    from kernel_fs.open_tab [OF inv o] consider "r = - 1" "file_table w' = file_table w" |
      k f where "vfs_inv w'" "r = int k" "3 \<le> k" "k < VFS_MAX_FDS" "file_table w ! k = 0" "f \<noteq> 0" "file_table w' = (file_table w)[k := f]" by blast
    then show ?thesis
    proof cases
      case 2
      then have "files w' f \<noteq> None" using t(1) set_update_memI [of k "file_table w" f] by (auto simp: vfs_inv_def vfs_tab_def)
      then show ?thesis using 2 by (auto simp: g)
    qed simp
  qed
  show "if vfs_get_file w fd = 0 then c = - 1 \<and> w'' = w
       else c = 0 \<and> file_table w'' = (file_table w)[nat fd := 0] \<and> files w'' (vfs_get_file w fd) = None"
    if o: "vfs_close fs_table w fd = Some (c, w'')"
  proof (cases "vfs_get_file w fd = 0")
    case True
    then show ?thesis using o close_unopened [OF True, of fs_table] by simp
  next
    case False
    then have r: "0 \<le> fd" "fd < int VFS_MAX_FDS" by (auto simp: g split: if_splits)
    then show ?thesis using kernel_fs.close_tab [OF inv r _ o] False by (simp add: g)
  qed
qed

theorem descriptors_well_typed_witness:
  "\<exists>w w2 f fl. fs_reachable w \<and> vfs_open fs_table w ''/process'' 0 = Some (3, w2) \<and> vfs_get_file w 3 = 0 \<and> files w2 f = Some fl \<and>
     file_table w2 = (file_table w)[3 := f]"
proof -
  obtain w w2 where o: "fs_reachable w" "vfs_open fs_table w ''/process'' 0 = Some (3, w2)" using process_opened by blast
  from descriptors_well_typed [OF o(1), of 3 "''/process''" 0 3 w2] o(2) have
    "vfs_get_file w 3 = 0 \<and> (\<exists>f fl. files w2 f = Some fl \<and> file_table w2 = (file_table w)[3 := f])" by simp
  then show ?thesis using o by blast
qed

end
