(* ===== verification/Elf.thy ===== *)
theory Elf
  imports System
begin

text \<open>
  Loading programs: \<open>src/kernel/core/elf.c\<close>, and \<open>process_spawn\<close> and \<open>process_exec\<close> of
  \<open>src/kernel/processes/process.c\<close>. An image is the list of its bytes; reading beyond it is
  undefined (\<^term>\<open>None\<close>). The fields of a header are read at the offsets of the packed structs of
  \<open>elf.h\<close>. The segments are stored through the direct map, a chunk per page, as in the code. The
  argument vector is the list of its strings without the terminating NULL entry, or \<^term>\<open>None\<close> when it is NULL.
\<close>

section \<open>Headers\<close>

definition le_value :: "u8 list \<Rightarrow> nat" where
  "le_value bs = foldr (\<lambda>b v. unat b + 256 * v) bs 0"

definition get_le :: "u8 list \<Rightarrow> nat \<Rightarrow> nat \<Rightarrow> nat option" where
  "get_le img off n = (if off + n \<le> length img then Some (le_value (take n (drop off img))) else None)"

text \<open>The fields of the header that are used after the checks.\<close>

record elf64_header =
  e_entry :: u64
  e_phoff :: u64
  e_phnum :: u16

record elf64_phdr =
  p_type :: u32
  p_flags :: u32
  p_offset :: u64
  p_vaddr :: u64
  p_filesz :: u64
  p_memsz :: u64

text \<open>In the struct \<open>e_flags\<close> has eight bytes, so \<open>e_phnum\<close> is at offset 60.\<close>

definition read_header :: "u8 list \<Rightarrow> elf64_header option" where
  "read_header img =
     do { en \<leftarrow> get_le img 24 8; po \<leftarrow> get_le img 32 8; pn \<leftarrow> get_le img 60 2;
          Some \<lparr>e_entry = of_nat en, e_phoff = of_nat po, e_phnum = of_nat pn\<rparr> }"

definition read_phdr :: "u8 list \<Rightarrow> u64 \<Rightarrow> elf64_phdr option" where
  "read_phdr img off =
     (let k = unat off in
      do { ty \<leftarrow> get_le img k 4; fl \<leftarrow> get_le img (k + 4) 4; po \<leftarrow> get_le img (k + 8) 8; va \<leftarrow> get_le img (k + 16) 8;
           fs \<leftarrow> get_le img (k + 32) 8; ms \<leftarrow> get_le img (k + 40) 8;
           Some \<lparr>p_type = of_nat ty, p_flags = of_nat fl, p_offset = of_nat po, p_vaddr = of_nat va, p_filesz = of_nat fs, p_memsz = of_nat ms\<rparr> })"

text \<open>The checks in the order of the code: the first byte that differs ends the comparison.\<close>

fun match_ident :: "u8 list \<Rightarrow> u8 list \<Rightarrow> bool option" where
  "match_ident img [] = Some True"
| "match_ident [] (m # ms) = None"
| "match_ident (b # bs) (m # ms) = (if b = m then match_ident bs ms else Some False)"

definition elf_ok :: "u8 list \<Rightarrow> bool option" where
  "elf_ok img =
     do { ident \<leftarrow> match_ident img [0x7F, 0x45, 0x4C, 0x46, 2];
          if \<not> ident then Some False
          else do { ma \<leftarrow> get_le img 18 2;
                    if ma \<noteq> 0x3E then Some False else do { ty \<leftarrow> get_le img 16 2; Some (ty = 2) } } }"

definition elf_get_entry :: "u8 list \<Rightarrow> u64 option" where
  "elf_get_entry img = do { ok \<leftarrow> elf_ok img; if ok then do { h \<leftarrow> read_header img; Some (e_entry h) } else Some 0 }"

section \<open>Segments\<close>

abbreviation PT_LOAD :: u32 where "PT_LOAD \<equiv> 1"
abbreviation PF_W :: u32 where "PF_W \<equiv> 2"

text \<open>Stores through the direct map from a byte of a page on.\<close>

definition store_page :: "u64 \<Rightarrow> u64 \<Rightarrow> u8 list \<Rightarrow> 'a sst_scheme \<Rightarrow> 'a sst_scheme" where
  "store_page page off bs w =
     w\<lparr>page_mem := (page_mem w)(page := fold (\<lambda>j pg. pg(ucast (off + of_nat j) := bs ! j)) [0..<length bs] (page_mem w page))\<rparr>"

definition map_zero_page :: "u64 \<Rightarrow> u64 \<Rightarrow> u64 \<Rightarrow> 'a ast_scheme \<Rightarrow> 'a ast_scheme option" where
  "map_zero_page dir flags va w =
     do { (physical, pm) \<leftarrow> pmm_alloc (pages w);
          w1 \<leftarrow> map_page_in (w\<lparr>pages := pm\<rparr>) dir va physical flags;
          Some (store_page (physical_to_virtual physical) 0 (replicate 4096 0) w1) }"

text \<open>Both bounds are page-aligned, so the loop runs once per page between them.\<close>

definition map_range :: "u64 \<Rightarrow> u64 \<Rightarrow> u64 \<Rightarrow> u64 \<Rightarrow> 'a ast_scheme \<Rightarrow> 'a ast_scheme option" where
  "map_range dir flags va vend w =
     loop_over [0..<(unat vend - unat va) div 4096] (\<lambda>i. map_zero_page dir flags (va + of_nat i * PAGE_SIZE)) w"

lemma offset_less: "va AND 0xFFF < (4096 :: u64)"
proof -
  have "va AND 0xFFF \<le> 0xFFF" by (rule word_and_le1)
  then show ?thesis by (rule le_less_trans) simp
qed

lemma chunk_less:
  fixes n va :: u64
  assumes "n \<noteq> 0"
  shows "n - min (PAGE_SIZE - (va AND 0xFFF)) n < n"
proof -
  have "0 < PAGE_SIZE - (va AND 0xFFF)" using offset_less [of va] by (simp add: word_gt_0)
  then have "0 < min (PAGE_SIZE - (va AND 0xFFF)) n" using assms by (simp add: word_gt_0 min_def)
  moreover have "min (PAGE_SIZE - (va AND 0xFFF)) n \<le> n" by simp
  ultimately show ?thesis by (simp add: word_less_nat_alt word_le_nat_alt unat_sub)
qed

function copy_segment :: "u8 list \<Rightarrow> u64 \<Rightarrow> u64 \<Rightarrow> u64 \<Rightarrow> u64 \<Rightarrow> 'a ast_scheme \<Rightarrow> 'a ast_scheme option" where
  "copy_segment img dir src copy_va remaining w =
     (if remaining = 0 then Some w
      else do {
        physical \<leftarrow> get_physical_in w dir (page_of copy_va);
        let to_copy = min (PAGE_SIZE - (copy_va AND 0xFFF)) remaining;
        if unat src + unat to_copy \<le> length img
        then copy_segment img dir (src + to_copy) (copy_va + to_copy) (remaining - to_copy)
               (store_page (physical_to_virtual physical) (copy_va AND 0xFFF) (take (unat to_copy) (drop (unat src) img)) w)
        else None })"
  by pat_completeness auto
termination
proof (relation "measure (\<lambda>(img, dir, src, va, remaining, w). unat remaining)")
  fix img :: "u8 list" and dir src va remaining :: u64 and w :: "'a ast_scheme" and physical to_copy
  assume "remaining \<noteq> 0" "to_copy = min (PAGE_SIZE - (va AND 0xFFF)) remaining"
  then have "remaining - to_copy < remaining" using chunk_less by blast
  then show "((img, dir, src + to_copy, va + to_copy, remaining - to_copy,
      store_page (physical_to_virtual physical) (va AND 0xFFF) (take (unat to_copy) (drop (unat src) img)) w), img, dir, src, va, remaining, w)
    \<in> measure (\<lambda>(img, dir, src, va, remaining, w). unat remaining)" by (simp add: word_less_nat_alt)
qed simp

declare copy_segment.simps [simp del]

text \<open>The rest of the segment is cleared in the same way; \<open>count\<close> is \<open>bss_end - bss_va\<close>.\<close>

function zero_segment :: "u64 \<Rightarrow> u64 \<Rightarrow> u64 \<Rightarrow> 'a ast_scheme \<Rightarrow> 'a ast_scheme option" where
  "zero_segment dir bss_va count w =
     (if count = 0 then Some w
      else do {
        physical \<leftarrow> get_physical_in w dir (page_of bss_va);
        let to_zero = min (PAGE_SIZE - (bss_va AND 0xFFF)) count;
        zero_segment dir (bss_va + to_zero) (count - to_zero)
          (store_page (physical_to_virtual physical) (bss_va AND 0xFFF) (replicate (unat to_zero) 0) w) })"
  by pat_completeness auto
termination
proof (relation "measure (\<lambda>(dir, va, count, w). unat count)")
  fix dir va count :: u64 and w :: "'a ast_scheme" and physical to_zero
  assume "count \<noteq> 0" "to_zero = min (PAGE_SIZE - (va AND 0xFFF)) count"
  then have "count - to_zero < count" using chunk_less by blast
  then show "((dir, va + to_zero, count - to_zero, store_page (physical_to_virtual physical) (va AND 0xFFF) (replicate (unat to_zero) 0) w), dir, va, count, w)
    \<in> measure (\<lambda>(dir, va, count, w). unat count)" by (simp add: word_less_nat_alt)
qed simp

declare zero_segment.simps [simp del]

definition load_segment :: "u8 list \<Rightarrow> u64 \<Rightarrow> elf64_phdr \<Rightarrow> u64 \<times> 'a ast_scheme \<Rightarrow> (u64 \<times> 'a ast_scheme) option" where
  "load_segment img dir ph = (\<lambda>(hs, w).
     if p_type ph \<noteq> PT_LOAD then Some (hs, w)
     else let flags = (if p_flags ph AND PF_W \<noteq> 0 then 7 else 5);
              virtual_address = page_of (p_vaddr ph);
              virtual_address_end = page_of (p_vaddr ph + p_memsz ph + 0xFFF);
              hs1 = (if virtual_address_end > hs then virtual_address_end else hs);
              bss_va = p_vaddr ph + p_filesz ph;
              bss_end = p_vaddr ph + p_memsz ph in
       do { w1 \<leftarrow> map_range dir flags virtual_address virtual_address_end w;
            w2 \<leftarrow> copy_segment img dir (p_offset ph) (p_vaddr ph) (p_filesz ph) w1;
            w3 \<leftarrow> (if bss_va < bss_end then zero_segment dir bss_va (bss_end - bss_va) w2 else Some w2);
            Some (hs1, w3) })"

definition load_segments :: "u8 list \<Rightarrow> elf64_header \<Rightarrow> u64 \<Rightarrow> 'a ast_scheme \<Rightarrow> (u64 \<times> 'a ast_scheme) option" where
  "load_segments img h dir w =
     loop_over [0..<unat (e_phnum h)]
       (\<lambda>i s. do { ph \<leftarrow> read_phdr img (e_phoff h + of_nat i * 56); load_segment img dir ph s }) (0, w)"

section \<open>The argument vector\<close>

abbreviation MAX_ARGV_BLOCK_SIZE :: u64 where "MAX_ARGV_BLOCK_SIZE \<equiv> 2048"
abbreviation MAX_ARGV_COUNT :: nat where "MAX_ARGV_COUNT \<equiv> 32"

text \<open>The strings, last one first, from the top of the page downwards; the addresses of the strings that
  fitted, the first string first.\<close>

fun place_strings :: "u64 \<Rightarrow> u64 \<Rightarrow> u8 list list \<Rightarrow> u64 \<Rightarrow> u64 list \<Rightarrow> 'a sst_scheme \<Rightarrow> (u64 \<times> u64 list) option \<times> 'a sst_scheme" where
  "place_strings page page_top [] cursor addrs w = (Some (cursor, addrs), w)"
| "place_strings page page_top (s # ss) cursor addrs w =
     (let len = of_nat (length s + 1) in
      if page_top - (cursor - len) > MAX_ARGV_BLOCK_SIZE then (None, w)
      else let c = cursor - len in place_strings page page_top ss c (c # addrs) (store_page page (c AND 0xFFF) (s @ [0]) w))"

definition place_pointers :: "u64 \<Rightarrow> u64 \<Rightarrow> u64 list \<Rightarrow> 'a sst_scheme \<Rightarrow> 'a sst_scheme" where
  "place_pointers page cursor addrs w =
     fold (\<lambda>i w. set_mem64 (page + (cursor AND 0xFFF) + 8 * of_nat i) ((addrs @ [0]) ! i) w) [0..<length addrs + 1] w"

definition build_argv_stack :: "u64 \<Rightarrow> u64 \<Rightarrow> u8 list list option \<Rightarrow> 'a ast_scheme \<Rightarrow> ((nat \<times> u64) option \<times> 'a ast_scheme) option" where
  "build_argv_stack dir stack_virtual argv w =
     (if argv = None \<or> argv = Some [] then Some (None, w)
      else if length (the argv) \<ge> MAX_ARGV_COUNT then Some (None, w)
      else do {
        physical \<leftarrow> get_physical_in w dir stack_virtual;
        let page_top = stack_virtual + PAGE_SIZE;
        let page = physical_to_virtual physical;
        case place_strings page page_top (rev (the argv)) page_top [] w of
          (None, w1) \<Rightarrow> Some (None, w1)
        | (Some (cursor, addrs), w1) \<Rightarrow>
            let cursor1 = cursor AND NOT 7;
                bytes = of_nat (length (the argv) + 1) * 8 in
            if page_top - (cursor1 - bytes) > MAX_ARGV_BLOCK_SIZE then Some (None, w1)
            else Some (Some (length (the argv), cursor1 - bytes), place_pointers page (cursor1 - bytes) addrs w1) })"

section \<open>Loading\<close>

abbreviation USER_STACK :: u64 where "USER_STACK \<equiv> 0x00007FFFFFFFE000"

text \<open>The arguments on the user stack, the frame on the kernel stack and the state of the processor from which the program starts.\<close>

definition enter_program :: "u64 \<Rightarrow> process \<Rightarrow> u8 list list option \<Rightarrow> u64 \<Rightarrow> u64 \<Rightarrow> 'a pst_scheme \<Rightarrow> 'a pst_scheme option" where
  "enter_program proc p argv heap_from entry w =
     do { (args, w1) \<leftarrow> build_argv_stack (page_dir p) USER_STACK argv w;
          let (argc, user_stack_top, argv_user_addr) =
            (case args of None \<Rightarrow> (0, USER_STACK + PAGE_SIZE - 8, 0) | Some (n, a) \<Rightarrow> (n, a, a));
          let w2 = push_frame (stack_top p) user_stack_top entry w1;
          let sp = stack_top p - 32;
          upd_proc proc (\<lambda>p. p\<lparr>stack_top := sp,
             cpu := (cpu p)\<lparr>c_rsp := sp, c_rip := sp, c_rflags := 0x200, c_cs := 0x2B, c_ds := 0x10, c_ss := 0x10,
                      c_rdi := of_nat argc, c_rsi := argv_user_addr\<rparr>,
             is_user := 1, heap_base := heap_from, heap_end := heap_from\<rparr>) w2 }"

definition elf_load :: "u8 list \<Rightarrow> u64 \<Rightarrow> u8 list list option \<Rightarrow> 'a pst_scheme \<Rightarrow> (u64 \<times> 'a pst_scheme) option" where
  "elf_load img proc argv w =
     do { ok \<leftarrow> elf_ok img;
          if \<not> ok then Some (0, w)
          else do {
            h \<leftarrow> read_header img;
            p \<leftarrow> procs w proc;
            (heap_start, w1) \<leftarrow> load_segments img h (page_dir p) w;
            w2 \<leftarrow> map_zero_page (page_dir p) 7 USER_STACK w1;
            w3 \<leftarrow> enter_program proc p argv heap_start (e_entry h) w2;
            Some (e_entry h, w3) } }"

text \<open>The staging buffer on the kernel heap; the file has to be read in one call.\<close>

definition elf_load_from_path :: "string \<Rightarrow> u64 \<Rightarrow> u8 list list option \<Rightarrow> 'a dst_scheme \<Rightarrow> (u64 \<times> 'a dst_scheme) option" where
  "elf_load_from_path path proc argv w =
     do { (fd, w1) \<leftarrow> vfs_open fs_table w path O_RDONLY;
          if fd < 0 then Some (0, w1)
          else do {
            size \<leftarrow> (let f = vfs_get_file w1 fd in
               if f = 0 then Some 0
               else do { fl \<leftarrow> files w1 f;
                         if f_inode fl = 0 then Some 0 else do { ino \<leftarrow> inodes w1 (f_inode fl); Some (i_size ino) } });
            if size = 0 then do { (_, w2) \<leftarrow> vfs_close fs_table w1 fd; Some (0, w2) }
            else do {
              (buffer, h) \<leftarrow> kmalloc (heap w1) (ucast size);
              let w2 = w1\<lparr>heap := h\<rparr>;
              if buffer = 0 then do { (_, w3) \<leftarrow> vfs_close fs_table w2 fd; Some (0, w3) }
              else do {
                (bytes_read, bs, w3) \<leftarrow> vfs_read fs_table w2 fd True size;
                (_, w4) \<leftarrow> vfs_close fs_table w3 fd;
                if bytes_read < 0 \<or> bytes_read \<noteq> uint size
                then do { h1 \<leftarrow> kfree (heap w4) buffer; Some (0, w4\<lparr>heap := h1\<rparr>) }
                else do {
                  (entry, w5) \<leftarrow> elf_load bs proc argv w4;
                  h1 \<leftarrow> kfree (heap w5) buffer;
                  Some (entry, w5\<lparr>heap := h1\<rparr>) } } } } }"

definition process_spawn :: "string option \<Rightarrow> u8 list list option \<Rightarrow> 'a dst_scheme \<Rightarrow> (u64 \<times> 'a dst_scheme) option" where
  "process_spawn path argv w =
     (case path of None \<Rightarrow> Some (- 1, w)
      | Some pth \<Rightarrow>
         do { (proc, w1) \<leftarrow> process_create path 0x400000 0 w;
              if proc = 0 then Some (- 1, w1)
              else do {
                (entry, w2) \<leftarrow> elf_load_from_path pth proc argv w1;
                p \<leftarrow> procs w2 proc;
                if entry = 0
                then do {
                  let w3 = free_physical (virtual_to_physical (stack p)) (paging_free_directory (page_dir p) w2);
                  let w4 = (case find_slot (\<lambda>x. x = proc) (process_table w3) 0 of None \<Rightarrow> w3
                            | Some i \<Rightarrow> w3\<lparr>process_table := (process_table w3)[i := 0]\<rparr>);
                  w5 \<leftarrow> free_proc proc w4;
                  Some (- 1, w5) }
                else do { w3 \<leftarrow> scheduler_add proc w2; Some (pid p, w3) } } })"

text \<open>The result is \<open>-1\<close> when the program cannot be loaded; on success the function does not return and the registers
  are those of the new program.\<close>

definition process_exec :: "string option \<Rightarrow> u8 list list option \<Rightarrow> 'a dst_scheme \<Rightarrow> (int option \<times> 'a dst_scheme) option" where
  "process_exec path argv w =
     (case path of None \<Rightarrow> None
      | Some pth \<Rightarrow>
         if current_process w = 0 then None
         else do {
           let cur = current_process w;
           old \<leftarrow> procs w cur;
           (new_kstack_physical, pm) \<leftarrow> pmm_alloc (pages w);
           let new_kstack = physical_to_virtual new_kstack_physical;
           (new_dir, w1) \<leftarrow> paging_clone_directory (w\<lparr>pages := pm\<rparr>);
           if new_dir = 0 then None
           else do {
             w2 \<leftarrow> upd_proc cur (\<lambda>p. p\<lparr>stack := new_kstack, stack_top := new_kstack + PAGE_SIZE - 8, page_dir := new_dir\<rparr>) w1;
             (entry, w3) \<leftarrow> elf_load_from_path pth cur argv w2;
             if entry = 0
             then do {
               w4 \<leftarrow> upd_proc cur (\<lambda>p. p\<lparr>stack := stack old, stack_top := stack_top old, page_dir := page_dir old\<rparr>) w3;
               Some (Some (- 1), free_physical new_kstack_physical (paging_free_directory new_dir w4)) }
             else do {
               p \<leftarrow> procs w3 cur;
               let w4 = paging_switch_directory (page_dir p) (w3\<lparr>tss_rsp0 := stack_top p\<rparr>);
               let w5 = free_physical (virtual_to_physical (stack old)) (paging_free_directory (page_dir old) w4);
               w6 \<leftarrow> enter_ring3 cur w5;
               Some (None, w6) } } })"

end
