(* ===== verification/Syscall.thy ===== *)
theory Syscall
  imports Elf KString
begin

text \<open>
  System calls, \<open>src/kernel/processes/syscall.c\<close>. A handler gets the saved registers of the caller and
  the memory \<open>m\<close> as the address space of the caller shows it; what it stores into that memory is part of
  the result. A call that gives the processor away either goes round again when the caller runs next
  (\<open>Again\<close>, the loop of \<open>sys_wait\<close>) or does not come back (\<open>Gone\<close>). Strings and the argument vector are read
  up to their terminators.
\<close>

record regs =
  r_rax :: u64
  r_rbx :: u64
  r_rcx :: u64
  r_rdx :: u64
  r_rsi :: u64
  r_rdi :: u64
  r_rbp :: u64
  r_rip :: u64
  r_rsp :: u64
  r_rflags :: u64

datatype stored = Nothing | Bytes "u8 list" | Entry dentry

datatype flow = Returns | Again | Gone

type_synonym 'w sys = "(flow \<times> regs \<times> stored \<times> 'w) option"

definition ret :: "u64 \<Rightarrow> regs \<Rightarrow> 'w \<Rightarrow> 'w sys" where
  "ret v rg w = Some (Returns, rg\<lparr>r_rax := v\<rparr>, Nothing, w)"

text \<open>The C conversion to \<open>int\<close>.\<close>

definition to_int :: "u64 \<Rightarrow> int" where
  "to_int x = sint (ucast x :: u32)"

section \<open>Arguments in the memory of the caller\<close>

definition user_bytes :: "mem \<Rightarrow> u64 \<Rightarrow> nat \<Rightarrow> u8 list" where
  "user_bytes m a n = map (\<lambda>i. m (a + of_nat i)) [0..<n]"

partial_function (option) user_string :: "mem \<Rightarrow> u64 \<Rightarrow> u8 list option" where
  "user_string m a = (if m a = 0 then Some [] else do { s \<leftarrow> user_string m (a + 1); Some (m a # s) })"

definition user_word :: "mem \<Rightarrow> u64 \<Rightarrow> u64" where
  "user_word m a = of_nat (le_value (user_bytes m a 8))"

partial_function (option) user_argv :: "mem \<Rightarrow> u64 \<Rightarrow> u8 list list option" where
  "user_argv m a =
     (let p = user_word m a in
      if p = 0 then Some [] else do { s \<leftarrow> user_string m p; ss \<leftarrow> user_argv m (a + 8); Some (s # ss) })"

definition chars_of :: "u8 list \<Rightarrow> string" where
  "chars_of bs = map (\<lambda>b. char_of (unat b)) bs"

section \<open>Processes\<close>

text \<open>The search for the waiting parent, and its waking.\<close>

definition wake_parent :: "u64 \<Rightarrow> 'a pst_scheme \<Rightarrow> 'a pst_scheme option" where
  "wake_parent parent w =
     (if parent > 0
      then do {
        found \<leftarrow> find_proc (\<lambda>p. pid p = parent \<and> pstate p = PROCESS_BLOCKED) (procs w) (process_table w) 0;
        case found of None \<Rightarrow> Some w | Some (i, x) \<Rightarrow> process_wake x w }
      else Some w)"

definition sys_exit :: "regs \<Rightarrow> 'a pst_scheme \<Rightarrow> 'a pst_scheme sys" where
  "sys_exit rg w =
     (if current_process w = 0 then None
      else do {
        w1 \<leftarrow> upd_proc (current_process w) (\<lambda>p. p\<lparr>exit_code := to_int (r_rdi rg)\<rparr>) w;
        w2 \<leftarrow> process_exit (current_process w1) w1;
        p \<leftarrow> procs w2 (current_process w2);
        w3 \<leftarrow> wake_parent (parent_pid p) w2;
        w4 \<leftarrow> scheduler_yield w3;
        Some (Gone, rg, Nothing, w4) })"

definition sys_getpid :: "regs \<Rightarrow> 'a pst_scheme \<Rightarrow> 'a pst_scheme sys" where
  "sys_getpid rg w =
     (if current_process w \<noteq> 0 then do { p \<leftarrow> procs w (current_process w); ret (pid p) rg w } else ret 0 rg w)"

definition sys_yield :: "regs \<Rightarrow> 'a pst_scheme \<Rightarrow> 'a pst_scheme sys" where
  "sys_yield rg w = do { w1 \<leftarrow> scheduler_yield w; Some (Returns, rg, Nothing, w1) }"

definition sys_fork :: "u64 \<Rightarrow> regs \<Rightarrow> 'a pst_scheme \<Rightarrow> 'a pst_scheme sys" where
  "sys_fork iret_to_usermode rg w =
     (if current_process w = 0 then None
      else do {
        w1 \<leftarrow> upd_proc (current_process w) (\<lambda>p. p\<lparr>cpu := (cpu p)\<lparr>c_rip := r_rip rg, c_rsp := r_rsp rg, c_rflags := r_rflags rg,
                 c_rax := r_rax rg, c_rbx := r_rbx rg, c_rcx := r_rcx rg, c_rdx := r_rdx rg, c_rsi := r_rsi rg, c_rdi := r_rdi rg, c_rbp := r_rbp rg\<rparr>\<rparr>) w;
        (child_pid, w2) \<leftarrow> process_fork iret_to_usermode w1;
        ret (ucast (ucast child_pid :: u32)) rg w2 })"

text \<open>One round of the loop.\<close>

definition sys_wait :: "regs \<Rightarrow> 'a pst_scheme \<Rightarrow> 'a pst_scheme sys" where
  "sys_wait rg w =
     do { me \<leftarrow> procs w (current_process w);
          found \<leftarrow> find_proc (\<lambda>p. parent_pid p = pid me \<and> pstate p = PROCESS_DEAD) (procs w) (process_table w) 0;
          case found of
            Some (i, child) \<Rightarrow> do { c \<leftarrow> procs w child; w1 \<leftarrow> reap i child w; ret (of_int (exit_code c)) rg w1 }
          | None \<Rightarrow>
              do { has_children \<leftarrow> find_proc (\<lambda>p. parent_pid p = pid me) (procs w) (process_table w) 0;
                   if has_children = None then ret (- 1) rg w
                   else do { w1 \<leftarrow> process_block (current_process w) w; w2 \<leftarrow> scheduler_yield w1; Some (Again, rg, Nothing, w2) } } }"

definition sys_exec :: "mem \<Rightarrow> regs \<Rightarrow> 'a dst_scheme \<Rightarrow> 'a dst_scheme sys" where
  "sys_exec m rg w =
     (if r_rdi rg = 0 then ret (- 1) rg w
      else do {
        path \<leftarrow> user_string m (r_rdi rg);
        argv \<leftarrow> (if r_rsi rg = 0 then Some None else do { a \<leftarrow> user_argv m (r_rsi rg); Some (Some a) });
        (r, w1) \<leftarrow> process_exec (Some (chars_of path)) argv w;
        case r of None \<Rightarrow> Some (Gone, rg, Nothing, w1) | Some _ \<Rightarrow> ret (- 1) rg w1 })"

text \<open>The tick to wake at is a 32-bit sum and wraps around with the tick counter.\<close>

definition sleep_ticks :: "u64 \<Rightarrow> u32" where
  "sleep_ticks ms = (let t = ucast ((ms * 100 + 999) div 1000) in if t = 0 then 1 else t)"

definition sys_sleep :: "regs \<Rightarrow> 'a pst_scheme \<Rightarrow> 'a pst_scheme sys" where
  "sys_sleep rg w =
     (if current_process w = 0 then Some (Returns, rg, Nothing, w)
      else do {
        w1 \<leftarrow> upd_proc (current_process w) (\<lambda>p. p\<lparr>wake_at_tick := ticks w + sleep_ticks (r_rdi rg), pstate := PROCESS_SLEEPING\<rparr>) w;
        w2 \<leftarrow> scheduler_yield w1;
        Some (Returns, rg, Nothing, w2) })"

section \<open>Files\<close>

definition sys_write :: "mem \<Rightarrow> regs \<Rightarrow> 'a dst_scheme \<Rightarrow> 'a dst_scheme sys" where
  "sys_write m rg w =
     (let count = (ucast (r_rdx rg) :: u32) in
      if r_rsi rg = 0 then ret (- 1) rg w
      else if count > 4096 then ret (- 1) rg w
      else do {
        (n, w1) \<leftarrow> vfs_write fs_table w (to_int (r_rdi rg)) (Some (user_bytes m (r_rsi rg) (unat count))) count;
        ret (of_int n) rg w1 })"

definition sys_read :: "regs \<Rightarrow> 'a dst_scheme \<Rightarrow> 'a dst_scheme sys" where
  "sys_read rg w =
     (let count = (ucast (r_rdx rg) :: u32) in
      if r_rsi rg = 0 then ret (- 1) rg w
      else if count > 4096 then ret (- 1) rg w
      else do {
        (n, bs, w1) \<leftarrow> vfs_read fs_table w (to_int (r_rdi rg)) True count;
        Some (Returns, rg\<lparr>r_rax := of_int n\<rparr>, Bytes bs, w1) })"

definition sys_open :: "mem \<Rightarrow> regs \<Rightarrow> 'a dst_scheme \<Rightarrow> 'a dst_scheme sys" where
  "sys_open m rg w =
     (if r_rdi rg = 0 then ret (- 1) rg w
      else do {
        path \<leftarrow> user_string m (r_rdi rg);
        (fd, w1) \<leftarrow> vfs_open fs_table w (chars_of path) (ucast (r_rsi rg));
        ret (of_int fd) rg w1 })"

definition sys_close :: "regs \<Rightarrow> 'a dst_scheme \<Rightarrow> 'a dst_scheme sys" where
  "sys_close rg w = do { (r, w1) \<leftarrow> vfs_close fs_table w (to_int (r_rdi rg)); ret (of_int r) rg w1 }"

definition sys_seek :: "regs \<Rightarrow> 'a dst_scheme \<Rightarrow> 'a dst_scheme sys" where
  "sys_seek rg w =
     do { (r, w1) \<leftarrow> vfs_seek w (to_int (r_rdi rg)) (ucast (r_rsi rg)) (to_int (r_rdx rg)); ret (of_int r) rg w1 }"

definition sys_mkdir :: "mem \<Rightarrow> regs \<Rightarrow> 'a dst_scheme \<Rightarrow> 'a dst_scheme sys" where
  "sys_mkdir m rg w =
     (if r_rdi rg = 0 then ret (- 1) rg w
      else do { path \<leftarrow> user_string m (r_rdi rg); (r, w1) \<leftarrow> vfs_mkdir fs_table w (chars_of path); ret (of_int r) rg w1 })"

definition sys_readdir :: "regs \<Rightarrow> 'a dst_scheme \<Rightarrow> 'a dst_scheme sys" where
  "sys_readdir rg w =
     (if r_rsi rg = 0 then ret (- 1) rg w
      else do {
        (r, de, w1) \<leftarrow> vfs_readdir fs_table w (to_int (r_rdi rg));
        Some (Returns, rg\<lparr>r_rax := of_int r\<rparr>, (case de of None \<Rightarrow> Nothing | Some d \<Rightarrow> Entry d), w1) })"

definition sys_delete :: "mem \<Rightarrow> regs \<Rightarrow> 'a dst_scheme \<Rightarrow> 'a dst_scheme sys" where
  "sys_delete m rg w =
     (if r_rdi rg = 0 then ret (- 1) rg w
      else do { path \<leftarrow> user_string m (r_rdi rg); (r, w1) \<leftarrow> vfs_delete fs_table w (chars_of path); ret (of_int r) rg w1 })"

section \<open>The heap of a process\<close>

definition sys_heap_grow :: "regs \<Rightarrow> 'a pst_scheme \<Rightarrow> 'a pst_scheme sys" where
  "sys_heap_grow rg w =
     (if current_process w = 0 then ret (- 1) rg w
      else do {
        p \<leftarrow> procs w (current_process w);
        let increment = r_rdi rg;
        let old_end = heap_end p;
        if increment = 0 then ret old_end rg w
        else if sint increment < 0 then ret (- 1) rg w
        else do {
          let new_end = old_end + increment;
          w1 \<leftarrow> map_range (page_dir p) 7 (page_of (old_end + 0xFFF)) (page_of (new_end + 0xFFF)) w;
          w2 \<leftarrow> upd_proc (current_process w) (\<lambda>p. p\<lparr>heap_end := new_end\<rparr>) w1;
          ret old_end rg w2 } })"

section \<open>Dispatch\<close>

definition syscall_table :: "u64 \<Rightarrow> mem \<Rightarrow> (regs \<Rightarrow> 'a dst_scheme \<Rightarrow> 'a dst_scheme sys) list" where
  "syscall_table iret_to_usermode m =
     [sys_exit, sys_write m, sys_read, sys_getpid, sys_yield, sys_fork iret_to_usermode, sys_wait, sys_exec m,
      sys_open m, sys_close, sys_seek, sys_mkdir m, sys_readdir, sys_delete m, sys_heap_grow, sys_sleep]"

definition syscall_handler :: "u64 \<Rightarrow> mem \<Rightarrow> regs \<Rightarrow> 'a dst_scheme \<Rightarrow> 'a dst_scheme sys" where
  "syscall_handler iret_to_usermode m rg w =
     do { w1 \<leftarrow> (if current_process w \<noteq> 0
                 then upd_proc (current_process w) (\<lambda>p. p\<lparr>user_esp := r_rsp rg, user_eip := r_rip rg\<rparr>) w else Some w);
          let syscall_num = (ucast (r_rax rg) :: u32);
          if unat syscall_num \<ge> 16 then ret (- 1) rg w1
          else (syscall_table iret_to_usermode m ! unat syscall_num) rg w1 }"

section \<open>A waiting parent\<close>

lemma find_proc_Some: "find_proc P m xs k = Some (Some (i, y)) \<Longrightarrow> y \<in> set xs \<and> y \<noteq> 0 \<and> (\<exists>p. m y = Some p \<and> P p)"
  by (induction xs arbitrary: k) (auto split: if_splits option.splits)

lemma find_proc_unique:
  assumes "q \<in> set xs" "q \<noteq> 0" "m q = Some p" "P p" "\<forall>y \<in> set xs. y \<noteq> 0 \<longrightarrow> m y \<noteq> None"
    and "\<forall>y \<in> set xs. \<forall>r. m y = Some r \<longrightarrow> P r \<longrightarrow> y = q"
  shows "\<exists>i. find_proc P m xs k = Some (Some (i, q))"
proof -
  obtain i y where h: "find_proc P m xs k = Some (Some (i, y))" using find_proc_hit [of q xs m p P k] assms(1-5) by blast
  then have "y = q" using find_proc_Some [OF h] assms(6) by blast
  then show ?thesis using h by blast
qed

lemma exit_marks_dead:
  assumes inv: "sched_inv w xs" and c: "current_process w = c" "procs w c = Some x"
  shows "\<exists>w1 w2. upd_proc c (\<lambda>p. p\<lparr>exit_code := n\<rparr>) w = Some w1 \<and> current_process w1 = c \<and> process_exit c w1 = Some w2 \<and> sched_inv w2 xs \<and>
    w2 = w\<lparr>procs := (procs w)(c \<mapsto> x\<lparr>exit_code := n, pstate := PROCESS_DEAD\<rparr>)\<rparr>"
proof -
  let ?w1 = "w\<lparr>procs := (procs w)(c \<mapsto> x\<lparr>exit_code := n\<rparr>)\<rparr>"
  have i1: "sched_inv ?w1 xs" by (intro same_links_inv [OF inv]) (use inv c in \<open>auto simp: sched_inv_def\<close>)
  have c0: "c \<noteq> 0" using inv c(1) by (auto simp: sched_inv_def run_queue_def)
  have "procs ?w1 c = Some (x\<lparr>exit_code := n\<rparr>)" by simp
  from set_pstate_inv [OF i1 this, of PROCESS_DEAD] show ?thesis
    using c c0 by (intro exI [of _ ?w1] exI [of _ "w\<lparr>procs := (procs w)(c \<mapsto> x\<lparr>exit_code := n, pstate := PROCESS_DEAD\<rparr>)\<rparr>"]) (simp add: upd_proc_def process_exit_def)
qed

lemma yield_to_other:
  assumes inv: "sched_inv w xs" and q: "q \<in> set xs" "q \<noteq> current_process w" "state_of (procs w) q = Some PROCESS_READY"
    and d: "state_of (procs w) (current_process w) = Some PROCESS_DEAD"
  shows "\<exists>w'. scheduler_yield w = Some w' \<and> sched_inv w' xs \<and> state_of (procs w') (current_process w) = Some PROCESS_DEAD \<and>
    (\<exists>k w''. k < length xs \<and> yields k w' = Some w'' \<and> current_process w'' = q \<and> state_of (procs w'') q = Some PROCESS_RUNNING)"
proof -
  let ?c = "current_process w"
  obtain as' bs where xs: "xs = as' @ ?c # bs" using inv by (metis sched_inv_def split_list)
  let ?r = "next_ready (woken w) ?c (bs @ as')"
  obtain w' where w': "scheduler_yield w = Some w'" "sched_inv w' xs" "current_process w' = ?r" "\<forall>q. state_of (procs w') q = switched (woken w) ?c ?r q"
    using yield_effect [of w as' ?c bs] inv xs by blast
  have wq: "state_of (woken w) q = Some PROCESS_READY" "state_of (woken w) ?c = Some PROCESS_DEAD"
    using q(3) d by (cases "procs w q"; cases "procs w ?c"; auto simp: woken_of_def)+
  have rc: "?r \<noteq> ?c" "state_of (woken w) ?r = Some PROCESS_READY"
  proof -
    have "q \<in> set (bs @ as')" using q(1,2) xs by auto
    then obtain r where r: "find (\<lambda>q. state_of (woken w) q = Some PROCESS_READY) (bs @ as') = Some r"
      using wq(1) by (meson find_None_iff not_Some_eq)
    then have "?r = r" unfolding next_ready_def by simp
    moreover have "state_of (woken w) r = Some PROCESS_READY" using r [unfolded find_Some_iff] by blast
    ultimately show "state_of (woken w) ?r = Some PROCESS_READY" by simp
    then show "?r \<noteq> ?c" using wq(2) by auto
  qed
  have dead: "state_of (procs w') ?c = Some PROCESS_DEAD" using w'(4) rc(1) wq(2) by (auto simp: switched_def)
  have "\<exists>k w''. k < length xs \<and> yields k w' = Some w'' \<and> current_process w'' = q \<and> state_of (procs w'') q = Some PROCESS_RUNNING"
  proof (cases "q = ?r")
    case True
    then have "state_of (procs w') q = Some PROCESS_RUNNING" using w'(4) rc(1) by (simp add: switched_def)
    then show ?thesis using True w'(3) xs by (intro exI [of _ 0] exI [of _ w']) simp
  next
    case False
    then have "state_of (woken w') q = Some PROCESS_READY" using ready_stays [OF wq(1) w'(4)] by blast
    then show ?thesis using fair_round [OF w'(2) q(1)] False w'(3) by metis
  qed
  then show ?thesis using w'(1,2) dead by blast
qed

text \<open>C8: A parent that waits for its child is not forgotten: when a process exits whose parent is blocked, the exit
  marks the process dead, makes the parent ready again before it gives the processor away, and the parent is running
  after fewer yields than there are processes in the run queue.\<close>

theorem sys_exit_wakes_parent:
  assumes inv: "sched_inv w xs" and c: "current_process w = c" "procs w c = Some x" "parent_pid x > 0"
    and q: "q \<in> set xs" "q \<in> set (process_table w)" "procs w q = Some p" "pid p = parent_pid x" "pstate p = PROCESS_BLOCKED" "q \<noteq> c"
    and unique: "\<forall>y \<in> set (process_table w). \<forall>r. procs w y = Some r \<longrightarrow> pid r = parent_pid x \<longrightarrow> y = q"
  shows "\<exists>w'. sys_exit rg w = Some (Gone, rg, Nothing, w') \<and> state_of (procs w') c = Some PROCESS_DEAD \<and> sched_inv w' xs \<and>
    (\<exists>k w''. k < length xs \<and> yields k w' = Some w'' \<and> current_process w'' = q \<and> state_of (procs w'') q = Some PROCESS_RUNNING)"
proof -
  let ?x = "x\<lparr>exit_code := to_int (r_rdi rg), pstate := PROCESS_DEAD\<rparr>"
  obtain w1 w2 where e: "upd_proc c (\<lambda>p. p\<lparr>exit_code := to_int (r_rdi rg)\<rparr>) w = Some w1" "current_process w1 = c" "process_exit c w1 = Some w2"
    "sched_inv w2 xs" and w2: "w2 = w\<lparr>procs := (procs w)(c \<mapsto> ?x)\<rparr>" using exit_marks_dead [OF inv c(1,2)] by blast
  have nz: "c \<noteq> 0" "q \<noteq> 0" using inv c(1) q(1) by (auto simp: sched_inv_def run_queue_def)
  have q2: "procs w2 q = Some p" using q(3,6) by (simp add: w2)
  have tab: "\<forall>y \<in> set (process_table w2). y \<noteq> 0 \<longrightarrow> procs w2 y \<noteq> None" using e(4) by (simp add: sched_inv_def table_ok_def)
  have un: "\<forall>y \<in> set (process_table w2). \<forall>r. procs w2 y = Some r \<longrightarrow> pid r = parent_pid x \<and> pstate r = PROCESS_BLOCKED \<longrightarrow> y = q"
    using unique by (auto simp: w2)
  have "q \<in> set (process_table w2)" "pid p = parent_pid x \<and> pstate p = PROCESS_BLOCKED" using q(2,4,5) by (simp_all add: w2)
  from find_proc_unique [of q "process_table w2" "procs w2" p "\<lambda>p. pid p = parent_pid x \<and> pstate p = PROCESS_BLOCKED" 0, OF this(1) nz(2) q2 this(2) tab un]
  obtain i where "find_proc (\<lambda>p. pid p = parent_pid x \<and> pstate p = PROCESS_BLOCKED) (procs w2) (process_table w2) 0 = Some (Some (i, q))" by blast
  note wp = set_pstate_inv [OF e(4) q2, of PROCESS_READY]
  let ?w3 = "w2\<lparr>procs := (procs w2)(q \<mapsto> p\<lparr>pstate := PROCESS_READY\<rparr>)\<rparr>"
  have wake: "wake_parent (parent_pid x) w2 = Some ?w3"
    using \<open>find_proc _ _ _ _ = _\<close> c(3) wp(1) q(5) q2 nz(2) by (simp add: wake_parent_def process_wake_def)
  have c3: "current_process ?w3 = c" "state_of (procs ?w3) c = Some PROCESS_DEAD" "state_of (procs ?w3) q = Some PROCESS_READY"
    using c(1) q(6) by (simp_all add: w2)
  obtain w' where w': "scheduler_yield ?w3 = Some w'" "sched_inv w' xs" "state_of (procs w') c = Some PROCESS_DEAD"
    "\<exists>k w''. k < length xs \<and> yields k w' = Some w'' \<and> current_process w'' = q \<and> state_of (procs w'') q = Some PROCESS_RUNNING"
    using yield_to_other [OF wp(2) q(1)] c3 q(6) by auto
  have "procs w2 c = Some ?x" "current_process w2 = c" using c(1) by (simp_all add: w2)
  then have "sys_exit rg w = Some (Gone, rg, Nothing, w')" using e(1-3) c(1) nz(1) wake w'(1) by (simp add: sys_exit_def)
  then show ?thesis using w'(2-4) by blast
qed

text \<open>Two processes, the current one being the child of the blocked other one.\<close>

definition waiting_parent :: pst where
  "waiting_parent = two_processes\<lparr>procs := [0x1000 \<mapsto> zero_process\<lparr>pid := 7, parent_pid := 3, pstate := PROCESS_RUNNING, pnext := 0x2000\<rparr>,
     0x2000 \<mapsto> zero_process\<lparr>pid := 3, pstate := PROCESS_BLOCKED, pnext := 0x1000\<rparr>]\<rparr>"

lemma waiting_parent_inv: "sched_inv waiting_parent [0x1000, 0x2000]"
  by (simp add: sched_inv_def run_queue_def table_ok_def waiting_parent_def two_processes_def zero_process_def ast.defs)

theorem sys_exit_wakes_parent_witness:
  "\<exists>w' k w''. sys_exit \<lparr>r_rax = 0, r_rbx = 0, r_rcx = 0, r_rdx = 0, r_rsi = 0, r_rdi = 42, r_rbp = 0, r_rip = 0, r_rsp = 0, r_rflags = 0\<rparr> waiting_parent =
       Some (Gone, \<lparr>r_rax = 0, r_rbx = 0, r_rcx = 0, r_rdx = 0, r_rsi = 0, r_rdi = 42, r_rbp = 0, r_rip = 0, r_rsp = 0, r_rflags = 0\<rparr>, Nothing, w') \<and>
     k < Suc (Suc 0) \<and> yields k w' = Some w'' \<and> current_process w'' = 0x2000"
proof -
  let ?w = waiting_parent
  have "current_process ?w = 0x1000" "set (process_table ?w) = {0x1000, 0x2000, 0}"
    "procs ?w 0x1000 = Some (zero_process\<lparr>pid := 7, parent_pid := 3, pstate := PROCESS_RUNNING, pnext := 0x2000\<rparr>)"
    "procs ?w 0x2000 = Some (zero_process\<lparr>pid := 3, pstate := PROCESS_BLOCKED, pnext := 0x1000\<rparr>)" "procs ?w 0 = None"
    by (auto simp: waiting_parent_def two_processes_def ast.defs)
  then show ?thesis
    using sys_exit_wakes_parent [OF waiting_parent_inv, of "0x1000" _ "0x2000" _
      "\<lparr>r_rax = 0, r_rbx = 0, r_rcx = 0, r_rdx = 0, r_rsi = 0, r_rdi = 42, r_rbp = 0, r_rip = 0, r_rsp = 0, r_rflags = 0\<rparr>"]
    by (fastforce simp: zero_process_def)
qed

end
