(* ===== verification/Shell.thy ===== *)
theory Shell
  imports Syscall
begin

text \<open>
  The kernel's command shell, \<open>src/apps/shell/shell.c\<close>: the line editor, the command table and the
  commands. The static variables of the file are the record \<open>shell\<close>; the commands act on the state of
  the kernel. A command that waits for a program reports the process it waits for (\<open>Waits\<close>), and
  \<open>shell_resume\<close> is what the shell does each time it runs again. Writing before the start of a local buffer is
  undefined (\<^term>\<open>None\<close>).
\<close>

abbreviation SHELL_BUFFER_SIZE :: nat where "SHELL_BUFFER_SIZE \<equiv> 256"
abbreviation SHELL_MAX_ARGS :: nat where "SHELL_MAX_ARGS \<equiv> 16"
abbreviation NUL :: char where "NUL \<equiv> CHR 0x00"

record shell =
  buffer :: string
  cursor :: nat
  skip_prompt :: bool

datatype outcome = Finished | Waits u64

text \<open>The C string at the start of a character array.\<close>

definition c_string :: "string \<Rightarrow> string" where
  "c_string s = takeWhile (\<lambda>c. c \<noteq> NUL) s"

fun starts_with :: "string \<Rightarrow> string \<Rightarrow> string option" where
  "starts_with str [] = Some str"
| "starts_with [] (p # ps) = None"
| "starts_with (c # cs) (p # ps) = (if c \<noteq> p then None else starts_with cs ps)"

definition buffer_clear :: "shell \<Rightarrow> shell" where
  "buffer_clear s = s\<lparr>buffer := replicate SHELL_BUFFER_SIZE NUL, cursor := 0\<rparr>"

section \<open>Output\<close>

definition colour_to :: "u8 \<Rightarrow> 'a dst_scheme \<Rightarrow> 'a dst_scheme" where
  "colour_to fg w = w\<lparr>screen := vga_set_colour fg 0 (screen w)\<rparr>"

definition say :: "string \<Rightarrow> va list \<Rightarrow> 'a dst_scheme \<Rightarrow> 'a dst_scheme option" where
  "say fmt args w = do { s \<leftarrow> kprintf (replicate 1024 NUL) fmt args (screen w); Some (w\<lparr>screen := s\<rparr>) }"

definition say_lines :: "string list \<Rightarrow> 'a dst_scheme \<Rightarrow> 'a dst_scheme option" where
  "say_lines ls w = fold (\<lambda>l r. do { w \<leftarrow> r; say (l @ newline) [] w }) ls (Some w)"

text \<open>An error message in light red, after which the colour is white again.\<close>

definition complain :: "string \<Rightarrow> va list \<Rightarrow> 'a dst_scheme \<Rightarrow> 'a dst_scheme option" where
  "complain fmt args w = do { w1 \<leftarrow> say fmt args (colour_to 12 w); Some (colour_to 15 w1) }"

definition print_prompt :: "'a dst_scheme \<Rightarrow> 'a dst_scheme option" where
  "print_prompt w = do { w1 \<leftarrow> say ''acorn> '' [] (colour_to 10 w); Some (colour_to 15 w1) }"

section \<open>Commands\<close>

definition cmd_help :: "'a dst_scheme \<Rightarrow> 'a dst_scheme option" where
  "cmd_help w =
     do { w1 \<leftarrow> say (newline @ ''Available commands'' @ newline) [] (colour_to 14 w);
          say_lines
           [''    help         -- show this message'',
            ''    clear        -- clear the screen'',
            ''    about        -- about acornOS'',
            ''    uptime       -- show time since boot'',
            ''    mem          -- show memory usage'',
            ''    date         -- show current date/time'',
            ''    ps           -- list all processes'',
            ''    echo <text>  -- print text screen'',
            ''    ls [path]    -- list directory contents'',
            ''    cat <path>   -- print file contents'',
            ''    mkdir <path> -- create a directory'',
            ''    rm <path>    -- delete a file''] (colour_to 15 w1) }"

definition cmd_clear :: "shell \<Rightarrow> 'a dst_scheme \<Rightarrow> (shell \<times> 'a dst_scheme) option" where
  "cmd_clear s w =
     do { w1 \<leftarrow> print_prompt (w\<lparr>screen := vga_clear (screen w)\<rparr>);
          Some ((buffer_clear s)\<lparr>skip_prompt := True\<rparr>, w1) }"

definition cmd_about :: "'a dst_scheme \<Rightarrow> 'a dst_scheme option" where
  "cmd_about w =
     do { w1 \<leftarrow> say (newline @ ''acornOS v0.1'' @ newline) [] (colour_to 11 w);
          say_lines [''A tiny OS built from scratch.'', ''Guided by AI, built by hand.'', ''github.com/jesseowenuk/acornOS''] (colour_to 15 w1) }"

definition uptime_parts :: "u32 \<Rightarrow> u32 \<times> u32 \<times> u32" where
  "uptime_parts seconds = (let minutes = seconds div 60; hours = minutes div 60 in (hours, minutes mod 60, seconds mod 60))"

definition cmd_uptime :: "'a dst_scheme \<Rightarrow> 'a dst_scheme option" where
  "cmd_uptime w =
     (let (hours, minutes, seconds) = uptime_parts (timer_get_seconds (ticks w)) in
      say (newline @ ''Uptime: %uh %um %us'' @ newline) [VInt hours, VInt minutes, VInt seconds] (colour_to 15 w))"

text \<open>\<open>bytes = vfs_read(fd, buffer, n); buffer[bytes] = 0\<close> and the string that is then in the buffer.\<close>

definition read_text :: "int \<Rightarrow> u32 \<Rightarrow> 'a dst_scheme \<Rightarrow> (int \<times> string \<times> 'a dst_scheme) option" where
  "read_text d n w =
     do { (bytes, bs, w1) \<leftarrow> vfs_read fs_table w d True n;
          if bytes < 0 then None else Some (bytes, c_string (chars_of (take (nat bytes) bs)), w1) }"

definition show_file :: "string \<Rightarrow> string \<Rightarrow> u32 \<Rightarrow> 'a dst_scheme \<Rightarrow> 'a dst_scheme option" where
  "show_file path failure n w =
     do { (d, w1) \<leftarrow> vfs_open fs_table w path O_RDONLY;
          if d < 0 then say (failure @ newline) [] w1
          else do {
            (bytes, text, w2) \<leftarrow> read_text d n w1;
            (_, w3) \<leftarrow> vfs_close fs_table w2 d;
            say (newline @ ''%s'') [VStr (Some text)] w3 } }"

definition cmd_mem :: "'a dst_scheme \<Rightarrow> 'a dst_scheme option" where
  "cmd_mem w = show_file ''/process/meminfo'' ''mem: cannot open /process/meminfo'' 255 w"

definition cmd_date :: "'a dst_scheme \<Rightarrow> 'a dst_scheme option" where
  "cmd_date w = show_file ''/devices/rtc'' ''date: cannot open /devices/rtc'' 31 w"

text \<open>One space after the name of the command is skipped.\<close>

definition skip_space :: "string \<Rightarrow> string" where
  "skip_space s = (if s \<noteq> [] \<and> hd s = CHR '' '' then tl s else s)"

definition cmd_echo :: "string \<Rightarrow> 'a dst_scheme \<Rightarrow> 'a dst_scheme option" where
  "cmd_echo args w =
     (let text = skip_space args in
      if text = [] then say (''Usage: echo <text>'' @ newline) [] (colour_to 12 w)
      else say (''%s'' @ newline) [VStr (Some text)] (colour_to 15 w))"

definition status_path :: "string \<Rightarrow> string option" where
  "status_path name = do { (buf, n) \<leftarrow> ksnprintf (replicate 64 NUL) 64 ''/process/%s/status'' [VStr (Some name)]; Some (c_string buf) }"

text \<open>One entry of the process directory.\<close>

definition show_status :: "dentry \<Rightarrow> 'a dst_scheme \<Rightarrow> 'a dst_scheme option" where
  "show_status de w =
     (if d_type de \<noteq> VFS_TYPE_DIR then Some w
      else do {
        path \<leftarrow> status_path (d_name de);
        (sfd, w1) \<leftarrow> vfs_open fs_table w path O_RDONLY;
        if sfd < 0 then Some w1
        else do {
          (bytes, text, w2) \<leftarrow> read_text sfd 255 w1;
          (_, w3) \<leftarrow> vfs_close fs_table w2 sfd;
          w4 \<leftarrow> say (''------------------'' @ newline) [] (colour_to 3 w3);
          say (''%s'' @ newline) [VStr (Some text)] (colour_to 15 w4) } })"

text \<open>A loop over the entries of an open directory.\<close>

partial_function (option) each_entry :: "(dentry \<Rightarrow> 'a dst_scheme \<Rightarrow> 'a dst_scheme option) \<Rightarrow> int \<Rightarrow> 'a dst_scheme \<Rightarrow> 'a dst_scheme option" where
  "each_entry body d w =
     do { (r, de, w1) \<leftarrow> vfs_readdir fs_table w d;
          if r > 0 then (case de of None \<Rightarrow> None | Some e \<Rightarrow> do { w2 \<leftarrow> body e w1; each_entry body d w2 }) else Some w1 }"

definition cmd_ps :: "'a dst_scheme \<Rightarrow> 'a dst_scheme option" where
  "cmd_ps w =
     do { (d, w1) \<leftarrow> vfs_open fs_table w ''/process/'' O_RDONLY;
          if d < 0 then say (''ps: cannot open /process'' @ newline) [] w1
          else do { w2 \<leftarrow> each_entry show_status d w1; (_, w3) \<leftarrow> vfs_close fs_table w2 d; Some w3 } }"

definition list_name :: "dentry \<Rightarrow> 'a dst_scheme \<Rightarrow> 'a dst_scheme option" where
  "list_name de w =
     (if d_type de = VFS_TYPE_DIR then say (''  %s/'' @ newline) [VStr (Some (d_name de))] (colour_to 9 w)
      else say (''  %s'' @ newline) [VStr (Some (d_name de))] (colour_to 15 w))"

definition cmd_ls :: "string \<Rightarrow> 'a dst_scheme \<Rightarrow> 'a dst_scheme option" where
  "cmd_ls args w =
     do { let path = (if skip_space args = [] then ''/temp'' else skip_space args);
          (d, w1) \<leftarrow> vfs_open fs_table w path O_RDONLY;
          if d < 0 then complain (''ls: cannot open %s'' @ newline) [VStr (Some path)] w1
          else do {
            w2 \<leftarrow> say newline [] (colour_to 11 w1);
            w3 \<leftarrow> each_entry list_name d w2;
            (_, w4) \<leftarrow> vfs_close fs_table (colour_to 15 w3) d;
            Some w4 } }"

partial_function (option) cat_loop :: "int \<Rightarrow> 'a dst_scheme \<Rightarrow> 'a dst_scheme option" where
  "cat_loop d w =
     do { (bytes, bs, w1) \<leftarrow> vfs_read fs_table w d True 255;
          if bytes > 0
          then do { w2 \<leftarrow> say ''%s'' [VStr (Some (c_string (chars_of (take (nat bytes) bs))))] w1; cat_loop d w2 }
          else Some w1 }"

definition cmd_cat :: "string \<Rightarrow> 'a dst_scheme \<Rightarrow> 'a dst_scheme option" where
  "cmd_cat args w =
     (let path = skip_space args in
      if path = [] then complain (''Usgae: cat <path>'' @ newline) [] w
      else do {
        (d, w1) \<leftarrow> vfs_open fs_table w path O_RDONLY;
        if d < 0 then complain (''cat: cannot open %s'' @ newline) [VStr (Some path)] w1
        else do {
          w2 \<leftarrow> say newline [] w1;
          w3 \<leftarrow> cat_loop d w2;
          w4 \<leftarrow> say newline [] w3;
          (_, w5) \<leftarrow> vfs_close fs_table w4 d;
          Some w5 } })"

definition cmd_mkdir :: "string \<Rightarrow> 'a dst_scheme \<Rightarrow> 'a dst_scheme option" where
  "cmd_mkdir args w =
     (let path = skip_space args in
      if path = [] then complain (''Usage: mkdir <path>'' @ newline) [] w
      else do {
        (result, w1) \<leftarrow> vfs_mkdir fs_table w path;
        if result < 0 then complain (''mkdir: failed to create %s'' @ newline) [VStr (Some path)] w1
        else say (''Created directory %s'' @ newline) [VStr (Some path)] w1 })"

definition cmd_rm :: "string \<Rightarrow> 'a dst_scheme \<Rightarrow> 'a dst_scheme option" where
  "cmd_rm args w =
     (let path = skip_space args in
      if path = [] then complain (''Usage: rm <path>'' @ newline) [] w
      else do {
        (result, w1) \<leftarrow> vfs_delete fs_table w path;
        if result < 0 then complain (''rm: failed to delete %s'' @ newline) [VStr (Some path)] w1
        else say (''Deleted %s'' @ newline) [VStr (Some path)] w1 })"

text \<open>The words of a command line, at most \<open>n\<close> of them. Each word ends at the next space, which is overwritten with the
  terminator, and all the spaces after it are skipped.\<close>

fun tokenise :: "nat \<Rightarrow> string \<Rightarrow> string list" where
  "tokenise 0 cs = []"
| "tokenise (Suc n) cs =
     (if cs = [] then []
      else takeWhile (\<lambda>c. c \<noteq> CHR '' '') cs # tokenise n (dropWhile (\<lambda>c. c = CHR '' '') (dropWhile (\<lambda>c. c \<noteq> CHR '' '') cs)))"

text \<open>The path is the first word: its terminator is written into the same buffer.\<close>

definition cmd_run :: "string \<Rightarrow> 'a dst_scheme \<Rightarrow> (outcome \<times> 'a dst_scheme) option" where
  "cmd_run args w =
     (let path = skip_space args in
      if path = [] then do { w1 \<leftarrow> complain (''Usage: run <path>'' @ newline) [] w; Some (Finished, w1) }
      else do {
        let argv = tokenise (SHELL_MAX_ARGS - 1) path;
        (child, w1) \<leftarrow> process_spawn (Some (hd argv)) (Some (map bytes_of argv)) w;
        if child = - 1
        then do { w2 \<leftarrow> say (''run: failed to start %s'' @ newline) [VStr (Some (hd argv))] (colour_to 4 w1); Some (Finished, colour_to 15 w2) }
        else do { w2 \<leftarrow> say newline [] w1; Some (Waits child, w2) } })"

section \<open>Dispatch\<close>

definition quietly :: "('a dst_scheme \<Rightarrow> 'a dst_scheme option) \<Rightarrow> shell \<Rightarrow> 'a dst_scheme \<Rightarrow> (outcome \<times> shell \<times> 'a dst_scheme) option" where
  "quietly f s w = do { w1 \<leftarrow> f w; Some (Finished, s, w1) }"

definition commands :: "(string \<times> (string \<Rightarrow> shell \<Rightarrow> 'a dst_scheme \<Rightarrow> (outcome \<times> shell \<times> 'a dst_scheme) option)) list" where
  "commands =
     [(''help'', \<lambda>args. quietly cmd_help),
      (''clear'', \<lambda>args s w. do { (s1, w1) \<leftarrow> cmd_clear s w; Some (Finished, s1, w1) }),
      (''about'', \<lambda>args. quietly cmd_about),
      (''uptime'', \<lambda>args. quietly cmd_uptime),
      (''mem'', \<lambda>args. quietly cmd_mem),
      (''date'', \<lambda>args. quietly cmd_date),
      (''ps'', \<lambda>args. quietly cmd_ps),
      (''echo'', \<lambda>args. quietly (cmd_echo args)),
      (''ls'', \<lambda>args. quietly (cmd_ls args)),
      (''cat'', \<lambda>args. quietly (cmd_cat args)),
      (''mkdir'', \<lambda>args. quietly (cmd_mkdir args)),
      (''rm'', \<lambda>args. quietly (cmd_rm args)),
      (''run'', \<lambda>args s w. do { (r, w1) \<leftarrow> cmd_run args w; Some (r, s, w1) })]"

fun find_command :: "string \<Rightarrow> (string \<times> 'h) list \<Rightarrow> ('h \<times> string) option" where
  "find_command line [] = None"
| "find_command line ((name, h) # cs) =
     (case starts_with line name of Some args \<Rightarrow> Some (h, args) | None \<Rightarrow> find_command line cs)"

definition process_command :: "shell \<Rightarrow> 'a dst_scheme \<Rightarrow> (outcome \<times> shell \<times> 'a dst_scheme) option" where
  "process_command s w =
     do { w1 \<leftarrow> say newline [] w;
          let line = c_string (buffer s);
          if line = [] then Some (Finished, s, w1)
          else case find_command line commands of
              Some (handler, args) \<Rightarrow> handler args s w1
            | None \<Rightarrow>
                (case starts_with line ''echo'' of
                   Some echo_text \<Rightarrow> quietly (cmd_echo echo_text) s w1
                 | None \<Rightarrow> do { w2 \<leftarrow> say ''Unknown command: '' [] (colour_to 12 w1);
                                w3 \<leftarrow> say (''%s'' @ newline) [VStr (Some line)] (colour_to 15 w2);
                                Some (Finished, s, w3) }) }"

section \<open>The line editor\<close>

definition echo_char :: "u8 \<Rightarrow> 'a dst_scheme \<Rightarrow> 'a dst_scheme" where
  "echo_char c w = w\<lparr>screen := vga_putchar c (screen w)\<rparr>"

text \<open>What follows a command: the buffer is cleared and the prompt printed.\<close>

definition finish_line :: "shell \<Rightarrow> 'a dst_scheme \<Rightarrow> (shell \<times> 'a dst_scheme) option" where
  "finish_line s w =
     do { let s1 = buffer_clear s;
          w1 \<leftarrow> (if skip_prompt s1 then Some w else print_prompt w);
          Some (s1, w1) }"

definition shell_handle_key :: "u8 \<Rightarrow> shell \<Rightarrow> 'a dst_scheme \<Rightarrow> (outcome \<times> shell \<times> 'a dst_scheme) option" where
  "shell_handle_key c s0 w =
     (let s = s0\<lparr>skip_prompt := False\<rparr> in
      if c = 0x0A
      then do {
        (r, s1, w1) \<leftarrow> process_command s w;
        case r of
          Waits child \<Rightarrow> Some (Waits child, s1, w1)
        | Finished \<Rightarrow> do { (s2, w2) \<leftarrow> finish_line s1 w1; Some (Finished, s2, w2) } }
      else if c = 0x08
      then if cursor s > 0
           then Some (Finished, s\<lparr>cursor := cursor s - 1, buffer := (buffer s)[cursor s - 1 := NUL]\<rparr>, echo_char 0x08 (echo_char 0x20 (echo_char 0x08 w)))
           else Some (Finished, s, w)
      else if cursor s < SHELL_BUFFER_SIZE - 1
      then Some (Finished, s\<lparr>buffer := (buffer s)[cursor s := char_of (unat c)], cursor := cursor s + 1\<rparr>, echo_char c w)
      else Some (Finished, s, w))"

text \<open>The shell runs again while it waits for process \<open>child\<close>: one round of \<open>process_wait\<close>, and the rest of the key handler
  when the process is gone.\<close>

definition shell_resume :: "u64 \<Rightarrow> shell \<Rightarrow> 'a dst_scheme \<Rightarrow> (outcome \<times> shell \<times> 'a dst_scheme) option" where
  "shell_resume child s w =
     do { (done, w1) \<leftarrow> process_wait child w;
          if \<not> done then Some (Waits child, s, w1)
          else do { (s2, w2) \<leftarrow> finish_line s w1; Some (Finished, s2, w2) } }"

definition shell_init :: "shell \<Rightarrow> 'a dst_scheme \<Rightarrow> (shell \<times> 'a dst_scheme) option" where
  "shell_init s w = do { w1 \<leftarrow> print_prompt w; Some (buffer_clear s, w1) }"

section \<open>The line that is typed\<close>

text \<open>The editor as a user sees it: a line of at most 255 characters.\<close>

definition edit :: "u8 \<Rightarrow> string \<Rightarrow> string" where
  "edit c line =
     (if c = 0x08 then butlast line
      else if length line < SHELL_BUFFER_SIZE - 1 then line @ [char_of (unat c)] else line)"

definition holds_line :: "shell \<Rightarrow> string \<Rightarrow> bool" where
  "holds_line s line \<longleftrightarrow>
     length line < SHELL_BUFFER_SIZE \<and> NUL \<notin> set line \<and> cursor s = length line \<and>
     buffer s = line @ replicate (SHELL_BUFFER_SIZE - length line) NUL"

fun shell_keys :: "u8 list \<Rightarrow> shell \<Rightarrow> 'a dst_scheme \<Rightarrow> (shell \<times> 'a dst_scheme) option" where
  "shell_keys [] s w = Some (s, w)"
| "shell_keys (c # cs) s w =
     (case shell_handle_key c s w of Some (Finished, s1, w1) \<Rightarrow> shell_keys cs s1 w1 | _ \<Rightarrow> None)"

lemma char_of_nonzero: "c \<noteq> 0 \<Longrightarrow> char_of (unat (c :: u8)) \<noteq> NUL"
proof
  assume "c \<noteq> 0" "char_of (unat c) = NUL"
  then have "of_char (char_of (unat c) :: char) = (0 :: nat)" by simp
  moreover have "unat c < 256" using unsigned_less [of c] by simp
  ultimately show False using \<open>c \<noteq> 0\<close> by (simp add: of_char_of unat_eq_0)
qed

lemma holds_line_clear: "holds_line (buffer_clear s) []"
  by (simp add: holds_line_def buffer_clear_def)

lemma holds_line_string: "holds_line s line \<Longrightarrow> c_string (buffer s) = line"
proof -
  assume h: "holds_line s line"
  then have "\<forall>c \<in> set line. c \<noteq> NUL" by (auto simp: holds_line_def)
  then have "takeWhile (\<lambda>c. c \<noteq> NUL) (line @ xs) = line @ takeWhile (\<lambda>c. c \<noteq> NUL) xs" for xs by (simp add: takeWhile_append2)
  then show ?thesis using h by (simp add: holds_line_def c_string_def takeWhile_replicate)
qed

lemma handle_key_edits:
  assumes "holds_line s line" "c \<noteq> 0" "c \<noteq> 0x0A"
  shows "\<exists>s' w'. shell_handle_key c s w = Some (Finished, s', w') \<and> holds_line s' (edit c line)"
proof (cases "c = 0x08")
  case True
  show ?thesis
  proof (cases line rule: rev_cases)
    case Nil
    then show ?thesis using True assms(1) by (simp add: shell_handle_key_def holds_line_def edit_def)
  next
    case (snoc l x)
    have "SHELL_BUFFER_SIZE - length l = Suc (SHELL_BUFFER_SIZE - Suc (length l))" using snoc assms(1) by (auto simp: holds_line_def)
    then have "(buffer s)[cursor s - 1 := NUL] = l @ replicate (SHELL_BUFFER_SIZE - length l) NUL"
      using snoc assms(1) by (simp add: holds_line_def list_update_append)
    then show ?thesis using snoc True assms(1) by (simp add: shell_handle_key_def holds_line_def edit_def)
  qed
next
  case False
  show ?thesis
  proof (cases "length line < SHELL_BUFFER_SIZE - 1")
    case True
    then obtain n where n: "SHELL_BUFFER_SIZE - length line = Suc n" "SHELL_BUFFER_SIZE - Suc (length line) = n" by (metis Suc_diff_Suc less_diff_conv add.commute plus_1_eq_Suc Suc_lessD)
    then have "(buffer s)[cursor s := char_of (unat c)] = line @ char_of (unat c) # replicate n NUL"
      using assms(1) by (simp add: holds_line_def list_update_append)
    then show ?thesis using n True False assms char_of_nonzero [OF assms(2)] by (simp add: shell_handle_key_def holds_line_def edit_def)
  next
    case full: False
    then show ?thesis using False assms by (simp add: shell_handle_key_def holds_line_def edit_def)
  qed
qed

lemma shell_keys_edit:
  assumes "holds_line s line" "\<forall>c \<in> set cs. c \<noteq> 0 \<and> c \<noteq> 0x0A"
  shows "\<exists>s' w'. shell_keys cs s w = Some (s', w') \<and> holds_line s' (fold edit cs line)"
  using assms
proof (induction cs arbitrary: s w line)
  case (Cons c cs)
  obtain s1 w1 where "shell_handle_key c s w = Some (Finished, s1, w1)" "holds_line s1 (edit c line)"
    using handle_key_edits [OF Cons.prems(1), of c w] Cons.prems(2) by auto
  then show ?case using Cons.IH [of s1 "edit c line" w1] Cons.prems(2) by auto
qed auto

lemma enter_finished:
  assumes "shell_handle_key 0x0A s w = Some (Finished, s', w')"
  shows "holds_line s' []"
proof -
  obtain r s1 w1 where "process_command (s\<lparr>skip_prompt := False\<rparr>) w = Some (r, s1, w1)"
    using assms by (auto simp: shell_handle_key_def Option.bind_eq_Some_conv Let_def)
  then show ?thesis using assms holds_line_clear
    by (cases r) (auto simp: shell_handle_key_def finish_line_def Option.bind_eq_Some_conv Let_def)
qed

text \<open>C30: The shell's input buffer refines a line editor. Whatever keys are typed before Enter, the buffer never
  overflows and holds exactly the line the keys describe (characters appended while there is room for them and the
  terminator, backspace removing the last one); this is the string the command table is searched with, and after a
  command is finished the next line starts empty.\<close>

theorem shell_refines_line_editor:
  assumes "holds_line s line" "\<forall>c \<in> set cs. c \<noteq> 0 \<and> c \<noteq> 0x0A"
  shows "\<exists>s' w'. shell_keys cs s w = Some (s', w') \<and> holds_line s' (fold edit cs line) \<and> c_string (buffer s') = fold edit cs line \<and>
    (\<forall>s'' w''. shell_handle_key 0x0A s' w' = Some (Finished, s'', w'') \<longrightarrow> holds_line s'' [])"
  using shell_keys_edit [OF assms, of w] holds_line_string enter_finished by meson

definition idle_shell :: shell where
  "idle_shell = \<lparr>buffer = replicate SHELL_BUFFER_SIZE NUL, cursor = 0, skip_prompt = False\<rparr>"

theorem shell_refines_line_editor_witness:
  "\<exists>s' w'. shell_keys [0x6C, 0x78, 0x08, 0x73] idle_shell boot_machine = Some (s', w') \<and> c_string (buffer s') = ''ls''"
proof -
  have "holds_line idle_shell []" by (simp add: holds_line_def idle_shell_def)
  moreover have "\<forall>c \<in> set [0x6C, 0x78, 0x08, 0x73 :: u8]. c \<noteq> 0 \<and> c \<noteq> 0x0A" by simp
  moreover have "fold edit [0x6C, 0x78, 0x08, 0x73] [] = ''ls''" by code_simp
  ultimately show ?thesis using shell_refines_line_editor [of idle_shell "[]" "[0x6C, 0x78, 0x08, 0x73]" boot_machine] by metis
qed

section \<open>Finding a command\<close>

lemma starts_with_iff: "starts_with line name = Some args \<longleftrightarrow> line = name @ args"
  by (induction line name rule: starts_with.induct) auto

lemma starts_with_None: "starts_with line name = None \<longleftrightarrow> \<not> prefix name line"
  by (metis not_Some_eq prefix_def starts_with_iff)

lemma find_command_unique:
  assumes "(name, h) \<in> set tab" "distinct (map fst tab)" "\<forall>a \<in> set (map fst tab). \<forall>b \<in> set (map fst tab). a \<noteq> b \<longrightarrow> \<not> prefix a b \<and> \<not> prefix b a"
  shows "find_command (name @ args) tab = Some (h, args)"
  using assms
proof (induction tab)
  case (Cons t tab)
  obtain n g where t: "t = (n, g)" by (cases t)
  show ?case
  proof (cases "n = name")
    case True
    then have "g = h" using Cons.prems(1,2) t by (auto dest: in_set_zipE simp: image_iff)
    then show ?thesis using True t starts_with_iff [of "name @ args" name args] by simp
  next
    case False
    then have "name \<in> set (map fst tab)" "(name, h) \<in> set tab" using Cons.prems(1) t by force+
    then have "\<not> prefix n name" "\<not> prefix name n" using Cons.prems(3) False t by auto
    then have "starts_with (name @ args) n = None" using prefix_same_cases [of n "name @ args" name] by (auto simp: starts_with_None)
    then show ?thesis using Cons t \<open>(name, h) \<in> set tab\<close> by simp
  qed
qed simp

text \<open>The command table is unambiguous: no name is the beginning of another, so a line that
  begins with the name of a command runs that command with the rest of the line as its argument. A space after
  the name is not required: \<open>rmdir /temp/a\<close> runs \<open>rm\<close> on \<open>dir /temp/a\<close>.\<close>

theorem process_command_dispatch:
  assumes "(name, h) \<in> set commands" "c_string (buffer s) = name @ args" "say newline [] w = Some w1"
  shows "process_command s w = h args s w1"
proof -
  have names: "map fst commands = [''help'', ''clear'', ''about'', ''uptime'', ''mem'', ''date'', ''ps'', ''echo'', ''ls'', ''cat'', ''mkdir'', ''rm'', ''run'']"
    by (simp add: commands_def)
  have free: "\<forall>a \<in> set (map fst commands). \<forall>b \<in> set (map fst commands). a \<noteq> b \<longrightarrow> \<not> prefix a b \<and> \<not> prefix b a"
    unfolding names by code_simp
  have "distinct (map fst commands)" unfolding names by code_simp
  from find_command_unique [OF assms(1) this free] have f: "find_command (name @ args) commands = Some (h, args)" .
  have "name \<noteq> []" using assms(1) by (auto simp: commands_def)
  then show ?thesis using f assms(2,3) by (simp add: process_command_def Let_def)
qed

lemma kvs_loop_plain: "CHR ''%'' \<notin> set fmt \<Longrightarrow> \<exists>st'. kvs_loop sz fmt [] st = Some st'"
  by (induction fmt arbitrary: st) auto

lemma say_plain: "CHR ''%'' \<notin> set fmt \<Longrightarrow> \<exists>w1. say fmt [] w = Some w1"
  using kvs_loop_plain [of fmt 1024 "(replicate 1024 NUL, 0)"] by (auto simp: say_def kprintf_def kvsnprintf_def)

section \<open>The arguments of a program\<close>

text \<open>A command line with any number of spaces between and after the words.\<close>

fun spaced :: "(string \<times> nat) list \<Rightarrow> string" where
  "spaced [] = []"
| "spaced [(x, k)] = x @ replicate k (CHR '' '')"
| "spaced ((x, k) # y # ys) = x @ replicate (Suc k) (CHR '' '') @ spaced (y # ys)"

lemma word_then_spaces:
  assumes "CHR '' '' \<notin> set x" "rest = [] \<or> hd rest \<noteq> CHR '' ''" "rest = [] \<or> 0 < k"
  shows "takeWhile (\<lambda>c. c \<noteq> CHR '' '') (x @ replicate k (CHR '' '') @ rest) = x"
    "dropWhile (\<lambda>c. c = CHR '' '') (dropWhile (\<lambda>c. c \<noteq> CHR '' '') (x @ replicate k (CHR '' '') @ rest)) = rest"
proof -
  have all: "\<forall>c \<in> set x. c \<noteq> CHR '' ''" using assms(1) by auto
  have tk: "takeWhile (\<lambda>c. c \<noteq> CHR '' '') (replicate k (CHR '' '') @ rest) = []" using assms(2,3) by (cases k; cases rest) auto
  have dr: "dropWhile (\<lambda>c. c \<noteq> CHR '' '') (replicate k (CHR '' '') @ rest) = replicate k (CHR '' '') @ rest" using assms(2,3) by (cases k; cases rest) auto
  have "dropWhile (\<lambda>c. c = CHR '' '') (replicate k (CHR '' '') @ rest) = rest" using assms(2) by (induction k) (cases rest; auto)+
  then show "takeWhile (\<lambda>c. c \<noteq> CHR '' '') (x @ replicate k (CHR '' '') @ rest) = x"
    "dropWhile (\<lambda>c. c = CHR '' '') (dropWhile (\<lambda>c. c \<noteq> CHR '' '') (x @ replicate k (CHR '' '') @ rest)) = rest"
    using all tk dr by (simp_all add: takeWhile_append2 dropWhile_append2)
qed

lemma spaced_hd: "\<forall>(x, k) \<in> set xs. x \<noteq> [] \<and> CHR '' '' \<notin> set x \<Longrightarrow> spaced xs = [] \<or> hd (spaced xs) \<noteq> CHR '' ''"
  by (induction xs rule: spaced.induct) (auto simp: hd_append dest: list.set_sel(1))

lemma tokenise_Nil [simp]: "tokenise n [] = []"
  by (cases n) simp_all

text \<open>The words of a \<open>run\<close> command line are recovered: for words without spaces, separated by one or more spaces and
  possibly followed by more, the argument vector is exactly the words, cut after the fifteen that fit beside the terminating
  null pointer.\<close>

theorem tokenise_spaced:
  assumes "\<forall>(x, k) \<in> set xs. x \<noteq> [] \<and> CHR '' '' \<notin> set x"
  shows "tokenise n (spaced xs) = take n (map fst xs)"
  using assms
proof (induction xs arbitrary: n rule: spaced.induct)
  case (1 n)
  show ?case by simp
next
  case (2 x k n)
  then have w: "CHR '' '' \<notin> set x" "x \<noteq> []" by simp_all
  note e = word_then_spaces [OF w(1), of "[]" k, unfolded append_Nil2]
  have "tokenise (Suc m) (x @ replicate k (CHR '' '')) = [x]" for m
    unfolding tokenise.simps(2) using w(2) e(1) e(2) by (simp only: append_is_Nil_conv HOL.simp_thms if_False tokenise_Nil)
  then show ?case by (cases n) (simp_all del: tokenise.simps(2))
next
  case (3 x k y ys n)
  then have w: "CHR '' '' \<notin> set x" "x \<noteq> []" and ih: "tokenise m (spaced (y # ys)) = take m (map fst (y # ys))" for m by auto
  have "spaced (y # ys) = [] \<or> hd (spaced (y # ys)) \<noteq> CHR '' ''" using 3 by (intro spaced_hd) simp
  note e = word_then_spaces [OF w(1) this, of "Suc k"] w(2) ih
  show ?case by (cases n) (simp_all add: e del: replicate_Suc)
qed

section \<open>Commands leave no file open\<close>

definition tidy :: "'a dst_scheme \<Rightarrow> 'a dst_scheme \<Rightarrow> bool" where
  "tidy w w' \<longleftrightarrow> (vfs_inv w \<longrightarrow> vfs_inv w' \<and> file_table w' = file_table w)"

named_theorems tidy_intros

lemma tidy_refl [simp]: "tidy w w"
  by (simp add: tidy_def)

lemma tidy_trans: "tidy w w1 \<Longrightarrow> tidy w1 w2 \<Longrightarrow> tidy w w2"
  by (auto simp: tidy_def)

lemma tidy_screen [tidy_intros]: "tidy w (w\<lparr>screen := s\<rparr>)"
  by (simp add: tidy_def) (auto elim: vfs_inv_outside)

lemma tidy_say [tidy_intros]: "say fmt args w = Some w' \<Longrightarrow> tidy w w'"
  by (auto simp: say_def Option.bind_eq_Some_conv tidy_screen)

lemma tidy_colour [tidy_intros]: "tidy w (colour_to fg w)"
  by (simp add: colour_to_def tidy_screen)

lemma tidy_coloured: "tidy w (colour_to fg w') \<longleftrightarrow> tidy w w'" "tidy (colour_to fg w) w' \<longleftrightarrow> tidy w w'"
proof -
  have "vfs_inv (colour_to fg w) \<longleftrightarrow> vfs_inv w" for w :: "'a dst_scheme"
    using vfs_inv_outside [of w "colour_to fg w"] vfs_inv_outside [of "colour_to fg w" w] by (auto simp: colour_to_def)
  moreover have "file_table (colour_to fg w) = file_table w" for w :: "'a dst_scheme" by (simp add: colour_to_def)
  ultimately show "tidy w (colour_to fg w') \<longleftrightarrow> tidy w w'" "tidy (colour_to fg w) w' \<longleftrightarrow> tidy w w'" by (simp_all add: tidy_def)
qed

lemma tidy_ops [tidy_intros]:
  "vfs_read fs_table w d b n = Some (res, bs, w') \<Longrightarrow> tidy w w'"
  "vfs_readdir fs_table w d = Some (res, de, w') \<Longrightarrow> tidy w w'"
  "vfs_mkdir fs_table w path = Some (res, w') \<Longrightarrow> tidy w w'"
  "vfs_delete fs_table w path = Some (res, w') \<Longrightarrow> tidy w w'"
  "read_text d n w = Some (k, text, w') \<Longrightarrow> tidy w w'"
proof -
  show r: "vfs_read fs_table w d b n = Some (res, bs, w') \<Longrightarrow> tidy w w'" for b res bs unfolding tidy_def using kernel_fs.read_tab by blast
  show "vfs_readdir fs_table w d = Some (res, de, w') \<Longrightarrow> tidy w w'" unfolding tidy_def using kernel_fs.readdir_tab by blast
  show "vfs_mkdir fs_table w path = Some (res, w') \<Longrightarrow> tidy w w'" unfolding tidy_def using kernel_fs.mkdir_tab by blast
  show "vfs_delete fs_table w path = Some (res, w') \<Longrightarrow> tidy w w'" unfolding tidy_def using kernel_fs.delete_tab by blast
  show "read_text d n w = Some (k, text, w') \<Longrightarrow> tidy w w'"
    by (auto simp: read_text_def Option.bind_eq_Some_conv split: if_splits dest!: r)
qed

lemma tidy_open_failed: "vfs_open fs_table w path flags = Some (d, w') \<Longrightarrow> d < 0 \<Longrightarrow> tidy w w'"
  using kernel_fs.open_tab [of w path flags d w'] by (auto simp: tidy_def)

text \<open>What runs between an open and the close of the same descriptor leaves the table as it was.\<close>

lemma tidy_bracket:
  assumes o: "vfs_open fs_table w path flags = Some (d, w1)" "\<not> d < 0" and b: "tidy w1 w2" and c: "vfs_close fs_table w2 d = Some (res, w3)"
  shows "tidy w w3"
  unfolding tidy_def
proof
  assume "vfs_inv w"
  from kernel_fs.open_tab [OF this o(1)] o(2) obtain k f where k: "vfs_inv w1" "d = int k" "k < VFS_MAX_FDS" "file_table w ! k = 0" "f \<noteq> 0"
    "file_table w1 = (file_table w)[k := f]" by auto
  then have w2: "vfs_inv w2" "file_table w2 = (file_table w)[k := f]" using b by (auto simp: tidy_def)
  have "length (file_table w) = VFS_MAX_FDS" using \<open>vfs_inv w\<close> by (simp add: vfs_inv_def vfs_tab_def)
  then have "file_table w2 ! nat d \<noteq> 0" using w2(2) k by simp
  from kernel_fs.close_tab [OF w2(1) _ _ this c] k w2(2)
  have "vfs_inv w3" "file_table w3 = (file_table w)[k := 0]" by simp_all
  moreover have "(file_table w)[k := 0] = file_table w" using k(4) list_update_id [of "file_table w" k] by simp
  ultimately show "vfs_inv w3 \<and> file_table w3 = file_table w" by simp
qed

lemma tidy_say_lines [tidy_intros]: "say_lines ls w = Some w' \<Longrightarrow> tidy w w'"
proof -
  have none: "fold (\<lambda>l r. do { w \<leftarrow> r; say (l @ newline) [] w }) ls None = (None :: 'a dst_scheme option)" for ls by (induction ls) simp_all
  show "say_lines ls w = Some w' \<Longrightarrow> tidy w w'"
    unfolding say_lines_def
  proof (induction ls arbitrary: w)
    case (Cons l ls)
    then obtain w1 where "say (l @ newline) [] w = Some w1" using none by (cases "say (l @ newline) [] w") auto
    then show ?case using Cons tidy_say [of "l @ newline" "[]" w w1] by (auto intro: tidy_trans)
  qed simp
qed

lemma tidy_messages [tidy_intros]:
  "complain fmt args w = Some w' \<Longrightarrow> tidy w w'" "print_prompt w = Some w' \<Longrightarrow> tidy w w'"
  "cmd_help w = Some w' \<Longrightarrow> tidy w w'" "cmd_about w = Some w' \<Longrightarrow> tidy w w'" "cmd_uptime w = Some w' \<Longrightarrow> tidy w w'" "cmd_echo args' w = Some w' \<Longrightarrow> tidy w w'"
  by (auto simp: complain_def print_prompt_def cmd_help_def cmd_about_def cmd_uptime_def cmd_echo_def Option.bind_eq_Some_conv Let_def tidy_coloured
      split: if_splits prod.splits dest!: tidy_say tidy_say_lines intro: tidy_trans)

lemma tidy_each_entry:
  assumes "each_entry body d w = Some w'" "\<And>e w w'. body e w = Some w' \<Longrightarrow> tidy w w'"
  shows "tidy w w'"
  using assms
proof (induction rule: each_entry.raw_induct [rotated, consumes 1, case_names step])
  case (step each body d w w')
  then obtain r de w1 where rd: "vfs_readdir fs_table w d = Some (r, de, w1)" by (auto simp: Option.bind_eq_Some_conv)
  note t = tidy_ops(2) [OF rd]
  show ?case
  proof (cases "0 < r")
    case True
    then obtain e w2 where "body e w1 = Some w2" "each body d w2 = Some w'" using step.hyps rd by (auto simp: Option.bind_eq_Some_conv split: option.splits)
    then show ?thesis using t step.prems step.IH tidy_trans by metis
  next
    case False
    then show ?thesis using t step.hyps rd by simp
  qed
qed

lemma tidy_cat_loop: "cat_loop d w = Some w' \<Longrightarrow> tidy w w'"
proof (induction rule: cat_loop.raw_induct [rotated, consumes 1, case_names step])
  case (step loop d w w')
  then obtain n bs w1 where rd: "vfs_read fs_table w d True 255 = Some (n, bs, w1)" by (auto simp: Option.bind_eq_Some_conv)
  note t = tidy_ops(1) [OF rd]
  show ?case
  proof (cases "0 < n")
    case True
    then obtain w2 where "say ''%s'' [VStr (Some (c_string (chars_of (take (nat n) bs))))] w1 = Some w2" "loop d w2 = Some w'"
      using step.hyps rd by (auto simp: Option.bind_eq_Some_conv)
    then show ?thesis using t tidy_say step.IH tidy_trans by metis
  next
    case False
    then show ?thesis using t step.hyps rd by simp
  qed
qed

text \<open>The shape all commands on files have.\<close>

lemma tidy_use:
  assumes "do { (d, w1) \<leftarrow> vfs_open fs_table w path flags; if d < 0 then failed w1 else rest d w1 } = Some w'"
    and "\<And>w1. failed w1 = Some w' \<Longrightarrow> tidy w1 w'"
    and "\<And>d w1. rest d w1 = Some w' \<Longrightarrow> \<exists>w2 res w3. tidy w1 w2 \<and> vfs_close fs_table w2 d = Some (res, w3) \<and> tidy w3 w'"
  shows "tidy w w'"
proof -
  obtain d w1 where o: "vfs_open fs_table w path flags = Some (d, w1)" and r: "(if d < 0 then failed w1 else rest d w1) = Some w'"
    using assms(1) by (auto simp: Option.bind_eq_Some_conv)
  show ?thesis
  proof (cases "d < 0")
    case True
    then have "failed w1 = Some w'" using r by simp
    then show ?thesis by (rule tidy_trans [OF tidy_open_failed [OF o True] assms(2)])
  next
    case False
    then obtain w2 res w3 where "tidy w1 w2" "vfs_close fs_table w2 d = Some (res, w3)" "tidy w3 w'" using r assms(3) [of d w1] by auto
    then show ?thesis using tidy_bracket [OF o False] tidy_trans by blast
  qed
qed

lemma tidy_show_file: "show_file path failure n w = Some w' \<Longrightarrow> tidy w w'"
  unfolding show_file_def by (erule tidy_use) (auto simp: Option.bind_eq_Some_conv dest!: tidy_say tidy_ops(5))

lemma tidy_show_status: "show_status e w = Some w' \<Longrightarrow> tidy w w'"
proof (cases "d_type e = VFS_TYPE_DIR")
  case True
  assume op: "show_status e w = Some w'"
  obtain path where "status_path (d_name e) = Some path" using True op by (auto simp: show_status_def Option.bind_eq_Some_conv)
  note op' = op [unfolded show_status_def, simplified this True, simplified]
  show ?thesis
    by (rule tidy_use [OF op']) (auto simp: Option.bind_eq_Some_conv tidy_coloured dest!: tidy_say tidy_ops(5) intro: tidy_trans, blast intro: tidy_trans)
qed (simp add: show_status_def)

lemma tidy_list_name: "list_name e w = Some w' \<Longrightarrow> tidy w w'"
  by (auto simp: list_name_def tidy_coloured split: if_splits dest!: tidy_say)

lemma tidy_ps: "cmd_ps w = Some w' \<Longrightarrow> tidy w w'"
  unfolding cmd_ps_def by (erule tidy_use) (auto simp: Option.bind_eq_Some_conv dest!: tidy_say tidy_each_entry [OF _ tidy_show_status])

lemma tidy_ls: "cmd_ls args w = Some w' \<Longrightarrow> tidy w w'"
  unfolding cmd_ls_def Let_def
  by (erule tidy_use)
    (auto simp: Option.bind_eq_Some_conv tidy_coloured dest!: tidy_messages(1) tidy_say tidy_each_entry [OF _ tidy_list_name] intro: tidy_trans, metis tidy_coloured tidy_refl tidy_trans)

lemma tidy_cat: "cmd_cat args w = Some w' \<Longrightarrow> tidy w w'"
proof (cases "skip_space args = []")
  case False
  assume "cmd_cat args w = Some w'"
  then show ?thesis
    unfolding cmd_cat_def Let_def if_not_P [OF False]
    by (elim tidy_use) (auto simp: Option.bind_eq_Some_conv dest!: tidy_messages(1) tidy_say tidy_cat_loop intro: tidy_trans, blast intro: tidy_trans tidy_refl)
qed (auto simp: cmd_cat_def Let_def dest: tidy_messages(1))

lemma tidy_paths: "cmd_mkdir args w = Some w' \<Longrightarrow> tidy w w'" "cmd_rm args w = Some w' \<Longrightarrow> tidy w w'"
  by (auto simp: cmd_mkdir_def cmd_rm_def Let_def Option.bind_eq_Some_conv split: if_splits dest!: tidy_messages(1) tidy_say tidy_ops(3,4) intro: tidy_trans)

lemma tidy_clear: "cmd_clear s w = Some (s', w') \<Longrightarrow> tidy w w'"
  using tidy_screen [of w "vga_clear (screen w)"] by (auto simp: cmd_clear_def Option.bind_eq_Some_conv dest!: tidy_messages(2) intro: tidy_trans)

lemmas tidy_commands = tidy_messages tidy_ps tidy_ls tidy_cat tidy_paths tidy_clear tidy_show_file

end
