(* ===== verification/Interrupts.thy ===== *)
theory Interrupts
  imports Keyboard
begin

text \<open>
  Descriptor tables and interrupts: \<open>gdt.c\<close>, \<open>tss.c\<close>, \<open>idt.c\<close>, \<open>pic.c\<close> under
  \<open>src/kernel/architecture/x86_64\<close>. A table is the list of its entries with the fields of the packed
  structs; the addresses of the assembly stubs and of the static tables are arguments. Bytes written to the
  interrupt controller are added to the trace of port writes; what a port reads is an argument. The
  exception handlers print and stop the machine.
\<close>

section \<open>The global descriptor table\<close>

record gdt_entry =
  g_limit_low :: u16
  g_base_low :: u16
  g_base_mid :: u8
  g_access :: u8
  g_granularity :: u8
  g_base_high :: u8

abbreviation GDT_ENTRIES :: nat where "GDT_ENTRIES \<equiv> 8"

abbreviation zero_gdt_entry :: gdt_entry where
  "zero_gdt_entry \<equiv> \<lparr>g_limit_low = 0, g_base_low = 0, g_base_mid = 0, g_access = 0, g_granularity = 0, g_base_high = 0\<rparr>"

definition gdt_set_entry :: "nat \<Rightarrow> u8 \<Rightarrow> u8 \<Rightarrow> gdt_entry list \<Rightarrow> gdt_entry list" where
  "gdt_set_entry i access granularity gdt =
     gdt[i := \<lparr>g_limit_low = 0xFFFF, g_base_low = 0, g_base_mid = 0, g_access = access, g_granularity = granularity, g_base_high = 0\<rparr>]"

definition gdt_init :: "gdt_entry list \<Rightarrow> gdt_entry list" where
  "gdt_init gdt =
     (gdt_set_entry 5 0xFA 0x20 (gdt_set_entry 4 0xF2 0x00 (gdt_set_entry 3 0x00 0x00
       (gdt_set_entry 2 0x92 0x00 (gdt_set_entry 1 0x9A 0x20 (gdt_set_entry 0 0x00 0x00 gdt))))))
     [6 := zero_gdt_entry, 7 := zero_gdt_entry]"

text \<open>The upper half of the descriptor is stored as one 64-bit word over the fields of entry 7.\<close>

definition raw_gdt_entry :: "u64 \<Rightarrow> gdt_entry" where
  "raw_gdt_entry v =
     \<lparr>g_limit_low = ucast v, g_base_low = ucast (drop_bit 16 v), g_base_mid = ucast (drop_bit 32 v), g_access = ucast (drop_bit 40 v),
      g_granularity = ucast (drop_bit 48 v), g_base_high = ucast (drop_bit 56 v)\<rparr>"

definition gdt_set_tss_entry :: "u64 \<Rightarrow> u64 \<Rightarrow> gdt_entry list \<Rightarrow> gdt_entry list" where
  "gdt_set_tss_entry base limit gdt =
     gdt[6 := \<lparr>g_limit_low = ucast (limit AND 0xFFFF), g_base_low = ucast (base AND 0xFFFF), g_base_mid = ucast (drop_bit 16 base AND 0xFF),
               g_access = 0x89, g_granularity = ucast (drop_bit 16 limit AND 0x0F), g_base_high = ucast (drop_bit 24 base AND 0xFF)\<rparr>,
         7 := raw_gdt_entry (drop_bit 32 base AND 0xFFFFFFFF)]"

section \<open>The task state segment\<close>

record tss =
  t_rsp0 :: u64
  t_iobp :: u16

abbreviation SIZEOF_TSS :: u64 where "SIZEOF_TSS \<equiv> 104"

definition tss_init :: "u64 \<Rightarrow> gdt_entry list \<Rightarrow> tss \<times> gdt_entry list" where
  "tss_init tss_address gdt = (\<lparr>t_rsp0 = 0x90000, t_iobp = ucast SIZEOF_TSS\<rparr>, gdt_set_tss_entry tss_address (SIZEOF_TSS - 1) gdt)"

definition tss_set_kernel_stack :: "u64 \<Rightarrow> tss \<Rightarrow> tss" where
  "tss_set_kernel_stack stk t = t\<lparr>t_rsp0 := stk\<rparr>"

section \<open>The interrupt descriptor table\<close>

record idt_entry =
  i_base_low :: u16
  i_selector :: u16
  i_ist :: u8
  i_flags :: u8
  i_base_mid :: u16
  i_base_high :: u32
  i_reserved :: u32

definition idt_set_entry :: "nat \<Rightarrow> u64 \<Rightarrow> u16 \<Rightarrow> u8 \<Rightarrow> idt_entry list \<Rightarrow> idt_entry list" where
  "idt_set_entry n base selector flags idt =
     idt[n := \<lparr>i_base_low = ucast (base AND 0xFFFF), i_selector = selector, i_ist = 0, i_flags = flags,
               i_base_mid = ucast (drop_bit 16 base AND 0xFFFF), i_base_high = ucast (drop_bit 32 base AND 0xFFFFFFFF), i_reserved = 0\<rparr>]"

text \<open>The vectors that get a stub, \<open>stub n\<close> being the address of the stub for vector \<open>n\<close>.\<close>

definition idt_vectors :: "nat list" where
  "idt_vectors = [0, 1, 2, 3, 8, 13, 14, 32, 33]"

definition idt_init :: "(nat \<Rightarrow> u64) \<Rightarrow> idt_entry list \<Rightarrow> idt_entry list" where
  "idt_init stub idt = fold (\<lambda>n. idt_set_entry n (stub n) 0x08 0x8E) idt_vectors idt"

text \<open>The model-specific registers that \<open>syscall\<close> and \<open>sysret\<close> use, and the new value of EFER.\<close>

definition syscall_msr_init :: "u64 \<Rightarrow> u64 \<Rightarrow> (u64 \<times> u64) list" where
  "syscall_msr_init efer syscall_entry =
     [(0xC0000080, efer OR 1), (0xC0000081, push_bit 48 0x18 OR push_bit 32 0x08), (0xC0000082, syscall_entry), (0xC0000084, 0x200)]"

section \<open>The interrupt controller\<close>

definition io_wait :: "io_trace" where
  "io_wait = [(0x80, 0)]"

definition pic_init :: "u8 \<Rightarrow> u8 \<Rightarrow> io_trace \<Rightarrow> io_trace" where
  "pic_init mask1 mask2 io =
     io @ [(0x20, 0x11)] @ io_wait @ [(0xA0, 0x11)] @ io_wait @ [(0x21, 0x20)] @ io_wait @ [(0xA1, 0x28)] @ io_wait @
       [(0x21, 0x04)] @ io_wait @ [(0xA1, 0x02)] @ io_wait @ [(0x21, 0x01)] @ io_wait @ [(0xA1, 0x01)] @ io_wait @ [(0x21, mask1), (0xA1, mask2)]"

definition pic_send_eoi :: "int \<Rightarrow> io_trace \<Rightarrow> io_trace" where
  "pic_send_eoi irq io = io @ (if irq \<ge> 8 then [(0xA0, 0x20)] else []) @ [(0x20, 0x20)]"

text \<open>\<open>port_value\<close> is what the data port of the controller in charge reads.\<close>

definition pic_mask :: "nat \<Rightarrow> u8 \<Rightarrow> io_trace \<Rightarrow> io_trace" where
  "pic_mask irq port_value io =
     (if irq < 8 then io @ [(0x21, port_value OR push_bit irq 1)] else io @ [(0xA1, port_value OR push_bit (irq - 8) 1)])"

definition pic_unmask :: "nat \<Rightarrow> u8 \<Rightarrow> io_trace \<Rightarrow> io_trace" where
  "pic_unmask irq port_value io =
     (if irq < 8 then io @ [(0x21, port_value AND NOT (push_bit irq 1))] else io @ [(0xA1, port_value AND NOT (push_bit (irq - 8) 1))])"

section \<open>Hardware interrupts\<close>

text \<open>The first result tells whether the handler has returned: when the tick switches to another process, the
  rest of the handler (the end-of-interrupt command) belongs to the interrupted process and runs when that process is switched to
  again, if it was interrupted here.\<close>

definition timer_irq :: "'a dst_scheme \<Rightarrow> (bool \<times> 'a dst_scheme) option" where
  "timer_irq w =
     (let (t, s) = timer_handler (ticks w) (screen w) in
      do { w1 \<leftarrow> scheduler_tick (w\<lparr>ticks := t, screen := s\<rparr>); Some (current_process w1 = current_process w, w1) })"

definition irq_handler :: "u64 \<Rightarrow> u8 \<Rightarrow> 'a dst_scheme \<Rightarrow> (bool \<times> 'a dst_scheme) option" where
  "irq_handler int_no scancode w =
     do { (here, w1) \<leftarrow> (if int_no = 32 then timer_irq w else Some (True, w));
          if \<not> here then Some (False, w1)
          else do {
            w2 \<leftarrow> (if int_no = 33 then keyboard_handler scancode w1 else Some w1);
            Some (True, w2\<lparr>ports := pic_send_eoi (sint (ucast (int_no - 32) :: u32)) (ports w2)\<rparr>) } }"

section \<open>Encoded addresses\<close>

definition idt_base :: "idt_entry \<Rightarrow> u64" where
  "idt_base e = ucast (i_base_low e) OR push_bit 16 (ucast (i_base_mid e)) OR push_bit 32 (ucast (i_base_high e))"

definition tss_base :: "gdt_entry list \<Rightarrow> u64" where
  "tss_base gdt = ucast (g_base_low (gdt ! 6)) OR push_bit 16 (ucast (g_base_mid (gdt ! 6))) OR push_bit 24 (ucast (g_base_high (gdt ! 6))) OR
     push_bit 32 (ucast (g_limit_low (gdt ! 7))) OR push_bit 48 (ucast (g_base_low (gdt ! 7)))"

lemma field_masks:
  fixes x :: u64
  shows "ucast (x AND 0xFFFF) = (ucast x :: u16)" "ucast (x AND 0xFF) = (ucast x :: u8)" "ucast (x AND 0xFFFFFFFF) = (ucast x :: u32)"
proof -
  have m: "x AND 0xFFFF = take_bit 16 x" "x AND 0xFF = take_bit 8 x" "x AND 0xFFFFFFFF = take_bit 32 x"
    by (simp_all add: take_bit_eq_mask mask_eq_exp_minus_1)
  show "ucast (x AND 0xFFFF) = (ucast x :: u16)" "ucast (x AND 0xFF) = (ucast x :: u8)" "ucast (x AND 0xFFFFFFFF) = (ucast x :: u32)"
    unfolding m by (rule bit_eqI, simp add: bit_simps)+
qed

lemma idt_base_encode:
  "idt_base \<lparr>i_base_low = ucast base, i_selector = s, i_ist = t, i_flags = f, i_base_mid = ucast (drop_bit 16 base),
     i_base_high = ucast (drop_bit 32 base), i_reserved = r\<rparr> = base"
proof (rule bit_eqI)
  fix n assume "possible_bit TYPE(u64) n"
  then show "bit (idt_base \<lparr>i_base_low = ucast base, i_selector = s, i_ist = t, i_flags = f, i_base_mid = ucast (drop_bit 16 base),
     i_base_high = ucast (drop_bit 32 base), i_reserved = r\<rparr>) n = bit base n"
    by (cases "n < 16"; cases "n < 32"; auto simp: idt_base_def bit_simps)
qed

lemma tss_base_encode: "8 \<le> length gdt \<Longrightarrow> tss_base (gdt_set_tss_entry base limit gdt) = base"
proof -
  assume l: "8 \<le> length gdt"
  have "tss_base (gdt_set_tss_entry base limit gdt) = ucast (ucast base :: u16) OR push_bit 16 (ucast (ucast (drop_bit 16 base) :: u8)) OR
    push_bit 24 (ucast (ucast (drop_bit 24 base) :: u8)) OR push_bit 32 (ucast (ucast (drop_bit 32 base AND 0xFFFFFFFF) :: u16)) OR
    push_bit 48 (ucast (ucast (drop_bit 16 (drop_bit 32 base AND 0xFFFFFFFF)) :: u16))"
    using l by (simp add: tss_base_def gdt_set_tss_entry_def raw_gdt_entry_def field_masks)
  also have "drop_bit 32 base AND 0xFFFFFFFF = take_bit 32 (drop_bit 32 base)" by (simp add: take_bit_eq_mask mask_eq_exp_minus_1)
  also have "ucast (ucast base :: u16) OR push_bit 16 (ucast (ucast (drop_bit 16 base) :: u8)) OR
    push_bit 24 (ucast (ucast (drop_bit 24 base) :: u8)) OR push_bit 32 (ucast (ucast (take_bit 32 (drop_bit 32 base)) :: u16)) OR
    push_bit 48 (ucast (ucast (drop_bit 16 (take_bit 32 (drop_bit 32 base))) :: u16)) = base"
    (is "?b = base")
  proof (rule bit_eqI)
    fix n assume "possible_bit TYPE(u64) n"
    then show "bit ?b n = bit base n"
      by (cases "n < 16"; cases "n < 24"; cases "n < 32"; cases "n < 48"; auto simp: bit_simps)
  qed
  finally show ?thesis .
qed

text \<open>What a selector of a segment picks out of the table: the privilege level and whether it is code.\<close>

definition selector_entry :: "gdt_entry list \<Rightarrow> u64 \<Rightarrow> gdt_entry" where
  "selector_entry gdt sel = gdt ! unat (drop_bit 3 sel)"

definition segment_dpl :: "gdt_entry \<Rightarrow> u8" where
  "segment_dpl e = drop_bit 5 (g_access e) AND 3"

definition segment_code :: "gdt_entry \<Rightarrow> bool" where
  "segment_code e = (bit (g_access e) 7 \<and> bit (g_access e) 4 \<and> bit (g_access e) 3)"

text \<open>A 64-bit code segment, a present descriptor, the limit in the TSS descriptor.\<close>

definition segment_long :: "gdt_entry \<Rightarrow> bool" where
  "segment_long e = bit (g_granularity e) 5"

definition segment_present :: "gdt_entry \<Rightarrow> bool" where
  "segment_present e = bit (g_access e) 7"

definition tss_limit :: "gdt_entry list \<Rightarrow> u64" where
  "tss_limit gdt = ucast (g_limit_low (gdt ! 6)) OR push_bit 16 (ucast (g_granularity (gdt ! 6) AND 0x0F))"

text \<open>A present gate of an interrupt (type 14), reachable from privilege level 0 only, on the current stack.\<close>

definition interrupt_gate :: "idt_entry \<Rightarrow> bool" where
  "interrupt_gate e \<longleftrightarrow> bit (i_flags e) 7 \<and> \<not> bit (i_flags e) 4 \<and> i_flags e AND 0x0F = 14 \<and> drop_bit 5 (i_flags e) AND 3 = 0 \<and>
     i_ist e = 0 \<and> i_reserved e = 0"

lemma tss_limit_encode: "8 \<le> length gdt \<Longrightarrow> limit < 0x100000 \<Longrightarrow> tss_limit (gdt_set_tss_entry base limit gdt) = limit"
proof -
  assume l: "8 \<le> length gdt" and "limit < 0x100000"
  then have "limit = take_bit 20 limit" by (simp add: word_unat_eq_iff word_less_nat_alt unsigned_take_bit_eq take_bit_nat_eq_self)
  then have t: "\<not> bit limit n" if "20 \<le> n" for n using that by (metis bit_take_bit_iff not_less)
  have "tss_limit (gdt_set_tss_entry base limit gdt) =
      ucast (ucast limit :: u16) OR push_bit 16 (ucast ((ucast (take_bit 4 (drop_bit 16 limit)) :: u8) AND 0x0F))"
    using l by (simp add: tss_limit_def gdt_set_tss_entry_def field_masks take_bit_eq_mask mask_eq_exp_minus_1)
  also have "\<dots> = limit"
  proof (rule bit_eqI)
    fix n assume "possible_bit TYPE(u64) n"
    moreover have "(ucast (take_bit 4 (drop_bit 16 limit)) :: u8) AND 0x0F = ucast (take_bit 4 (drop_bit 16 limit))"
    proof -
      have "(0x0F :: u8) = mask 4" by (simp add: mask_eq_exp_minus_1)
      then show ?thesis by (simp only: take_bit_eq_mask [symmetric]) (rule bit_eqI, auto simp: bit_simps)
    qed
    ultimately show "bit (ucast (ucast limit :: u16) OR push_bit 16 (ucast ((ucast (take_bit 4 (drop_bit 16 limit)) :: u8) AND 0x0F)) :: u64) n = bit limit n"
      using t [of n] by (cases "n < 16"; cases "n < 20"; auto simp: bit_simps)
  qed
  finally show ?thesis .
qed

lemma gdt_segments:
  assumes "length gdt = GDT_ENTRIES"
  shows "let g = snd (tss_init a (gdt_init gdt)) in
    segment_code (selector_entry g 0x08) \<and> segment_dpl (selector_entry g 0x08) = 0 \<and>
    segment_code (selector_entry g 0x2B) \<and> segment_dpl (selector_entry g 0x2B) = 3 \<and>
    \<not> segment_code (selector_entry g 0x23) \<and> segment_dpl (selector_entry g 0x23) = 3"
  using assms
  by (simp add: Let_def tss_init_def gdt_set_tss_entry_def gdt_init_def gdt_set_entry_def selector_entry_def segment_code_def segment_dpl_def)

section \<open>Interrupts and the scheduler\<close>

text \<open>Whether the tick takes the processor away: the time slice is used up, the process is the idle process or it no longer runs.\<close>

definition slice_over :: "process \<Rightarrow> bool" where
  "slice_over p \<longleftrightarrow> ticks_remaining p \<le> 1 \<or> pid p = 0 \<or> pstate p \<noteq> PROCESS_RUNNING"

lemma tick_keeps:
  assumes inv: "sched_inv w (as' @ c # bs)" and c: "current_process w = c" and p: "woken w c = Some p"
  shows "\<exists>w'. scheduler_tick w = Some w' \<and> sched_inv w' (as' @ c # bs) \<and>
    current_process w' = (if slice_over p then next_ready (woken w) c (bs @ as') else c)"
proof (cases "slice_over p")
  case True
  then have "ticks_remaining p \<le> 1 \<or> pid p = 0 \<or> pstate p \<noteq> PROCESS_RUNNING" by (simp add: slice_over_def)
  from tick_effect [OF inv c p this] True show ?thesis by (auto simp: steps_to_def)
next
  case False
  let ?w' = "w\<lparr>procs := (woken w)(c \<mapsto> p\<lparr>ticks_remaining := ticks_remaining p - 1\<rparr>)\<rparr>"
  have q: "run_queue w (as' @ c # bs)" "table_ok w" "c \<noteq> 0" using inv by (auto simp: sched_inv_def run_queue_def)
  have "hd (as' @ c # bs) \<in> set (as' @ c # bs)" by (rule hd_in_set) simp
  then have "run_queue_head w \<noteq> 0" using q(1) unfolding run_queue_def by (metis append_is_Nil_conv list.distinct(1))
  then have "scheduler_tick w = Some ?w'"
    using wake_sleepers [OF q(2)] q(3) c p False unfolding scheduler_tick_def slice_over_def by (auto simp: upd_proc_def)
  moreover have "sched_inv ?w' (as' @ c # bs)"
  proof -
    have "map_option pnext (procs w c) = Some (pnext p)" using woken_links(1) [of "set (process_table w)" w c] p by simp
    then show ?thesis
      using woken_links(1) [of "set (process_table w)" w] woken_running [of "set (process_table w)" w] p inv c
      by (intro same_links_inv [OF inv]) (auto simp: sched_inv_def)
  qed
  ultimately show ?thesis using False c by auto
qed

lemma ports_more: "pst.more w' = pst.more w \<Longrightarrow> ports (w' :: 'a dst_scheme) = ports w"
  by (cases w; cases w'; simp)

lemma woken_screen [simp]: "woken_of T (w\<lparr>screen := s\<rparr>) = woken_of T w"
  by (simp add: woken_of_def)

lemma timer_irq_keeps:
  assumes inv: "sched_inv w (as' @ c # bs)" and c: "current_process w = c" and p: "woken (w\<lparr>ticks := ticks w + 1\<rparr>) c = Some p"
  shows "\<exists>w'. timer_irq w = Some (current_process w' = c, w') \<and> sched_inv w' (as' @ c # bs) \<and> ports w' = ports w \<and>
    current_process w' = (if slice_over p then next_ready (woken (w\<lparr>ticks := ticks w + 1\<rparr>)) c (bs @ as') else c)"
proof -
  obtain s where ts: "timer_handler (ticks w) (screen w) = (ticks w + 1, s)" by (simp add: timer_handler_def Let_def)
  let ?w = "w\<lparr>ticks := ticks w + 1\<rparr>\<lparr>screen := s\<rparr>"
  have w: "sched_inv ?w (as' @ c # bs)" using inv by (auto simp: sched_inv_def run_queue_def table_ok_def)
  have p': "woken ?w c = Some p" using p by simp
  from tick_keeps [OF w _ p'] c obtain w' where w': "scheduler_tick ?w = Some w'" "sched_inv w' (as' @ c # bs)"
    "current_process w' = (if slice_over p then next_ready (woken ?w) c (bs @ as') else c)" by auto
  moreover have "ports w' = ports ?w" by (rule ports_more [OF scheduler_tick_more [OF w'(1)]])
  ultimately show ?thesis using ts c by (simp add: timer_irq_def)
qed

lemma process_wake_frame:
  "process_wake q w = Some w' \<Longrightarrow> current_process w' = current_process w \<and> ports (w' :: 'a dst_scheme) = ports w"
  by (auto simp: process_wake_def set_pstate_def upd_proc_def split: if_splits bind_splits)

lemma keyboard_irq_keeps:
  assumes inv: "sched_inv w xs" and k: "keyboard_waiting w \<noteq> 0 \<longrightarrow> procs w (keyboard_waiting w) \<noteq> None"
  shows "\<exists>w'. keyboard_handler scancode w = Some w' \<and> sched_inv w' xs \<and> current_process w' = current_process w \<and> ports w' = ports w"
proof -
  let ?w1 = "w\<lparr>pending_key := scancode_table ! unat scancode\<rparr>"
  have i1: "sched_inv ?w1 xs" using inv by (auto simp: sched_inv_def run_queue_def table_ok_def)
  have wake: "\<exists>w2. process_wake (keyboard_waiting w) ?w1 = Some w2 \<and> sched_inv w2 xs"
  proof (cases "keyboard_waiting w = 0")
    case False
    then obtain x where x: "procs ?w1 (keyboard_waiting w) = Some x" using k by auto
    then show ?thesis using set_pstate_inv [OF i1 x, of PROCESS_READY] i1 False by (auto simp: process_wake_def)
  qed (simp add: process_wake_def i1)
  then obtain w2 where w2: "process_wake (keyboard_waiting w) ?w1 = Some w2" "sched_inv w2 xs" by blast
  have "sched_inv (w2\<lparr>keyboard_waiting := 0\<rparr>) xs" using w2(2) by (auto simp: sched_inv_def run_queue_def table_ok_def)
  then show ?thesis using w2(1) inv i1 process_wake_frame [OF w2(1)] by (auto simp: keyboard_handler_def Let_def)
qed





end
