(* ===== verification/Boot.thy ===== *)
theory Boot
  imports Shell Interrupts
begin

text \<open>
  The start of the kernel, \<open>src/kernel/core/kernel.c\<close>: \<open>kernel_main\<close> in the order of the source, cut into the
  stages that its messages name. What the hardware and the boot loader provide (the addresses of assembly routines, the memory
  map, the image of the first program) is the record \<open>hardware\<close>. Progress messages on the screen are
  modelled; the diagnostic messages on the serial port are left out, here as in the other theories. A panic is
  \<^term>\<open>None\<close>.
\<close>

record hardware =
  hw_stub :: "nat \<Rightarrow> u64"
  hw_tss_address :: u64
  hw_efer :: u64
  hw_syscall_entry :: u64
  hw_pic_masks :: "u8 \<times> u8"
  hw_heap_memory :: hmem
  hw_bitmap_memory :: "u64 \<Rightarrow> u8"
  hw_e820_map :: "e820_entry list"
  hw_highest_ram :: u64
  hw_devfs_data :: u64
  hw_hello_image :: "u8 list"
  hw_idle_process :: u64
  hw_shell_process :: u64

record kst = dst +
  gdt :: "gdt_entry list"
  idt :: "idt_entry list"
  msrs :: "(u64 \<times> u64) list"

section \<open>The stages\<close>

definition stage_marked :: "string \<Rightarrow> string \<Rightarrow> (kst \<Rightarrow> kst option) \<Rightarrow> kst \<Rightarrow> kst option" where
  "stage_marked mark message act w =
     do { w1 \<leftarrow> say message [] (colour_to 15 w); w2 \<leftarrow> act w1; say (mark @ newline) [] (colour_to 10 w2) }"

definition stage :: "string \<Rightarrow> (kst \<Rightarrow> kst option) \<Rightarrow> kst \<Rightarrow> kst option" where
  "stage message act w = stage_marked '' [DONE]'' message act w"

definition init_tss :: "hardware \<Rightarrow> kst \<Rightarrow> kst" where
  "init_tss hw w = (let (t, g) = tss_init (hw_tss_address hw) (gdt w) in w\<lparr>gdt := g, tss_rsp0 := t_rsp0 t\<rparr>)"

definition rtc_init :: "kst \<Rightarrow> kst option" where
  "rtc_init w = do { (t, rest) \<leftarrow> rtc_read (cmos_status w) (cmos_readings w); Some (w\<lparr>cmos_readings := rest\<rparr>) }"

definition keyboard_init :: "kst \<Rightarrow> kst" where
  "keyboard_init w = w"

definition boot_cpu :: "hardware \<Rightarrow> kst \<Rightarrow> kst option" where
  "boot_cpu hw w0 =
     do { let w = w0\<lparr>ports := serial_init (ports w0), screen := vga_init (screen w0)\<rparr>;
          w \<leftarrow> say_lines [''acornOS v0.1'', ''------------''] w;
          w \<leftarrow> stage ''Initialising GDT...'' (\<lambda>w. Some (w\<lparr>gdt := gdt_init (gdt w)\<rparr>)) w;
          w \<leftarrow> stage ''Initialising TSS...'' (\<lambda>w. Some (init_tss hw w)) w;
          w \<leftarrow> stage ''Initialising IDT...'' (\<lambda>w. Some (w\<lparr>idt := idt_init (hw_stub hw) (idt w)\<rparr>)) w;
          w \<leftarrow> stage ''Initialising SYSCALL/SYSRET...'' (\<lambda>w. Some (w\<lparr>msrs := syscall_msr_init (hw_efer hw) (hw_syscall_entry hw)\<rparr>)) w;
          w \<leftarrow> stage ''Initialising PIC...'' (\<lambda>w. Some (w\<lparr>ports := pic_init (fst (hw_pic_masks hw)) (snd (hw_pic_masks hw)) (ports w)\<rparr>)) w;
          w \<leftarrow> stage ''Initialising timer...'' (\<lambda>w. Some (w\<lparr>ports := timer_init (ports w)\<rparr>)) w;
          w \<leftarrow> stage ''Initialising RTC...'' rtc_init w;
          stage ''Initialising keyboard...'' (\<lambda>w. Some (keyboard_init w)) w }"

definition boot_memory :: "hardware \<Rightarrow> kst \<Rightarrow> kst option" where
  "boot_memory hw w0 =
     do { w \<leftarrow> stage_marked '' [DONE'' ''Initialising memory manager...'' (\<lambda>w. Some (w\<lparr>heap := mem_init (hw_heap_memory hw)\<rparr>)) w0;
          w \<leftarrow> stage ''Initialising PMM...'' (\<lambda>w. Some (w\<lparr>pages := pmm_init (hw_bitmap_memory hw) (hw_e820_map hw) (hw_highest_ram hw)\<rparr>)) w;
          w \<leftarrow> stage ''Initialising paging...'' (\<lambda>w. Some (paging_init w)) w;
          w \<leftarrow> stage ''Initialising process manager...'' (\<lambda>w. Some (process_init w)) w;
          w \<leftarrow> stage ''Initialising scheduler...'' (\<lambda>w. Some (scheduler_init w)) w;
          stage_marked '' [DONE]]'' ''Initialising syscalls...'' Some w }"

text \<open>A mount that fails stops the kernel; the result of the other calls is not looked at.\<close>

definition or_panic :: "(kst \<Rightarrow> (int \<times> kst) option) \<Rightarrow> kst \<Rightarrow> kst option" where
  "or_panic f w = do { (res, w1) \<leftarrow> f w; if res < 0 then None else Some w1 }"

definition ignoring :: "(kst \<Rightarrow> (int \<times> kst) option) \<Rightarrow> kst \<Rightarrow> kst option" where
  "ignoring f w = do { (res, w1) \<leftarrow> f w; Some w1 }"

definition boot_mounts :: "hardware \<Rightarrow> kst \<Rightarrow> kst option" where
  "boot_mounts hw w0 =
     do { w \<leftarrow> stage ''Initialising VFS...'' (\<lambda>w. Some (vfs_init w)) w0;
          w \<leftarrow> stage ''Mounting shadowFS...'' (or_panic (\<lambda>w. shadowfs_mount w ''/temp'' (8 * 1024 * 1024))) w;
          stage ''Mounting devFS...'' (or_panic (devfs_mount (hw_devfs_data hw) ''/devices'')) w }"

definition register_device :: "string \<Rightarrow> read_handler option \<Rightarrow> write_handler option \<Rightarrow> kst \<Rightarrow> kst option" where
  "register_device name rd wr w = stage (''Registering /devices/'' @ name @ ''...'') (ignoring (devfs_register ''/devices'' name rd wr)) w"

definition boot_registrations :: "kst \<Rightarrow> kst option" where
  "boot_registrations w0 =
     do { w \<leftarrow> register_device ''display'' None (Some W_DISPLAY) w0;
          w \<leftarrow> register_device ''keyboard'' (Some R_KEYBOARD) None w;
          w \<leftarrow> register_device ''null'' (Some R_NULL) (Some W_NULL) w;
          w \<leftarrow> register_device ''random'' (Some R_RANDOM) None w;
          w \<leftarrow> register_device ''serial'' (Some R_SERIAL) (Some W_SERIAL) w;
          register_device ''rtc'' (Some R_RTC) None w }"

definition open_stdio :: "kst \<Rightarrow> kst option" where
  "open_stdio w0 =
     do { w \<leftarrow> ignoring (\<lambda>w. vfs_open_at fs_table w ''/devices/keyboard'' O_RDONLY 0) w0;
          w \<leftarrow> ignoring (\<lambda>w. vfs_open_at fs_table w ''/devices/display'' O_WRONLY 1) w;
          ignoring (\<lambda>w. vfs_open_at fs_table w ''/devices/display'' O_WRONLY 2) w }"

definition boot_stdio :: "kst \<Rightarrow> kst option" where
  "boot_stdio w0 =
     do { w \<leftarrow> stage ''Setting up stdio...'' open_stdio w0;
          stage ''Mounting procFS...'' (or_panic (procfs_mount ''/process'')) w }"

section \<open>The self tests\<close>

text \<open>\<open>fd = vfs_open(path, flags); if(fd >= 0) { ...; vfs_close(fd); }\<close>\<close>

definition with_open :: "string \<Rightarrow> u32 \<Rightarrow> (int \<Rightarrow> kst \<Rightarrow> kst option) \<Rightarrow> kst \<Rightarrow> kst option" where
  "with_open path flags body w =
     do { (d, w1) \<leftarrow> vfs_open fs_table w path flags;
          if d < 0 then Some w1 else do { w2 \<leftarrow> body d w1; ignoring (\<lambda>w. vfs_close fs_table w d) w2 } }"

definition put_text :: "u8 list \<Rightarrow> int \<Rightarrow> kst \<Rightarrow> kst option" where
  "put_text bs d w = ignoring (\<lambda>w. vfs_write fs_table w d (Some bs) (of_nat (length bs))) w"

definition get_text :: "u32 \<Rightarrow> int \<Rightarrow> kst \<Rightarrow> kst option" where
  "get_text n d w = do { (r, bs, w1) \<leftarrow> vfs_read fs_table w d True n; Some w1 }"

definition walk_directory :: "int \<Rightarrow> kst \<Rightarrow> kst option" where
  "walk_directory d w = each_entry (\<lambda>e w. Some w) d w"

text \<open>The first file has to be created: the kernel stops when it cannot be.\<close>

definition test_create :: "kst \<Rightarrow> kst option" where
  "test_create w =
     do { (d, w1) \<leftarrow> vfs_open fs_table w ''/temp/test.txt'' (O_CREAT OR O_WRONLY);
          if d < 0 then None
          else do { w2 \<leftarrow> put_text (bytes_of (''Hello from shadowFS!'' @ newline)) d w1; ignoring (\<lambda>w. vfs_close fs_table w d) w2 } }"

definition test_files :: "kst \<Rightarrow> kst option" where
  "test_files w0 =
     do { w \<leftarrow> test_create w0;
          w \<leftarrow> with_open ''/temp/test.txt'' O_RDONLY (get_text 21) w;
          w \<leftarrow> with_open ''/temp'' O_RDONLY walk_directory w;
          w \<leftarrow> ignoring (\<lambda>w. vfs_mkdir fs_table w ''/temp/testdir'') w;
          w \<leftarrow> with_open ''/temp'' O_RDONLY walk_directory w;
          w \<leftarrow> ignoring (\<lambda>w. vfs_delete fs_table w ''/temp/test.txt'') w;
          w \<leftarrow> with_open ''/temp'' O_RDONLY walk_directory w;
          w \<leftarrow> with_open ''/temp/trunc.txt'' (O_CREAT OR O_WRONLY) (put_text (bytes_of ''Hello from shadowFS!'' @ [0])) w;
          w \<leftarrow> with_open ''/temp/trunc.txt'' (O_TRUNC OR O_WRONLY) (\<lambda>d. Some) w;
          with_open ''/temp/trunc.txt'' O_RDONLY (get_text 32) w }"

definition test_devices :: "kst \<Rightarrow> kst option" where
  "test_devices w0 =
     do { w \<leftarrow> with_open ''/devices/display'' O_WRONLY (put_text (bytes_of (''Hello from devFS!'' @ newline))) w0;
          w \<leftarrow> with_open ''/devices/null'' O_WRONLY (put_text (bytes_of (''This should be discarded'' @ newline))) w;
          w \<leftarrow> with_open ''/devices/serial'' O_WRONLY (put_text (bytes_of (''Hello from /devices/serial!'' @ newline))) w;
          w \<leftarrow> with_open ''/devices'' O_RDONLY walk_directory w;
          w \<leftarrow> with_open ''/devices/random'' O_RDONLY (get_text 8) w;
          with_open ''/process/meminfo'' O_RDONLY (\<lambda>d w. do { (n, text, w1) \<leftarrow> read_text d 255 w; Some w1 }) w }"

section \<open>The first processes\<close>

definition start_idle :: "hardware \<Rightarrow> kst \<Rightarrow> kst option" where
  "start_idle hw w =
     do { (idle, w1) \<leftarrow> process_create (Some ''idle'') (hw_idle_process hw) 0 w;
          if idle = 0 then None
          else do { w2 \<leftarrow> upd_proc idle (\<lambda>p. p\<lparr>time_slice := 1, ticks_remaining := 1\<rparr>) w1; scheduler_add idle w2 } }"

definition start_hello :: "hardware \<Rightarrow> kst \<Rightarrow> kst option" where
  "start_hello hw w =
     do { elf_entry \<leftarrow> elf_get_entry (hw_hello_image hw);
          if elf_entry = 0 then Some w
          else do {
            w1 \<leftarrow> with_open ''/temp/hello.elf'' (O_WRONLY OR O_CREAT OR O_TRUNC)
                   (\<lambda>d. ignoring (\<lambda>w. vfs_write fs_table w d (Some (hw_hello_image hw)) (128 * 512))) w;
            (hello, w2) \<leftarrow> process_create (Some ''hello'') 0x400000 0 w1;
            if hello = 0 then None
            else do {
              (entry, w3) \<leftarrow> elf_load (hw_hello_image hw) hello (Some [bytes_of ''hello'']) w2;
              if entry \<noteq> 0 then scheduler_add hello w3 else Some w3 } } }"

definition start_shell :: "hardware \<Rightarrow> kst \<Rightarrow> kst option" where
  "start_shell hw w =
     do { (sh, w1) \<leftarrow> process_create (Some ''shell'') (hw_shell_process hw) 0 w;
          if sh = 0 then None else scheduler_add sh w1 }"

definition start_processes :: "hardware \<Rightarrow> kst \<Rightarrow> kst option" where
  "start_processes hw w =
     do { w1 \<leftarrow> start_idle hw w; w2 \<leftarrow> start_hello hw w1; w3 \<leftarrow> start_shell hw w2; scheduler_start w3 }"

definition kernel_main :: "hardware \<Rightarrow> kst \<Rightarrow> kst option" where
  "kernel_main hw w0 =
     do { w \<leftarrow> boot_cpu hw w0; w \<leftarrow> boot_memory hw w; w \<leftarrow> boot_mounts hw w; w \<leftarrow> boot_registrations w; w \<leftarrow> boot_stdio w;
          w \<leftarrow> test_files w; w \<leftarrow> test_devices w; start_processes hw w }"

text \<open>The body of the shell process: the first prompt, and one round of its loop. A round without a key has given the
  processor away.\<close>

definition shell_process_round :: "shell \<Rightarrow> 'a dst_scheme \<Rightarrow> (outcome \<times> shell \<times> 'a dst_scheme) option" where
  "shell_process_round s w =
     do { (k, w1) \<leftarrow> keyboard_getchar w;
          case k of None \<Rightarrow> Some (Finished, s, w1) | Some c \<Rightarrow> shell_handle_key c s w1 }"

section \<open>The self tests leave no file open\<close>

lemma tidy_write: "vfs_write fs_table w d b n = Some (res, w') \<Longrightarrow> tidy w w'"
  unfolding tidy_def using kernel_fs.write_tab by blast

lemma tidy_bodies:
  "put_text bs d w = Some w' \<Longrightarrow> tidy w w'" "get_text n d w = Some w' \<Longrightarrow> tidy w w'" "walk_directory d w = Some w' \<Longrightarrow> tidy w w'"
  by (auto simp: put_text_def get_text_def walk_directory_def ignoring_def Option.bind_eq_Some_conv dest: tidy_write tidy_ops(1) tidy_each_entry)

lemma tidy_with_open:
  assumes "with_open path flags body w = Some w'" "\<And>d w w'. body d w = Some w' \<Longrightarrow> tidy w w'"
  shows "tidy w w'"
  using assms(1) unfolding with_open_def
  by (rule tidy_use) (auto simp: ignoring_def Option.bind_eq_Some_conv dest: assms(2))

lemma tidy_seq:
  assumes "Option.bind r g = Some w'" "\<And>w1. r = Some w1 \<Longrightarrow> tidy w w1" "\<And>w1. g w1 = Some w' \<Longrightarrow> tidy w1 w'"
  shows "tidy w w'"
proof -
  obtain w1 where "r = Some w1" "g w1 = Some w'" using assms(1) by (auto simp: Option.bind_eq_Some_conv)
  then show ?thesis using tidy_trans [OF assms(2,3)] by blast
qed

lemma tidy_tests:
  "ignoring (\<lambda>w. vfs_mkdir fs_table w path) w = Some w' \<Longrightarrow> tidy w w'" "ignoring (\<lambda>w. vfs_delete fs_table w path) w = Some w' \<Longrightarrow> tidy w w'"
  "do { (n, t, w1) \<leftarrow> read_text d 255 w; Some w1 } = Some w' \<Longrightarrow> tidy w w'"
  by (auto simp: ignoring_def Option.bind_eq_Some_conv dest: tidy_ops(3,4,5))

lemma tidy_test_create: "test_create w = Some w' \<Longrightarrow> tidy w w'"
  unfolding test_create_def by (erule tidy_use) (auto simp: ignoring_def Option.bind_eq_Some_conv dest: tidy_bodies)

lemma tidy_test_devices: "test_devices w = Some w' \<Longrightarrow> tidy w w'"
  unfolding test_devices_def by (elim tidy_seq; (erule tidy_with_open, (erule tidy_bodies tidy_tests)))

lemma tidy_test_files: "test_files w = Some w' \<Longrightarrow> tidy w w'"
  unfolding test_files_def
  by (elim tidy_seq; (erule tidy_tests tidy_test_create | (erule tidy_with_open, (erule tidy_bodies | simp))))

section \<open>Creating a process\<close>

text \<open>Enough memory for \<open>n\<close> more processes: a control block on the heap, a stack and a page directory each.\<close>

definition room_for :: "nat \<Rightarrow> 'a pst_scheme \<Rightarrow> bool" where
  "room_for n w \<longleftrightarrow> kheap_inv (heap w) \<and> heap_room (heap w) (304 * n + 5) \<and> (\<forall>p. procs w p \<noteq> None \<longrightarrow> kheap_live (heap w) p \<noteq> None) \<and>
     pmm_wf (pages w) \<and> 0 \<notin> pmm_avail (pages w) \<and> 2 * n \<le> card (pmm_avail (pages w))"

lemma pmm_alloc_avail:
  assumes "pmm_wf s" "0 \<notin> pmm_avail s" "Suc n \<le> card (pmm_avail s)"
  shows "\<exists>a s'. pmm_alloc s = Some (a, s') \<and> a \<noteq> 0 \<and> pmm_wf s' \<and> 0 \<notin> pmm_avail s' \<and> n \<le> card (pmm_avail s')"
proof -
  have "pmm_avail s \<noteq> {}" using assms(3) by auto
  then obtain a s' where a: "pmm_alloc s = Some (a, s')" using pa.alloc_None [OF assms(1)] by fastforce
  note r = pa.alloc_Some [OF assms(1) a]
  then have "card (pmm_avail s') = card (pmm_avail s) - 1" by (simp add: card_Diff_singleton)
  then show ?thesis using a r assms by (intro exI [of _ a] exI [of _ s']) auto
qed

text \<open>Writing table entries changes nothing but the contents of pages.\<close>

lemma fold_page_mem:
  assumes "\<And>i w. \<exists>m. g i w = w\<lparr>page_mem := m\<rparr>"
  shows "\<exists>m. fold g is w = w\<lparr>page_mem := m\<rparr>"
proof (induction "is" arbitrary: w)
  case Nil
  then show ?case by (intro exI [of _ "page_mem w"]) simp
next
  case (Cons i "is")
  obtain m where m: "g i w = w\<lparr>page_mem := m\<rparr>" using assms by blast
  obtain m' where "fold g is (w\<lparr>page_mem := m\<rparr>) = (w\<lparr>page_mem := m\<rparr>)\<lparr>page_mem := m'\<rparr>" using Cons by blast
  then show ?case using m by (intro exI [of _ m']) simp
qed

lemma set_entry_page_mem: "\<exists>m. set_entry t i v w = w\<lparr>page_mem := m\<rparr>"
  by (auto simp: set_entry_def)

lemma clone_directory_pages:
  assumes "pmm_wf (pages w)" "0 \<notin> pmm_avail (pages w)" "Suc n \<le> card (pmm_avail (pages w))"
  shows "\<exists>d pm m. paging_clone_directory w = Some (d, w\<lparr>pages := pm, page_mem := m\<rparr>) \<and> pmm_wf pm \<and> 0 \<notin> pmm_avail pm \<and> n \<le> card (pmm_avail pm)"
proof -
  obtain a pm where a: "pmm_alloc (pages w) = Some (a, pm)" "a \<noteq> 0" "pmm_wf pm" "0 \<notin> pmm_avail pm" "n \<le> card (pmm_avail pm)"
    using pmm_alloc_avail [OF assms] by blast
  obtain m where m: "fold (\<lambda>i. set_entry (physical_to_virtual a) (of_nat i) 0) [0..<512] (w\<lparr>pages := pm\<rparr>) = (w\<lparr>pages := pm\<rparr>)\<lparr>page_mem := m\<rparr>"
    using fold_page_mem [where g = "\<lambda>i. set_entry (physical_to_virtual a) (of_nat i) 0"] set_entry_page_mem by blast
  obtain m' where "copy_entries (physical_to_virtual a) (kernel_pml4 w) [256..<512] (w\<lparr>pages := pm, page_mem := m\<rparr>) = (w\<lparr>pages := pm, page_mem := m\<rparr>)\<lparr>page_mem := m'\<rparr>"
    unfolding copy_entries_def
    using fold_page_mem [where g = "\<lambda>i wa. set_entry (physical_to_virtual a) (of_nat i) (entry_at wa (kernel_pml4 w) (of_nat i)) wa"] set_entry_page_mem by blast
  then have "paging_clone_directory w = Some (physical_to_virtual a, w\<lparr>pages := pm, page_mem := m'\<rparr>)"
    using a(1,2) m by (simp add: paging_clone_directory_def alloc_table_def Let_def del: upt_rec_numeral)
  then show ?thesis using a(3-5) by blast
qed

lemma process_create_total:
  assumes r: "room_for (Suc n) w" and e: "entry \<noteq> 0" and c: "current_process w = 0" and s: "find_slot (\<lambda>x. x = 0) (process_table w) 0 = Some slot"
  shows "\<exists>p x w'. process_create (Some nm) entry 0 w = Some (p, w') \<and> p \<noteq> 0 \<and> procs w p = None \<and> procs w' = (procs w)(p \<mapsto> x) \<and>
    pname x = proc_name nm \<and> pid x = next_pid w \<and> pstate x = PROCESS_READY \<and> c_rip (cpu x) = entry \<and>
    process_table w' = (process_table w)[slot := p] \<and> run_queue_head w' = run_queue_head w \<and> run_queue_tail w' = run_queue_tail w \<and>
    current_process w' = 0 \<and> next_pid w' = next_pid w + 1 \<and> room_for n w'"
proof -
  let ?x = "zero_process\<lparr>parent_pid := 0, pid := next_pid w, pname := proc_name nm, pstate := PROCESS_READY, time_slice := 10, ticks_remaining := 10, pnext := 0\<rparr>"
  have kr: "kheap_inv (heap w)" "heap_room (heap w) (304 * Suc n + 5)" using r by (simp_all add: room_for_def)
  have al: "unat (align4 SIZEOF_PROCESS) = 280" by (simp add: align4_def)
  obtain p h where h: "kmalloc (heap w) SIZEOF_PROCESS = Some (p, h)" "heap_room h (304 * n + 5)"
  proof -
    have "SIZEOF_PROCESS \<noteq> 0" "unat (align4 SIZEOF_PROCESS) + 28 < 304 * Suc n + 5" "304 * Suc n + 5 - unat (align4 SIZEOF_PROCESS) - 24 = 304 * n + 5"
      using al by simp_all
    then show ?thesis using kmalloc_room [OF kr, of SIZEOF_PROCESS] that by metis
  qed
  have hp: "kheap_inv h" "p \<noteq> 0" "kheap_live (heap w) p = None" "dom (kheap_live h) = insert p (dom (kheap_live (heap w)))"
    using kh.malloc_Some [OF kr(1) h(1)] by (auto simp: dom_def split: if_splits)
  obtain a pm where a: "pmm_alloc (pages w) = Some (a, pm)" "pmm_wf pm" "0 \<notin> pmm_avail pm" "Suc (2 * n) \<le> card (pmm_avail pm)"
    using pmm_alloc_avail [of "pages w" "Suc (2 * n)"] r by (auto simp: room_for_def)
  let ?st = "a + 0xFFFF800000000000"
  let ?c = "zero_cpu\<lparr>c_rip := entry, c_rsp := ?st + 4096 - 8, c_rbp := ?st + 4096 - 8, c_rflags := 0x200, c_cs := 0x08, c_ds := 0x10, c_ss := 0x10\<rparr>"
  let ?y = "?x\<lparr>stack := ?st, stack_top := ?st + 4096 - 8, cpu := ?c\<rparr>"
  define w4 where "w4 = (set_mem64 (?st + 4096 - 8) entry (w\<lparr>heap := h, procs := (procs w)(p \<mapsto> ?x), pages := pm, next_pid := next_pid w + 1\<rparr>))\<lparr>procs := (procs w)(p \<mapsto> ?y)\<rparr>"
  have w4: "pages w4 = pm" "procs w4 = (procs w)(p \<mapsto> ?y)" "heap w4 = h" "process_table w4 = process_table w" "run_queue_head w4 = run_queue_head w"
    "run_queue_tail w4 = run_queue_tail w" "current_process w4 = 0" "next_pid w4 = next_pid w + 1" using c by (simp_all add: w4_def set_mem64_def)
  obtain d pm' m where d: "paging_clone_directory w4 = Some (d, w4\<lparr>pages := pm', page_mem := m\<rparr>)" "pmm_wf pm'" "0 \<notin> pmm_avail pm'" "2 * n \<le> card (pmm_avail pm')"
    using clone_directory_pages [of w4 "2 * n"] a w4(1) by auto
  let ?w' = "w4\<lparr>pages := pm', page_mem := m, procs := (procs w)(p \<mapsto> ?y\<lparr>page_dir := d\<rparr>), process_table := (process_table w)[slot := p]\<rparr>"
  have "process_create (Some nm) entry 0 w =
      do { (dir, w5) \<leftarrow> paging_clone_directory w4;
           w6 \<leftarrow> upd_proc p (\<lambda>p. p\<lparr>page_dir := dir\<rparr>) w5;
           Some (p, w6\<lparr>process_table := (process_table w6)[slot := p]\<rparr>) }"
    using e c s h(1) a(1) by (simp add: process_create_def new_proc_def upd_proc_def Let_def w4_def set_mem64_def)
  then have "process_create (Some nm) entry 0 w = Some (p, ?w')" using d(1) w4(2,4) by (simp add: upd_proc_def)
  moreover have "room_for n ?w'" using r h(2) hp d w4(3) by (auto simp: room_for_def dom_def)
  moreover have "procs w p = None" using r hp(3) by (auto simp: room_for_def)
  ultimately show ?thesis using hp(2) w4 by (intro exI [of _ p] exI [of _ "?y\<lparr>page_dir := d\<rparr>"] exI [of _ ?w']) simp
qed

section \<open>The first processes\<close>

lemma room_for_procs:
  "room_for n w \<Longrightarrow> heap w' = heap w \<Longrightarrow> pages w' = pages w \<Longrightarrow> dom (procs w') = dom (procs w) \<Longrightarrow> room_for n w'"
  unfolding room_for_def by (metis domIff)

lemma start_idle_total:
  assumes r: "room_for (Suc n) w" and e: "hw_idle_process hw \<noteq> 0" and c: "current_process w = 0" "run_queue_head w = 0"
    and s: "process_table w = replicate MAX_PROCESSES 0" and q: "next_pid w = 0"
  shows "\<exists>i x w'. start_idle hw w = Some w' \<and> i \<noteq> 0 \<and> procs w' = (procs w)(i \<mapsto> x) \<and> pname x = ''idle'' \<and> pid x = 0 \<and> pstate x = PROCESS_READY \<and>
    pnext x = i \<and> process_table w' = i # replicate 15 0 \<and> run_queue_head w' = i \<and> run_queue_tail w' = i \<and> current_process w' = 0 \<and> next_pid w' = 1 \<and> room_for n w'"
proof -
  have slot: "find_slot (\<lambda>x. x = 0) (process_table w) 0 = Some 0" using s by (simp add: numeral_eq_Suc)
  obtain i x w1 where p: "process_create (Some ''idle'') (hw_idle_process hw) 0 w = Some (i, w1)" "i \<noteq> 0" "procs w1 = (procs w)(i \<mapsto> x)"
      "pname x = proc_name ''idle''" "pid x = next_pid w" "process_table w1 = (process_table w)[0 := i]" "run_queue_head w1 = run_queue_head w"
      "current_process w1 = 0" "next_pid w1 = next_pid w + 1" "room_for n w1"
    using process_create_total [OF r e c(1) slot, of "''idle''"] by blast
  let ?x = "x\<lparr>time_slice := 1, ticks_remaining := 1, pstate := PROCESS_READY, pnext := i\<rparr>"
  let ?w = "w1\<lparr>procs := (procs w)(i \<mapsto> ?x), run_queue_head := i, run_queue_tail := i\<rparr>"
  have "start_idle hw w = Some ?w" using p c by (simp add: start_idle_def upd_proc_def scheduler_add_def)
  moreover have "room_for n ?w" by (rule room_for_procs [OF p(10)]) (simp_all add: p(3))
  moreover have "process_table w1 = i # replicate 15 0" using p(6) s by (simp add: numeral_eq_Suc)
  ultimately show ?thesis using p q by (intro exI [of _ i] exI [of _ ?x] exI [of _ ?w]) (simp add: proc_name_def)
qed

lemma start_shell_total:
  assumes r: "room_for (Suc n) w" and e: "hw_shell_process hw \<noteq> 0" and c: "current_process w = 0" "next_pid w = 1"
    and i: "i \<noteq> 0" "procs w i = Some x" "run_queue_head w = i" "run_queue_tail w = i" "process_table w = i # replicate 15 0"
  shows "\<exists>s y w'. start_shell hw w = Some w' \<and> s \<noteq> 0 \<and> s \<noteq> i \<and> procs w' = (procs w)(s \<mapsto> y, i \<mapsto> x\<lparr>pnext := s\<rparr>) \<and> pname y = ''shell'' \<and> pid y = 1 \<and>
    pstate y = PROCESS_READY \<and> pnext y = i \<and> process_table w' = i # s # replicate 14 0 \<and> run_queue_head w' = i \<and> run_queue_tail w' = s \<and> current_process w' = 0"
proof -
  have slot: "find_slot (\<lambda>x. x = 0) (process_table w) 0 = Some 1" using i(1,5) by (simp add: numeral_eq_Suc)
  obtain s y w1 where p: "process_create (Some ''shell'') (hw_shell_process hw) 0 w = Some (s, w1)" "s \<noteq> 0" "procs w s = None" "procs w1 = (procs w)(s \<mapsto> y)"
      "pname y = proc_name ''shell''" "pid y = next_pid w" "process_table w1 = (process_table w)[1 := s]" "run_queue_head w1 = run_queue_head w"
      "run_queue_tail w1 = run_queue_tail w" "current_process w1 = 0"
    using process_create_total [OF r e c(1) slot, of "''shell''"] by blast
  have si: "s \<noteq> i" using p(3) i(2) by auto
  let ?y = "y\<lparr>pstate := PROCESS_READY, pnext := i\<rparr>"
  let ?w = "w1\<lparr>procs := (procs w)(s \<mapsto> ?y, i \<mapsto> x\<lparr>pnext := s\<rparr>), run_queue_tail := s\<rparr>"
  have "start_shell hw w = Some ?w"
    using p si i by (simp add: start_shell_def upd_proc_def scheduler_add_def fun_upd_twist [of s i])
  moreover have "process_table w1 = i # s # replicate 14 0" using p(7) i(5) by (simp add: numeral_eq_Suc)
  ultimately show ?thesis using p si c(2) i(3,4) by (intro exI [of _ s] exI [of _ ?y] exI [of _ ?w]) (simp add: proc_name_def)
qed

text \<open>Starting the scheduler on a queue of ready processes: its head runs.\<close>

lemma scheduler_start_total:
  assumes q: "run_queue w xs" "xs \<noteq> []" "length xs \<le> MAX_PROCESSES" "table_ok w" and r: "\<forall>q \<in> set xs. state_of (procs w) q = Some PROCESS_READY"
  shows "\<exists>w' x. scheduler_start w = Some w' \<and> sched_inv w' xs \<and> current_process w' = hd xs \<and> procs w (hd xs) = Some x \<and>
    procs w' = (procs w)(hd xs \<mapsto> x\<lparr>pstate := PROCESS_RUNNING, ticks_remaining := time_slice x\<rparr>)"
proof -
  have h: "run_queue_head w = hd xs" "hd xs \<in> set xs" using q(1,2) by (simp_all add: run_queue_def)
  then have h0: "hd xs \<noteq> 0" using q(1) unfolding run_queue_def by metis
  obtain x where x: "procs w (hd xs) = Some x" using r h(2) by fastforce
  let ?m = "(procs w)(hd xs \<mapsto> x\<lparr>pstate := PROCESS_RUNNING, ticks_remaining := time_slice x\<rparr>)"
  obtain w' where w': "scheduler_start w = Some w'" "procs w' = ?m" "current_process w' = hd xs" "run_queue_head w' = hd xs"
      "run_queue_tail w' = run_queue_tail w" "process_table w' = process_table w"
    using h(1) h0 x by (simp add: scheduler_start_def upd_proc_def)
  have "chain ?m ys e = chain (procs w) ys e" for ys e using x by (induction ys) auto
  then have "run_queue w' xs" using q(1,2) w'(2-5) by (simp add: run_queue_def)
  moreover have "table_ok w'" using q(4) w'(2,6) by (auto simp: table_ok_def)
  moreover have "q = hd xs" if "q \<in> set xs" "?m q = Some p" "pstate p = PROCESS_RUNNING" for q p
    using that r by (auto split: if_splits)
  ultimately have "sched_inv w' xs" unfolding sched_inv_def w'(2,3) using q(3) h(2) by blast
  then show ?thesis using w' x by blast
qed

text \<open>A machine after the file systems are up, without a program image.\<close>

definition bare_hardware :: hardware where
  "bare_hardware = \<lparr>hw_stub = (\<lambda>_. 0), hw_tss_address = 0, hw_efer = 0, hw_syscall_entry = 0, hw_pic_masks = (0, 0), hw_heap_memory = (\<lambda>_. \<lparr>bh_size = 0, bh_free = 0, bh_next = 0\<rparr>),
     hw_bitmap_memory = (\<lambda>_. 0), hw_e820_map = [], hw_highest_ram = 0, hw_devfs_data = 0, hw_hello_image = replicate 64 0, hw_idle_process = 0x101000, hw_shell_process = 0x102000\<rparr>"

definition fresh_machine :: kst where
  "fresh_machine = dst.extend (boot_machine\<lparr>process_table := replicate MAX_PROCESSES 0, current_process := 0, run_queue_head := 0, next_pid := 0, procs := Map.empty\<rparr>)
     (kst.fields [] [] [])"

lemma fresh_room: "room_for 2 fresh_machine"
proof -
  have m: "heap fresh_machine = heap small_machine" "pages fresh_machine = small_pmm" "procs fresh_machine = Map.empty"
    by (simp_all add: fresh_machine_def boot_machine_def two_process_machine_def two_processes_def small_machine_def ast.defs pst.defs dst.defs)
  have "card {4096, 8192, 12288, 16384 :: u64} \<le> card (pmm_avail small_pmm)" using small_avail(2) by (intro card_mono) simp_all
  then show ?thesis
    using m small_avail(1) by (auto simp: room_for_def small_machine_def heap_room_def mem_init_blocks pmm_wf_def small_pmm_def)
qed

lemma fresh_fields:
  "current_process fresh_machine = 0" "run_queue_head fresh_machine = 0" "process_table fresh_machine = replicate MAX_PROCESSES 0" "next_pid fresh_machine = 0"
  by (simp_all add: fresh_machine_def dst.defs boot_machine_def two_process_machine_def two_processes_def small_machine_def ast.defs pst.defs)

lemma bare_entries:
  "hw_idle_process bare_hardware \<noteq> 0" "hw_shell_process bare_hardware \<noteq> 0" "elf_get_entry (hw_hello_image bare_hardware) = Some 0"
proof -
  show "elf_get_entry (hw_hello_image bare_hardware) = Some 0" by (simp add: bare_hardware_def elf_get_entry_def elf_ok_def numeral_eq_Suc)
qed (simp_all add: bare_hardware_def)

lemma scheduler_add_table: "scheduler_add p w = Some w' \<Longrightarrow> process_table w' = process_table w"
  by (auto simp: scheduler_add_def upd_proc_def split: if_splits option.splits bind_splits)

lemma same_but_next_fields:
  assumes "same_but_next m m'"
  shows "state_of m' q = state_of m q" "map_option pname (m' q) = map_option pname (m q)" "map_option (\<lambda>p. c_rip (cpu p)) (m' q) = map_option (\<lambda>p. c_rip (cpu p)) (m q)"
proof -
  have e: "map_option g (m' q) = map_option g (m q)" if "\<And>p. g (p\<lparr>pnext := 0\<rparr>) = g p" for g :: "process \<Rightarrow> 'b"
  proof -
    have "map_option g (map_option (\<lambda>p. p\<lparr>pnext := 0\<rparr>) (m' q)) = map_option g (map_option (\<lambda>p. p\<lparr>pnext := 0\<rparr>) (m q))"
      using assms by (simp add: same_but_next_def)
    then show ?thesis using that by (simp add: option.map_comp comp_def)
  qed
  show "state_of m' q = state_of m q" "map_option pname (m' q) = map_option pname (m q)" "map_option (\<lambda>p. c_rip (cpu p)) (m' q) = map_option (\<lambda>p. c_rip (cpu p)) (m q)"
    by (rule e, simp)+
qed

text \<open>C27: The shell is started and gets the processor. Let the run queue hold the ready processes \<open>xs\<close> (the idle process, and the
  program when the boot image carries one), the first of them next. Given memory for one process and a free place in the process table,
  \<open>start_shell\<close> and \<open>scheduler_start\<close> succeed: the queue is \<open>xs\<close> followed by a new process named shell, the scheduler state is
  consistent, the first process of the queue runs, and within as many yields as \<open>xs\<close> has processes the shell runs.\<close>

theorem shell_runs_in_one_round:
  assumes q: "run_queue w xs" "xs \<noteq> []" "length xs < MAX_PROCESSES" "table_ok w" and r: "\<forall>q \<in> set xs. state_of (procs w) q = Some PROCESS_READY"
    and m: "room_for 1 w" "find_slot (\<lambda>x. x = 0) (process_table w) 0 = Some slot" "current_process w = 0" and e: "hw_shell_process hw \<noteq> 0"
  shows "\<exists>s y w1 w' k w''. start_shell hw w = Some w1 \<and> scheduler_start w1 = Some w' \<and> s \<notin> set xs \<and> sched_inv w' (xs @ [s]) \<and>
    procs w' s = Some y \<and> pname y = ''shell'' \<and> c_rip (cpu y) = hw_shell_process hw \<and>
    current_process w' = hd xs \<and> state_of (procs w') (hd xs) = Some PROCESS_RUNNING \<and>
    k \<le> length xs \<and> yields k w' = Some w'' \<and> current_process w'' = s \<and> state_of (procs w'') s = Some PROCESS_RUNNING"
proof -
  have "room_for (Suc 0) w" using m(1) by simp
  from process_create_total [OF this e m(3,2), of "''shell''"] obtain s y w0 where
    c: "process_create (Some ''shell'') (hw_shell_process hw) 0 w = Some (s, w0)" "s \<noteq> 0" "procs w s = None" "procs w0 = (procs w)(s \<mapsto> y)"
      "pname y = proc_name ''shell''" "c_rip (cpu y) = hw_shell_process hw" "process_table w0 = (process_table w)[slot := s]"
      "run_queue_head w0 = run_queue_head w" "run_queue_tail w0 = run_queue_tail w" by blast
  have new: "s \<notin> set xs" using c(3) r by force
  have q0: "run_queue w0 xs" using q(1) new c(4,8,9) by (simp add: run_queue_def chain_upd_other)
  obtain w1 where w1: "scheduler_add s w0 = Some w1" "run_queue w1 (xs @ [s])" "same_but_next ((procs w0)(s \<mapsto> y\<lparr>pstate := PROCESS_READY\<rparr>)) (procs w1)"
    using scheduler_add_appends [OF q0 _ c(2) new] c(4) by auto
  have st: "start_shell hw w = Some w1" using c(1,2) w1(1) by (simp add: start_shell_def)
  have t1: "process_table w1 = (process_table w)[slot := s]" using scheduler_add_table [OF w1(1)] c(7) by simp
  have s1: "state_of (procs w1) q = Some PROCESS_READY" if "q \<in> set (xs @ [s])" for q
    using same_but_next_fields(1) [OF w1(3), of q] that r new c(4) by auto
  have "dom (procs w1) = insert s (dom (procs w))" using same_but_next_dom [OF w1(3)] c(4) by auto
  then have map1: "procs w1 q \<noteq> None" if "q = s \<or> procs w q \<noteq> None" for q using that by blast
  have "table_ok w1" unfolding table_ok_def
  proof (intro conjI ballI impI)
    show "length (process_table w1) = MAX_PROCESSES" using q(4) t1 by (simp add: table_ok_def)
    fix q assume "q \<in> set (process_table w1)" "q \<noteq> 0"
    then have "q = s \<or> q \<in> set (process_table w)" using t1 set_update_subset_insert [of "process_table w" slot s] by auto
    then show "procs w1 q \<noteq> None" using map1 [of q] q(4) \<open>q \<noteq> 0\<close> unfolding table_ok_def by blast
  qed
  then obtain w' x where w': "scheduler_start w1 = Some w'" "sched_inv w' (xs @ [s])" "current_process w' = hd xs"
      "procs w' = (procs w1)(hd xs \<mapsto> x\<lparr>pstate := PROCESS_RUNNING, ticks_remaining := time_slice x\<rparr>)"
    using scheduler_start_total [OF w1(2) _ _ _ ballI [OF s1]] q(2,3) by auto
  have hs: "s \<noteq> hd xs" using new hd_in_set [OF q(2)] by metis
  obtain y' where y': "procs w' s = Some y'" "pstate y' = PROCESS_READY" using s1 [of s] w'(4) hs by auto
  have "pname y' = ''shell''" "c_rip (cpu y') = hw_shell_process hw"
    using same_but_next_fields(2,3) [OF w1(3), of s] y'(1) w'(4) hs c(5,6) by (simp_all add: proc_name_def)
  moreover have "state_of (woken w') s = Some PROCESS_READY" using y' by (simp add: woken_of_def)
  then obtain k w'' where "k < length (xs @ [s])" "yields k w' = Some w''" "current_process w'' = s" "state_of (procs w'') s = Some PROCESS_RUNNING"
    using fair_round [OF w'(2), of s] hs w'(3) by auto
  ultimately show ?thesis using st w' y'(1) new by (intro exI [of _ s] exI [of _ y'] exI [of _ w1] exI [of _ w'] exI [of _ k] exI [of _ w'']) simp
qed

text \<open>After the idle process has been started on a fresh machine, the shell runs at the first yield.\<close>

theorem shell_runs_in_one_round_witness:
  "\<exists>i s w0 w1 w' k w''. start_idle bare_hardware fresh_machine = Some w0 \<and> start_shell bare_hardware w0 = Some w1 \<and> scheduler_start w1 = Some w' \<and>
     sched_inv w' [i, s] \<and> k \<le> 1 \<and> yields k w' = Some w'' \<and> current_process w'' = s"
proof -
  have "room_for (Suc 1) fresh_machine" using fresh_room by (simp add: numeral_2_eq_2)
  from start_idle_total [OF this bare_entries(1) fresh_fields] obtain i x w0 where
    w0: "start_idle bare_hardware fresh_machine = Some w0" "i \<noteq> 0" "procs w0 = (procs fresh_machine)(i \<mapsto> x)" "pstate x = PROCESS_READY" "pnext x = i"
      "process_table w0 = i # replicate 15 0" "run_queue_head w0 = i" "run_queue_tail w0 = i" "current_process w0 = 0" "room_for 1 w0" by blast
  have "run_queue w0 [i]" "table_ok w0" "find_slot (\<lambda>x. x = 0) (process_table w0) 0 = Some 1"
    using w0(2-8) by (auto simp: run_queue_def table_ok_def numeral_eq_Suc)
  then have "\<exists>s y w1 w' k w''. start_shell bare_hardware w0 = Some w1 \<and> scheduler_start w1 = Some w' \<and> s \<notin> set [i] \<and> sched_inv w' ([i] @ [s]) \<and>
    procs w' s = Some y \<and> pname y = ''shell'' \<and> c_rip (cpu y) = hw_shell_process bare_hardware \<and>
    current_process w' = hd [i] \<and> state_of (procs w') (hd [i]) = Some PROCESS_RUNNING \<and>
    k \<le> length [i] \<and> yields k w' = Some w'' \<and> current_process w'' = s \<and> state_of (procs w'') s = Some PROCESS_RUNNING"
    using w0(3,4,9,10) bare_entries(2) by (intro shell_runs_in_one_round) simp_all
  then obtain s w1 w' k w'' where "start_shell bare_hardware w0 = Some w1" "scheduler_start w1 = Some w'" "sched_inv w' [i, s]"
    "k \<le> 1" "yields k w' = Some w''" "current_process w'' = s" by auto
  then show ?thesis using w0(1) by blast
qed

text \<open>When there is no program image, the kernel starts exactly two processes: given memory for two control blocks, two stacks and
  two page directories, the start of the processes succeeds and hands over to a consistent scheduler state in which the
  run queue is the idle process (number 0) followed by the shell (number 1), the idle process is running, and the first time the
  idle process gives the processor away the shell runs.\<close>

theorem boot_starts_shell:
  assumes r: "room_for 2 w" and e: "hw_idle_process hw \<noteq> 0" "hw_shell_process hw \<noteq> 0" "elf_get_entry (hw_hello_image hw) = Some 0"
    and c: "current_process w = 0" "run_queue_head w = 0" "process_table w = replicate MAX_PROCESSES 0" "next_pid w = 0"
  shows "\<exists>i s w' w''. start_processes hw w = Some w' \<and> i \<noteq> s \<and> sched_inv w' [i, s] \<and> current_process w' = i \<and>
    (\<exists>x. procs w' i = Some x \<and> pname x = ''idle'' \<and> pid x = 0 \<and> pstate x = PROCESS_RUNNING) \<and>
    (\<exists>y. procs w' s = Some y \<and> pname y = ''shell'' \<and> pid y = 1 \<and> pstate y = PROCESS_READY) \<and>
    scheduler_yield w' = Some w'' \<and> current_process w'' = s \<and> state_of (procs w'') s = Some PROCESS_RUNNING"
proof -
  have "room_for (Suc (Suc 0)) w" using r by (simp add: numeral_2_eq_2)
  from start_idle_total [OF this e(1) c(1,2,3,4)] obtain i x w1 where
    w1: "start_idle hw w = Some w1" "i \<noteq> 0" "procs w1 = (procs w)(i \<mapsto> x)" "pname x = ''idle''" "pid x = 0"
      "process_table w1 = i # replicate 15 0" "run_queue_head w1 = i" "run_queue_tail w1 = i" "current_process w1 = 0" "next_pid w1 = 1" "room_for (Suc 0) w1" by blast
  have h: "start_hello hw w1 = Some w1" using e(3) by (simp add: start_hello_def)
  have "procs w1 i = Some x" using w1(3) by simp
  from start_shell_total [OF w1(11) e(2) w1(9,10,2) this w1(7,8,6)] obtain s y w2 where
    w2: "start_shell hw w1 = Some w2" "s \<noteq> 0" "s \<noteq> i" "procs w2 = (procs w1)(s \<mapsto> y, i \<mapsto> x\<lparr>pnext := s\<rparr>)" "pname y = ''shell''" "pid y = 1"
      "pstate y = PROCESS_READY" "pnext y = i" "process_table w2 = i # s # replicate 14 0" "run_queue_head w2 = i" "run_queue_tail w2 = s" by blast
  let ?x = "x\<lparr>pnext := s, pstate := PROCESS_RUNNING, ticks_remaining := time_slice x\<rparr>"
  obtain w' where w': "scheduler_start w2 = Some w'" "procs w' = (procs w2)(i \<mapsto> ?x)" "process_table w' = process_table w2" "run_queue_head w' = i"
      "run_queue_tail w' = s" "current_process w' = i"
    using w1(2) w2(3,4,10,11) by (simp add: scheduler_start_def upd_proc_def)
  have m: "procs w' i = Some ?x" "procs w' s = Some y" using w2(3,4) w'(2) by simp_all
  have inv: "sched_inv w' [i, s]"
    using m w1(2) w2(2,3,7,8,9) w'(3-6) by (auto simp: sched_inv_def run_queue_def table_ok_def)
  have ready: "state_of (woken w') s = Some PROCESS_READY" using m(2) w2(7) by (simp add: woken_of_def)
  obtain w'' where w'': "scheduler_yield w' = Some w''" "current_process w'' = next_ready (woken w') i [s]"
      "\<forall>q. state_of (procs w'') q = switched (woken w') i (next_ready (woken w') i [s]) q"
    using yield_effect [of w' "[]" i "[s]"] inv w'(6) by auto
  have "next_ready (woken w') i [s] = s" using ready by (simp add: next_ready_def)
  then have "current_process w'' = s" "state_of (procs w'') s = Some PROCESS_RUNNING" using w'' w2(3) by (simp_all add: switched_def)
  moreover have "start_processes hw w = Some w'" using w1(1) h w2(1) w'(1) by (simp add: start_processes_def)
  ultimately show ?thesis
    using inv w'(6) w''(1) m w1(4,5) w2(3,5-7) by (intro exI [of _ i] exI [of _ s] exI [of _ w'] exI [of _ w'']) simp
qed

end
