(* ===== verification/Libc_Calls.thy ===== *)
theory Libc_Calls
  imports Syscall
begin

text \<open>
  The system call wrappers of the C library, \<open>src/libc/src/syscall.c\<close> and \<open>src/libc/include/acorn/syscall.h\<close>:
  a wrapper loads the number and the arguments into registers and executes \<open>syscall\<close>, and the kernel's
  handler gets these registers. Converting an \<open>int\<close> argument to \<open>long\<close> extends its sign.
\<close>

section \<open>Raw system calls\<close>

definition syscall0 :: "u64 \<Rightarrow> regs \<Rightarrow> regs" where
  "syscall0 num rg = rg\<lparr>r_rax := num\<rparr>"

definition syscall1 :: "u64 \<Rightarrow> u64 \<Rightarrow> regs \<Rightarrow> regs" where
  "syscall1 num a1 rg = rg\<lparr>r_rax := num, r_rdi := a1\<rparr>"

definition syscall2 :: "u64 \<Rightarrow> u64 \<Rightarrow> u64 \<Rightarrow> regs \<Rightarrow> regs" where
  "syscall2 num a1 a2 rg = rg\<lparr>r_rax := num, r_rdi := a1, r_rsi := a2\<rparr>"

definition syscall3 :: "u64 \<Rightarrow> u64 \<Rightarrow> u64 \<Rightarrow> u64 \<Rightarrow> regs \<Rightarrow> regs" where
  "syscall3 num a1 a2 a3 rg = rg\<lparr>r_rax := num, r_rdi := a1, r_rsi := a2, r_rdx := a3\<rparr>"

section \<open>Wrappers\<close>

definition lib_write :: "int \<Rightarrow> u64 \<Rightarrow> u64 \<Rightarrow> regs \<Rightarrow> regs" where
  "lib_write d buf count = syscall3 1 (of_int d) buf count"

definition lib_read :: "int \<Rightarrow> u64 \<Rightarrow> u64 \<Rightarrow> regs \<Rightarrow> regs" where
  "lib_read d buf count = syscall3 2 (of_int d) buf count"

definition lib_exit :: "int \<Rightarrow> regs \<Rightarrow> regs" where
  "lib_exit status = syscall1 0 (of_int status)"

definition lib_getpid :: "regs \<Rightarrow> regs" where
  "lib_getpid = syscall0 3"

definition lib_yield :: "regs \<Rightarrow> regs" where
  "lib_yield = syscall0 4"

definition lib_fork :: "regs \<Rightarrow> regs" where
  "lib_fork = syscall0 5"

definition lib_wait :: "regs \<Rightarrow> regs" where
  "lib_wait = syscall0 6"

definition lib_exec :: "u64 \<Rightarrow> u64 \<Rightarrow> regs \<Rightarrow> regs" where
  "lib_exec path argv = syscall2 7 path argv"

definition lib_open :: "u64 \<Rightarrow> int \<Rightarrow> regs \<Rightarrow> regs" where
  "lib_open path flags = syscall2 8 path (of_int flags)"

definition lib_close :: "int \<Rightarrow> regs \<Rightarrow> regs" where
  "lib_close d = syscall1 9 (of_int d)"

definition lib_seek :: "int \<Rightarrow> int \<Rightarrow> int \<Rightarrow> regs \<Rightarrow> regs" where
  "lib_seek d offset whence = syscall3 10 (of_int d) (of_int offset) (of_int whence)"

definition lib_sleep :: "u32 \<Rightarrow> regs \<Rightarrow> regs" where
  "lib_sleep seconds = syscall1 15 (ucast seconds * 1000)"

definition usleep_ms :: "u32 \<Rightarrow> u64" where
  "usleep_ms microseconds = (let ms = ucast (microseconds div 1000) in if ms = 0 then 1 else ms)"

definition lib_usleep :: "u32 \<Rightarrow> regs \<Rightarrow> regs" where
  "lib_usleep microseconds = syscall1 15 (usleep_ms microseconds)"

lemmas lib_defs = lib_write_def lib_read_def lib_exit_def lib_getpid_def lib_yield_def lib_fork_def lib_wait_def lib_exec_def lib_open_def
  lib_close_def lib_seek_def lib_sleep_def lib_usleep_def syscall0_def syscall1_def syscall2_def syscall3_def

section \<open>The interface between the library and the kernel\<close>

lemma narrow_of_int: "(ucast (of_int d :: u64) :: u32) = of_int d"
  by transfer simp

lemma to_int_of_int: "- (2 ^ 31) \<le> d \<Longrightarrow> d < 2 ^ 31 \<Longrightarrow> to_int (of_int d) = d"
  by (simp add: to_int_def narrow_of_int signed_of_int signed_take_bit_int_eq_self)

text \<open>What the dispatch does before the handler: it notes where the caller is to continue.\<close>

definition save_user :: "regs \<Rightarrow> 'a dst_scheme \<Rightarrow> 'a dst_scheme option" where
  "save_user rg w = (if current_process w \<noteq> 0 then upd_proc (current_process w) (\<lambda>p. p\<lparr>user_esp := r_rsp rg, user_eip := r_rip rg\<rparr>) w else Some w)"

lemma handler_dispatch:
  assumes "r_rax rg = of_nat n" "n < 16"
  shows "syscall_handler it m rg w = do { w1 \<leftarrow> save_user rg w; (syscall_table it m ! n) rg w1 }"
proof -
  have "(ucast (r_rax rg) :: u32) = of_nat n" using assms(1) narrow_of_int [of "int n"] by simp
  then have "unat (ucast (r_rax rg) :: u32) = n" using assms(2) by (simp add: unat_of_nat take_bit_nat_eq_self)
  then show ?thesis using assms(2) by (simp add: syscall_handler_def save_user_def Let_def)
qed

lemma save_user_regs: "r_rsp rg' = r_rsp rg \<Longrightarrow> r_rip rg' = r_rip rg \<Longrightarrow> save_user rg' w = save_user rg w"
  by (simp add: save_user_def)

lemma handler_lib:
  "syscall_handler it m (lib_exit status rg) w = do { w1 \<leftarrow> save_user rg w; sys_exit (lib_exit status rg) w1 }"
  "syscall_handler it m (lib_write d buf n rg) w = do { w1 \<leftarrow> save_user rg w; sys_write m (lib_write d buf n rg) w1 }"
  "syscall_handler it m (lib_read d buf n rg) w = do { w1 \<leftarrow> save_user rg w; sys_read (lib_read d buf n rg) w1 }"
  "syscall_handler it m (lib_getpid rg) w = do { w1 \<leftarrow> save_user rg w; sys_getpid (lib_getpid rg) w1 }"
  "syscall_handler it m (lib_yield rg) w = do { w1 \<leftarrow> save_user rg w; sys_yield (lib_yield rg) w1 }"
  "syscall_handler it m (lib_fork rg) w = do { w1 \<leftarrow> save_user rg w; sys_fork it (lib_fork rg) w1 }"
  "syscall_handler it m (lib_wait rg) w = do { w1 \<leftarrow> save_user rg w; sys_wait (lib_wait rg) w1 }"
  "syscall_handler it m (lib_exec path argv rg) w = do { w1 \<leftarrow> save_user rg w; sys_exec m (lib_exec path argv rg) w1 }"
  "syscall_handler it m (lib_open path flags rg) w = do { w1 \<leftarrow> save_user rg w; sys_open m (lib_open path flags rg) w1 }"
  "syscall_handler it m (lib_close d rg) w = do { w1 \<leftarrow> save_user rg w; sys_close (lib_close d rg) w1 }"
  "syscall_handler it m (lib_seek d offset whence rg) w = do { w1 \<leftarrow> save_user rg w; sys_seek (lib_seek d offset whence rg) w1 }"
  "syscall_handler it m (lib_sleep secs rg) w = do { w1 \<leftarrow> save_user rg w; sys_sleep (lib_sleep secs rg) w1 }"
  "syscall_handler it m (lib_usleep us rg) w = do { w1 \<leftarrow> save_user rg w; sys_sleep (lib_usleep us rg) w1 }"
  by (rule trans [OF handler_dispatch [where n = 0]] trans [OF handler_dispatch [where n = 1]] trans [OF handler_dispatch [where n = 2]]
      trans [OF handler_dispatch [where n = 3]] trans [OF handler_dispatch [where n = 4]] trans [OF handler_dispatch [where n = 5]]
      trans [OF handler_dispatch [where n = 6]] trans [OF handler_dispatch [where n = 7]] trans [OF handler_dispatch [where n = 8]]
      trans [OF handler_dispatch [where n = 9]] trans [OF handler_dispatch [where n = 10]] trans [OF handler_dispatch [where n = 15]];
      simp add: lib_defs syscall_table_def save_user_def; fail)+

lemma narrow_small: "n \<le> 4096 \<Longrightarrow> \<not> 4096 < (ucast (n :: u64) :: u32) \<and> unat (ucast n :: u32) = unat n"
  by (simp add: word_le_nat_alt word_less_nat_alt unsigned_ucast_eq take_bit_nat_eq_self)

text \<open>The library and the kernel agree on the system call interface. A call of \<open>open\<close>, \<open>close\<close>, \<open>read\<close>, \<open>write\<close> or \<open>seek\<close> in a
  program with a count of at most 4096 and pointers that are not null is the operation of the virtual file system on the same descriptor, buffer, flags and count, whatever the rest of the
  registers holds: the numbers of the library select the handlers of the kernel and every argument arrives unchanged,
  negative ones included.\<close>

theorem libc_calls_are_vfs_operations:
  fixes w :: "'a dst_scheme"
  assumes d: "- (2 ^ 31) \<le> d" "d < 2 ^ 31" and k: "- (2 ^ 31) \<le> whence" "whence < 2 ^ 31" and buf: "buf \<noteq> 0" "n \<le> 4096" and p: "user_string m path = Some s" "path \<noteq> 0"
  shows "syscall_handler it m (lib_write d buf n rg) w =
      do { w1 \<leftarrow> save_user rg w; (r, w2) \<leftarrow> vfs_write fs_table w1 d (Some (user_bytes m buf (unat n))) (ucast n); ret (of_int r) (lib_write d buf n rg) w2 } \<and>
    syscall_handler it m (lib_read d buf n rg) w =
      do { w1 \<leftarrow> save_user rg w; (r, bs, w2) \<leftarrow> vfs_read fs_table w1 d True (ucast n); Some (Returns, (lib_read d buf n rg)\<lparr>r_rax := of_int r\<rparr>, Bytes bs, w2) } \<and>
    syscall_handler it m (lib_open path flags rg) w =
      do { w1 \<leftarrow> save_user rg w; (r, w2) \<leftarrow> vfs_open fs_table w1 (chars_of s) (of_int flags); ret (of_int r) (lib_open path flags rg) w2 } \<and>
    syscall_handler it m (lib_close d rg) w =
      do { w1 \<leftarrow> save_user rg w; (r, w2) \<leftarrow> vfs_close fs_table w1 d; ret (of_int r) (lib_close d rg) w2 } \<and>
    syscall_handler it m (lib_seek d offset whence rg) w =
      do { w1 \<leftarrow> save_user rg w; (r, w2) \<leftarrow> vfs_seek w1 d (of_int offset) whence; ret (of_int r) (lib_seek d offset whence rg) w2 }"
proof -
  note td = to_int_of_int [OF d] and tk = to_int_of_int [OF k] and ns = narrow_small [OF buf(2)]
  have "sys_write m (lib_write d buf n rg) w1 = do { (r, w2) \<leftarrow> vfs_write fs_table w1 d (Some (user_bytes m buf (unat n))) (ucast n); ret (of_int r) (lib_write d buf n rg) w2 }" for w1 :: "'a dst_scheme"
    using buf(1) ns by (simp add: sys_write_def lib_defs td Let_def)
  moreover have "sys_read (lib_read d buf n rg) w1 = do { (r, bs, w2) \<leftarrow> vfs_read fs_table w1 d True (ucast n); Some (Returns, (lib_read d buf n rg)\<lparr>r_rax := of_int r\<rparr>, Bytes bs, w2) }" for w1 :: "'a dst_scheme"
    using buf(1) ns by (simp add: sys_read_def lib_defs td Let_def)
  moreover have "sys_open m (lib_open path flags rg) w1 = do { (r, w2) \<leftarrow> vfs_open fs_table w1 (chars_of s) (of_int flags); ret (of_int r) (lib_open path flags rg) w2 }" for w1 :: "'a dst_scheme"
    using p by (simp add: sys_open_def lib_defs narrow_of_int)
  moreover have "sys_close (lib_close d rg) w1 = do { (r, w2) \<leftarrow> vfs_close fs_table w1 d; ret (of_int r) (lib_close d rg) w2 }" for w1 :: "'a dst_scheme"
    by (simp add: sys_close_def lib_defs td)
  moreover have "sys_seek (lib_seek d offset whence rg) w1 = do { (r, w2) \<leftarrow> vfs_seek w1 d (of_int offset) whence; ret (of_int r) (lib_seek d offset whence rg) w2 }" for w1 :: "'a dst_scheme"
    by (simp add: sys_seek_def lib_defs td tk narrow_of_int)
  ultimately show ?thesis unfolding handler_lib by (cases "save_user rg w") simp_all
qed

section \<open>Sleeping\<close>

text \<open>\<open>sleep\<close> asks for exactly one hundred ticks per second, while \<open>usleep\<close> does not round up to whole ticks as its documentation
  says: the microseconds are cut to milliseconds first, so a request of \<open>k\<close> ticks and up to 999 microseconds more gets \<open>k\<close> ticks only.\<close>

theorem usleep_rounds_down:
  assumes s: "unat secs < 2 ^ 25" and k: "0 < unat k" "unat k < 400000" and r: "unat r < 1000"
  shows "unat (sleep_ticks (r_rdi (lib_sleep secs rg))) = (if secs = 0 then 1 else 100 * unat secs) \<and>
    sleep_ticks (r_rdi (lib_usleep (10000 * k + r) rg)) = k"
proof -
  have "unat (ucast secs * 1000 :: u64) = unat secs * 1000" using s by (simp add: unat_word_ariths unsigned_ucast_eq take_bit_nat_eq_self)
  then have "unat ((ucast secs * 1000 * 100 + 999 :: u64) div 1000) = 100 * unat secs" using s by (simp add: unat_word_ariths unsigned_ucast_eq take_bit_nat_eq_self unat_div)
  then have t: "unat (ucast ((ucast secs * 1000 * 100 + 999 :: u64) div 1000) :: u32) = 100 * unat secs" using s by (simp add: unsigned_ucast_eq take_bit_nat_eq_self)
  have a: "unat (sleep_ticks (r_rdi (lib_sleep secs rg))) = (if secs = 0 then 1 else 100 * unat secs)"
    using t by (auto simp: sleep_ticks_def lib_defs Let_def unat_eq_0 simp flip: unat_eq_0)
  have "unat ((10000 * k + r) div 1000) = 10 * unat k" using k r by (simp add: unat_word_ariths unat_div)
  then have u: "unat (ucast ((10000 * k + r) div 1000) :: u64) = 10 * unat k" using k by (simp add: unsigned_ucast_eq take_bit_nat_eq_self)
  then have "(ucast ((10000 * k + r) div 1000) :: u64) \<noteq> 0" using k(1) by auto
  then have "unat (usleep_ms (10000 * k + r)) = 10 * unat k" using u by (simp add: usleep_ms_def Let_def)
  then have "unat ((usleep_ms (10000 * k + r) * 100 + 999) div 1000) = unat k" using k by (simp add: unat_word_ariths unat_div)
  then have "(ucast ((usleep_ms (10000 * k + r) * 100 + 999) div 1000) :: u32) = k" using k by (simp add: word_unat_eq_iff unsigned_ucast_eq take_bit_nat_eq_self)
  then have "sleep_ticks (r_rdi (lib_usleep (10000 * k + r) rg)) = k" using k(1) by (auto simp: sleep_ticks_def lib_defs Let_def)
  then show ?thesis using a by blast
qed

end
