(* ===== verification/Argv.thy ===== *)
theory Argv
  imports Libc_Calls
begin

text \<open>
  The arguments of a program, from the kernel to the program: \<open>build_argv_stack\<close> (\<open>src/kernel/core/elf.c\<close>) lays
  the strings and the pointers out on the stack page through the direct map, and the program reads them
  through its own address of that page. What it reads is the argument vector the kernel was given.
\<close>

section \<open>Offsets in a page\<close>

lemma offset_of:
  assumes "sv AND 0xFFF = 0" "k < 4096"
  shows "(sv + of_nat k) AND 0xFFF = (of_nat k :: u64)"
proof -
  have sv: "take_bit 12 sv = 0" using assms(1) by (simp add: low_bits)
  have k: "take_bit 12 (of_nat k :: u64) = of_nat k" using assms(2) by (simp add: take_bit_of_nat take_bit_nat_eq_self)
  have "\<not> bit sv n \<or> \<not> bit (of_nat k :: u64) n" for n
    using arg_cong [OF sv, of "\<lambda>x. bit x n"] arg_cong [OF k, of "\<lambda>x. bit x n"] by (auto simp: bit_take_bit_iff)
  then have "sv AND of_nat k = 0" by (intro bit_eqI) (auto simp: bit_and_iff)
  then have "sv + of_nat k = sv OR of_nat k" by (rule disjunctive_add_eq_or)
  then show ?thesis using sv k by (simp add: low_bits take_bit_or)
qed

lemma page_split: "(x AND 0xFFF) + page_of x = (x :: u64)"
proof -
  have "(x AND 0xFFF) AND page_of x = 0" "(x AND 0xFFF) OR page_of x = x"
    unfolding low_bits by (rule bit_eqI; auto simp: bit_simps)+
  then show ?thesis using disjunctive_add_eq_or [of "x AND 0xFFF" "page_of x"] by simp
qed

lemma page_of_offset:
  assumes "page AND 0xFFF = 0" "k < 4096"
  shows "page_of (page + of_nat k) = page"
  using page_split [of "page + of_nat k"] offset_of [OF assms] by simp

lemma ucast_offset: "k < 4096 \<Longrightarrow> (ucast (of_nat k :: u64) :: u32) = of_nat k"
  using narrow_of_int [of "int k"] by simp

lemma offsets_distinct: "j < 4096 \<Longrightarrow> k < 4096 \<Longrightarrow> (of_nat j :: u32) = of_nat k \<longleftrightarrow> j = k"
  by (simp add: word_unat_eq_iff unat_of_nat take_bit_nat_eq_self)

section \<open>Stores\<close>

lemma fold_bytes:
  assumes "off + n \<le> 4096" "k < 4096"
  shows "fold (\<lambda>j pg. pg(ucast (of_nat off + of_nat j :: u64) := bs ! j)) [0..<n] pg (of_nat k :: u32) =
    (if off \<le> k \<and> k < off + n then bs ! (k - off) else pg (of_nat k))"
  using assms(1)
proof (induction n)
  case (Suc n)
  have "(ucast (of_nat off + of_nat n :: u64) :: u32) = of_nat (off + n)" using ucast_offset [of "off + n"] Suc.prems by simp
  moreover have "(of_nat k :: u32) = of_nat (off + n) \<longleftrightarrow> k = off + n" using Suc.prems assms(2) by (intro offsets_distinct) simp_all
  ultimately show ?case using Suc by auto
qed auto

lemma store_page_at:
  assumes "off + length bs \<le> 4096" "k < 4096"
  shows "page_mem (store_page page (of_nat off) bs w) page (of_nat k) =
    (if off \<le> k \<and> k < off + length bs then bs ! (k - off) else page_mem w page (of_nat k))"
  unfolding store_page_def using fold_bytes [OF assms, of bs "page_mem w page"] by simp

text \<open>The string \<open>s\<close> with its terminator is stored at offset \<open>off\<close> of a page.\<close>

definition str_at :: "(u32 \<Rightarrow> u8) \<Rightarrow> nat \<Rightarrow> u8 list \<Rightarrow> bool" where
  "str_at pg off s \<longleftrightarrow> (\<forall>j \<le> length s. pg (of_nat (off + j)) = (s @ [0]) ! j)"

lemma str_at_frame: "str_at pg off s \<Longrightarrow> (\<And>k. off \<le> k \<Longrightarrow> k \<le> off + length s \<Longrightarrow> pg' (of_nat k) = pg (of_nat k)) \<Longrightarrow> str_at pg' off s"
  by (auto simp: str_at_def simp del: of_nat_add)

text \<open>Nothing but the contents of one page differs.\<close>

definition page_only :: "u64 \<Rightarrow> 'a sst_scheme \<Rightarrow> 'a sst_scheme \<Rightarrow> bool" where
  "page_only page w w' \<longleftrightarrow> (\<exists>pg. w' = w\<lparr>page_mem := (page_mem w)(page := pg)\<rparr>)"

lemma page_only_refl: "page_only page w w"
  unfolding page_only_def by (rule exI [of _ "page_mem w page"]) simp

lemma page_only_upd: "page_only page w (w\<lparr>page_mem := (page_mem w)(page := pg)\<rparr>)"
  unfolding page_only_def by (rule exI) (rule refl)

lemma page_only_trans: "page_only page w w1 \<Longrightarrow> page_only page w1 w2 \<Longrightarrow> page_only page w w2"
  unfolding page_only_def by (elim exE, simp) (rule exI, rule refl)

lemma page_only_store: "page_only page w (store_page page off bs w)"
  unfolding store_page_def by (rule page_only_upd)

text \<open>The number of bytes the strings take.\<close>

definition block_bytes :: "u8 list list \<Rightarrow> nat" where
  "block_bytes ss = sum_list (map (\<lambda>s. length s + 1) ss)"

lemma below_top:
  assumes "c \<le> 4096"
  shows "sv + PAGE_SIZE - (sv + of_nat c) = (of_nat (4096 - c) :: u64)"
  using assms by (simp add: of_nat_diff)

lemma of_nat_le_block: "n < 2 ^ 63 \<Longrightarrow> (of_nat n :: u64) > 2048 \<longleftrightarrow> n > 2048"
  by (simp add: word_less_nat_alt unat_of_nat take_bit_nat_eq_self)

text \<open>The strings end up one below the other, each with its terminator, and nothing else of the page changes.\<close>

lemma place_strings_ok:
  assumes sv: "sv AND 0xFFF = 0" and c0: "c0 \<le> 4096" "4096 \<le> c0 + 2048" and fits: "4096 + block_bytes ss \<le> c0 + 2048"
  shows "\<exists>os w'. place_strings page (sv + PAGE_SIZE) ss (sv + of_nat c0) addrs w =
      (Some (sv + of_nat (c0 - block_bytes ss), map (\<lambda>o'. sv + of_nat o') os @ addrs), w') \<and>
    list_all2 (\<lambda>o' s. c0 - block_bytes ss \<le> o' \<and> o' + length s < c0 \<and> str_at (page_mem w' page) o' s) os (rev ss) \<and>
    page_only page w w' \<and>
    (\<forall>k < 4096. k < c0 - block_bytes ss \<or> c0 \<le> k \<longrightarrow> page_mem w' page (of_nat k) = page_mem w page (of_nat k))"
  using c0 fits
proof (induction ss arbitrary: c0 addrs w)
  case Nil
  then show ?case by (intro exI [of _ "[]"] exI [of _ w]) (simp add: block_bytes_def page_only_refl)
next
  case (Cons s ss)
  let ?n = "length s + 1"
  define c where "c = c0 - ?n"
  have bb: "block_bytes (s # ss) = ?n + block_bytes ss" by (simp add: block_bytes_def)
  have cf: "c < 4096" "4096 \<le> c + 2048" "4096 + block_bytes ss \<le> c + 2048" "c + ?n = c0" using Cons.prems bb by (auto simp: c_def)
  have e: "(of_nat c0 :: u64) = of_nat c + of_nat ?n" unfolding of_nat_add [symmetric] cf(4) ..
  have cur: "sv + of_nat c0 - of_nat ?n = sv + of_nat c" unfolding e by (simp only: add.assoc [symmetric] add_diff_cancel_right')
  have nb: "\<not> sv + PAGE_SIZE - (sv + of_nat c) > MAX_ARGV_BLOCK_SIZE"
    using below_top [of c sv] cf(1,2) of_nat_le_block [of "4096 - c"] by simp
  let ?w1 = "store_page page (of_nat c) (s @ [0]) w"
  have step: "place_strings page (sv + PAGE_SIZE) (s # ss) (sv + of_nat c0) addrs w =
      place_strings page (sv + PAGE_SIZE) ss (sv + of_nat c) ((sv + of_nat c) # addrs) ?w1"
    unfolding place_strings.simps Let_def cur using nb offset_of [OF sv cf(1)] by simp
  obtain os w' where r: "place_strings page (sv + PAGE_SIZE) ss (sv + of_nat c) ((sv + of_nat c) # addrs) ?w1 =
      (Some (sv + of_nat (c - block_bytes ss), map (\<lambda>o'. sv + of_nat o') os @ (sv + of_nat c) # addrs), w')"
      "list_all2 (\<lambda>o' s. c - block_bytes ss \<le> o' \<and> o' + length s < c \<and> str_at (page_mem w' page) o' s) os (rev ss)"
      "page_only page ?w1 w'"
      "\<forall>k < 4096. k < c - block_bytes ss \<or> c \<le> k \<longrightarrow> page_mem w' page (of_nat k) = page_mem ?w1 page (of_nat k)"
    using Cons.IH [OF less_imp_le [OF cf(1)] cf(2,3), of "(sv + of_nat c) # addrs" ?w1] by (elim exE conjE) (rule that)
  note at = store_page_at [of c "s @ [0]" _ page w]
  have "str_at (page_mem w' page) c s"
    unfolding str_at_def
  proof (intro allI impI)
    fix j assume "j \<le> length s"
    then have "c + j < 4096" "c + j < c + length (s @ [0])" "c + length (s @ [0]) \<le> 4096" using cf(4) Cons.prems(1) by auto
    then show "page_mem w' page (of_nat (c + j)) = (s @ [0]) ! j"
      using r(4) [rule_format, of "c + j"] at [of "c + j"] by (simp del: of_nat_add)
  qed
  moreover have "list_all2 (\<lambda>o' t. c - block_bytes ss \<le> o' \<and> o' + length t < c0 \<and> str_at (page_mem w' page) o' t) os (rev ss)"
    using r(2) by (rule list_all2_mono) (use cf(4) in auto)
  moreover have "page_mem w' page (of_nat k) = page_mem w page (of_nat k)" if "k < 4096" "k < c - block_bytes ss \<or> c0 \<le> k" for k
    using r(4) at [of k] that cf(4) Cons.prems(1) by auto
  moreover have "page_only page w w'" using page_only_store r(3) by (rule page_only_trans)
  ultimately show ?case
    using step r(1) bb cf(4) by (intro exI [of _ "os @ [c]"] exI [of _ w']) (auto simp: list_all2_appendI)
qed

section \<open>The pointers\<close>

lemma wr64_at:
  assumes "a + 8 \<le> 4096" "k < 4096" "k < a \<or> a + 8 \<le> k"
  shows "wr64 pg (of_nat a) v (of_nat k) = pg (of_nat k)"
proof (rule wr64_outside)
  fix j :: nat assume "j < 8"
  then have "k \<noteq> a + j" "a + j < 4096" using assms by auto
  then show "(of_nat k :: u32) \<noteq> of_nat a + of_nat j" using offsets_distinct [OF assms(2), of "a + j"] by simp
qed

lemma rd64_at:
  assumes "\<And>k. a \<le> k \<Longrightarrow> k < a + 8 \<Longrightarrow> pg' (of_nat k) = pg (of_nat k)"
  shows "rd64 pg' (of_nat a) = rd64 pg (of_nat a)"
proof (rule rd64_cong)
  fix j :: nat assume "j < 8"
  then show "pg' (of_nat a + of_nat j) = pg (of_nat a + of_nat j)" using assms [of "a + j"] by simp
qed

lemma set_mem64_at:
  assumes "page AND 0xFFF = 0" "a < 4096"
  shows "set_mem64 (page + of_nat a) v w = w\<lparr>page_mem := (page_mem w)(page := wr64 (page_mem w page) (of_nat a) v)\<rparr>"
  using page_of_offset [OF assms] offset_of [OF assms] ucast_offset [OF assms(2)] by (simp add: set_mem64_def PG_OFFSET_def)

lemma store_words:
  assumes pg: "page AND 0xFFF = 0" and n: "a + 8 * n \<le> 4096"
  shows "\<exists>pg'. fold (\<lambda>i w. set_mem64 (page + of_nat a + 8 * of_nat i) (vs ! i) w) [0..<n] w = w\<lparr>page_mem := (page_mem w)(page := pg')\<rparr> \<and>
    (\<forall>i < n. rd64 pg' (of_nat (a + 8 * i)) = vs ! i) \<and> (\<forall>k < 4096. k < a \<or> a + 8 * n \<le> k \<longrightarrow> pg' (of_nat k) = page_mem w page (of_nat k))"
  using n
proof (induction n)
  case 0
  then show ?case by (intro exI [of _ "page_mem w page"]) simp
next
  case (Suc n)
  have "a + 8 * n \<le> 4096" using Suc.prems by simp
  from Suc.IH [OF this] obtain pg' where f: "fold (\<lambda>i w. set_mem64 (page + of_nat a + 8 * of_nat i) (vs ! i) w) [0..<n] w = w\<lparr>page_mem := (page_mem w)(page := pg')\<rparr>"
      "\<forall>i < n. rd64 pg' (of_nat (a + 8 * i)) = vs ! i" "\<forall>k < 4096. k < a \<or> a + 8 * n \<le> k \<longrightarrow> pg' (of_nat k) = page_mem w page (of_nat k)"
    by (elim exE conjE)
  let ?b = "a + 8 * n"
  let ?pg = "wr64 pg' (of_nat ?b) (vs ! n)"
  have b: "?b < 4096" "?b + 8 \<le> 4096" using Suc.prems by auto
  have e: "page + of_nat a + 8 * of_nat n = page + of_nat ?b" by simp
  have "set_mem64 (page + of_nat ?b) (vs ! n) (w\<lparr>page_mem := (page_mem w)(page := pg')\<rparr>) = w\<lparr>page_mem := (page_mem w)(page := ?pg)\<rparr>"
    unfolding set_mem64_at [OF pg b(1)] by simp
  then have "fold (\<lambda>i w. set_mem64 (page + of_nat a + 8 * of_nat i) (vs ! i) w) [0..<Suc n] w = w\<lparr>page_mem := (page_mem w)(page := ?pg)\<rparr>"
    unfolding upt_Suc_append [OF le0] fold_append comp_apply f(1) fold.simps id_apply e .
  moreover have "rd64 ?pg (of_nat (a + 8 * i)) = vs ! i" if "i < Suc n" for i
  proof (cases "i = n")
    case True
    then show ?thesis by (simp add: rd_wr_same del: of_nat_add of_nat_mult)
  next
    case False
    have "wr64 pg' (of_nat ?b) (vs ! n) (of_nat k) = pg' (of_nat k)" if "a + 8 * i \<le> k" "k < a + 8 * i + 8" for k
      using wr64_at [OF b(2), of k] that b False \<open>i < Suc n\<close> by auto
    from rd64_at [of "a + 8 * i" ?pg pg', OF this] show ?thesis using f(2) False that by simp
  qed
  moreover have "?pg (of_nat k) = page_mem w page (of_nat k)" if "k < 4096" "k < a \<or> a + 8 * Suc n \<le> k" for k
    using wr64_at [OF b(2) that(1)] f(3) that by auto
  ultimately show ?case by (intro exI [of _ ?pg]) blast
qed

section \<open>What the program reads\<close>

lemma le_step: "(of_nat (unat (b :: u8) + 256 * v) :: u64) = ucast b OR push_bit 8 (of_nat v)"
proof -
  have "(ucast b :: u64) AND push_bit 8 (of_nat v) = 0" by (rule bit_eqI) (auto simp: bit_simps dest: bit_imp_le_length)
  from disjunctive_add_eq_or [OF this] show ?thesis by (simp add: push_bit_eq_mult mult.commute)
qed

lemma user_word_rd64:
  assumes "\<And>j. j < 8 \<Longrightarrow> m (a + of_nat j) = pg (o' + of_nat j)"
  shows "user_word m a = rd64 pg o'"
proof -
  have "map (\<lambda>i. m (a + of_nat i)) [0..<8] = map (\<lambda>i. pg (o' + of_nat i)) [0..<8]" using assms by simp
  moreover have "[0..<8] = [0, 1, 2, 3, 4, 5, 6, 7]" by (simp add: upt_rec)
  ultimately show ?thesis
    by (simp only: user_word_def user_bytes_def le_value_def list.map foldr.simps comp_apply id_apply le_step)
      (simp add: rd64_def or.assoc push_bit_or)
qed

text \<open>The program sees the stack page at its user address \<open>sv\<close>.\<close>

definition sees :: "mem \<Rightarrow> u64 \<Rightarrow> (u32 \<Rightarrow> u8) \<Rightarrow> bool" where
  "sees m sv pg \<longleftrightarrow> (\<forall>k < 4096. m (sv + of_nat k) = pg (of_nat k))"

lemma sees_word:
  assumes "sees m sv pg" "k + 8 \<le> 4096"
  shows "user_word m (sv + of_nat k) = rd64 pg (of_nat k)"
proof (rule user_word_rd64)
  fix j :: nat assume "j < 8"
  then have "m (sv + of_nat (k + j)) = pg (of_nat (k + j))" using assms by (simp add: sees_def del: of_nat_add)
  then show "m (sv + of_nat k + of_nat j) = pg (of_nat k + of_nat j)" by (simp add: add.assoc)
qed

lemma sees_string:
  assumes "sees m sv pg" "str_at pg k s" "k + length s < 4096" "0 \<notin> set s"
  shows "user_string m (sv + of_nat k) = Some s"
  using assms(2-)
proof (induction s arbitrary: k)
  case Nil
  then have "pg (of_nat k) = 0" by (simp add: str_at_def)
  then show ?case using assms(1) Nil by (subst user_string.simps) (simp add: sees_def)
next
  case (Cons b s)
  have b: "pg (of_nat k) = b" using Cons.prems(1) by (auto simp: str_at_def dest: spec [of _ 0])
  have "str_at pg (Suc k) s" unfolding str_at_def
  proof (intro allI impI)
    fix j assume "j \<le> length s"
    then have "Suc j \<le> length (b # s)" by simp
    with Cons.prems(1) have "pg (of_nat (k + Suc j)) = ((b # s) @ [0]) ! Suc j" unfolding str_at_def by blast
    then show "pg (of_nat (Suc k + j)) = (s @ [0]) ! j" by (simp only: add_Suc_right add_Suc append_Cons nth_Cons_Suc)
  qed
  then have "user_string m (sv + of_nat (Suc k)) = Some s" using Cons.prems(2,3) by (intro Cons.IH) simp_all
  moreover have "sv + of_nat (Suc k) = sv + of_nat k + 1" by simp
  moreover have "m (sv + of_nat k) = b" using assms(1) b Cons.prems(2) by (simp add: sees_def)
  ultimately show ?case using Cons.prems(3) by (subst user_string.simps) (auto simp: add_ac)
qed

lemma sees_argv:
  assumes see: "sees m sv pg" and a: "a + 8 * (length os + 1) \<le> 4096" and nz: "\<forall>k < 4096. sv + of_nat k \<noteq> 0"
    and ptr: "\<forall>i \<le> length os. rd64 pg (of_nat (a + 8 * i)) = (map (\<lambda>o'. sv + of_nat o') os @ [0]) ! i"
    and str: "list_all2 (\<lambda>o' s. o' + length s < 4096 \<and> str_at pg o' s \<and> 0 \<notin> set s) os ss"
  shows "user_argv m (sv + of_nat a) = Some ss"
  using str a ptr
proof (induction os ss arbitrary: a rule: list_all2_induct)
  case Nil
  then have "user_word m (sv + of_nat a) = 0" using sees_word [OF see, of a] by simp
  then show ?case by (subst user_argv.simps) simp
next
  case (Cons o' os s ss)
  have w: "user_word m (sv + of_nat a) = sv + of_nat o'" using sees_word [OF see, of a] Cons.prems(1) spec [OF Cons.prems(2), of 0] by simp
  have "o' < 4096" using Cons.hyps(1) by simp
  then have n0: "sv + of_nat o' \<noteq> 0" using nz by blast
  have u: "user_string m (sv + of_nat o') = Some s" using sees_string [OF see] Cons.hyps(1) by blast
  have "rd64 pg (of_nat (a + 8 + 8 * i)) = (map (\<lambda>o'. sv + of_nat o') os @ [0]) ! i" if "i \<le> length os" for i
    using spec [OF Cons.prems(2), of "Suc i"] that by (simp add: algebra_simps)
  then have "user_argv m (sv + of_nat (a + 8)) = Some ss" using Cons.IH [of "a + 8"] Cons.prems(1) by simp
  moreover have "sv + of_nat (a + 8) = sv + of_nat a + 8" by (simp add: add.assoc)
  ultimately show ?case using w n0 u by (subst user_argv.simps) (simp add: Let_def add.assoc)
qed

section \<open>The page through the page tables\<close>

text \<open>The memory a program running on the directory \<open>dir\<close> reads.\<close>

definition user_view :: "'a ast_scheme \<Rightarrow> u64 \<Rightarrow> mem" where
  "user_view w dir a = page_mem w (physical_to_virtual (page_of (translate w dir a))) (ucast (PG_OFFSET a))"

text \<open>The page is not one of the tables the address is translated by.\<close>

definition not_a_table :: "'a ast_scheme \<Rightarrow> u64 \<Rightarrow> u64 \<Rightarrow> u64 \<Rightarrow> bool" where
  "not_a_table w dir v page \<longleftrightarrow> (\<forall>k \<le> 3. table_at w dir (take k (vpath v)) \<noteq> Some page)"

lemma entry_page_only: "page_only page w w' \<Longrightarrow> t \<noteq> page \<Longrightarrow> entry_at w' t i = entry_at w t i"
  unfolding page_only_def entry_at_def by auto

lemma translate_page_only:
  assumes "page_only page w w'" "not_a_table w dir v page"
  shows "translate w' dir v = translate w dir v"
proof -
  have t: "table_at w' dir (vpath v) = table_at w dir (vpath v)"
  proof (rule table_at_same)
    fix k u assume "k < length (vpath v)" "table_at w dir (take k (vpath v)) = Some u"
    moreover have "length (vpath v) = 3" by (simp add: vpath_def)
    ultimately have "u \<noteq> page" using assms(2) by (auto simp: not_a_table_def)
    then show "entry_at w' u (vpath v ! k) = entry_at w u (vpath v ! k)" by (rule entry_page_only [OF assms(1)])
  qed
  show ?thesis
  proof (cases "table_at w dir (vpath v)")
    case (Some u)
    then have "u \<noteq> page" using assms(2) by (auto simp: not_a_table_def vpath_def dest: spec [of _ 3])
    from entry_page_only [OF assms(1) this] show ?thesis by (simp add: translate_def t Some)
  qed (simp add: translate_def t)
qed

lemma page_aligned: "x AND 0xFFF = 0 \<Longrightarrow> page_of x = (x :: u64)"
  using page_split [of x] by simp

lemma translate_in_page:
  assumes sv: "sv AND 0xFFF = 0" and k: "k < 4096" and mapped: "translate w dir sv \<noteq> 0"
  shows "translate w dir (sv + of_nat k) = translate w dir sv OR of_nat k"
proof -
  have p: "page_of (sv + of_nat k) = sv" using page_of_offset [OF sv k] .
  have i: "vpath (sv + of_nat k) = vpath sv" "PT_INDEX (sv + of_nat k) = PT_INDEX sv"
    using page_indices [of "sv + of_nat k"] p by (simp_all add: vpath_def)
  show ?thesis using mapped sv offset_of [OF sv k]
    by (auto simp: translate_def i PG_OFFSET_def Let_def split: option.splits if_splits)
qed

lemma translate_aligned: "sv AND 0xFFF = 0 \<Longrightarrow> translate w dir sv AND 0xFFF = 0"
  by (auto simp: translate_def low_bits PG_OFFSET_def Let_def take_bit_push_bit split: option.splits)

lemma direct_map_aligned: "x AND 0xFFF = 0 \<Longrightarrow> physical_to_virtual x AND 0xFFF = 0"
proof -
  assume x: "x AND 0xFFF = 0"
  have "bit x n \<Longrightarrow> 12 \<le> n" for n using arg_cong [OF x, of "\<lambda>x. bit x n"] by (auto simp: low_bits bit_take_bit_iff)
  then have "x = push_bit 12 (drop_bit 12 x)" by (intro bit_eqI) (auto simp: bit_simps)
  moreover have "PHYSICAL_MAP_BASE = push_bit 12 (drop_bit 12 PHYSICAL_MAP_BASE)" by simp
  ultimately have "physical_to_virtual x = push_bit 12 (drop_bit 12 x + drop_bit 12 PHYSICAL_MAP_BASE)"
    unfolding physical_to_virtual_def push_bit_add by simp
  then show ?thesis by (simp add: low_bits take_bit_push_bit)
qed

lemma page_of_or:
  assumes "x AND 0xFFF = 0" "k < 4096"
  shows "page_of (x OR of_nat k) = (x :: u64)"
proof -
  have k: "take_bit 12 (of_nat k :: u64) = of_nat k" using assms(2) by (simp add: take_bit_of_nat take_bit_nat_eq_self)
  have "bit (of_nat k :: u64) n \<Longrightarrow> n < 12" for n using arg_cong [OF k, of "\<lambda>x. bit x n"] by (auto simp: bit_take_bit_iff)
  moreover have "bit x n \<Longrightarrow> \<not> n < 12" for n using arg_cong [OF assms(1), of "\<lambda>x. bit x n"] by (auto simp: low_bits bit_take_bit_iff)
  ultimately show ?thesis unfolding low_bits by (intro bit_eqI) (auto simp: bit_simps)
qed

lemma program_sees_page:
  assumes sv: "sv AND 0xFFF = 0" and mapped: "translate w dir sv \<noteq> 0"
    and page: "page = physical_to_virtual (translate w dir sv)" "not_a_table w dir sv page" and eff: "page_only page w w'"
  shows "sees (user_view w' dir) sv (page_mem w' page)"
  unfolding sees_def user_view_def
proof (intro allI impI)
  fix k :: nat assume k: "k < 4096"
  have t: "translate w' dir sv = translate w dir sv" using translate_page_only [OF eff page(2)] .
  have "translate w' dir (sv + of_nat k) = translate w dir sv OR of_nat k"
    using translate_in_page [OF sv k, of w' dir] mapped t by simp
  then show "page_mem w' (physical_to_virtual (page_of (translate w' dir (sv + of_nat k)))) (ucast (PG_OFFSET (sv + of_nat k))) = page_mem w' page (of_nat k)"
    using page_of_or [OF translate_aligned [OF sv, of w dir] k] offset_of [OF sv k] ucast_offset [OF k] page(1) by (simp add: PG_OFFSET_def)
qed

lemma low_three:
  assumes "sv AND 0xFFF = 0" "k < 4096"
  shows "(sv + of_nat k) AND 7 = (of_nat (k mod 8) :: u64)"
proof -
  have 7: "(7 :: u64) = mask 3" by (simp add: mask_eq_exp_minus_1)
  have "(sv + of_nat k) AND 7 = ((sv + of_nat k) AND 0xFFF) AND 7" by (simp add: and.assoc)
  also have "\<dots> = of_nat (k mod 8)"
    unfolding offset_of [OF assms] 7 take_bit_eq_mask [symmetric] take_bit_of_nat by (simp add: take_bit_eq_mod)
  finally show ?thesis .
qed

lemma round_down:
  assumes "sv AND 0xFFF = 0" "k < 4096"
  shows "(sv + of_nat k) AND NOT 7 = (sv + of_nat (k - k mod 8) :: u64)"
proof -
  let ?x = "sv + of_nat k"
  note lo = low_three [OF assms]
  have "(?x AND NOT 7) AND (?x AND 7) = 0" "(?x AND NOT 7) OR (?x AND 7) = ?x" by (rule bit_eqI; auto simp: bit_simps)+
  then have "(?x AND NOT 7) + (?x AND 7) = ?x" using disjunctive_add_eq_or by metis
  then have "?x AND NOT 7 = ?x - of_nat (k mod 8)" unfolding lo by (simp add: eq_diff_eq)
  also have "\<dots> = sv + of_nat (k - k mod 8)" by (simp add: of_nat_diff)
  finally show ?thesis .
qed

lemma aligned8:
  assumes "sv AND 0xFFF = 0" "k < 4096" "k mod 8 = 0"
  shows "(sv + of_nat k) AND 7 = (0 :: u64)"
  unfolding low_three [OF assms(1,2)] assms(3) by simp

section \<open>The round trip\<close>

lemma build_argv_stack_fits:
  fixes w :: "'a ast_scheme"
  assumes sv: "sv AND 0xFFF = 0" "sv \<noteq> 0" and argv: "argv \<noteq> []" "length argv < 32" and fits: "block_bytes argv + 8 * (length argv + 1) \<le> 2048"
    and page: "page = physical_to_virtual (translate w dir sv)"
  shows "\<exists>os a w'. build_argv_stack dir sv (Some argv) w = Some (Some (length argv, sv + of_nat a), w') \<and> a mod 8 = 0 \<and>
    a + 8 * (length os + 1) \<le> 4096 \<and> page_only page w w' \<and>
    (\<forall>i \<le> length os. rd64 (page_mem w' page) (of_nat (a + 8 * i)) = (map (\<lambda>o'. sv + of_nat o') os @ [0]) ! i) \<and>
    list_all2 (\<lambda>o' s. o' + length s < 4096 \<and> str_at (page_mem w' page) o' s) os argv"
proof -
  let ?n = "length argv"
  define c where "c = 4096 - block_bytes argv"
  define a where "a = c - c mod 8 - 8 * (?n + 1)"
  have bb: "block_bytes (rev argv) = block_bytes argv" by (simp add: block_bytes_def rev_map [symmetric])
  have "block_bytes argv \<ge> ?n" by (induction argv) (auto simp: block_bytes_def)
  moreover have "0 < ?n" using argv(1) by simp
  ultimately have cn: "c < 4096" "2048 + 8 * (?n + 1) \<le> c" using fits unfolding c_def by linarith+
  have down: "c - c mod 8 = 8 * (c div 8)" by (simp add: minus_mod_eq_mult_div)
  have "256 + (?n + 1) \<le> c div 8" using div_le_mono [OF cn(2), of 8] by simp
  then have an: "2048 \<le> a" "a + 8 * (?n + 1) = c - c mod 8" "a = 8 * (c div 8 - (?n + 1))" "a < 4096"
    unfolding a_def down using cn(1) by simp_all
  have a8: "a mod 8 = 0" unfolding an(3) by simp
  have room: "4096 \<le> 4096 + (2048 :: nat)" "4096 + block_bytes (rev argv) \<le> 4096 + 2048" using fits bb by simp_all
  obtain os w1 where r: "place_strings page (sv + PAGE_SIZE) (rev argv) (sv + of_nat 4096) [] w =
      (Some (sv + of_nat (4096 - block_bytes (rev argv)), map (\<lambda>o'. sv + of_nat o') os @ []), w1)"
      "list_all2 (\<lambda>o' s. 4096 - block_bytes (rev argv) \<le> o' \<and> o' + length s < 4096 \<and> str_at (page_mem w1 page) o' s) os (rev (rev argv))"
      "page_only page w w1"
    using place_strings_ok [OF sv(1) order_refl room(1) room(2), of page "[]" w] by (elim exE conjE) (rule that)
  have len: "length os = ?n" using list_all2_lengthD [OF r(2)] by simp
  have pg: "page AND 0xFFF = 0" unfolding page by (intro direct_map_aligned translate_aligned sv)
  have "a + 8 * (?n + 1) \<le> 4096" using an cn by linarith
  have pp: "place_pointers page (sv + of_nat a) (map (\<lambda>o'. sv + of_nat o') os) w1 =
      fold (\<lambda>i w. set_mem64 (page + of_nat a + 8 * of_nat i) ((map (\<lambda>o'. sv + of_nat o') os @ [0]) ! i) w) [0..<?n + 1] w1"
    unfolding place_pointers_def offset_of [OF sv(1) an(4)] length_map len ..
  from store_words [OF pg \<open>a + 8 * (?n + 1) \<le> 4096\<close>, of "map (\<lambda>o'. sv + of_nat o') os @ [0]" w1, folded pp]
  obtain pg' where f: "place_pointers page (sv + of_nat a) (map (\<lambda>o'. sv + of_nat o') os) w1 = w1\<lparr>page_mem := (page_mem w1)(page := pg')\<rparr>"
      "\<forall>i < ?n + 1. rd64 pg' (of_nat (a + 8 * i)) = (map (\<lambda>o'. sv + of_nat o') os @ [0]) ! i"
      "\<forall>k < 4096. k < a \<or> a + 8 * (?n + 1) \<le> k \<longrightarrow> pg' (of_nat k) = page_mem w1 page (of_nat k)"
    by (elim exE conjE) (rule that)
  have cur: "((sv + of_nat c) AND NOT 7) - of_nat (?n + 1) * 8 = sv + of_nat a"
    unfolding round_down [OF sv(1) cn(1)] an(2) [symmetric] by simp
  have ok: "\<not> sv + PAGE_SIZE - (sv + of_nat a) > MAX_ARGV_BLOCK_SIZE"
    using below_top [of a sv] an(1,4) of_nat_le_block [of "4096 - a"] by simp
  have ps: "place_strings page (sv + PAGE_SIZE) (rev argv) (sv + PAGE_SIZE) [] w = (Some (sv + of_nat c, map (\<lambda>o'. sv + of_nat o') os), w1)"
    using r(1) by (simp add: bb c_def)
  have "\<not> (Some argv = None \<or> Some argv = Some [])" "\<not> length (the (Some argv)) \<ge> MAX_ARGV_COUNT" using argv by simp_all
  then have "build_argv_stack dir sv (Some argv) w = Some (Some (?n, sv + of_nat a), w1\<lparr>page_mem := (page_mem w1)(page := pg')\<rparr>)"
    by (simp only: build_argv_stack_def get_physical_in_translate if_False bind.bind_lunit Let_def page [symmetric] option.sel ps prod.case option.case cur ok f(1))
  moreover have "list_all2 (\<lambda>o' s. o' + length s < 4096 \<and> str_at pg' o' s) os argv"
    using r(2) unfolding rev_rev_ident
  proof (rule list_all2_mono)
    fix o' s assume h: "4096 - block_bytes (rev argv) \<le> o' \<and> o' + length s < 4096 \<and> str_at (page_mem w1 page) o' s"
    then have "str_at pg' o' s" using f(3) an(2) bb by (elim conjE str_at_frame) (auto simp: c_def)
    with h show "o' + length s < 4096 \<and> str_at pg' o' s" by simp
  qed
  moreover have "page_only page w (w1\<lparr>page_mem := (page_mem w1)(page := pg')\<rparr>)" using page_only_trans [OF r(3) page_only_upd] .
  ultimately show ?thesis using f(2) a8 \<open>a + 8 * (?n + 1) \<le> 4096\<close> len
    by (intro exI [of _ os] exI [of _ a] exI [of _ "w1\<lparr>page_mem := (page_mem w1)(page := pg')\<rparr>"]) simp
qed

text \<open>C23: A program finds the arguments it was started with. When the strings with their terminators and the vector of pointers with
  its null pointer fit the block of 2048 bytes and there are fewer than 32 of them, \<open>build_argv_stack\<close> on a mapped stack
  page returns their number and an 8-byte aligned address, changes nothing but that page, and a program that walks the
  vector at that address through its own page tables reads back exactly the strings, in order. The page has to be one that is
  not a page table of the address, and the strings contain no null byte.\<close>

theorem build_argv_stack_round_trip:
  assumes "sv AND 0xFFF = 0" "sv \<noteq> 0" and "translate w dir sv \<noteq> 0" "not_a_table w dir sv (physical_to_virtual (translate w dir sv))"
    and "argv \<noteq> []" "length argv < 32" "\<forall>s \<in> set argv. 0 \<notin> set s" "block_bytes argv + 8 * (length argv + 1) \<le> 2048"
  shows "\<exists>sp w'. build_argv_stack dir sv (Some argv) w = Some (Some (length argv, sp), w') \<and> sp AND 7 = 0 \<and>
    page_only (physical_to_virtual (translate w dir sv)) w w' \<and> user_argv (user_view w' dir) sp = Some argv"
proof -
  let ?page = "physical_to_virtual (translate w dir sv)"
  from build_argv_stack_fits [OF assms(1,2,5,6,8) refl, where w = w and dir = dir]
  obtain os a w' where b: "build_argv_stack dir sv (Some argv) w = Some (Some (length argv, sv + of_nat a), w')" "a mod 8 = 0"
      "a + 8 * (length os + 1) \<le> 4096" "page_only ?page w w'"
      "\<forall>i \<le> length os. rd64 (page_mem w' ?page) (of_nat (a + 8 * i)) = (map (\<lambda>o'. sv + of_nat o') os @ [0]) ! i"
      "list_all2 (\<lambda>o' s. o' + length s < 4096 \<and> str_at (page_mem w' ?page) o' s) os argv"
    by (elim exE conjE) (rule that)
  have "list_all2 (\<lambda>o' s. o' + length s < 4096 \<and> str_at (page_mem w' ?page) o' s \<and> 0 \<notin> set s) os argv"
    using b(6) assms(7) unfolding list_all2_conv_all_nth by auto
  moreover have "sv + of_nat k \<noteq> 0" if "k < 4096" for k
    using offset_of [OF assms(1) that] assms(2) by auto
  ultimately have "user_argv (user_view w' dir) (sv + of_nat a) = Some argv"
    using sees_argv [OF program_sees_page [OF assms(1,3) refl assms(4) b(4)] b(3) _ b(5)] by blast
  moreover have "(sv + of_nat a) AND 7 = 0" using aligned8 [OF assms(1) _ b(2)] b(3) by simp
  ultimately show ?thesis using b(1,4) by blast
qed

text \<open>Page tables that map the user stack page to the page at physical address \<open>0x4000\<close>.\<close>

definition stack_machine :: ast where
  "stack_machine = set_entry (PHYSICAL_MAP_BASE + 0x3000) 510 0x4007 (set_entry (PHYSICAL_MAP_BASE + 0x2000) 511 0x3007
     (set_entry (PHYSICAL_MAP_BASE + 0x1000) 511 0x2007 (set_entry PHYSICAL_MAP_BASE 255 0x1007 small_machine)))"

lemma stack_tables:
  "entry_at stack_machine PHYSICAL_MAP_BASE 255 = 0x1007" "entry_at stack_machine (PHYSICAL_MAP_BASE + 0x1000) 511 = 0x2007"
  "entry_at stack_machine (PHYSICAL_MAP_BASE + 0x2000) 511 = 0x3007" "entry_at stack_machine (PHYSICAL_MAP_BASE + 0x3000) 510 = 0x4007"
  unfolding stack_machine_def by (simp_all add: entry_set_entry entry_other_table)

lemma stack_translated:
  "translate stack_machine PHYSICAL_MAP_BASE USER_STACK = 0x4000" "not_a_table stack_machine PHYSICAL_MAP_BASE USER_STACK (PHYSICAL_MAP_BASE + 0x4000)"
proof -
  have v: "vpath USER_STACK = [255, 511, 511]" "PT_INDEX USER_STACK = 510" "PG_OFFSET USER_STACK = 0"
    by (simp_all add: vpath_def PML4_INDEX_def PDPT_INDEX_def PD_INDEX_def PT_INDEX_def PG_OFFSET_def)
  have le3: "k \<le> 3 \<longleftrightarrow> k = 0 \<or> k = 1 \<or> k = 2 \<or> k = 3" for k :: nat by auto
  show "translate stack_machine PHYSICAL_MAP_BASE USER_STACK = 0x4000"
    using stack_tables by (simp add: translate_def v e_present_def next_table_def e_frame_def physical_to_virtual_def)
  show "not_a_table stack_machine PHYSICAL_MAP_BASE USER_STACK (PHYSICAL_MAP_BASE + 0x4000)"
    using stack_tables unfolding not_a_table_def v le3
    by (auto simp: e_present_def next_table_def e_frame_def physical_to_virtual_def)
qed

theorem build_argv_stack_round_trip_witness:
  "\<exists>sp w'. build_argv_stack PHYSICAL_MAP_BASE USER_STACK (Some [[0x63, 0x61, 0x74], [0x61]]) stack_machine = Some (Some (2, sp), w') \<and>
     user_argv (user_view w' PHYSICAL_MAP_BASE) sp = Some [[0x63, 0x61, 0x74], [0x61]]"
proof -
  have "translate stack_machine PHYSICAL_MAP_BASE USER_STACK \<noteq> 0" using stack_translated(1) by simp
  moreover have "not_a_table stack_machine PHYSICAL_MAP_BASE USER_STACK (physical_to_virtual (translate stack_machine PHYSICAL_MAP_BASE USER_STACK))"
    using stack_translated by (simp add: physical_to_virtual_def add.commute)
  moreover have "(0 :: u8) \<notin> set [0x63, 0x61, 0x74]" "(0 :: u8) \<notin> set [0x61]" by code_simp+
  ultimately have "\<exists>sp w'. build_argv_stack PHYSICAL_MAP_BASE USER_STACK (Some [[0x63, 0x61, 0x74], [0x61]]) stack_machine =
      Some (Some (length [[0x63, 0x61, 0x74], [0x61 :: u8]], sp), w') \<and> sp AND 7 = 0 \<and>
      page_only (physical_to_virtual (translate stack_machine PHYSICAL_MAP_BASE USER_STACK)) stack_machine w' \<and>
      user_argv (user_view w' PHYSICAL_MAP_BASE) sp = Some [[0x63, 0x61, 0x74], [0x61]]"
    by (intro build_argv_stack_round_trip) (simp_all add: block_bytes_def)
  moreover have "length [[0x63, 0x61, 0x74], [0x61 :: u8]] = 2" by simp
  ultimately show ?thesis by (elim exE conjE) (intro exI conjI, simp_all only:)
qed

end
