(* ===== verification/Program_Start.thy ===== *)
theory Program_Start
  imports Argv
begin

text \<open>
  What \<open>elf_load\<close> (\<open>src/kernel/core/elf.c\<close>) leaves behind: the user stack it maps, the arguments and the frame it stores, and
  what becomes of the page tables. The struct of the ELF header in \<open>elf.h\<close> makes the loader read the number of
  section headers in place of the number of program headers.
\<close>

section \<open>Changes of a page that is no table\<close>

lemma table_at_page_only:
  assumes "page_only page w w'" and "upath js" and "\<And>ks. upath ks \<Longrightarrow> table_at w dir ks \<noteq> Some page"
  shows "table_at w' dir js = table_at w dir js"
proof (rule table_at_same)
  fix k u assume "k < length js" "table_at w dir (take k js) = Some u"
  then have "u \<noteq> page" using assms(3) [OF upath_take [OF assms(2), of k]] by auto
  then show "entry_at w' u (js ! k) = entry_at w u (js ! k)" by (rule entry_page_only [OF assms(1)])
qed

lemma vpath_take_upath: "v < 2 ^ 47 \<Longrightarrow> upath (take k (vpath v))"
  by (rule upath_take, rule vpath_upath, rule user_index)

lemma translate_no_table:
  assumes "page_only page w w'" and "\<And>ks. upath ks \<Longrightarrow> table_at w dir ks \<noteq> Some page" and "v < 2 ^ 47"
  shows "translate w' dir v = translate w dir v"
  using assms(2) [OF vpath_take_upath [OF assms(3)]] by (intro translate_page_only [OF assms(1)]) (simp add: not_a_table_def)

lemma page_only_more: "page_only page w w' \<Longrightarrow> sst.more w' = sst.more w \<and> pages w' = pages w"
  by (auto simp: page_only_def)

section \<open>Page tables and the rest of the machine\<close>

lemma set_entry_more: "ast.more (set_entry t i v w) = ast.more w"
  by (simp add: set_entry_def)

lemma fold_set_entry_more: "ast.more (fold (\<lambda>i. set_entry t (of_nat i) 0) is w) = ast.more w"
  by (induction "is" arbitrary: w) (simp_all add: set_entry_more)

lemma alloc_table_more: "alloc_table w = Some (t, w') \<Longrightarrow> ast.more w' = ast.more w"
  by (auto simp: alloc_table_def Let_def fold_set_entry_more split: bind_splits if_splits)

lemma descend_more: "descend w t i c = Some (r, w') \<Longrightarrow> ast.more w' = ast.more w"
  by (auto simp: descend_def Let_def set_entry_more split: bind_splits if_splits dest: alloc_table_more)

lemma get_pt_entry_more: "get_pt_entry w p v c = Some (r, w') \<Longrightarrow> ast.more w' = ast.more w"
  by (auto simp: get_pt_entry_def split: bind_splits option.splits dest!: descend_more)

lemma map_page_in_more: "map_page_in w p v a f = Some w' \<Longrightarrow> ast.more w' = ast.more w"
  by (auto simp: map_page_in_def set_entry_more split: bind_splits option.splits if_splits dest!: get_pt_entry_more)

lemma procs_more: "ast.more w' = ast.more w \<Longrightarrow> procs (w' :: 'a pst_scheme) = procs w"
  by (cases w; cases w'; simp)

section \<open>A new page of a process\<close>

lemma table_at_pages: "table_at (w\<lparr>pages := pm\<rparr>) p js = table_at w p js"
  by (rule table_at_same) (simp add: entry_at_def)

lemma translate_pages: "translate (w\<lparr>pages := pm\<rparr>) p v = translate w p v"
  by (simp add: translate_def table_at_pages entry_at_def split: option.split)

lemma spaces_alloc:
  assumes sp: "spaces w P" and a: "pmm_alloc (pages w) = Some (a, pm)"
  shows "spaces (w\<lparr>pages := pm\<rparr>) P" "a \<in> pmm_avail (pages w)" "pmm_avail pm = pmm_avail (pages w) - {a}"
    "page_of a = a" "a < 2 ^ 52"
proof -
  have wf: "pmm_wf (pages w)" "total_pages (pages w) \<le> 2 ^ 40" using sp by (simp_all add: spaces_def)
  note al = pa.alloc_Some [OF wf(1) a]
  then show av: "a \<in> pmm_avail (pages w)" "pmm_avail pm = pmm_avail (pages w) - {a}" by simp_all
  obtain i where i: "i < total_pages (pages w)" "a = i * PAGE_SIZE" "pm = reserve_page i (pages w)" using a by (auto elim: pmm_alloc_Some)
  have "unat i < 2 ^ 40" using i(1) wf(2) by (simp add: word_less_nat_alt word_le_nat_alt)
  then have ua: "unat a = unat i * 4096" unfolding i(2) by (simp add: unat_word_ariths)
  then show "a < 2 ^ 52" using \<open>unat i < 2 ^ 40\<close> by (simp add: word_less_nat_alt)
  have "a = push_bit 12 i" unfolding i(2) by (simp add: push_bit_eq_mult)
  then show "page_of a = a" by (intro page_aligned) (simp add: low_bits take_bit_push_bit)
  show "spaces (w\<lparr>pages := pm\<rparr>) P"
    using sp al i(3) av(2) unfolding spaces_def page_used_def table_at_pages by auto
qed

lemma map_zero_page_total:
  assumes sp: "spaces w P" and dir: "dir \<in> P" "dir \<noteq> 0" and v: "v < 2 ^ 47" and fl: "flags AND 1 \<noteq> 0" and n: "4 \<le> card (pmm_avail (pages w))"
  shows "\<exists>a w'. map_zero_page dir flags v w = Some w' \<and> a \<noteq> 0 \<and> page_of a = a \<and>
    (\<forall>u < 2 ^ 47. translate w' dir u = (if page_of u = page_of v then a OR (u AND 0xFFF) else translate w dir u)) \<and>
    (\<forall>js. upath js \<longrightarrow> table_at w' dir js \<noteq> Some (physical_to_virtual a)) \<and>
    (\<forall>x. page_used w x \<longrightarrow> (\<forall>js. upath js \<longrightarrow> table_at w dir js \<noteq> Some x) \<longrightarrow> (\<forall>js. upath js \<longrightarrow> table_at w' dir js \<noteq> Some x)) \<and>
    ast.more w' = ast.more w"
proof -
  have ne: "pmm_avail (pages w) \<noteq> {}" using n by auto
  have wf: "pmm_wf (pages w)" "0 \<notin> pmm_avail (pages w)" using sp by (simp_all add: spaces_def)
  obtain a pm where a: "pmm_alloc (pages w) = Some (a, pm)" using pa.alloc_None [OF wf(1)] ne by (cases "pmm_alloc (pages w)") auto
  note sa = spaces_alloc [OF sp a]
  let ?w1 = "w\<lparr>pages := pm\<rparr>" and ?f = "physical_to_virtual a"
  have "3 \<le> card (pmm_avail (pages ?w1))" using n sa(2,3) by (simp add: card_Diff_singleton)
  from map_page_in_effect [OF sa(1) dir v sa(5) fl this] obtain w2 where
    m: "map_page_in ?w1 dir v a flags = Some w2" and
    get: "\<forall>q \<in> P. \<forall>u < 2 ^ 47. get_physical_in w2 q u =
      (if q = dir \<and> page_of u = page_of v then Some (page_of a OR (u AND 0xFFF)) else get_physical_in ?w1 q u)" and
    tb1: "\<forall>js u. upath js \<longrightarrow> table_at w2 dir js = Some u \<longrightarrow> table_at ?w1 dir js = Some u \<or> \<not> page_used ?w1 u" by blast
  have tr: "\<forall>u < 2 ^ 47. translate w2 dir u = (if page_of u = page_of v then page_of a OR (u AND 0xFFF) else translate w dir u)"
    using get [THEN bspec, OF dir(1)] unfolding get_physical_in_translate translate_pages by (auto split: if_splits)
  have tb: "table_at w dir js = Some u \<or> \<not> page_used ?w1 u" if "upath js" "table_at w2 dir js = Some u" for js u
    using tb1 that by (simp add: table_at_pages)
  have ft: "table_at w2 dir js \<noteq> Some ?f" if "upath js" for js
  proof
    assume "table_at w2 dir js = Some ?f"
    moreover have "page_used ?w1 ?f" using sa(3) by (simp add: page_used_def)
    ultimately have "page_used w ?f" using tb [OF that] spaces_used [OF sp dir(1) that] by blast
    then show False using sa(2) by (simp add: page_used_def)
  qed
  let ?w' = "store_page ?f 0 (replicate 4096 0) w2"
  have po: "page_only ?f w2 ?w'" by (rule page_only_store)
  have same: "table_at ?w' dir js = table_at w2 dir js" if "upath js" for js using table_at_page_only [OF po that ft] .
  have "translate ?w' dir u = translate w2 dir u" if "u < 2 ^ 47" for u using translate_no_table [OF po ft that] .
  then have "\<forall>u < 2 ^ 47. translate ?w' dir u = (if page_of u = page_of v then a OR (u AND 0xFFF) else translate w dir u)" using tr sa(4) by simp
  moreover have "table_at ?w' dir js \<noteq> Some x" if "page_used w x" "\<forall>js. upath js \<longrightarrow> table_at w dir js \<noteq> Some x" "upath js" for x js
    using tb [OF that(3), of x] that same [OF that(3)] sa(3) by (auto simp: page_used_def)
  moreover have "ast.more ?w' = ast.more w" using map_page_in_more [OF m] by (simp add: store_page_def)
  moreover have "a \<noteq> 0" using wf(2) sa(2) by auto
  moreover have "map_zero_page dir flags v w = Some ?w'" using a m by (simp add: map_zero_page_def)
  ultimately show ?thesis using same ft sa(4) by (intro exI [of _ a] exI [of _ ?w']) simp
qed

section \<open>Arguments and frame\<close>

text \<open>Arguments that fit on the stack page, or none.\<close>

definition fitting_argv :: "u8 list list option \<Rightarrow> bool" where
  "fitting_argv argv \<longleftrightarrow> (case argv of None \<Rightarrow> True
     | Some as \<Rightarrow> as = [] \<or> length as < 32 \<and> block_bytes as + 8 * (length as + 1) \<le> 2048)"

lemma build_argv_stack_page:
  assumes "fitting_argv argv" and "sv AND 0xFFF = 0" "sv \<noteq> 0"
  shows "\<exists>args w'. build_argv_stack dir sv argv w = Some (args, w') \<and> page_only (physical_to_virtual (translate w dir sv)) w w'"
proof (cases "argv = None \<or> argv = Some []")
  case True
  then have "build_argv_stack dir sv argv w = Some (None, w)" by (simp add: build_argv_stack_def)
  then show ?thesis using page_only_refl by blast
next
  case False
  then obtain as where a: "argv = Some as" "as \<noteq> []" by auto
  then have "length as < 32" "block_bytes as + 8 * (length as + 1) \<le> 2048" using assms(1) by (auto simp: fitting_argv_def)
  from build_argv_stack_fits [OF assms(2,3) a(2) this refl, where w = w and dir = dir] show ?thesis unfolding a(1) by blast
qed

lemma push_frame_page:
  assumes "kst AND 0xFFF = 0" and "ktop = kst + 4088"
  shows "page_only kst w (push_frame ktop rsp rip w)"
proof -
  have a: "ktop = kst + of_nat 4088" "ktop - 8 = kst + of_nat 4080" "ktop - 16 = kst + of_nat 4072" "ktop - 24 = kst + of_nat 4064" "ktop - 32 = kst + of_nat 4056"
    using assms(2) by simp_all
  have s: "page_only kst w (set_mem64 (kst + of_nat k) v w)" if "k < 4096" for k v and w :: "'a sst_scheme"
    unfolding set_mem64_at [OF assms(1) that] by (rule page_only_upd)
  show ?thesis unfolding push_frame_def a(2-5) unfolding a(1)
    by (rule page_only_trans [OF _ s] page_only_refl)+ simp_all
qed

text \<open>\<open>iretq\<close> takes the instruction pointer from the bottom of the frame.\<close>

lemma push_frame_rip:
  assumes "kst AND 0xFFF = 0" and "ktop = kst + 4088"
  shows "rd64 (page_mem (push_frame ktop rsp rip w) kst) 4056 = rip"
proof -
  have a: "ktop - 32 = kst + of_nat 4056" using assms(2) by simp
  have "push_frame ktop rsp rip w = set_mem64 (kst + of_nat 4056) rip (set_mem64 (ktop - 24) 0x2B (set_mem64 (ktop - 16) 0x200 (set_mem64 (ktop - 8) rsp (set_mem64 ktop 0x23 w))))"
    unfolding push_frame_def a by (rule refl)
  then show ?thesis using rd_wr_same by (simp add: set_mem64_at [OF assms(1)] del: of_nat_numeral) simp
qed

lemma translate_procs: "translate ((w :: 'a pst_scheme)\<lparr>procs := m\<rparr>) d u = translate w d u"
proof -
  have "table_at (w\<lparr>procs := m\<rparr>) d js = table_at w d js" for js by (rule table_at_same) (simp add: entry_at_def)
  then show ?thesis by (simp add: translate_def entry_at_def split: option.split)
qed

section \<open>Loading an image without section headers\<close>

text \<open>C24: The struct for the ELF header gives \<open>e_flags\<close> eight bytes instead of the four of the format, so what the loader takes for the
  number of program headers is the number of section headers, at offset 60. For a valid image without section headers (a stripped
  program), whatever program headers and segments it has, and a process with an empty address space, four pages of memory and arguments
  that fit: \<open>elf_load\<close> succeeds and returns the entry point, the frame on its kernel stack enters user mode there, and yet nothing is mapped in
  the user half of its address space but the stack page; neither code nor data of the program is loaded.\<close>

theorem elf_load_loads_no_segment:
  assumes sp: "spaces w P" "page_dir p \<in> P" "page_dir p \<noteq> 0" and pr: "procs w proc = Some p"
    and new: "\<forall>u < 2 ^ 47. get_physical_in w (page_dir p) u = Some 0"
    and kst: "stack_top p = kst + 4088" "kst AND 0xFFF = 0" "page_used w kst" "\<forall>js. upath js \<longrightarrow> table_at w (page_dir p) js \<noteq> Some kst"
    and img: "elf_ok img = Some True" "read_header img = Some h" "get_le img 60 2 = Some 0"
    and n: "4 \<le> card (pmm_avail (pages w))" and argv: "fitting_argv argv"
  shows "\<exists>w' p'. elf_load img proc argv w = Some (e_entry h, w') \<and> procs w' proc = Some p' \<and> is_user p' = 1 \<and> page_dir p' = page_dir p \<and>
    rd64 (page_mem w' kst) 4056 = e_entry h \<and> get_physical_in w' (page_dir p) USER_STACK \<noteq> Some 0 \<and>
    (\<forall>u < 2 ^ 47. page_of u \<noteq> USER_STACK \<longrightarrow> get_physical_in w' (page_dir p) u = Some 0)"
proof -
  let ?dir = "page_dir p"
  have us: "USER_STACK < 2 ^ 47" "page_of USER_STACK = USER_STACK" "USER_STACK AND 0xFFF = 0" "USER_STACK \<noteq> 0" by (simp_all add: page_of_def)
  have ls: "load_segments img h ?dir w = Some (0, w)"
    using img(2,3) by (auto simp: load_segments_def read_header_def bind_eq_Some_conv)
  from map_zero_page_total [OF sp us(1) _ n, of 7] obtain a w2 where
    z: "map_zero_page ?dir 7 USER_STACK w = Some w2" "a \<noteq> 0" "page_of a = a"
      "\<forall>u < 2 ^ 47. translate w2 ?dir u = (if page_of u = page_of USER_STACK then a OR (u AND 0xFFF) else translate w ?dir u)"
      "\<forall>js. upath js \<longrightarrow> table_at w2 ?dir js \<noteq> Some (physical_to_virtual a)"
      "\<forall>x. page_used w x \<longrightarrow> (\<forall>js. upath js \<longrightarrow> table_at w ?dir js \<noteq> Some x) \<longrightarrow> (\<forall>js. upath js \<longrightarrow> table_at w2 ?dir js \<noteq> Some x)"
      "ast.more w2 = ast.more w" by (auto simp del: not_None_eq)
  have ta: "translate w2 ?dir USER_STACK = a" using z(4) us by simp
  from build_argv_stack_page [OF argv us(3,4), of ?dir w2] obtain args w3 where
    b: "build_argv_stack ?dir USER_STACK argv w2 = Some (args, w3)" "page_only (physical_to_virtual a) w2 w3" unfolding ta by blast
  define rsp where "rsp = (case args of None \<Rightarrow> USER_STACK + PAGE_SIZE - 8 | Some (n, a) \<Rightarrow> a)"
  let ?w4 = "push_frame (stack_top p) rsp (e_entry h) w3"
  have f: "page_only kst w3 ?w4" by (rule push_frame_page [OF kst(2,1)])
  have t3: "table_at w3 ?dir js = table_at w2 ?dir js" if "upath js" for js using table_at_page_only [OF b(2) that] z(5) by blast
  have k3: "table_at w3 ?dir js \<noteq> Some kst" if "upath js" for js using t3 [OF that] z(6) kst(3,4) that by metis
  have tr: "translate ?w4 ?dir u = translate w2 ?dir u" if "u < 2 ^ 47" for u
    using translate_no_table [OF f k3 that] translate_no_table [OF b(2) _ that] z(5) by metis
  have pr4: "procs ?w4 proc = Some p" using pr procs_more [OF z(7)] b(2) f by (auto simp: page_only_def)
  then obtain p' where e: "enter_program proc p argv 0 (e_entry h) w2 = Some (?w4\<lparr>procs := (procs ?w4)(proc \<mapsto> p')\<rparr>)" "is_user p' = 1" "page_dir p' = ?dir"
    using b(1) by (auto simp: enter_program_def upd_proc_def rsp_def Let_def split: option.splits)
  let ?w' = "?w4\<lparr>procs := (procs ?w4)(proc \<mapsto> p')\<rparr>"
  have "elf_load img proc argv w = Some (e_entry h, ?w')" using img(1,2) pr ls z(1) e(1) by (simp add: elf_load_def)
  moreover have "get_physical_in ?w' ?dir u = Some (if page_of u = USER_STACK then a OR (u AND 0xFFF) else 0)" if "u < 2 ^ 47" for u
    using tr [OF that] z(4) that new us(2) by (simp add: get_physical_in_translate translate_procs)
  moreover have "a OR (USER_STACK AND 0xFFF) \<noteq> 0" using z(2) us(3) by simp
  moreover have "rd64 (page_mem ?w' kst) 4056 = e_entry h" using push_frame_rip [OF kst(2,1)] by simp
  ultimately show ?thesis using e(2,3) us(1,2) by (intro exI [of _ ?w'] exI [of _ p']) auto
qed

text \<open>A header with one program header and no sections, followed by a loadable segment for the address \<open>0x400000\<close>, its entry point.\<close>

definition stripped_image :: "u8 list" where
  "stripped_image = [0x7F, 0x45, 0x4C, 0x46, 2, 1, 1, 0] @ replicate 8 0 @ [2, 0, 0x3E, 0, 1, 0, 0, 0] @ [0, 0, 0x40, 0, 0, 0, 0, 0] @ [64, 0, 0, 0, 0, 0, 0, 0] @
     replicate 8 0 @ [0, 0, 0, 0, 64, 0, 56, 0, 1, 0, 64, 0, 0, 0, 0, 0] @
     [1, 0, 0, 0, 5, 0, 0, 0, 0, 0, 0, 0, 0, 0, 0, 0, 0, 0, 0x40, 0, 0, 0, 0, 0, 0, 0, 0x40, 0, 0, 0, 0, 0, 120, 0, 0, 0, 0, 0, 0, 0, 120, 0, 0, 0, 0, 0, 0, 0, 0, 16, 0, 0, 0, 0, 0, 0]"

definition loading_process :: process where
  "loading_process = zero_process\<lparr>page_dir := PHYSICAL_MAP_BASE, stack_top := PHYSICAL_MAP_BASE + 0x20FF8\<rparr>"

definition loading_machine :: pst where
  "loading_machine = two_processes\<lparr>procs := [0x1000 \<mapsto> loading_process]\<rparr>"

theorem elf_load_loads_no_segment_witness:
  "map_option p_type (read_phdr stripped_image 64) = Some PT_LOAD \<and> map_option p_vaddr (read_phdr stripped_image 64) = Some 0x400000 \<and>
   (\<exists>w'. elf_load stripped_image 0x1000 None loading_machine = Some (0x400000, w') \<and> get_physical_in w' PHYSICAL_MAP_BASE 0x400000 = Some 0)"
proof -
  let ?w = loading_machine and ?p = loading_process and ?h = "\<lparr>e_entry = 0x400000, e_phoff = 64, e_phnum = 0\<rparr>"
  have i: "get_le stripped_image 60 2 = Some 0" "elf_ok stripped_image = Some True" "read_header stripped_image = Some ?h"
    "map_option p_type (read_phdr stripped_image 64) = Some PT_LOAD" "map_option p_vaddr (read_phdr stripped_image 64) = Some 0x400000"
    by (simp_all add: stripped_image_def elf_ok_def get_le_def le_value_def read_phdr_def read_header_def)
  have pg: "pages ?w = small_pmm" "page_mem ?w = page_mem small_machine"
    by (simp_all add: loading_machine_def two_processes_def small_machine_def ast.defs)
  have same: "table_at ?w d js = table_at small_machine d js" for d js by (rule table_at_same) (simp add: entry_at_def pg)
  have empty: "table_at small_machine d js = Some t \<Longrightarrow> upath js \<Longrightarrow> js = [] \<and> t = d" for d js t
    using table_at_empty [of small_machine d js t] by (simp add: entry_at_def small_machine_def rd64_def)
  have "spaces small_machine {PHYSICAL_MAP_BASE}" by (rule small_machine_spaces) simp
  then have sp: "spaces ?w {PHYSICAL_MAP_BASE}" unfolding spaces_def page_used_def same pg(1) by (simp add: small_machine_def)
  have new: "\<forall>u < 2 ^ 47. get_physical_in ?w PHYSICAL_MAP_BASE u = Some 0"
    by (simp add: get_physical_in_translate translate_def same entry_at_def pg small_machine_def rd64_def e_present_def split: option.split)
  have av: "4 \<le> card (pmm_avail (pages ?w))"
  proof -
    have "card {4096, 8192, 12288, 16384 :: u64} \<le> card (pmm_avail small_pmm)" using small_avail(2) by (intro card_mono) simp_all
    then show ?thesis by (simp add: pg)
  qed
  have "x < 0x10000" if "x \<in> pmm_avail small_pmm" for x
    using that unfolding pmm_avail_def small_pmm_def by (auto simp: word_less_nat_alt unat_word_ariths)
  then have "page_used ?w (PHYSICAL_MAP_BASE + 0x20000)" by (force simp: page_used_def pg virtual_to_physical_def)
  moreover have "\<forall>js. upath js \<longrightarrow> table_at ?w PHYSICAL_MAP_BASE js \<noteq> Some (PHYSICAL_MAP_BASE + 0x20000)"
    unfolding same using empty by fastforce
  moreover have "page_dir ?p = PHYSICAL_MAP_BASE" "procs ?w 0x1000 = Some ?p" "stack_top ?p = (PHYSICAL_MAP_BASE + 0x20000) + 4088"
    by (simp_all add: loading_process_def loading_machine_def)
  ultimately have "\<exists>w'. elf_load stripped_image 0x1000 None ?w = Some (e_entry ?h, w') \<and> (\<forall>u < 2 ^ 47. page_of u \<noteq> USER_STACK \<longrightarrow> get_physical_in w' (page_dir ?p) u = Some 0)"
    using elf_load_loads_no_segment [OF sp, of ?p "0x1000" "PHYSICAL_MAP_BASE + 0x20000" stripped_image ?h None] new av i
    by (fastforce simp: fitting_argv_def)
  then show ?thesis using i(4,5) \<open>page_dir ?p = PHYSICAL_MAP_BASE\<close> by (auto simp: page_of_def)
qed

end
