(* ===== verification/Faults.thy ===== *)
theory Faults
  imports Shell Interrupts
begin

text \<open>
  How the kernel stops: \<open>kpanic\<close> (\<open>src/kernel/core/panic.c\<close>), the processor exceptions (\<open>isr_handler\<close> in \<open>idt.c\<close> and
  \<open>page_fault_handler\<close> in \<open>paging.c\<close>), with the table of processes (\<open>process_print_all\<close> in \<open>process.c\<close>). None of the handlers returns: the result is the state in which the
  processor is stopped. A variable argument of another type than the conversion asks for is undefined behaviour, so \<^term>\<open>None\<close>.
\<close>

section \<open>Panic\<close>

definition report_serial :: "string \<Rightarrow> va list \<Rightarrow> 'a dst_scheme \<Rightarrow> 'a dst_scheme option" where
  "report_serial fmt args w = do { io \<leftarrow> kserial_printf (replicate 1024 NUL) fmt args (ports w); Some (w\<lparr>ports := io\<rparr>) }"

text \<open>The reports up to the banner on the screen, and the rest. The last quotation mark of the third screen line is
  misplaced in the code: the format contains the word \<open>msg\<close> and no argument is passed.\<close>

definition kpanic_banner :: "string \<Rightarrow> 'a dst_scheme \<Rightarrow> 'a dst_scheme option" where
  "kpanic_banner msg w =
     do { w1 \<leftarrow> report_serial (newline @ newline @ ''KERNEL PANIC: %s'' @ newline) [VStr (Some msg)] w;
          w2 \<leftarrow> report_serial (''System halted.'' @ newline) [] w1;
          say (newline @ newline @ ''*** KERNEL PANIC ***'' @ newline) [] (w2\<lparr>screen := vga_set_colour 15 4 (screen w2)\<rparr>) }"

definition kpanic :: "string \<Rightarrow> 'a dst_scheme \<Rightarrow> 'a dst_scheme option" where
  "kpanic msg w =
     do { w1 \<leftarrow> kpanic_banner msg w;
          w2 \<leftarrow> say (''%s'' @ newline @ '', msg'') [] w1;
          say (newline @ ''System halted.'') [] w2 }"

section \<open>Exceptions\<close>

text \<open>The registers the handlers read.\<close>

record registers =
  int_no :: u64
  err_code :: u64
  g_rip :: u64
  g_rsp :: u64

definition page_fault_handler :: "u64 \<Rightarrow> registers \<Rightarrow> 'a dst_scheme \<Rightarrow> 'a dst_scheme option" where
  "page_fault_handler cr2 regs w =
     (let present = bit (err_code regs) 0; wr = bit (err_code regs) 1; user = bit (err_code regs) 2 in
      do { w1 \<leftarrow> say (newline @ ''--- PAGE FAULT ---'' @ newline) [] (colour_to 4 w);
           w2 \<leftarrow> say (''Address : 0x%lx'' @ newline) [VLong cr2] (colour_to 15 w1);
           say (''Reason  : %s %s %s'' @ newline)
             [VStr (Some (if present then ''protection violation'' else ''page not present'')),
              VStr (Some (if wr then ''on write'' else ''on read'')),
              VStr (Some (if user then ''from user space'' else ''from kernel''))] w2 })"

definition exceptions :: "string list" where
  "exceptions = [''Divide By Zero'', ''Debug'', ''Non-Maskable Interrupt'', ''Breakpoint'']"

definition isr_handler :: "u64 \<Rightarrow> registers \<Rightarrow> 'a dst_scheme \<Rightarrow> 'a dst_scheme option" where
  "isr_handler cr2 regs w =
     (if int_no regs = 14 then page_fault_handler cr2 regs w
      else if int_no regs = 8 then
        do { w1 \<leftarrow> say (newline @ ''CPU Exception: Double Fault'' @ newline) [] (colour_to 4 w);
             say (''EIP=0x%lx ESP=0%lx'' @ newline) [VLong (g_rip regs), VLong (g_rsp regs)] w1 }
      else if int_no regs = 13 then
        do { w1 \<leftarrow> say (newline @ ''CPU Exception: General Protection Fault'' @ newline) [] (colour_to 4 w);
             say (''EIP=0x%lx ESP=0%lx'' @ newline) [VLong (g_rip regs), VLong (g_rsp regs)] w1 }
      else if unat (int_no regs) \<ge> length exceptions then None
      else
        do { w1 \<leftarrow> say (newline @ ''CPU EXCEPTION: %s'' @ newline) [VStr (Some (exceptions ! unat (int_no regs)))] (colour_to 4 w);
             say (''EIP=0x%x ESP=0x%x'' @ newline) [VLong (g_rip regs), VLong (g_rsp regs)] w1 })"

section \<open>The table of processes\<close>

fun print_state_name :: "process_state \<Rightarrow> string" where
  "print_state_name PROCESS_READY = ''READY  ''"
| "print_state_name PROCESS_RUNNING = ''RUNNING''"
| "print_state_name PROCESS_BLOCKED = ''BLOCKED''"
| "print_state_name PROCESS_DEAD = ''DEAD   ''"
| "print_state_name PROCESS_SLEEPING = ''SLEEP  ''"

text \<open>The number of a process has 64 bits and is printed with the conversion for an \<open>int\<close>.\<close>

definition process_print_all :: "'a dst_scheme \<Rightarrow> 'a dst_scheme option" where
  "process_print_all w =
     do { w1 \<leftarrow> say (newline @ ''PID STATE    NAME'' @ newline) [] (colour_to 3 w);
          w2 \<leftarrow> say (''--- -------  ----'' @ newline) [] w1;
          loop_over [0..<MAX_PROCESSES]
            (\<lambda>i w. if process_table w ! i = 0 then Some w
                    else do { p \<leftarrow> procs w (process_table w ! i); say (''%d    %s  %s'' @ newline) [VLong (pid p), VStr (Some (print_state_name (pstate p))), VStr (Some (pname p))] w })
            (colour_to 15 w2) }"

section \<open>Statistics\<close>

text \<open>The page counters and \<open>HEAP_START\<close> have 64 bits and are printed with conversions for 32 bits.\<close>

definition pmm_print_stats :: "'a dst_scheme \<Rightarrow> 'a dst_scheme option" where
  "pmm_print_stats w =
     (let n = total_pages (pages w); used = used_pages (pages w) in
      do { w1 \<leftarrow> say (newline @ ''Physical Memory:'' @ newline) [] (colour_to 3 w);
           w2 \<leftarrow> say (''    Total pages : %u (%uMB)'' @ newline) [VLong n, VLong (n * PAGE_SIZE div 1024 div 1024)] (colour_to 15 w1);
           w3 \<leftarrow> say (''    Used pages  : %u (%uKB)'' @ newline) [VLong used, VLong (used * PAGE_SIZE div 1024)] w2;
           say (''    Free pages  : %u (%uMB)'' @ newline) [VLong (n - used), VLong ((n - used) * PAGE_SIZE div 1024 div 1024)] w3 })"

definition mem_print_report :: "'a dst_scheme \<Rightarrow> 'a dst_scheme option" where
  "mem_print_report w =
     do { (total_blocks, _, free_bytes) \<leftarrow> mem_print_stats (heap w);
          w1 \<leftarrow> say (newline @ ''Memory stats:'' @ newline) [] (colour_to 3 w);
          w2 \<leftarrow> say (''    Heap start : 0x%x'' @ newline) [VLong HEAP_START] (colour_to 15 w1);
          w3 \<leftarrow> say (''    Total size : %uKB'' @ newline) [VInt (ucast (HEAP_SIZE div 1024))] w2;
          w4 \<leftarrow> say (''    Used       : %u bytes'' @ newline) [VInt (heap_used (heap w))] w3;
          w5 \<leftarrow> say (''    Free       : %u bytes'' @ newline) [VInt free_bytes] w4;
          say (''    Blocks     : %u'' @ newline) [VInt total_blocks] w5 }"

definition shadowfs_stats :: "'a dst_scheme \<Rightarrow> 'a dst_scheme option" where
  "shadowfs_stats w =
     (case vfs_find_mount w ''/temp'' of
        None \<Rightarrow> Some w
      | Some i \<Rightarrow>
          if sb_private (mount_table w ! i) = 0 then Some w
          else do { m \<leftarrow> smounts w (sb_private (mount_table w ! i));
                    report_serial (''shadowFS /temp: used=%uKB quota=%uKB'' @ newline)
                      [VInt (m_used m div 1024), VInt (quota m div 1024), VInt ((quota m - m_used m) div 1024)] w })"

section \<open>What the reports show\<close>

lemma kprintf_text:
  assumes "fmt_text fmt args = Some out" "length out < 1024" "NUL \<notin> set out"
  shows "kvsnprintf (replicate 1024 NUL) 1024 fmt args = Some (out @ NUL # replicate (1023 - length out) NUL, length out)"
  using kvsnprintf_text [of 1024 "replicate 1024 NUL" fmt args] assms by (simp add: min_absorb1 Suc_diff_Suc del: replicate_Suc)

lemma c_text: "NUL \<notin> set out \<Longrightarrow> takeWhile (\<lambda>c. c \<noteq> NUL) (out @ NUL # rest) = out"
  by (induction out) auto

lemma say_text:
  assumes "fmt_text fmt args = Some out" "length out < 1024" "NUL \<notin> set out"
  shows "say fmt args w = Some (w\<lparr>screen := fold vga_putchar (bytes_of out) (screen w)\<rparr>)"
  using kprintf_text [OF assms] c_text [OF assms(3)] by (simp add: say_def kprintf_def)

lemma report_serial_text:
  assumes "fmt_text fmt args = Some out" "length out < 1024" "NUL \<notin> set out"
  shows "report_serial fmt args w = Some (w\<lparr>ports := serial_print (bytes_of out) (ports w)\<rparr>)"
  using kprintf_text [OF assms] c_text [OF assms(3)] by (simp add: report_serial_def kserial_printf_def)

lemma plain_text: "CHR ''%'' \<notin> set fmt \<Longrightarrow> fmt_text fmt args = Some fmt"
  by (induction fmt) auto

lemma serial_print_append: "serial_print (a @ b) io = serial_print b (serial_print a io)"
  by (simp add: serial_print_def)

text \<open>What a panic reports. For every message that fits the buffer, \<open>kpanic\<close> sends it with the notice of the halt to the serial port and
  prints the banner on the screen; then (\<open>panic.c\<close>, line 18) it calls \<open>kprintf\<close> with a conversion for a string and no argument,
  because the quotation mark that should end the format comes after the argument. What follows is undefined.\<close>

theorem kpanic_reports:
  assumes "NUL \<notin> set msg" "length msg < 1000"
  shows "\<exists>w1. kpanic_banner msg w = Some w1 \<and>
    ports w1 = serial_print (bytes_of (newline @ newline @ ''KERNEL PANIC: '' @ msg @ newline @ ''System halted.'' @ newline)) (ports w) \<and>
    screen w1 = fold vga_putchar (bytes_of (newline @ newline @ ''*** KERNEL PANIC ***'' @ newline)) (vga_set_colour 15 4 (screen w)) \<and>
    kpanic msg w = None"
proof -
  have "fmt_text (newline @ newline @ ''KERNEL PANIC: %s'' @ newline) [VStr (Some msg)] = Some (newline @ newline @ ''KERNEL PANIC: '' @ msg @ newline)"
    by (simp add: long_prefix_def convert_def)
  from report_serial_text [OF this] assms have
    r1: "report_serial (newline @ newline @ ''KERNEL PANIC: %s'' @ newline) [VStr (Some msg)] w =
      Some (w\<lparr>ports := serial_print (bytes_of (newline @ newline @ ''KERNEL PANIC: '' @ msg @ newline)) (ports w)\<rparr>)" by auto
  have r2: "report_serial (''System halted.'' @ newline) [] v = Some (v\<lparr>ports := serial_print (bytes_of (''System halted.'' @ newline)) (ports v)\<rparr>)" for v :: "'a dst_scheme"
    by (rule report_serial_text) (simp_all add: plain_text)
  have r3: "say (newline @ newline @ ''*** KERNEL PANIC ***'' @ newline) [] v =
      Some (v\<lparr>screen := fold vga_putchar (bytes_of (newline @ newline @ ''*** KERNEL PANIC ***'' @ newline)) (screen v)\<rparr>)" for v :: "'a dst_scheme"
    by (rule say_text) (simp_all add: plain_text)
  have r4: "say (''%s'' @ newline @ '', msg'') [] v = None" for v :: "'a dst_scheme"
    by (simp add: say_def kprintf_def kvsnprintf_def kvs_loop_text long_prefix_def convert_def)
  have j: "serial_print (bytes_of (newline @ newline @ ''KERNEL PANIC: '' @ msg @ newline @ ''System halted.'' @ newline)) (ports w) =
      serial_print (bytes_of (''System halted.'' @ newline)) (serial_print (bytes_of (newline @ newline @ ''KERNEL PANIC: '' @ msg @ newline)) (ports w))"
    unfolding serial_print_append [symmetric] bytes_of_append [symmetric] by simp
  show ?thesis unfolding kpanic_def kpanic_banner_def r1 j bind.bind_lunit r2 r3 r4 by simp
qed

lemma hex_digit_chars: "d < 16 \<Longrightarrow> hex_digit d \<noteq> NUL"
proof -
  have "\<forall>d \<in> set [0..<16]. hex_digit d \<noteq> NUL" by code_simp
  then show "d < 16 \<Longrightarrow> hex_digit d \<noteq> NUL" by simp
qed

lemma hex_loop_chars: "NUL \<notin> set buf \<Longrightarrow> NUL \<notin> set (hex_loop k (n :: u64) buf)"
proof (induction k n buf rule: hex_loop.induct)
  case (2 i n buf)
  have "unat (n AND 0xF) < 16" using word_and_le1 [of n "0xF"] by (simp add: word_le_nat_alt)
  then have "hex_digit (unat (n AND 0xF)) \<noteq> NUL" by (rule hex_digit_chars)
  then show ?case using 2 by simp
qed simp

lemma hex16_chars: "NUL \<notin> set (uint64_to_hex v)" "length (uint64_to_hex v) = 16"
  by (simp_all add: uint64_to_hex_def hex_loop_chars)

text \<open>What the exception handler shows. A page fault is reported with the address and, from the three lowest bits of the error code,
  whether the page was present, written to and used from user space: first the banner in red, then address and reason in white. For the
  exceptions 0 to 3 the name is printed, but the registers are 64 bits wide and are printed with the conversion for 32 bits, which is
  undefined.\<close>

theorem isr_handler_reports:
  "isr_handler cr2 \<lparr>int_no = 14, err_code = e, g_rip = ip, g_rsp = sp\<rparr> w =
     Some (w\<lparr>screen := fold vga_putchar (bytes_of (''Address : 0x'' @ uint64_to_hex cr2 @ newline @ ''Reason  : '' @
        (if bit e 0 then ''protection violation'' else ''page not present'') @ '' '' @ (if bit e 1 then ''on write'' else ''on read'') @ '' '' @
        (if bit e 2 then ''from user space'' else ''from kernel'') @ newline))
       (vga_set_colour 15 0 (fold vga_putchar (bytes_of (newline @ ''--- PAGE FAULT ---'' @ newline)) (vga_set_colour 4 0 (screen w))))\<rparr>) \<and>
   (n < 4 \<longrightarrow> isr_handler cr2 \<lparr>int_no = of_nat n, err_code = e, g_rip = ip, g_rsp = sp\<rparr> w = None)"
proof
  let ?r = "(if bit e 0 then ''protection violation'' else ''page not present'') @ '' '' @ (if bit e 1 then ''on write'' else ''on read'') @ '' '' @
        (if bit e 2 then ''from user space'' else ''from kernel'') @ newline"
  have s1: "say (newline @ ''--- PAGE FAULT ---'' @ newline) [] v = Some (v\<lparr>screen := fold vga_putchar (bytes_of (newline @ ''--- PAGE FAULT ---'' @ newline)) (screen v)\<rparr>)" for v :: "'a dst_scheme"
    by (rule say_text) (simp_all add: plain_text)
  have s2: "say (''Address : 0x%lx'' @ newline) [VLong cr2] v =
      Some (v\<lparr>screen := fold vga_putchar (bytes_of (''Address : 0x'' @ uint64_to_hex cr2 @ newline)) (screen v)\<rparr>)" for v :: "'a dst_scheme"
    by (rule say_text) (simp_all add: long_prefix_def convert_def hex16_chars)
  have s3: "say (''Reason  : %s %s %s'' @ newline) [VStr (Some (if bit e 0 then ''protection violation'' else ''page not present'')),
      VStr (Some (if bit e 1 then ''on write'' else ''on read'')), VStr (Some (if bit e 2 then ''from user space'' else ''from kernel''))] v =
      Some (v\<lparr>screen := fold vga_putchar (bytes_of (''Reason  : '' @ ?r)) (screen v)\<rparr>)" for v :: "'a dst_scheme"
    by (rule say_text) (simp_all add: long_prefix_def convert_def)
  have a: "bytes_of (''Address : 0x'' @ uint64_to_hex cr2 @ newline @ ''Reason  : '' @ ?r) =
      bytes_of (''Address : 0x'' @ uint64_to_hex cr2 @ newline) @ bytes_of (''Reason  : '' @ ?r)" by (simp add: bytes_of_def)
  show "isr_handler cr2 \<lparr>int_no = 14, err_code = e, g_rip = ip, g_rsp = sp\<rparr> w =
     Some (w\<lparr>screen := fold vga_putchar (bytes_of (''Address : 0x'' @ uint64_to_hex cr2 @ newline @ ''Reason  : '' @ ?r))
       (vga_set_colour 15 0 (fold vga_putchar (bytes_of (newline @ ''--- PAGE FAULT ---'' @ newline)) (vga_set_colour 4 0 (screen w))))\<rparr>)"
    unfolding a fold_append comp_apply isr_handler_def page_fault_handler_def Let_def by (simp add: s1 s2 s3 colour_to_def del: append.append_Cons One_nat_def split del: if_split)
  have s4: "say (''EIP=0x%x ESP=0x%x'' @ newline) [VLong x, VLong y] v = None" for x y and v :: "'a dst_scheme"
    by (simp add: say_def kprintf_def kvsnprintf_def kvs_loop_text long_prefix_def convert_def)
  show "n < 4 \<longrightarrow> isr_handler cr2 \<lparr>int_no = of_nat n, err_code = e, g_rip = ip, g_rsp = sp\<rparr> w = None"
  proof
    assume "n < 4"
    then have "(of_nat n :: u64) \<noteq> 14" "(of_nat n :: u64) \<noteq> 8" "(of_nat n :: u64) \<noteq> 13" by (auto simp: word_unat_eq_iff unat_of_nat)
    then show "isr_handler cr2 \<lparr>int_no = of_nat n, err_code = e, g_rip = ip, g_rsp = sp\<rparr> w = None"
      unfolding isr_handler_def registers.select_convs if_False s4 by (auto split: bind_splits)
  qed
qed

text \<open>The other reports with conversions narrower than their arguments: the statistics, and the table of processes when there is one.\<close>

lemma wide_arguments:
  "say (''    Total pages : %u (%uMB)'' @ newline) [VLong x, VLong y] w = None" "say (''    Heap start : 0x%x'' @ newline) [VLong x] w = None"
  "say (''%d    %s  %s'' @ newline) [VLong x, a, b] w = None"
  by (simp_all add: say_def kprintf_def kvsnprintf_def kvs_loop_text long_prefix_def convert_def)

theorem statistics_undefined: "pmm_print_stats w = None" "mem_print_report w = None"
  unfolding pmm_print_stats_def mem_print_report_def wide_arguments by (simp_all add: Option.bind_eq_None_conv split: prod.split)

theorem process_print_all_undefined:
  assumes "i < MAX_PROCESSES" "process_table w ! i \<noteq> 0"
  shows "process_print_all w = None"
proof -
  have "loop_over is (\<lambda>i w. if process_table w ! i = 0 then Some w else do { p \<leftarrow> procs w (process_table w ! i); None }) v = None"
    if "i \<in> set is" "process_table v ! i \<noteq> 0" for "is" and v :: "'a dst_scheme"
    using that by (induction "is" arbitrary: v) (auto simp: Option.bind_eq_None_conv)
  then have l: "loop_over [0..<MAX_PROCESSES] (\<lambda>i w. if process_table w ! i = 0 then Some w else do { p \<leftarrow> procs w (process_table w ! i); None }) (colour_to 15 v) = None"
    if "process_table v = process_table w" for v :: "'a dst_scheme" using that assms by (simp add: colour_to_def)
  have keep: "say f as v = Some v' \<Longrightarrow> process_table v' = process_table v" for f as and v v' :: "'a dst_scheme"
    by (auto simp: say_def Option.bind_eq_Some_conv)
  have c: "process_table (colour_to 3 w) = process_table w" by (simp add: colour_to_def)
  show ?thesis
  proof (rule ccontr)
    assume "process_print_all w \<noteq> None"
    then obtain w1 w2 w3 where s: "say (newline @ ''PID STATE    NAME'' @ newline) [] (colour_to 3 w) = Some w1" "say (''--- -------  ----'' @ newline) [] w1 = Some w2"
      "loop_over [0..<MAX_PROCESSES] (\<lambda>i w. if process_table w ! i = 0 then Some w else do { p \<leftarrow> procs w (process_table w ! i); None }) (colour_to 15 w2) = Some w3"
      unfolding process_print_all_def wide_arguments not_None_eq Option.bind_eq_Some_conv by (elim exE conjE) (rule that)
    show False using l [of w2] s(3) keep [OF s(1)] keep [OF s(2)] c by simp
  qed
qed

end
