(* ===== verification/File_Trip.thy ===== *)
theory File_Trip
  imports System
begin

text \<open>
  Files from the path to the page: opening, writing, closing, opening again and reading a file of a shadowFS
  that is mounted at some path, through the descriptor table (\<open>src/file_system/vfs/vfs.c\<close>), the directory and the
  blocks of shadowFS (\<open>src/file_system/shadowfs/shadowfs.c\<close>), the kernel heap and the page allocator.
\<close>

section \<open>Names below a mount point\<close>

definition file_name :: "string \<Rightarrow> bool" where
  "file_name n \<longleftrightarrow> n \<noteq> [] \<and> slash \<notin> set n \<and> length n < VFS_MAX_NAME"

text \<open>The shadowFS mounted at \<open>mp\<close> has the root directory \<open>root\<close> with the entries \<open>ds\<close>.\<close>

definition shadow_dir :: "'a dst_scheme \<Rightarrow> string \<Rightarrow> nat \<Rightarrow> u64 \<Rightarrow> (u64 \<times> shadowfs_dentry) list \<Rightarrow> shadowfs_mount \<Rightarrow> bool" where
  "shadow_dir w mp i root ds m \<longleftrightarrow> 1 < length mp \<and> length mp < VFS_MAX_PATH \<and> vfs_find_mount w mp = Some i \<and>
     mount_point (mount_table w ! i) = mp \<and> sb_root (mount_table w ! i) = root \<and> dir_on w root i ds m \<and>
     (\<forall>ino. inodes w root = Some ino \<longrightarrow> i_ops ino = Some SHADOWFS)"

lemma shadow_dirD:
  assumes "shadow_dir w mp i root ds m"
  obtains ino where "root \<noteq> 0" "inodes w root = Some ino" "i_ops ino = Some SHADOWFS" "i_sb ino = Some i" "dir_on w root i ds m" "dir_view w root ds"
    "smounts w (sb_private (mount_table w ! i)) = Some m"
  using assms by (auto simp: shadow_dir_def dir_on_def dir_view_def)

lemma mount_cong: "mount_table w' = mount_table w \<Longrightarrow> mount_count w' = mount_count w \<Longrightarrow> vfs_find_mount w' p = vfs_find_mount w p"
  by (simp add: vfs_find_mount_def)

lemma shadow_dir_keep:
  assumes d: "shadow_dir w mp i root ds m" and t: "mount_table w' = mount_table w" "mount_count w' = mount_count w"
    and ino: "inodes w' root = inodes w root" "sdents w' = sdents w" "\<And>ino. inodes w root = Some ino \<Longrightarrow> sinodes w' (i_private ino) = sinodes w (i_private ino)"
    and m: "smounts w' (sb_private (mount_table w ! i)) = Some m'"
  shows "shadow_dir w' mp i root ds m'"
  using d ino m unfolding shadow_dir_def dir_on_def dir_view_def t mount_cong [OF t] by auto

lemma resolve_mount_point:
  assumes "shadow_dir w mp i root ds m"
  shows "vfs_resolve_path fs_table w mp = Some (root, w)"
  using assms by (auto simp: shadow_dir_def vfs_resolve_path_def dir_on_def dir_view_def Let_def)

lemma walk_path_Nil: "walk_path D w a [] = Some (a, w)"
  by (subst walk_path.simps) simp

lemma resolve_below:
  assumes d: "shadow_dir w mp i root ds m" and p: "vfs_find_mount w (mp @ rest) = Some i" and n: "file_name name"
    and rest: "rest = name \<or> rest = slash # name"
  shows "vfs_resolve_path fs_table w (mp @ rest) = Some (find_inode ds name, w)"
proof -
  have no: "\<forall>x \<in> set name. x \<noteq> slash" using n by (auto simp: file_name_def)
  then have tw: "takeWhile (\<lambda>c. c \<noteq> slash) name = name" "dropWhile (\<lambda>c. c \<noteq> slash) name = []"
    by (simp_all add: takeWhile_eq_all_conv dropWhile_eq_Nil_conv)
  obtain ino where r: "root \<noteq> 0" "inodes w root = Some ino" "i_ops ino = Some SHADOWFS" "dir_view w root ds"
    using shadow_dirD [OF d] by metis
  have l: "inode_op fs_table op_lookup ino = Some shadowfs_lookup" using r(3) by (simp add: inode_op_def shadowfs_ops_def)
  have "walk_path fs_table w root name = Some (find_inode ds name, w)"
    using n by (subst walk_path.simps) (simp add: file_name_def walk_path_Nil Let_def tw r(2) l lookup_view [OF r(4)])
  moreover have "skip_slash rest = name" using rest n by (cases name) (auto simp: file_name_def)
  moreover have "mp @ rest \<noteq> ''/''" "rest \<noteq> []" using d rest n by (auto simp: shadow_dir_def append_eq_Cons_conv file_name_def)
  ultimately show ?thesis using p d r(1) by (simp add: vfs_resolve_path_def shadow_dir_def Let_def)
qed

lemma resolve_name:
  assumes "shadow_dir w mp i root ds m" and "vfs_find_mount w (mp @ slash # name) = Some i" and "file_name name"
  shows "vfs_resolve_path fs_table w (mp @ slash # name) = Some (find_inode ds name, w)"
  using resolve_below [OF assms] by simp

text \<open>A mount point owns every path it is a prefix of, unless a longer mount point is one too.\<close>

lemma find_mount_below:
  assumes d: "shadow_dir w mp i root ds m"
    and only: "\<forall>j < mount_count w. prefix (mount_point (mount_table w ! j)) (mp @ rest) \<longrightarrow> length (mount_point (mount_table w ! j)) \<le> length mp"
  shows "vfs_find_mount w (mp @ rest) = Some i"
proof -
  let ?sbs = "take (mount_count w) (mount_table w)"
  have b: "best_mount ?sbs mp i" and mp: "mount_point (mount_table w ! i) = mp" using d by (simp_all add: shadow_dir_def vfs_find_mount_Some)
  have short: "length (mount_point (?sbs ! j)) < length mp" if "j < i" "prefix (mount_point (?sbs ! j)) (mp @ rest)" for j
  proof (rule ccontr)
    assume "\<not> ?thesis"
    moreover have "length (mount_point (?sbs ! j)) \<le> length mp" using only that b by (auto simp: best_mount_def)
    ultimately have "mount_point (?sbs ! j) = mp" using that(2) by (metis le_neq_implies_less prefix_order.eq_iff prefix_length_prefix prefixI)
    then show False using b mp that(1) by (auto simp: best_mount_def)
  qed
  have "best_mount ?sbs (mp @ rest) i" using b mp only short unfolding best_mount_def by auto
  then show ?thesis by (simp add: vfs_find_mount_Some)
qed

lemma last_slash_at: "slash \<notin> set name \<Longrightarrow> k \<le> length name \<Longrightarrow> last_slash_from (mp @ slash # name) (Suc (length mp + k)) = int (length mp)"
proof (induction k)
  case (Suc k)
  have "(mp @ slash # name) ! Suc (length mp + k) = name ! k" by (simp add: nth_append)
  moreover have "name ! k \<noteq> slash" using Suc.prems by (metis Suc_le_lessD nth_mem)
  ultimately show ?case using Suc by simp
qed simp

lemma split_name:
  assumes "file_name name" "1 < length mp" "length mp < VFS_MAX_PATH"
  shows "split_path (mp @ slash # name) = Some (mp, name)"
  using last_slash_at [of name "length name" mp] assms by (auto simp: split_path_def file_name_def Let_def simp del: last_slash_from.simps)

section \<open>Opening\<close>

lemma put_same: "objs w a = Some x \<Longrightarrow> put a x w = w"
  by (simp add: put_def map_upd_triv)

text \<open>Truncating an empty file changes nothing.\<close>

lemma truncate_empty:
  assumes "a \<noteq> 0" "inodes w a = Some ino" "i_private ino \<noteq> 0" "mount_of w ino = Some M" "M \<noteq> 0" "i_type ino = VFS_TYPE_FILE" "i_size ino = 0"
    and "sinodes w (i_private ino) = Some \<lparr>si_head = 0, si_count = 0\<rparr>"
  shows "shadowfs_truncate w a 0 = Some (0, w)"
proof -
  have p: "put (i_private ino) (OSInode \<lparr>si_head = 0, si_count = 0\<rparr>) w = w" using assms(8) by (intro put_same) (simp add: access_iff)
  have "ino\<lparr>i_size := 0\<rparr> = ino" using assms(7) by (cases ino) simp
  then have "put a (OInode (ino\<lparr>i_size := 0\<rparr>)) w = w" using assms(2) by (intro put_same) (simp add: access_iff)
  with p show ?thesis using assms(1-6,8) by (simp add: shadowfs_truncate_def free_blocks_refund.simps)
qed

abbreviation fresh_file :: "u64 \<Rightarrow> u32 \<Rightarrow> file_t" where
  "fresh_file a flags \<equiv> \<lparr>f_inode = a, f_position = 0, f_flags = flags, f_ref_count = 1, f_private = 0\<rparr>"

lemma new_file:
  assumes "obj_inv w" "heap_room (heap w) (k + 104)" "5 \<le> k"
  obtains f h where "new x w = Some (f, w\<lparr>heap := h, objs := (objs w)(f \<mapsto> x)\<rparr>)" "f \<noteq> 0" "objs w f = None" "heap_room h k"
    "obj_inv (w\<lparr>heap := h, objs := (objs w)(f \<mapsto> x)\<rparr>)"
proof -
  obtain f w' where n: "new x w = Some (f, w')" "heap_room (heap w') k" "obj_inv w'" "f \<noteq> 0" "objs w f = None"
    using new_room [OF assms(1,2,3), of x] by metis
  then obtain h where "w' = w\<lparr>heap := h, objs := (objs w)(f \<mapsto> x)\<rparr>" by (auto simp: new_def split: option.splits)
  with n show ?thesis by (intro that [of f h]) auto
qed

lemma open_inode_ok:
  assumes inv: "obj_inv w" and ino: "inodes w a = Some ino" "i_ops ino = Some SHADOWFS" "a \<noteq> 0" and room: "heap_room (heap w) (k + 104)" "5 \<le> k"
    and ap: "flags AND O_APPEND = 0"
    and tr: "flags AND O_TRUNC \<noteq> 0 \<Longrightarrow> i_private ino \<noteq> 0 \<and> (\<exists>M. mount_of w ino = Some M \<and> M \<noteq> 0) \<and> i_type ino = VFS_TYPE_FILE \<and> i_size ino = 0 \<and>
      sinodes w (i_private ino) = Some \<lparr>si_head = 0, si_count = 0\<rparr>"
  shows "\<exists>f h. open_inode fs_table w a flags = Some (f, w\<lparr>heap := h, objs := (objs w)(f \<mapsto> OFile (fresh_file a flags))\<rparr>) \<and> f \<noteq> 0 \<and> objs w f = None \<and>
    heap_room h k \<and> obj_inv (w\<lparr>heap := h, objs := (objs w)(f \<mapsto> OFile (fresh_file a flags))\<rparr>)"
proof -
  obtain f h where n: "new (OFile (fresh_file a flags)) w = Some (f, w\<lparr>heap := h, objs := (objs w)(f \<mapsto> OFile (fresh_file a flags))\<rparr>)" "f \<noteq> 0" "objs w f = None"
      "heap_room h k" "obj_inv (w\<lparr>heap := h, objs := (objs w)(f \<mapsto> OFile (fresh_file a flags))\<rparr>)"
    using new_file [OF inv room, where x = "OFile (fresh_file a flags)"] .
  let ?w = "w\<lparr>heap := h, objs := (objs w)(f \<mapsto> OFile (fresh_file a flags))\<rparr>"
  have i: "inodes ?w a = Some ino" using ino(1) n(3) by (auto simp: access_iff)
  have s: "sinodes ?w x = sinodes w x" for x using n(3) by (simp add: sinodes_def)
  have t: "open_truncate fs_table ?w a = Some ?w" if "flags AND O_TRUNC \<noteq> 0"
  proof -
    from tr [OF that] obtain M where "mount_of ?w ino = Some M" "M \<noteq> 0" by (auto simp: mount_of_def split: option.splits)
    then have "shadowfs_truncate ?w a 0 = Some (0, ?w)" using tr [OF that] ino(3) i s by (intro truncate_empty) auto
    then show ?thesis using i ino(2) by (simp add: open_truncate_def inode_op_def shadowfs_ops_def)
  qed
  have c: "call_open fs_table ?w a f = Some (0, ?w)" using i ino(2) by (simp add: call_open_def inode_op_def shadowfs_ops_def shadowfs_open_def)
  have "(if flags AND O_TRUNC \<noteq> 0 then open_truncate fs_table ?w a else Some ?w) = Some ?w" using t by simp
  then have "open_inode fs_table w a flags = Some (f, ?w)"
    using n(1,2) c ap by (simp only: open_inode_def bind.bind_lunit prod.case if_False not_False_eq_True) simp
  then show ?thesis using n by blast
qed

lemma vfs_open_fd:
  assumes "vfs_open_file D w path flags = Some (f, w1)" "f \<noteq> 0" "alloc_fd_from (file_table w1) 3 = int fd"
  shows "vfs_open D w path flags = Some (int fd, w1\<lparr>file_table := (file_table w1)[fd := f]\<rparr>)"
  using assms by (simp add: vfs_open_def vfs_alloc_fd_def Let_def)

text \<open>A file of shadowFS with the bytes \<open>c\<close>.\<close>

definition stored :: "'a sst_scheme \<Rightarrow> u64 \<Rightarrow> inode \<Rightarrow> blocks \<Rightarrow> u8 list \<Rightarrow> bool" where
  "stored w a ino bs c \<longleftrightarrow> a \<noteq> 0 \<and> inodes w a = Some ino \<and> i_ops ino = Some SHADOWFS \<and> i_private ino \<noteq> 0 \<and> fblocks w (i_private ino) bs \<and>
     c = content (page_mem w) (data bs) \<and> i_size ino = of_nat (length c) \<and> length c < 2 ^ 31"

lemma stored_view: "stored w a ino bs c \<Longrightarrow> files w f = Some fl \<Longrightarrow> f_inode fl = a \<Longrightarrow> f \<noteq> 0 \<Longrightarrow> file_view w f fl ino bs c"
  by (auto simp: stored_def file_view_def)

lemma view_stored: "file_view w f fl ino bs c \<Longrightarrow> i_ops ino = Some SHADOWFS \<Longrightarrow> stored w (f_inode fl) ino bs c"
  by (auto simp: stored_def file_view_def)

text \<open>Objects that are neither blocks nor nodes come and go without changing a file.\<close>

lemma stored_keep:
  assumes s: "stored w a ino bs c" and "inodes w' a = inodes w a" "sinodes w' (i_private ino) = sinodes w (i_private ino)" "sblocks w' = sblocks w"
    "pages w' = pages w" "page_mem w' = page_mem w"
  shows "stored w' a ino bs c"
  using assms by (auto simp: stored_def fblocks_def)

lemma file_object_frame:
  assumes "objs w f = None \<or> files w f \<noteq> None" and "objs w' = (objs w)(f := y)" and "y = None \<or> (\<exists>fl. y = Some (OFile fl))"
  shows "inodes w' = inodes w" "sinodes w' = sinodes w" "sblocks w' = sblocks w" "sdents w' = sdents w" "smounts w' = smounts w"
proof -
  have o: "objs w f = None \<or> (\<exists>fl. objs w f = Some (OFile fl))" using assms(1) by (auto simp: access_iff)
  show "inodes w' = inodes w" "sinodes w' = sinodes w" "sblocks w' = sblocks w" "sdents w' = sdents w" "smounts w' = smounts w"
    using o assms(2,3) by (auto simp: fun_eq_iff inodes_def sinodes_def sblocks_def sdents_def smounts_def)
qed

text \<open>A directory and a file in it, with the mounts as they are.\<close>

definition same_mounts :: "'a vst_scheme \<Rightarrow> 'a vst_scheme \<Rightarrow> bool" where
  "same_mounts w w' \<longleftrightarrow> mount_table w' = mount_table w \<and> mount_count w' = mount_count w"

lemma open_new:
  assumes inv: "vfs_inv w" and d: "shadow_dir w mp i root ds m" and p: "vfs_find_mount w (mp @ slash # name) = Some i" and n: "file_name name"
    and nn: "name \<notin> set (names ds)" and q: "m_used m < quota m" and room: "heap_room (heap w) (k + 416)" "5 \<le> k"
    and fl: "flags AND O_CREAT \<noteq> 0" "flags AND O_APPEND = 0" and fd: "alloc_fd_from (file_table w) 3 = int fd" and wf: "pmm_wf (pages w)"
  shows "\<exists>w' f a ino ds'. vfs_open fs_table w (mp @ slash # name) flags = Some (int fd, w') \<and> file_table w' = (file_table w)[fd := f] \<and> f \<noteq> 0 \<and>
    files w' f = Some (fresh_file a flags) \<and> stored w' a ino [] [] \<and> i_sb ino = Some i \<and> entries ds' = entries ds @ [(name, a)] \<and>
    shadow_dir w' mp i root ds' (m\<lparr>next_inode_num := next_inode_num m + 1, m_used := m_used m + SIZEOF_ENTRY\<rparr>) \<and>
    heap_room (heap w') k \<and> pages w' = pages w \<and> same_mounts w w'"
proof -
  let ?path = "mp @ slash # name" and ?m = "m\<lparr>next_inode_num := next_inode_num m + 1, m_used := m_used m + SIZEOF_ENTRY\<rparr>"
  have oi: "obj_inv w" using inv by (rule vfs_inv_obj)
  obtain rino where r: "root \<noteq> 0" "inodes w root = Some rino" "i_ops rino = Some SHADOWFS" "dir_on w root i ds m"
    using shadow_dirD [OF d] by metis
  have "length name < VFS_MAX_NAME" using n by (simp add: file_name_def)
  have "heap_room (heap w) ((k + 104) + 312)" using room(1) by (simp add: ac_simps)
  from create_total [OF oi r(4) q nn this _ disjI1, of VFS_TYPE_FILE] room(2) obtain a w1 where
    c: "shadowfs_create w root name VFS_TYPE_FILE = Some (a, w1)" "a \<noteq> 0" "heap_room (heap w1) (k + 104)" by auto
  from create_view [OF oi r(4) c(1,2) \<open>length name < VFS_MAX_NAME\<close>] obtain ds' ino where
    v: "dir_on w1 root i ds' ?m" "entries ds' = entries ds @ [(name, a)]" "inodes w1 a = Some ino" "i_type ino = VFS_TYPE_FILE" "i_size ino = 0"
      "i_sb ino = Some i" "i_private ino \<noteq> 0" "sinodes w1 (i_private ino) = Some \<lparr>si_head = 0, si_count = 0\<rparr>" "mount_table w1 = mount_table w"
      "pages w1 = pages w" "i_ops ino = Some SHADOWFS" "inodes w1 root = inodes w root" by blast
  have fr: "obj_inv w1" "vfs_frame w w1" using create_step [OF oi c(1)] by (simp_all add: fs_step_def)
  then have tab: "file_table w1 = file_table w" "mount_count w1 = mount_count w" by (simp_all add: vfs_frame_def)
  have "find_inode ds name = 0" using nn by (induction ds name rule: find_inode.induct) auto
  with resolve_name [OF d p n] have res: "vfs_resolve_path fs_table w ?path = Some (0, w)" by simp
  have "split_path ?path = Some (mp, name)" using split_name [OF n] d by (simp add: shadow_dir_def)
  then have cr: "open_create fs_table w ?path = Some (a, w1)"
    using resolve_mount_point [OF d] r c(1) by (simp add: open_create_def inode_op_def shadowfs_ops_def)
  have sm: "smounts w1 (sb_private (mount_table w ! i)) = Some ?m" using v(1,9) by (simp add: dir_on_def)
  then have mo: "mount_of w1 ino = Some (sb_private (mount_table w ! i))" "sb_private (mount_table w ! i) \<noteq> 0"
    using v(6,9) obj_nonzero [OF fr(1)] by (auto simp: mount_of_def access_iff)
  from open_inode_ok [OF fr(1) v(3) v(11) c(2,3) room(2) fl(2)] v(4,5,7,8) mo obtain f h where
    o: "open_inode fs_table w1 a flags = Some (f, w1\<lparr>heap := h, objs := (objs w1)(f \<mapsto> OFile (fresh_file a flags))\<rparr>)" "f \<noteq> 0" "objs w1 f = None"
      "heap_room h k" by blast
  let ?w2 = "w1\<lparr>heap := h, objs := (objs w1)(f \<mapsto> OFile (fresh_file a flags))\<rparr>"
  let ?w3 = "?w2\<lparr>file_table := (file_table w1)[fd := f]\<rparr>"
  have "vfs_open_file fs_table w ?path flags = Some (f, ?w2)" using res cr o(1) fl(1) c(2) by (simp add: vfs_open_file_def)
  from vfs_open_fd [OF this o(2)] fd tab(1) have op: "vfs_open fs_table w ?path flags = Some (int fd, ?w3)" by simp
  have fo: "inodes ?w3 = inodes w1" "sinodes ?w3 = sinodes w1" "sblocks ?w3 = sblocks w1" "sdents ?w3 = sdents w1" "smounts ?w3 = smounts w1"
    by (rule file_object_frame [of w1 f ?w3 "Some (OFile (fresh_file a flags))"]; use o(3) in simp)+
  have "stored w1 a ino [] []" using v c(2) wf by (simp add: stored_def fblocks_def)
  then have st: "stored ?w3 a ino [] []" by (rule stored_keep) (use fo in simp_all)
  have mc: "vfs_find_mount w1 mp = Some i" using d v(9) tab(2) mount_cong [of w1 w mp] by (simp add: shadow_dir_def)
  then have "shadow_dir w1 mp i root ds' ?m" using d v(1,9,12) by (simp add: shadow_dir_def)
  then have sd: "shadow_dir ?w3 mp i root ds' ?m" by (rule shadow_dir_keep) (use fo sm v(9) in simp_all)
  have "files ?w3 f = Some (fresh_file a flags)" by (simp add: access_iff)
  moreover have "same_mounts w ?w3" using v(9) tab by (simp add: same_mounts_def)
  moreover have "file_table ?w3 = (file_table w)[fd := f]" "heap_room (heap ?w3) k" "pages ?w3 = pages w" using tab o(4) v(10) by simp_all
  ultimately show ?thesis using op st sd o(2) v(2,6) by blast
qed

section \<open>Writing and reading through a descriptor\<close>

lemma get_file: "fd < VFS_MAX_FDS \<Longrightarrow> vfs_get_file w (int fd) = file_table w ! fd"
  by (simp add: vfs_get_file_def)

text \<open>The directory is not the file: a non-empty list of entries does not begin with a block.\<close>

lemma dir_not_file:
  assumes "dir_view w root ds" "ds \<noteq> []" "inodes w root = Some rino" and "stored w a ino bs c"
  shows "root \<noteq> a" "i_private rino \<noteq> i_private ino"
proof -
  obtain si where si: "sinodes w (i_private rino) = Some si" "dlist (sdents w) (si_head si) ds" using assms(1,3) by (auto simp: dir_view_def)
  then have e: "si_head si \<noteq> 0" "sdents w (si_head si) \<noteq> None" using assms(2) by (cases ds; force)+
  have "\<not> blist (sblocks w) (si_head si) bs" using e by (cases bs) (auto simp: access_iff)
  then show "i_private rino \<noteq> i_private ino" using si(1) assms(4) by (auto simp: stored_def fblocks_def)
  then show "root \<noteq> a" using assms(3,4) by (auto simp: stored_def)
qed

lemma used_bound: "x \<le> k \<Longrightarrow> unat (u + 24 * of_nat x :: u32) \<le> unat u + 24 * k"
proof -
  assume x: "x \<le> k"
  have "unat (24 * of_nat x :: u32) \<le> 24 * x" by (simp add: unat_word_ariths unat_of_nat)
  moreover have "unat (u + 24 * of_nat x) \<le> unat u + unat (24 * of_nat x :: u32)" by (simp add: unat_word_ariths)
  ultimately have "unat (u + 24 * of_nat x) \<le> unat u + 24 * x" by linarith
  also have "\<dots> \<le> unat u + 24 * k" using x by simp
  finally show ?thesis .
qed

lemma quota_suffices:
  assumes "unat u + 24 * k < unat q" "x \<le> k"
  shows "\<not> q \<le> (u + 24 * of_nat x :: u32)"
  using used_bound [OF assms(2), of u] assms(1) by (simp add: word_le_nat_alt)

lemma write_file:
  assumes inv: "vfs_inv w" and f: "fd < VFS_MAX_FDS" "file_table w ! fd = f" "f \<noteq> 0" "files w f = Some fl" "f_inode fl = a" "f_flags fl \<noteq> O_RDONLY"
    and st: "stored w a ino bs c" "i_sb ino = Some i" and d: "shadow_dir w mp i root ds m" "ds \<noteq> []"
    and n: "length c + length src < 2 ^ 31" and en: "enough w (e + (length src + 4095) div 4096)"
    and q: "unat (m_used m) + 24 * ((length src + 4095) div 4096) < unat (quota m)"
  shows "\<exists>w' fl' ino' bs' m'. vfs_write fs_table w (int fd) (Some src) (of_nat (length src)) = Some (int (length src), w') \<and>
    stored w' a ino' bs' (c @ src) \<and> files w' f = Some fl' \<and> f_inode fl' = a \<and> shadow_dir w' mp i root ds m' \<and> vfs_inv w' \<and>
    file_table w' = file_table w \<and> enough w' e \<and> same_mounts w w' \<and> f_flags fl' = f_flags fl \<and> i_sb ino' = Some i \<and>
    unat (m_used m') \<le> unat (m_used m) + 24 * ((length src + 4095) div 4096) \<and> quota m' = quota m"
proof -
  have oi: "obj_inv w" using inv by (rule vfs_inv_obj)
  have v: "file_view w f fl ino bs c" using stored_view [OF st(1) f(4,5,3)] .
  obtain rino where r: "inodes w root = Some rino" "dir_view w root ds" "smounts w (sb_private (mount_table w ! i)) = Some m"
    using shadow_dirD [OF d(1)] by metis
  note nf = dir_not_file [OF r(2) d(2) r(1) st(1)]
  let ?M = "sb_private (mount_table w ! i)" and ?n = "of_nat (length src) :: u32"
  have M: "mount_of w ino = Some ?M" using st(2) by (simp add: mount_of_def)
  have un: "unat ?n = length src" using n by (simp add: unat_of_nat)
  obtain x w' where wr: "shadowfs_write w f (Some src) ?n = Some (x, w')" "enough w' e"
    using write_returns_room [OF oi v M r(3), of ?n src e] en un by auto
  from write_returned [OF oi v M r(3) _ _ wr(1)] n un obtain j bs' ino' fl' m' where
    j: "x = int j" "j \<le> length src" "file_view w' f fl' ino' bs' (c @ take j src)" "smounts w' ?M = Some m'"
      "m_used m' = m_used m + 24 * of_nat (length bs' - length bs)" "quota m' = quota m"
      "length bs' \<le> length bs + (length src + 4095) div 4096" "j < length src \<longrightarrow> m_used m' \<ge> quota m'" "f_inode fl' = f_inode fl" "i_sb ino' = i_sb ino"
    by auto
  have blk: "length bs' - length bs \<le> (length src + 4095) div 4096" using j(7) by simp
  then have us: "unat (m_used m') \<le> unat (m_used m) + 24 * ((length src + 4095) div 4096)" unfolding j(5) by (rule used_bound)
  from blk have "j = length src" using quota_suffices [OF q] j(2,5,6,8) by (metis le_neq_implies_less)
  then have full: "x = int (length src)" "file_view w' f fl' ino' bs' (c @ src)" using j(1,3) by simp_all
  from write_keeps [OF oi v M r(3) _ wr(1)] un obtain ino'' where
    k: "keeps_dirs (i_private ino) w w'" "\<forall>b. b \<noteq> a \<longrightarrow> inodes w' b = inodes w b" "inodes w' a = Some ino''" "i_ops ino'' = i_ops ino" "\<exists>fl'. files w' f = Some fl' \<and> f_flags fl' = f_flags fl"
    using f(5) by auto
  have "inodes w' a = Some ino'" using full(2) j(9) f(5) by (simp add: file_view_def)
  then have "i_ops ino' = Some SHADOWFS" using k(3,4) st(1) by (simp add: stored_def)
  then have st': "stored w' a ino' bs' (c @ src)" using view_stored [OF full(2)] j(9) f(5) by simp
  have op: "vfs_write fs_table w (int fd) (Some src) ?n = Some (int (length src), w')"
    using f st(1) wr(1) full(1) by (simp add: vfs_write_def get_file file_op_def inode_op_def shadowfs_ops_def stored_def Let_def)
  have fr: "vfs_inv w'" "file_table w' = file_table w" using kernel_fs.write_tab [OF inv op] by simp_all
  have sm: "same_mounts w w'" using write_step [OF oi wr(1)] by (simp add: fs_step_def vfs_frame_def same_mounts_def)
  have "shadow_dir w' mp i root ds m'"
    by (rule shadow_dir_keep [OF d(1)]) (use sm k(1,2) nf r(1) j(4) in \<open>auto simp: same_mounts_def keeps_dirs_def\<close>)
  moreover have "files w' f = Some fl'" "f_flags fl' = f_flags fl" using full(2) k(5) by (auto simp: file_view_def)
  ultimately show ?thesis using op st' fr sm wr(2) j(6,9,10) f(5) st(2) us by auto
qed

lemma close_file:
  assumes inv: "vfs_inv w" and f: "fd < VFS_MAX_FDS" "file_table w ! fd = f" "f \<noteq> 0" "files w f = Some fl" "f_inode fl = a" and st: "stored w a ino bs c"
    and room: "heap_room (heap w) k"
  shows "\<exists>w'. vfs_close fs_table w (int fd) = Some (0, w') \<and> vfs_inv w' \<and> file_table w' = (file_table w)[fd := 0] \<and> objs w' = (objs w)(f := None) \<and>
    pages w' = pages w \<and> page_mem w' = page_mem w \<and> same_mounts w w' \<and> heap_room (heap w') k \<and> sst.more w' = sst.more w"
proof -
  have oi: "obj_inv w" and rc: "f_ref_count fl = 1" using inv f(4) by (auto simp: vfs_inv_def vfs_tab_def)
  have cc: "call_close fs_table w f fl = Some w"
    using f(5) st by (simp add: call_close_def stored_def inode_op_def shadowfs_ops_def shadowfs_close_def)
  let ?w2 = "put f (OFile (fl\<lparr>f_ref_count := 0\<rparr>)) w"
  have i2: "obj_inv ?w2" using put_inv [OF oi] f(4) by (simp add: access_iff)
  obtain w3 where w3: "release f ?w2 = Some w3" using release_total [OF i2, of f "OFile (fl\<lparr>f_ref_count := 0\<rparr>)"] by auto
  have o3: "objs w3 = (objs w)(f := None)" using release_inv [OF i2 w3] f(3) by simp
  have m3: "pages w3 = pages w" "page_mem w3 = page_mem w" "mount_table w3 = mount_table w" "mount_count w3 = mount_count w" "file_table w3 = file_table w" "sst.more w3 = sst.more w"
    using w3 by (auto simp: release_def put_def split: option.splits if_splits)
  have op: "vfs_close fs_table w (int fd) = Some (0, vfs_free_fd w3 (int fd))"
    using f(1-4) cc rc w3 by (simp add: vfs_close_def get_file Let_def)
  have "heap_room (heap w3) k" using release_room [OF i2 w3] room by simp
  then show ?thesis using op close_keeps [OF inv op] o3 m3 f(1) by (simp add: vfs_free_fd_def same_mounts_def)
qed

lemma close_stored:
  assumes inv: "vfs_inv w" and f: "fd < VFS_MAX_FDS" "file_table w ! fd = f" "f \<noteq> 0" "files w f = Some fl" "f_inode fl = a" and st: "stored w a ino bs c"
    and d: "shadow_dir w mp i root ds m" and room: "heap_room (heap w) k"
  shows "\<exists>w'. vfs_close fs_table w (int fd) = Some (0, w') \<and> vfs_inv w' \<and> file_table w' = (file_table w)[fd := 0] \<and> stored w' a ino bs c \<and>
    shadow_dir w' mp i root ds m \<and> same_mounts w w' \<and> heap_room (heap w') k"
proof -
  from close_file [OF inv f st room] obtain w' where
    c: "vfs_close fs_table w (int fd) = Some (0, w')" "vfs_inv w'" "file_table w' = (file_table w)[fd := 0]" "objs w' = (objs w)(f := None)"
      "pages w' = pages w" "page_mem w' = page_mem w" "same_mounts w w'" "heap_room (heap w') k" by blast
  have fo: "inodes w' = inodes w" "sinodes w' = sinodes w" "sblocks w' = sblocks w" "sdents w' = sdents w" "smounts w' = smounts w"
    by (rule file_object_frame [of w f w' None]; use f(4) c(4) in simp)+
  have st': "stored w' a ino bs c" by (rule stored_keep [of w a ino bs c]) (use st fo c(5,6) in simp_all)
  have "smounts w' (sb_private (mount_table w ! i)) = Some m" using fo(5) d by (simp add: shadow_dir_def dir_on_def)
  then have "shadow_dir w' mp i root ds m" by (rule shadow_dir_keep [OF d, rotated -1]) (use fo c(7) in \<open>simp_all add: same_mounts_def\<close>)
  then show ?thesis using c(1-3,7,8) st' by blast
qed

lemma open_resolved:
  assumes inv: "vfs_inv w" and res: "vfs_resolve_path fs_table w path = Some (a, w)"
    and st: "stored w a ino bs c" and room: "heap_room (heap w) (k + 104)" "5 \<le> k"
    and fl: "flags AND O_TRUNC = 0" "flags AND O_APPEND = 0" and fd: "alloc_fd_from (file_table w) 3 = int fd"
  shows "\<exists>w' f. vfs_open fs_table w path flags = Some (int fd, w') \<and> file_table w' = (file_table w)[fd := f] \<and> f \<noteq> 0 \<and>
    files w' f = Some (fresh_file a flags) \<and> stored w' a ino bs c \<and> heap_room (heap w') k \<and> sst.more w' = sst.more w"
proof -
  have oi: "obj_inv w" using inv by (rule vfs_inv_obj)
  have s: "inodes w a = Some ino" "i_ops ino = Some SHADOWFS" "a \<noteq> 0" using st by (simp_all add: stored_def)
  from open_inode_ok [OF oi s room fl(2)] fl(1) obtain f h where
    o: "open_inode fs_table w a flags = Some (f, w\<lparr>heap := h, objs := (objs w)(f \<mapsto> OFile (fresh_file a flags))\<rparr>)" "f \<noteq> 0" "objs w f = None" "heap_room h k" by auto
  let ?w2 = "w\<lparr>heap := h, objs := (objs w)(f \<mapsto> OFile (fresh_file a flags))\<rparr>"
  let ?w3 = "?w2\<lparr>file_table := (file_table w)[fd := f]\<rparr>"
  have "vfs_open_file fs_table w path flags = Some (f, ?w2)" using res s(3) o(1) by (simp add: vfs_open_file_def)
  from vfs_open_fd [OF this o(2)] fd have op: "vfs_open fs_table w path flags = Some (int fd, ?w3)" by simp
  have fo: "inodes ?w3 = inodes w" "sinodes ?w3 = sinodes w" "sblocks ?w3 = sblocks w"
    by (rule file_object_frame [of w f ?w3 "Some (OFile (fresh_file a flags))"]; use o(3) in simp)+
  have "stored ?w3 a ino bs c" using st by (rule stored_keep) (use fo in simp_all)
  moreover have "files ?w3 f = Some (fresh_file a flags)" "file_table ?w3 = (file_table w)[fd := f]" by (simp_all add: access_iff)
  moreover have "heap_room (heap ?w3) k" "sst.more ?w3 = sst.more w" using o(4) by simp_all
  ultimately show ?thesis using op o(2) by blast
qed

lemma open_old:
  assumes "vfs_inv w" and d: "shadow_dir w mp i root ds m" and p: "vfs_find_mount w (mp @ slash # name) = Some i" and n: "file_name name"
    and a: "find_inode ds name = a" and st: "stored w a ino bs c" and "heap_room (heap w) (k + 104)" "5 \<le> k"
    and "flags AND O_TRUNC = 0" "flags AND O_APPEND = 0" and "alloc_fd_from (file_table w) 3 = int fd"
  shows "\<exists>w' f. vfs_open fs_table w (mp @ slash # name) flags = Some (int fd, w') \<and> file_table w' = (file_table w)[fd := f] \<and> f \<noteq> 0 \<and>
    files w' f = Some (fresh_file a flags) \<and> stored w' a ino bs c"
  using open_resolved [OF assms(1) _ st assms(7-11)] resolve_name [OF d p n] a by blast

lemma read_frame:
  assumes op: "shadowfs_read w f True n = Some (r, bytes, w')" and fl: "files w f = Some fl" "f_inode fl = a" and st: "stored w a ino bs c"
  shows "\<exists>ino'. stored w' a ino' bs c"
proof -
  have ino: "inodes w a = Some ino" using st by (simp add: stored_def)
  have pf: "stored (put f (OFile fl') w) a ino bs c" for fl'
  proof -
    have "inodes (put f (OFile fl') w) = inodes w" "sinodes (put f (OFile fl') w) = sinodes w" "sblocks (put f (OFile fl') w) = sblocks w"
      by (rule file_object_frame [of w f _ "Some (OFile fl')"]; use fl(1) in \<open>simp add: put_def\<close>)+
    then show ?thesis by (intro stored_keep [OF st]) (simp_all add: put_def)
  qed
  have pi: "stored (put a (OInode (ino\<lparr>accessed := t\<rparr>)) v) a (ino\<lparr>accessed := t\<rparr>) bs c" if "stored v a ino bs c" for v :: "'a sst_scheme" and t
  proof -
    have o: "objs v a = Some (OInode ino)" using that by (simp add: stored_def access_iff)
    then have "sinodes (put a (OInode (ino\<lparr>accessed := t\<rparr>)) v) = sinodes v" "sblocks (put a (OInode (ino\<lparr>accessed := t\<rparr>)) v) = sblocks v"
      by (auto simp: fun_eq_iff sinodes_def sblocks_def put_def)
    then show ?thesis using that by (auto simp: stored_def fblocks_def access_iff put_def)
  qed
  show ?thesis using op fl ino st pf pi [OF pf] by (auto simp: shadowfs_read_def Let_def split: if_splits bind_splits)
qed

lemma read_file:
  assumes f: "fd < VFS_MAX_FDS" "file_table w ! fd = f" "f \<noteq> 0" "files w f = Some fl" "f_inode fl = a" "f_flags fl \<noteq> O_WRONLY" and st: "stored w a ino bs c"
  shows "\<exists>w' ino'. vfs_read fs_table w (int fd) True n =
      Some (int (length (take (unat n) (drop (unat (f_position fl)) c))), take (unat n) (drop (unat (f_position fl)) c), w') \<and>
    files w' f = Some (fl\<lparr>f_position := f_position fl + of_nat (length (take (unat n) (drop (unat (f_position fl)) c)))\<rparr>) \<and>
    stored w' a ino' bs c \<and> file_table w' = file_table w \<and> heap w' = heap w \<and> sst.more w' = sst.more w"
proof -
  from shadowfs_read_content [OF stored_view [OF st f(4,5,3)], of n] obtain w' where
    r: "shadowfs_read w f True n = Some (int (length (take (unat n) (drop (unat (f_position fl)) c))), take (unat n) (drop (unat (f_position fl)) c), w')"
      "files w' f = Some (fl\<lparr>f_position := f_position fl + of_nat (length (take (unat n) (drop (unat (f_position fl)) c)))\<rparr>)" by blast
  obtain ino' where st': "stored w' a ino' bs c" using read_frame [OF r(1) f(4,5) st] by blast
  have "file_table w' = file_table w" "heap w' = heap w" "sst.more w' = sst.more w" using r(1) by (auto simp: shadowfs_read_def Let_def put_def split: if_splits bind_splits)
  moreover have "inodes w a = Some ino" "i_ops ino = Some SHADOWFS" "a \<noteq> 0" using st by (simp_all add: stored_def)
  then have "vfs_read fs_table w (int fd) True n = shadowfs_read w f True n" using f by (simp add: vfs_read_def get_file file_op_def inode_op_def shadowfs_ops_def Let_def)
  ultimately show ?thesis using r st' by auto
qed

section \<open>Writing a new file\<close>

text \<open>A new file that is opened, written and closed again: the descriptor is free, the directory has the new name, and the file holds the bytes.\<close>

lemma file_written:
  assumes inv: "vfs_inv w" and d: "shadow_dir w mp i root ds m" and p: "vfs_find_mount w (mp @ slash # name) = Some i"
    and n: "file_name name" "name \<notin> set (names ds)" and src: "length src < 2 ^ 31"
    and q: "unat (m_used m) + 144 + 24 * ((length src + 4095) div 4096) < unat (quota m)"
    and room: "heap_room (heap w) (525 + 104 * ((length src + 4095) div 4096))" "pmm_wf (pages w)" "(length src + 4095) div 4096 \<le> card (pmm_avail (pages w))"
    and fl: "flags AND O_CREAT \<noteq> 0" "flags AND O_APPEND = 0" and j: "alloc_fd_from (file_table w) 3 = int j" "3 \<le> j" "j < VFS_MAX_FDS" "file_table w ! j = 0"
  shows "\<exists>w1 w2 w3 a ino bs ds' m'. vfs_open fs_table w (mp @ slash # name) flags = Some (int j, w1) \<and>
    vfs_write fs_table w1 (int j) (Some src) (of_nat (length src)) = Some (int (length src), w2) \<and> vfs_close fs_table w2 (int j) = Some (0, w3) \<and>
    vfs_inv w3 \<and> shadow_dir w3 mp i root ds' m' \<and> vfs_find_mount w3 (mp @ slash # name) = Some i \<and> find_inode ds' name = a \<and>
    stored w3 a ino bs src \<and> file_table w3 = file_table w \<and> heap_room (heap w3) 109 \<and> same_mounts w w3"
proof -
  let ?path = "mp @ slash # name" and ?k = "(length src + 4095) div 4096"
  have len: "length (file_table w) = VFS_MAX_FDS" using inv by (simp add: vfs_inv_def vfs_tab_def)
  have "m_used m < quota m" using q by (simp add: word_less_nat_alt)
  moreover have "heap_room (heap w) ((109 + 104 * ?k) + 416)" using room(1) by (simp add: ac_simps)
  ultimately obtain w1 f a ino ds' where
    o: "vfs_open fs_table w ?path flags = Some (int j, w1)" "file_table w1 = (file_table w)[j := f]" "f \<noteq> 0" "files w1 f = Some (fresh_file a flags)"
      "stored w1 a ino [] []" "i_sb ino = Some i" "entries ds' = entries ds @ [(name, a)]"
      "shadow_dir w1 mp i root ds' (m\<lparr>next_inode_num := next_inode_num m + 1, m_used := m_used m + SIZEOF_ENTRY\<rparr>)"
      "heap_room (heap w1) (109 + 104 * ?k)" "pages w1 = pages w" "same_mounts w w1"
    using open_new [OF inv d p n _ _ _ fl j(1) room(2), of "109 + 104 * ?k"] by auto
  have inv1: "vfs_inv w1" using kernel_fs.open_tab [OF inv o(1)] by simp
  have "unat (quota m) < 2 ^ 32" by (rule order_less_le_trans [OF unsigned_less]) simp
  then have "unat (m_used m + SIZEOF_ENTRY) = unat (m_used m) + 144" using q by (simp add: unat_word_ariths)
  then have q1: "unat (m_used (m\<lparr>next_inode_num := next_inode_num m + 1, m_used := m_used m + SIZEOF_ENTRY\<rparr>)) + 24 * ?k
      < unat (quota (m\<lparr>next_inode_num := next_inode_num m + 1, m_used := m_used m + SIZEOF_ENTRY\<rparr>))" using q by simp
  have f1: "file_table w1 ! j = f" using o(2) j(3) len by simp
  have en: "enough w1 (0 + ?k)" using o(9,10) room(3) by (simp add: enough_def)
  have ne: "ds' \<noteq> []" using o(7) by auto
  have fl1: "f_inode (fresh_file a flags) = a" "f_flags (fresh_file a flags) \<noteq> O_RDONLY" using fl(1) by auto
  obtain w2 fl' ino' bs' m' where
    w: "vfs_write fs_table w1 (int j) (Some src) (of_nat (length src)) = Some (int (length src), w2)" "stored w2 a ino' bs' ([] @ src)"
      "files w2 f = Some fl'" "f_inode fl' = a" "shadow_dir w2 mp i root ds' m'" "vfs_inv w2" "file_table w2 = file_table w1" "enough w2 0" "same_mounts w1 w2"
    using write_file [OF inv1 j(3) f1 o(3,4) fl1 o(5,6,8) ne _ en q1] src by auto
  have "heap_room (heap w2) 109" "file_table w2 ! j = f" using w(7,8) f1 by (simp_all add: enough_def)
  from close_stored [OF w(6) j(3) this(2) o(3) w(3,4,2,5) this(1)] obtain w3 where
    c: "vfs_close fs_table w2 (int j) = Some (0, w3)" "vfs_inv w3" "file_table w3 = (file_table w2)[j := 0]" "stored w3 a ino' bs' src"
      "shadow_dir w3 mp i root ds' m'" "same_mounts w2 w3" "heap_room (heap w3) 109" by auto
  have t3: "file_table w3 = file_table w" using c(3) w(7) o(2) j(4) by (metis list_update_id list_update_overwrite)
  have p3: "vfs_find_mount w3 ?path = Some i"
    using p o(11) w(9) c(6) mount_cong [of w3 w ?path] by (simp add: same_mounts_def)
  have "name \<notin> fst ` set (entries ds)" using n(2) by (simp add: names_entries)
  then have a: "find_inode ds' name = a" by (simp add: find_inode_entries o(7) assoc_inode_append)
  moreover have "same_mounts w w3" using o(11) w(9) c(6) by (simp add: same_mounts_def)
  ultimately show ?thesis using o(1) w(1) c(1,2,4,5,7) p3 t3 by blast
qed

section \<open>The round trip\<close>

text \<open>C2: What a program writes to a file it reads back. On a shadowFS mounted at \<open>mp\<close>, for a new name in its root directory and given
  memory, quota and a free descriptor: opening \<open>mp/name\<close> with \<open>O_CREAT\<close> (and \<open>O_TRUNC\<close> or not) succeeds, writing \<open>src\<close> takes all bytes,
  closing succeeds, opening the same path for reading succeeds with the same descriptor, and reading \<open>k\<close> bytes returns the
  first \<open>k\<close> bytes of \<open>src\<close>. The path goes through the choice of the mount, the lookup in the directory, the file object and its
  descriptor, the blocks and their pages.\<close>

theorem vfs_file_round_trip:
  assumes inv: "vfs_inv w" and d: "shadow_dir w mp i root ds m" and p: "vfs_find_mount w (mp @ slash # name) = Some i"
    and n: "file_name name" "name \<notin> set (names ds)" and src: "length src < 2 ^ 31"
    and q: "unat (m_used m) + 144 + 24 * ((length src + 4095) div 4096) < unat (quota m)"
    and room: "heap_room (heap w) (525 + 104 * ((length src + 4095) div 4096))" "pmm_wf (pages w)" "(length src + 4095) div 4096 \<le> card (pmm_avail (pages w))"
    and fl: "flags AND O_CREAT \<noteq> 0" "flags AND O_APPEND = 0" and fd: "\<exists>j. 3 \<le> j \<and> j < VFS_MAX_FDS \<and> file_table w ! j = 0"
  shows "\<exists>fd w1 w2 w3 w4 w5. vfs_open fs_table w (mp @ slash # name) flags = Some (fd, w1) \<and>
    vfs_write fs_table w1 fd (Some src) (of_nat (length src)) = Some (int (length src), w2) \<and> vfs_close fs_table w2 fd = Some (0, w3) \<and>
    vfs_open fs_table w3 (mp @ slash # name) O_RDONLY = Some (fd, w4) \<and>
    vfs_read fs_table w4 fd True k = Some (int (min (unat k) (length src)), take (unat k) src, w5)"
proof -
  let ?path = "mp @ slash # name"
  obtain j where j: "alloc_fd_from (file_table w) 3 = int j" "3 \<le> j" "j < VFS_MAX_FDS" "file_table w ! j = 0"
    using alloc_fd_from_spec [of "file_table w" 3] fd by metis
  from file_written [OF inv d p n src q room fl j] obtain w1 w2 w3 a ino bs ds' m' where
    c: "vfs_open fs_table w ?path flags = Some (int j, w1)" "vfs_write fs_table w1 (int j) (Some src) (of_nat (length src)) = Some (int (length src), w2)"
      "vfs_close fs_table w2 (int j) = Some (0, w3)" "vfs_inv w3" "shadow_dir w3 mp i root ds' m'" "vfs_find_mount w3 ?path = Some i" "find_inode ds' name = a"
      "stored w3 a ino bs src" "file_table w3 = file_table w" "heap_room (heap w3) 109" by (elim exE conjE) (rule that; assumption)
  from open_old [OF c(4,5,6) n(1) c(7,8), of 5 O_RDONLY j] c(9,10) j(1) obtain w4 g where
    g: "vfs_open fs_table w3 ?path O_RDONLY = Some (int j, w4)" "file_table w4 = (file_table w)[j := g]" "g \<noteq> 0" "files w4 g = Some (fresh_file a O_RDONLY)" "stored w4 a ino bs src"
    by auto
  have "file_table w4 ! j = g" using g(2) j(3) inv by (simp add: vfs_inv_def vfs_tab_def)
  from read_file [OF j(3) this g(3,4) _ _ g(5), of k] obtain w5 where
    "vfs_read fs_table w4 (int j) True k = Some (int (min (unat k) (length src)), take (unat k) src, w5)" by (auto simp: min.commute)
  then show ?thesis using c(1-3) g(1) by blast
qed

text \<open>The start of the kernel mounts a shadowFS at \<open>/temp\<close>.\<close>

lemma temp_mounted:
  "\<exists>w root. fs_reachable w \<and> shadow_dir w ''/temp'' 0 root [] \<lparr>quota = 8192, m_used = 0, next_inode_num = 2, root_inode = root\<rparr> \<and>
     vfs_find_mount w ''/temp/a'' = Some 0 \<and> heap_room (heap w) 9000 \<and> pages w = small_pmm \<and> file_table w = replicate VFS_MAX_FDS 0 \<and>
     mount_count w = 1"
proof -
  let ?b = "vfs_init boot_machine"
  have b: "kheap_inv (heap boot_machine)" "objs boot_machine = Map.empty" "heap boot_machine = heap boot_world" "pages boot_machine = small_pmm"
    "mount_table boot_machine = mount_table boot_world"
    by (simp_all add: boot_machine_def two_process_machine_def two_processes_def small_machine_def boot_world_def ast.defs pst.defs)
  have r: "fs_reachable ?b" using b(1,2) by (rule boot)
  have t: "length (mount_table ?b) = VFS_MAX_MOUNTS" "mount_count ?b = 0" "pages ?b = small_pmm" "file_table ?b = replicate VFS_MAX_FDS 0"
    using b by (simp_all add: vfs_init_def boot_world_def)
  have "heap_room (heap ?b) (9000 + 312)" using heap_room_mono [OF boot_inv(2), of "9000 + 312"] b(3) by (simp add: vfs_init_def)
  moreover have "(8192 :: u32) \<le> ucast (pmm_free_pages (pages ?b) * PAGE_SIZE) div 2"
    unfolding t(3) by (simp add: pmm_free_pages_def small_pmm_def)
  ultimately obtain w root where
    w: "shadowfs_mount ?b ''/temp'' 8192 = Some (0, w)" "heap_room (heap w) 9000" "pages w = small_pmm" "file_table w = replicate VFS_MAX_FDS 0"
      "vfs_find_mount w ''/temp'' = Some 0" "sb_root (mount_table w ! 0) = root"
      "dir_on w root 0 [] \<lparr>quota = 8192, m_used = 0, next_inode_num = 2, root_inode = root\<rparr>"
      "map mount_point (mount_table w) = (map mount_point (mount_table ?b))[0 := ''/temp'']" "mount_count w = 1" "\<forall>ino. inodes w root = Some ino \<longrightarrow> i_ops ino = Some SHADOWFS"
    using mount_total [OF vfs_inv_obj [OF reachable_inv [OF r]] t(1), of "''/temp''" 8192 9000] t by auto
  obtain sb sbs where mt: "mount_table w = sb # sbs" "mount_point sb = ''/temp''"
    using w(8) t(1) by (cases "mount_table w"; cases "mount_table ?b") auto
  have "vfs_find_mount w ''/temp/a'' = Some 0" using mt w(9) by (simp add: vfs_find_mount_def)
  moreover have "shadow_dir w ''/temp'' 0 root [] \<lparr>quota = 8192, m_used = 0, next_inode_num = 2, root_inode = root\<rparr>"
    using w(5,6,7,10) mt by (simp add: shadow_dir_def)
  ultimately show ?thesis using mount_shadowfs [OF r w(1)] w(2,3,4,9) by blast
qed

theorem vfs_file_round_trip_witness:
  "\<exists>w fd w1 w2 w3 w4 w5. fs_reachable w \<and> vfs_open fs_table w ''/temp/a'' 21 = Some (fd, w1) \<and>
     vfs_write fs_table w1 fd (Some [72, 105]) 2 = Some (2, w2) \<and> vfs_close fs_table w2 fd = Some (0, w3) \<and>
     vfs_open fs_table w3 ''/temp/a'' O_RDONLY = Some (fd, w4) \<and> vfs_read fs_table w4 fd True 100 = Some (2, [72, 105], w5)"
proof -
  obtain w root where w: "fs_reachable w" "shadow_dir w ''/temp'' 0 root [] \<lparr>quota = 8192, m_used = 0, next_inode_num = 2, root_inode = root\<rparr>"
      "vfs_find_mount w ''/temp/a'' = Some 0" "heap_room (heap w) 9000" "pages w = small_pmm" "file_table w = replicate VFS_MAX_FDS 0"
    using temp_mounted by blast
  have "card {4096 :: u64} \<le> card (pmm_avail small_pmm)" using small_avail(2) by (intro card_mono) simp_all
  moreover have "pmm_wf small_pmm" by (simp add: pmm_wf_def small_pmm_def)
  moreover have "heap_room (heap w) (525 + 104 * 1)" using heap_room_mono [OF w(4)] by simp
  moreover have "\<exists>j. 3 \<le> j \<and> j < VFS_MAX_FDS \<and> file_table w ! j = 0" using w(6) by (intro exI [of _ 3]) simp
  ultimately have "\<exists>fd w1 w2 w3 w4 w5. vfs_open fs_table w (''/temp'' @ slash # ''a'') 21 = Some (fd, w1) \<and>
      vfs_write fs_table w1 fd (Some [72, 105]) (of_nat (length [72, 105 :: u8])) = Some (int (length [72, 105 :: u8]), w2) \<and> vfs_close fs_table w2 fd = Some (0, w3) \<and>
      vfs_open fs_table w3 (''/temp'' @ slash # ''a'') O_RDONLY = Some (fd, w4) \<and>
      vfs_read fs_table w4 fd True 100 = Some (int (min (unat (100 :: u32)) (length [72, 105 :: u8])), take (unat (100 :: u32)) [72, 105], w5)"
    using w by (intro vfs_file_round_trip [OF reachable_inv [OF w(1)] w(2)]) (simp_all add: file_name_def)
  then show ?thesis using w(1) by auto
qed

section \<open>Paths without a component boundary\<close>

text \<open>C35: The mount of a path is chosen by a prefix of characters, without a component boundary. With a shadowFS mounted at \<open>mp\<close> and no
  longer mount point in the way, a file that is created as \<open>mp/name\<close> and written is afterwards found under \<open>mpname\<close> too, a path
  that names nothing below \<open>mp\<close>: opening \<open>mpname\<close> succeeds and reads the bytes of \<open>mp/name\<close>. (For \<open>/temp\<close> and \<open>a\<close> the file
  \<open>/temp/a\<close> is opened by \<open>/tempa\<close>.)\<close>

theorem vfs_open_no_boundary:
  assumes inv: "vfs_inv w" and d: "shadow_dir w mp i root ds m"
    and only: "\<forall>j < mount_count w. \<forall>q \<in> {mp @ name, mp @ slash # name}.
      prefix (mount_point (mount_table w ! j)) q \<longrightarrow> length (mount_point (mount_table w ! j)) \<le> length mp"
    and n: "file_name name" "name \<notin> set (names ds)" and src: "length src < 2 ^ 31"
    and q: "unat (m_used m) + 144 + 24 * ((length src + 4095) div 4096) < unat (quota m)"
    and room: "heap_room (heap w) (525 + 104 * ((length src + 4095) div 4096))" "pmm_wf (pages w)" "(length src + 4095) div 4096 \<le> card (pmm_avail (pages w))"
    and fl: "flags AND O_CREAT \<noteq> 0" "flags AND O_APPEND = 0" and fd: "\<exists>j. 3 \<le> j \<and> j < VFS_MAX_FDS \<and> file_table w ! j = 0"
  shows "\<exists>fd w1 w2 w3 w4 w5. vfs_open fs_table w (mp @ slash # name) flags = Some (fd, w1) \<and>
    vfs_write fs_table w1 fd (Some src) (of_nat (length src)) = Some (int (length src), w2) \<and> vfs_close fs_table w2 fd = Some (0, w3) \<and>
    vfs_open fs_table w3 (mp @ name) O_RDONLY = Some (fd, w4) \<and>
    vfs_read fs_table w4 fd True k = Some (int (min (unat k) (length src)), take (unat k) src, w5)"
proof -
  let ?path = "mp @ slash # name"
  obtain j where j: "alloc_fd_from (file_table w) 3 = int j" "3 \<le> j" "j < VFS_MAX_FDS" "file_table w ! j = 0"
    using alloc_fd_from_spec [of "file_table w" 3] fd by metis
  have p: "vfs_find_mount w ?path = Some i" "vfs_find_mount w (mp @ name) = Some i"
    using find_mount_below [OF d, of "slash # name"] find_mount_below [OF d, of name] only by simp_all
  from file_written [OF inv d p(1) n src q room fl j] obtain w1 w2 w3 a ino bs ds' m' where
    c: "vfs_open fs_table w ?path flags = Some (int j, w1)" "vfs_write fs_table w1 (int j) (Some src) (of_nat (length src)) = Some (int (length src), w2)"
      "vfs_close fs_table w2 (int j) = Some (0, w3)" "vfs_inv w3" "shadow_dir w3 mp i root ds' m'" "find_inode ds' name = a"
      "stored w3 a ino bs src" "file_table w3 = file_table w" "heap_room (heap w3) 109" "same_mounts w w3" by (elim exE conjE) (rule that; assumption)
  have "vfs_find_mount w3 (mp @ name) = Some i" using p(2) c(10) mount_cong [of w3 w] by (simp add: same_mounts_def)
  then have "vfs_resolve_path fs_table w3 (mp @ name) = Some (a, w3)" using resolve_below [OF c(5) _ n(1)] c(6) by blast
  from open_resolved [OF c(4) this c(7), of 5 O_RDONLY j] c(8,9) j(1) obtain w4 g where
    g: "vfs_open fs_table w3 (mp @ name) O_RDONLY = Some (int j, w4)" "file_table w4 = (file_table w)[j := g]" "g \<noteq> 0" "files w4 g = Some (fresh_file a O_RDONLY)" "stored w4 a ino bs src"
    by auto
  have "file_table w4 ! j = g" using g(2) j(3) inv by (simp add: vfs_inv_def vfs_tab_def)
  from read_file [OF j(3) this g(3,4) _ _ g(5), of k] obtain w5 where
    "vfs_read fs_table w4 (int j) True k = Some (int (min (unat k) (length src)), take (unat k) src, w5)" by (auto simp: min.commute)
  then show ?thesis using c(1-3) g(1) by blast
qed

theorem vfs_open_no_boundary_witness:
  "\<exists>w fd w1 w2 w3 w4 w5. fs_reachable w \<and> vfs_open fs_table w ''/temp/a'' 21 = Some (fd, w1) \<and> vfs_write fs_table w1 fd (Some [72, 105]) 2 = Some (2, w2) \<and>
     vfs_close fs_table w2 fd = Some (0, w3) \<and> vfs_open fs_table w3 ''/tempa'' O_RDONLY = Some (fd, w4) \<and> vfs_read fs_table w4 fd True 100 = Some (2, [72, 105], w5)"
proof -
  obtain w root where w: "fs_reachable w" "shadow_dir w ''/temp'' 0 root [] \<lparr>quota = 8192, m_used = 0, next_inode_num = 2, root_inode = root\<rparr>"
      "vfs_find_mount w ''/temp/a'' = Some 0" "heap_room (heap w) 9000" "pages w = small_pmm" "file_table w = replicate VFS_MAX_FDS 0" "mount_count w = 1"
    using temp_mounted by blast
  have "card {4096 :: u64} \<le> card (pmm_avail small_pmm)" using small_avail(2) by (intro card_mono) simp_all
  moreover have "pmm_wf small_pmm" by (simp add: pmm_wf_def small_pmm_def)
  moreover have "heap_room (heap w) (525 + 104 * 1)" using heap_room_mono [OF w(4)] by simp
  moreover have "\<exists>j. 3 \<le> j \<and> j < VFS_MAX_FDS \<and> file_table w ! j = 0" using w(6) by (intro exI [of _ 3]) simp
  moreover have "mount_point (mount_table w ! 0) = ''/temp''" using w(2) by (simp add: shadow_dir_def)
  ultimately have "\<exists>fd w1 w2 w3 w4 w5. vfs_open fs_table w (''/temp'' @ slash # ''a'') 21 = Some (fd, w1) \<and>
      vfs_write fs_table w1 fd (Some [72, 105]) (of_nat (length [72, 105 :: u8])) = Some (int (length [72, 105 :: u8]), w2) \<and> vfs_close fs_table w2 fd = Some (0, w3) \<and>
      vfs_open fs_table w3 (''/temp'' @ ''a'') O_RDONLY = Some (fd, w4) \<and>
      vfs_read fs_table w4 fd True 100 = Some (int (min (unat (100 :: u32)) (length [72, 105 :: u8])), take (unat (100 :: u32)) [72, 105], w5)"
    using w by (intro vfs_open_no_boundary [OF reachable_inv [OF w(1)] w(2)]) (simp_all add: file_name_def)
  then show ?thesis using w(1) by auto
qed

end
