(* ===== verification/Shell_Trip.thy ===== *)
theory Shell_Trip
  imports Faults File_Trip
begin

text \<open>
  The commands of the shell (\<open>src/apps/shell/shell.c\<close>) on the file systems below them: what \<open>cat\<close> shows of a file on a shadowFS, and
  that no command leaves a file open.
\<close>

section \<open>Text from a file\<close>

lemma screen_more: "sst.more w' = sst.more w \<Longrightarrow> screen (w' :: 'a dst_scheme) = screen w"
  by (cases w; cases w'; simp)

lemma unat_u8: "unat (b :: u8) mod 256 = unat b"
  using unsigned_less [of b, where ?'a = nat] by simp

lemma bytes_of_chars: "bytes_of (chars_of bs) = bs"
  by (induction bs) (simp_all add: bytes_of_def chars_of_def unat_u8)

lemma chars_of_nul: "NUL \<in> set (chars_of bs) \<longleftrightarrow> 0 \<in> set bs"
proof -
  have z: "char_of (unat b) = NUL \<longleftrightarrow> b = 0" for b :: u8
  proof -
    have "char_of (unat b) = NUL \<longleftrightarrow> of_char (char_of (unat b)) = (of_char NUL :: nat)" by (simp only: of_char_eq_iff)
    also have "\<dots> \<longleftrightarrow> b = 0" by (simp add: unat_u8 unat_eq_zero)
    finally show ?thesis .
  qed
  show ?thesis by (induction bs) (auto simp: chars_of_def z eq_commute [of NUL])
qed

text \<open>A buffer of the file printed with \<open>%s\<close>.\<close>

lemma say_bytes:
  assumes "0 \<notin> set xs" "length xs < 1024"
  shows "say ''%s'' [VStr (Some (c_string (chars_of xs)))] w = Some (w\<lparr>screen := fold vga_putchar xs (screen w)\<rparr>)"
proof -
  have n: "NUL \<notin> set (chars_of xs)" using assms(1) by (simp add: chars_of_nul)
  then have c: "c_string (chars_of xs) = chars_of xs" unfolding c_string_def takeWhile_eq_all_conv by auto
  have "fmt_text ''%s'' [VStr (Some (chars_of xs))] = Some (chars_of xs)" by (simp add: long_prefix_def convert_def)
  moreover have "length (chars_of xs) < 1024" using assms(2) by (simp add: chars_of_def)
  ultimately show ?thesis unfolding c using say_text [OF _ _ n] unfolding bytes_of_chars by blast
qed

section \<open>Showing a file\<close>

lemma stored_screen: "stored w a ino bs c \<Longrightarrow> stored ((w :: 'a dst_scheme)\<lparr>screen := s\<rparr>) a ino bs c"
  by (rule stored_keep) (auto simp: inodes_def sinodes_def sblocks_def)

text \<open>The loop of \<open>cat\<close>, from the position of the open file on.\<close>

lemma cat_loop_prints:
  fixes w :: "'a dst_scheme"
  assumes f: "fd < VFS_MAX_FDS" "file_table w ! fd = f" "f \<noteq> 0" "files w f = Some fl" "f_inode fl = a" "f_flags fl = O_RDONLY"
    and st: "stored w a ino bs c" and nz: "0 \<notin> set c" and pos: "unat (f_position fl) \<le> length c"
  shows "\<exists>w' fl' ino'. cat_loop (int fd) w = Some w' \<and> screen w' = fold vga_putchar (drop (unat (f_position fl)) c) (screen w) \<and>
    file_table w' = file_table w \<and> files w' f = Some fl' \<and> f_inode fl' = a \<and> stored w' a ino' bs c \<and> heap w' = heap w"
  using f(2,4-6) st pos
proof (induction "length c - unat (f_position fl)" arbitrary: w fl ino rule: less_induct)
  case less
  let ?p = "unat (f_position fl)"
  define x where "x = take 255 (drop ?p c)"
  have len: "length c < 2 ^ 31" using less.prems(5) unfolding stored_def by blast
  obtain w1 ino1 where
    r: "vfs_read fs_table w (int fd) True 255 = Some (int (length x), x, w1)" "files w1 f = Some (fl\<lparr>f_position := f_position fl + of_nat (length x)\<rparr>)"
      "stored w1 a ino1 bs c" "file_table w1 = file_table w" "heap w1 = heap w" "sst.more w1 = sst.more w"
    using read_file [OF f(1) less.prems(1) f(3) less.prems(2,3) _ less.prems(5), of 255] less.prems(4) by (auto simp: x_def)
  show ?case
  proof (cases "?p < length c")
    case False
    then have "x = []" by (simp add: x_def)
    then have "cat_loop (int fd) w = Some w1" using r(1) by (subst cat_loop.simps) simp
    then show ?thesis using False r screen_more [OF r(6)] less.prems(3) by auto
  next
    case True
    let ?fl = "fl\<lparr>f_position := f_position fl + of_nat (length x)\<rparr>"
    let ?w2 = "w1\<lparr>screen := fold vga_putchar x (screen w1)\<rparr>"
    have lx: "0 < length x" "?p + length x \<le> length c" using True by (auto simp: x_def)
    have up: "unat (f_position ?fl) = ?p + length x"
    proof -
      have "f_position ?fl = of_nat (?p + length x)" by simp
      then show ?thesis using lx(2) len by (simp only: unat_of_nat) (simp add: take_bit_nat_eq_self)
    qed
    have "0 \<notin> set x" "length x < 1024" using nz by (auto simp: x_def dest: in_set_takeD in_set_dropD)
    from say_bytes [OF this] have s: "say ''%s'' [VStr (Some (c_string (chars_of x)))] w1 = Some ?w2" .
    have loop: "cat_loop (int fd) w = cat_loop (int fd) ?w2" using r(1) s lx(1) by (subst cat_loop.simps) simp
    have dec: "length c - unat (f_position ?fl) < length c - ?p" unfolding up using lx(1) True by linarith
    have "stored ?w2 a ino1 bs c" by (rule stored_screen [OF r(3)])
    then obtain w' fl' ino' where
      i: "cat_loop (int fd) ?w2 = Some w'" "screen w' = fold vga_putchar (drop (unat (f_position ?fl)) c) (screen ?w2)" "file_table w' = file_table ?w2"
        "files w' f = Some fl'" "f_inode fl' = a" "stored w' a ino' bs c" "heap w' = heap ?w2"
      using less.hyps [OF dec, of ?w2 ino1] up lx(2) r(2,4) less.prems(1,3,4) by (auto simp: files_def)
    have "x = take (length x) (drop ?p c)" by (simp add: x_def take_all_iff min_def)
    then have "drop ?p c = x @ drop (unat (f_position ?fl)) c"
      using append_take_drop_id [of "length x" "drop ?p c"] unfolding up by (simp add: add.commute)
    then show ?thesis using i loop r(4,5) screen_more [OF r(6)] by auto
  qed
qed

lemma say_newline: "say newline [] w = Some (w\<lparr>screen := vga_putchar 10 (screen w)\<rparr>)"
  using say_text [of newline "[]" newline w] by (simp add: plain_text bytes_of_def)

lemma cat_opens:
  assumes inv: "vfs_inv w" and arg: "skip_space args = path" "path \<noteq> []" and res: "vfs_resolve_path fs_table w path = Some (a, w)"
    and st: "stored w a ino bs c" and nz: "0 \<notin> set c" and room: "heap_room (heap w) 109" and fd: "\<exists>j. 3 \<le> j \<and> j < VFS_MAX_FDS \<and> file_table w ! j = 0"
  shows "\<exists>w'. cmd_cat args w = Some w' \<and> screen w' = fold vga_putchar (10 # c @ [10]) (screen w) \<and> file_table w' = file_table w \<and> vfs_inv w'"
proof -
  obtain j where j: "alloc_fd_from (file_table w) 3 = int j" "3 \<le> j" "j < VFS_MAX_FDS" "file_table w ! j = 0"
    using alloc_fd_from_spec [of "file_table w" 3] fd by metis
  from open_resolved [OF inv res st, of 5 O_RDONLY j] room j(1) obtain w1 f where
    o: "vfs_open fs_table w path O_RDONLY = Some (int j, w1)" "file_table w1 = (file_table w)[j := f]" "f \<noteq> 0" "files w1 f = Some (fresh_file a O_RDONLY)"
      "stored w1 a ino bs c" "heap_room (heap w1) 5" "sst.more w1 = sst.more w" by auto
  let ?w2 = "w1\<lparr>screen := vga_putchar 10 (screen w1)\<rparr>"
  have f: "file_table ?w2 ! j = f" "files ?w2 f = Some (fresh_file a O_RDONLY)" using o(2,4) j(3) inv by (simp_all add: vfs_inv_def vfs_tab_def files_def)
  from cat_loop_prints [OF j(3) f(1) o(3) f(2) _ _ stored_screen [OF o(5)] nz] obtain w3 fl' ino' where
    l: "cat_loop (int j) ?w2 = Some w3" "screen w3 = fold vga_putchar c (screen ?w2)" "file_table w3 = file_table w1" "files w3 f = Some fl'" "f_inode fl' = a"
      "stored w3 a ino' bs c" "heap w3 = heap w1" by auto
  let ?w4 = "w3\<lparr>screen := vga_putchar 10 (screen w3)\<rparr>"
  have "vfs_inv w1" using kernel_fs.open_tab [OF inv o(1)] by auto
  then have "vfs_inv ?w2" using tidy_say [OF say_newline, of w1] by (simp add: tidy_def)
  then have "vfs_inv w3" using tidy_cat_loop [OF l(1)] by (simp add: tidy_def)
  then have inv4: "vfs_inv ?w4" using tidy_say [OF say_newline, of w3] by (simp add: tidy_def)
  have f4: "file_table ?w4 ! j = f" "files ?w4 f = Some fl'" using l(3,4) f(1) by (simp_all add: files_def)
  from close_file [OF inv4 j(3) f4(1) o(3) f4(2) l(5) stored_screen [OF l(6)], of 5] l(7) o(6) obtain w' where
    c: "vfs_close fs_table ?w4 (int j) = Some (0, w')" "vfs_inv w'" "file_table w' = (file_table ?w4)[j := 0]" "sst.more w' = sst.more ?w4" by auto
  have "cmd_cat args w = Some w'" using arg o(1) l(1) c(1) by (simp add: cmd_cat_def say_newline)
  moreover have "screen w' = fold vga_putchar (10 # c @ [10]) (screen w)" using screen_more [OF c(4)] l(2) screen_more [OF o(7)] by simp
  moreover have "file_table w' = (file_table w)[j := 0]" using c(3) l(3) o(2) by simp
  then have "file_table w' = file_table w" using list_update_id [of "file_table w" j] j(4) by simp
  ultimately show ?thesis using c(2) by blast
qed

text \<open>C28: \<open>cat\<close> shows the file. For every path that resolves to a file on a shadowFS whose bytes contain no zero, with a free descriptor and
  heap for one file object, the command opens the file, prints a new line, all bytes of the file in order and a new line, however long the
  file is, and closes it again: it returns, the descriptor table is as before and the file system is intact.\<close>

theorem cat_prints_file:
  assumes inv: "vfs_inv w" and arg: "skip_space args = path" "path \<noteq> []" and res: "vfs_resolve_path fs_table w path = Some (a, w)"
    and st: "stored w a ino bs c" and nz: "0 \<notin> set c" and room: "heap_room (heap w) 109" and fd: "\<exists>j. 3 \<le> j \<and> j < VFS_MAX_FDS \<and> file_table w ! j = 0"
  shows "\<exists>w'. cmd_cat args w = Some w' \<and> screen w' = fold vga_putchar (10 # c @ [10]) (screen w) \<and> file_table w' = file_table w \<and> vfs_inv w'"
  using assms by (rule cat_opens)

text \<open>After the start of the kernel has mounted a shadowFS at \<open>/temp\<close>, a file \<open>/temp/a\<close> with the text \<open>Hi\<close> has been written.\<close>

lemma temp_file:
  "\<exists>w a ino bs. vfs_inv w \<and> vfs_resolve_path fs_table w ''/temp/a'' = Some (a, w) \<and> stored w a ino bs [72, 105] \<and> heap_room (heap w) 109 \<and>
     file_table (w :: dst) = replicate VFS_MAX_FDS 0"
proof -
  obtain w root where w: "fs_reachable w" "shadow_dir w ''/temp'' 0 root [] \<lparr>quota = 8192, m_used = 0, next_inode_num = 2, root_inode = root\<rparr>"
      "vfs_find_mount w ''/temp/a'' = Some 0" "heap_room (heap w) 9000" "pages w = small_pmm" "file_table w = replicate VFS_MAX_FDS 0"
    using temp_mounted by blast
  have pg: "card {4096 :: u64} \<le> card (pmm_avail small_pmm)" using small_avail(2) by (intro card_mono) simp_all
  have wf: "pmm_wf small_pmm" by (simp add: pmm_wf_def small_pmm_def)
  have room: "heap_room (heap w) (525 + 104 * 1)" using heap_room_mono [OF w(4)] by simp
  have n: "file_name ''a''" by (simp add: file_name_def)
  have fd: "alloc_fd_from (file_table w) 3 = int 3" "file_table w ! 3 = 0" using w(6) by (subst alloc_fd_from.simps, simp_all)
  have p: "vfs_find_mount w (''/temp'' @ slash # ''a'') = Some 0" using w(3) by simp
  have "\<exists>w1 w2 w3 a ino bs ds' m'. vfs_open fs_table w (''/temp'' @ slash # ''a'') 21 = Some (int 3, w1) \<and>
      vfs_write fs_table w1 (int 3) (Some [72, 105]) (of_nat (length [72, 105 :: u8])) = Some (int (length [72, 105 :: u8]), w2) \<and> vfs_close fs_table w2 (int 3) = Some (0, w3) \<and>
      vfs_inv w3 \<and> shadow_dir w3 ''/temp'' 0 root ds' m' \<and> vfs_find_mount w3 (''/temp'' @ slash # ''a'') = Some 0 \<and> find_inode ds' ''a'' = a \<and>
      stored w3 a ino bs [72, 105] \<and> file_table w3 = file_table w \<and> heap_room (heap w3) 109 \<and> same_mounts w w3"
    by (rule file_written [OF reachable_inv [OF w(1)] w(2) p n]) (use pg wf room w(5) fd in simp_all)
  then obtain w3 :: dst and a ino bs ds' m' where
    c: "vfs_inv w3" "shadow_dir w3 ''/temp'' 0 root ds' m'" "vfs_find_mount w3 (''/temp'' @ slash # ''a'') = Some 0" "find_inode ds' ''a'' = a"
      "stored w3 a ino bs [72, 105]" "file_table w3 = file_table w" "heap_room (heap w3) 109"
    by (elim exE conjE) (rule that; assumption)
  from resolve_name [OF c(2,3) n] c(4) have "vfs_resolve_path fs_table w3 ''/temp/a'' = Some (a, w3)" by simp
  then show ?thesis using c(1,5,6,7) w(6) by (intro exI [of _ w3] exI [of _ a] exI [of _ ino] exI [of _ bs]) simp
qed

theorem cat_prints_file_witness:
  "\<exists>w w'. cmd_cat '' /temp/a'' (w :: dst) = Some w' \<and> screen w' = fold vga_putchar [10, 72, 105, 10] (screen w) \<and> file_table w' = file_table w"
proof -
  obtain w :: dst and a ino bs where w: "vfs_inv w" "vfs_resolve_path fs_table w ''/temp/a'' = Some (a, w)" "stored w a ino bs [72, 105]" "heap_room (heap w) 109"
    "file_table w = replicate VFS_MAX_FDS 0" using temp_file by blast
  have "\<exists>j. 3 \<le> j \<and> j < VFS_MAX_FDS \<and> file_table w ! j = 0" using w(5) by (intro exI [of _ 3]) simp
  from cat_prints_file [OF w(1) _ _ w(2,3) _ w(4) this, of "'' /temp/a''"] show ?thesis by (auto simp: skip_space_def)
qed

section \<open>No command leaves a file open\<close>

text \<open>C29: No command of the shell but \<open>run\<close> leaks a descriptor or breaks the file tables. Whenever such a command returns, whatever its
  argument and however the files it touches behave, the descriptor table is exactly as the command found it and every open file and every object
  of the file systems is intact.\<close>

theorem shell_commands_close_files:
  assumes "(name, h) \<in> set commands" "name \<noteq> ''run''" "vfs_inv w" "h args s w = Some (r, s', w')"
  shows "r = Finished \<and> file_table w' = file_table w \<and> vfs_inv w'"
proof -
  have "r = Finished \<and> tidy w w'"
    using assms(1,2,4) unfolding commands_def quietly_def cmd_mem_def cmd_date_def
    by (auto simp: Option.bind_eq_Some_conv dest: tidy_commands)
  then show ?thesis using assms(3) by (simp add: tidy_def)
qed

text \<open>\<open>cat /temp/a\<close> opens the file, shows its two bytes and closes it.\<close>

theorem shell_commands_close_files_witness:
  "\<exists>w w'. quietly (cmd_cat ''/temp/a'') idle_shell (w :: dst) = Some (Finished, idle_shell, w') \<and> screen w' = fold vga_putchar [10, 72, 105, 10] (screen w) \<and>
     file_table w' = file_table w \<and> vfs_inv w'"
proof -
  obtain w :: dst and a ino bs where w: "vfs_inv w" "vfs_resolve_path fs_table w ''/temp/a'' = Some (a, w)" "stored w a ino bs [72, 105]" "heap_room (heap w) 109"
    "file_table w = replicate VFS_MAX_FDS 0" using temp_file by blast
  have "\<exists>j. 3 \<le> j \<and> j < VFS_MAX_FDS \<and> file_table w ! j = 0" using w(5) by (intro exI [of _ 3]) simp
  from cat_opens [OF w(1) _ _ w(2,3) _ w(4) this, of "''/temp/a''"] obtain w' where
    c: "cmd_cat ''/temp/a'' w = Some w'" "screen w' = fold vga_putchar [10, 72, 105, 10] (screen w)" by (auto simp: skip_space_def)
  then have q: "quietly (cmd_cat ''/temp/a'') idle_shell w = Some (Finished, idle_shell, w')" by (simp add: quietly_def)
  have "(''cat'', \<lambda>args. quietly (cmd_cat args)) \<in> set commands" by (simp add: commands_def)
  from shell_commands_close_files [OF this _ w(1) q] c(2) q show ?thesis by auto
qed

end
