(* ===== verification/Umalloc.thy ===== *)
theory Umalloc
  imports Acorn_Prelude
begin

text \<open>
  The allocator of the C library, \<open>src/libc/src/malloc.c\<close>: one list of blocks in address order with a
  24-byte header in front of each. Headers are stored in a memory of headers by their address. The only
  system call it makes asks the kernel for more memory: \<open>heap_grow\<close> is that call as the process sees it,
  which returns the old end of the heap and moves the end up, or returns \<open>-1\<close> for a negative increment.
\<close>

record block_header =
  ub_size :: u64
  ub_next :: u64
  ub_free :: bool

record ust =
  ublocks :: "u64 \<Rightarrow> block_header"
  heap_head :: u64
  heap_break :: u64

abbreviation HDR :: u64 where "HDR \<equiv> 24"
abbreviation MALLOC_CHUNK_SIZE :: u64 where "MALLOC_CHUNK_SIZE \<equiv> 4096"

definition upd_block :: "u64 \<Rightarrow> (block_header \<Rightarrow> block_header) \<Rightarrow> ust \<Rightarrow> ust" where
  "upd_block b f u = u\<lparr>ublocks := (ublocks u)(b := f (ublocks u b))\<rparr>"

definition heap_grow :: "u64 \<Rightarrow> ust \<Rightarrow> u64 \<times> ust" where
  "heap_grow increment u =
     (if sint increment < 0 then (- 1, u) else (heap_break u, u\<lparr>heap_break := heap_break u + increment\<rparr>))"

definition split_block :: "u64 \<Rightarrow> u64 \<Rightarrow> ust \<Rightarrow> ust" where
  "split_block block n u =
     (if ub_size (ublocks u block) < n + HDR + 1 then u
      else let remaining = ub_size (ublocks u block) - HDR;
               new_block = block + HDR + n;
               u1 = upd_block new_block (\<lambda>_. \<lparr>ub_size = remaining, ub_next = ub_next (ublocks u block), ub_free = True\<rparr>) u in
           upd_block block (\<lambda>h. h\<lparr>ub_size := n, ub_next := new_block\<rparr>) u1)"

text \<open>The first-fit search: the block found, or the last block of the list.\<close>

partial_function (option) first_fit :: "(u64 \<Rightarrow> block_header) \<Rightarrow> u64 \<Rightarrow> u64 \<Rightarrow> u64 \<Rightarrow> (u64 + u64) option" where
  "first_fit bl n prev current =
     (if current = 0 then Some (Inr prev)
      else if ub_free (bl current) \<and> ub_size (bl current) \<ge> n then Some (Inl current)
      else first_fit bl n current (ub_next (bl current)))"

text \<open>Rounding up to a multiple of eight.\<close>

definition round8 :: "u64 \<Rightarrow> u64" where
  "round8 n = (n + 7) AND NOT 7"

definition malloc :: "u64 \<Rightarrow> ust \<Rightarrow> (u64 \<times> ust) option" where
  "malloc nbytes u =
     (if nbytes = 0 then Some (0, u)
      else let n = round8 nbytes in
        do { found \<leftarrow> first_fit (ublocks u) n 0 (heap_head u);
             case found of
               Inl current \<Rightarrow> Some (current + HDR, upd_block current (\<lambda>h. h\<lparr>ub_free := False\<rparr>) (split_block current n u))
             | Inr prev \<Rightarrow>
                 let needed = n + HDR;
                     request = (if needed > MALLOC_CHUNK_SIZE then needed else MALLOC_CHUNK_SIZE);
                     (region, u1) = heap_grow request u in
                 if region = - 1 then Some (0, u1)
                 else let u2 = upd_block region (\<lambda>_. \<lparr>ub_size = request - HDR, ub_next = 0, ub_free = False\<rparr>) u1;
                          u3 = (if prev \<noteq> 0 then upd_block prev (\<lambda>h. h\<lparr>ub_next := region\<rparr>) u2 else u2\<lparr>heap_head := region\<rparr>) in
                      Some (region + HDR, split_block region n u3) })"

definition free :: "u64 \<Rightarrow> ust \<Rightarrow> ust" where
  "free ptr u =
     (if ptr = 0 then u
      else let block = ptr - HDR;
               u1 = upd_block block (\<lambda>h. h\<lparr>ub_free := True\<rparr>) u;
               nxt = ub_next (ublocks u1 block) in
        if nxt \<noteq> 0 \<and> ub_free (ublocks u1 nxt)
        then upd_block block (\<lambda>h. h\<lparr>ub_size := ub_size h + (HDR + ub_size (ublocks u1 nxt)), ub_next := ub_next (ublocks u1 nxt)\<rparr>) u1
        else u1)"

section \<open>The split\<close>

lemma round8_bounds:
  assumes "0 < unat n" "unat n \<le> 4040"
  shows "0 < unat (round8 n)" "unat (round8 n) \<le> 4047"
proof -
  let ?x = "n + 7"
  have x: "unat ?x = unat n + 7" using assms by (simp add: unat_word_ariths)
  have "round8 n \<le> ?x" unfolding round8_def by (rule word_and_le2)
  then show "unat (round8 n) \<le> 4047" using x assms by (simp add: word_le_nat_alt)
  have "?x = (?x AND 7) OR (?x AND NOT 7)" by (rule bit_eqI) (auto simp: bit_simps)
  then have "?x AND NOT 7 = 0 \<Longrightarrow> ?x \<le> 7" using word_and_le1 [of ?x 7] by simp
  then show "0 < unat (round8 n)" using x assms unfolding round8_def by (cases "?x AND NOT 7 = 0") (auto simp: word_le_nat_alt unat_gt_0)
qed

lemma round8_fits: "0 < unat n \<Longrightarrow> unat n \<le> 4040 \<Longrightarrow> \<not> 4072 < round8 n + HDR + 1 \<and> \<not> 4096 < round8 n + HDR"
  using round8_bounds [of n] by (simp add: word_less_nat_alt unat_word_ariths)

lemma malloc_first:
  assumes u: "heap_head u = 0" "heap_break u = b" "b \<noteq> - 1" and n: "0 < unat n" "unat n \<le> 4040"
  shows "malloc n u = Some (b + HDR, u\<lparr>heap_head := b, heap_break := b + 4096,
    ublocks := (ublocks u)(b + HDR + round8 n := \<lparr>ub_size = 4048, ub_next = 0, ub_free = True\<rparr>,
      b := \<lparr>ub_size = round8 n, ub_next = b + HDR + round8 n, ub_free = False\<rparr>)\<rparr>)"
proof -
  have nz: "HDR + round8 n \<noteq> 0" using round8_bounds [OF n] by (simp add: word_unat_eq_iff unat_word_ariths)
  have "n \<noteq> 0" using n by auto
  then show ?thesis
    using u n round8_fits [OF n] nz
    by (simp add: malloc_def first_fit.simps heap_grow_def split_block_def upd_block_def Let_def add.assoc fun_upd_twist)
qed

lemma first_fit_second:
  assumes "b \<noteq> 0" "c \<noteq> 0" "\<not> ub_free (bl b)" "ub_next (bl b) = c"
  shows "first_fit bl n p b = (if ub_free (bl c) \<and> n \<le> ub_size (bl c) then Some (Inl c) else first_fit bl n c (ub_next (bl c)))"
  using assms by (subst first_fit.simps, simp) (simp add: first_fit.simps [of bl n b c])

text \<open>C21: \<open>split_block\<close> of the C library forgets to subtract the size of the part it keeps, so the free rest of a chunk
  is recorded as 4048 bytes whatever was taken from it. After a first request of up to 4040 bytes, a second request of
  4048 bytes is granted without growing the heap although it ends beyond the end of the heap, and the
  header of the next block that the heap is grown for is written into the middle of it.\<close>

theorem malloc_split_overlaps:
  assumes u: "heap_head u = 0" "heap_break u = b" "b \<noteq> 0" "unat b < 2 ^ 62" and n: "0 < unat n" "unat n \<le> 4040"
  shows "\<exists>p u1 q u2 r u3. malloc n u = Some (p, u1) \<and> malloc 4048 u1 = Some (q, u2) \<and> malloc 8 u2 = Some (r, u3) \<and>
    heap_break u2 = b + 4096 \<and> unat q + 4048 > unat (heap_break u2) \<and> q < r - HDR \<and> r - HDR < q + 4048"
proof -
  let ?k = "round8 n" and ?c = "b + HDR + round8 n"
  have b1: "b \<noteq> - 1" using u(4) by (auto simp: unsigned_minus_1_eq_mask mask_eq_exp_minus_1)
  note k = round8_bounds [OF n]
  have c: "unat ?c = unat b + 24 + unat ?k" using u(4) k by (simp add: unat_word_ariths)
  have b0: "0 < unat b" using u(3) by (simp add: unat_gt_0)
  have cb: "?c \<noteq> 0" "?c \<noteq> b" using c k b0 by (auto simp: word_unat_eq_iff)
  obtain u1 where m1: "malloc n u = Some (b + HDR, u1)" "heap_head u1 = b" "heap_break u1 = b + 4096"
    "ublocks u1 b = \<lparr>ub_size = ?k, ub_next = ?c, ub_free = False\<rparr>" "ublocks u1 ?c = \<lparr>ub_size = 4048, ub_next = 0, ub_free = True\<rparr>"
    using malloc_first [OF u(1,2) b1 n] cb by auto
  have r8: "round8 4048 = 4048" "round8 8 = 8" by (simp_all add: round8_def)
  have f1: "first_fit (ublocks u1) 4048 0 b = Some (Inl ?c)" using first_fit_second [of b ?c "ublocks u1" 4048 0] u(3) cb m1(4,5) by simp
  let ?u2 = "upd_block ?c (\<lambda>h. h\<lparr>ub_free := False\<rparr>) (split_block ?c 4048 u1)"
  have m2: "malloc 4048 u1 = Some (?c + HDR, ?u2)" using f1 m1(2) by (simp add: malloc_def r8)
  have u2: "?u2 = u1\<lparr>ublocks := (ublocks u1)(?c := \<lparr>ub_size = 4048, ub_next = 0, ub_free = False\<rparr>)\<rparr>"
    using m1(5) by (simp add: split_block_def upd_block_def)
  have f2: "first_fit (ublocks ?u2) 8 0 b = Some (Inr ?c)"
    using first_fit_second [of b ?c "ublocks ?u2" 8 0] u(3) cb m1(4) by (simp add: u2 first_fit.simps)
  have "b + 4096 \<noteq> - 1" using u(4) by (auto simp: word_unat_eq_iff unat_word_ariths unsigned_minus_1_eq_mask mask_eq_exp_minus_1)
  then obtain u3 where m3: "malloc 8 ?u2 = Some (b + 4096 + HDR, u3)"
    using f2 m1(2,3) cb by (simp add: malloc_def r8 heap_grow_def u2 Let_def)
  have q: "unat (?c + HDR) = unat b + 48 + unat ?k" using c u(4) k by (simp add: unat_word_ariths)
  have e: "unat (b + 4096) = unat b + 4096" "unat (?c + HDR + 4048) = unat b + 4096 + unat ?k"
    using q u(4) k by (simp_all add: unat_word_ariths)
  have "?c + HDR < b + 4096" "b + 4096 < ?c + HDR + 4048" using q e k by (simp_all add: word_less_nat_alt)
  moreover have "unat (?c + HDR) + 4048 > unat (heap_break ?u2)" using q e k m1(3) by (simp add: u2)
  moreover have "heap_break ?u2 = b + 4096" "b + 4096 + HDR - HDR = b + 4096" using m1(3) by (simp_all add: u2)
  ultimately show ?thesis using m1(1) m2 m3 by (metis (no_types))
qed

theorem malloc_split_overlaps_witness:
  "\<exists>p u1 q u2. malloc 100 \<lparr>ublocks = \<lambda>_. \<lparr>ub_size = 0, ub_next = 0, ub_free = False\<rparr>, heap_head = 0, heap_break = 0x405000\<rparr> = Some (p, u1) \<and>
     malloc 4048 u1 = Some (q, u2) \<and> heap_break u2 = 0x406000 \<and> unat q + 4048 > 0x406000"
  using malloc_split_overlaps [of "\<lparr>ublocks = \<lambda>_. \<lparr>ub_size = 0, ub_next = 0, ub_free = False\<rparr>, heap_head = 0, heap_break = 0x405000\<rparr>" "0x405000" 100]
  by fastforce

end
