(* ===== verification/Stdio.thy ===== *)
theory Stdio
  imports Umalloc Drivers
begin

text \<open>
  The C library's formatted and buffered output and input, \<open>src/libc/src/stdio.c\<close>. The text of a \<open>printf\<close>
  is the list of its characters; the variable arguments are those of the kernel's formatter. A stream keeps the
  bytes of its buffer. The system calls it makes are arguments: \<open>wr\<close>, \<open>rd\<close>, \<open>opn\<close> and \<open>cls\<close> act on the state
  \<open>k\<close> of whatever is behind the descriptor. What a descriptor accepts is the locale \<open>byte_sink\<close>, which the serial
  device of the kernel implements.
\<close>

section \<open>Formatting\<close>

function digits_from :: "u64 \<Rightarrow> u64 \<Rightarrow> string \<Rightarrow> string" where
  "digits_from base v tmp =
     (if v > 0 \<and> base > 1 then digits_from base (v div base) (tmp @ [''0123456789abcdef'' ! unat (v mod base)]) else tmp)"
  by pat_completeness auto
termination
proof (relation "measure (\<lambda>(base, v, tmp). unat v)")
  fix base v :: u64 and tmp :: string
  assume a: "0 < v \<and> 1 < base"
  then have "unat v div unat base < unat v" by (intro div_less_dividend) (simp_all add: word_less_nat_alt)
  then show "((base, v div base, tmp @ [''0123456789abcdef'' ! unat (v mod base)]), base, v, tmp) \<in> measure (\<lambda>(base, v, tmp). unat v)"
    by (simp add: unat_div)
qed simp

declare digits_from.simps [simp del]

definition format_uint :: "u64 \<Rightarrow> u64 \<Rightarrow> string" where
  "format_uint v base = (if v = 0 then ''0'' else rev (digits_from base v []))"

text \<open>The negation of the smallest value overflows, which is undefined.\<close>

definition format_int :: "int \<Rightarrow> u64 \<Rightarrow> string option" where
  "format_int v base =
     (if v = - (2 ^ 63) then None
      else if v < 0 then Some (CHR ''-'' # format_uint (of_int (- v)) base) else Some (format_uint (of_int v) base))"

text \<open>The value of an integer conversion, at the width the format asks for.\<close>

fun arg_unsigned :: "bool \<Rightarrow> va list \<Rightarrow> (u64 \<times> va list) option" where
  "arg_unsigned True (VLong v # args) = Some (v, args)"
| "arg_unsigned False (VInt v # args) = Some (ucast v, args)"
| "arg_unsigned _ _ = None"

fun arg_signed :: "bool \<Rightarrow> va list \<Rightarrow> (int \<times> va list) option" where
  "arg_signed True (VLong v # args) = Some (sint v, args)"
| "arg_signed False (VInt v # args) = Some (sint v, args)"
| "arg_signed _ _ = None"

definition conversion :: "char \<Rightarrow> bool \<Rightarrow> nat \<Rightarrow> va list \<Rightarrow> (string \<times> va list) option" where
  "conversion c is_long pos args =
     (if c = CHR ''d'' then do { (v, rest) \<leftarrow> arg_signed is_long args; s \<leftarrow> format_int v 10; Some (s, rest) }
      else if c = CHR ''u'' then do { (v, rest) \<leftarrow> arg_unsigned is_long args; Some (format_uint v 10, rest) }
      else if c = CHR ''x'' then do { (v, rest) \<leftarrow> arg_unsigned is_long args; Some (format_uint v 16, rest) }
      else if c = CHR ''c'' then (case args of VInt v # rest \<Rightarrow> Some ([char_of (unat v mod 256)], rest) | _ \<Rightarrow> None)
      else if c = CHR ''s'' then (case args of VStr (Some s) # rest \<Rightarrow> Some (take (1023 - pos) s, rest) | _ \<Rightarrow> None)
      else if c = CHR ''%'' then Some (''%'', args)
      else Some ([CHR ''%'', c], args))"

text \<open>A format that ends inside a conversion is read past its terminator.\<close>

function vprintf_loop :: "string \<Rightarrow> va list \<Rightarrow> string \<Rightarrow> string option" where
  "vprintf_loop fmt args buf =
     (case fmt of [] \<Rightarrow> Some buf
      | c # cs \<Rightarrow>
         if length buf \<ge> 1024 - 32 then Some buf
         else if c \<noteq> CHR ''%'' then vprintf_loop cs args (buf @ [c])
         else let (is_long, ds) = long_prefix cs in
           (case ds of [] \<Rightarrow> None
            | d # rest \<Rightarrow> (case conversion d is_long (length buf) args of None \<Rightarrow> None | Some (s, args') \<Rightarrow> vprintf_loop rest args' (buf @ s))))"
  by pat_completeness auto
termination
proof (relation "measure (\<lambda>(fmt, args, buf). length fmt)")
  fix fmt args buf c cs x is_long ds d rest y s args'
  assume "fmt = c # cs" "x = long_prefix cs" "(is_long, ds) = x" "ds = d # rest"
  then show "((rest, args', buf @ s), fmt, args, buf) \<in> measure (\<lambda>(fmt, args, buf). length fmt)"
    using long_prefix_length [of cs] by (auto dest: arg_cong [of _ _ "\<lambda>p. length (snd p)"])
qed auto

declare vprintf_loop.simps [simp del]

text \<open>The text is written to descriptor 1; the result is the state after the write and the length.\<close>

definition vprintf :: "('k \<Rightarrow> int \<Rightarrow> u8 list \<Rightarrow> (int \<times> 'k) option) \<Rightarrow> string \<Rightarrow> va list \<Rightarrow> 'k \<Rightarrow> (nat \<times> 'k) option" where
  "vprintf wr fmt args k =
     do { buf \<leftarrow> vprintf_loop fmt args []; (_, k1) \<leftarrow> wr k 1 (bytes_of buf); Some (length buf, k1) }"

section \<open>Streams\<close>

abbreviation FILE_BUF_SIZE :: nat where "FILE_BUF_SIZE \<equiv> 512"

text \<open>\<open>fbuf\<close> holds the valid bytes of the buffer: what is buffered for writing, or what the last refill read.\<close>

record stream =
  fd :: int
  is_write :: bool
  fbuf :: "u8 list"
  buf_size :: nat
  buf_pos :: nat
  s_addr :: u64
  buf_addr :: u64

abbreviation SIZEOF_FILE :: u64 where "SIZEOF_FILE \<equiv> 48"

definition fopen_flags :: "string \<Rightarrow> (u32 \<times> bool) option" where
  "fopen_flags mode =
     (if mode = [] then None
      else if hd mode = CHR ''r'' then Some (0, False)
      else if hd mode = CHR ''w'' then Some (1 OR 4 OR 16, True)
      else if hd mode = CHR ''a'' then Some (1 OR 4 OR 8, True)
      else None)"

definition fopen :: "('k \<Rightarrow> string \<Rightarrow> u32 \<Rightarrow> (int \<times> 'k) option) \<Rightarrow> ('k \<Rightarrow> int \<Rightarrow> (int \<times> 'k) option) \<Rightarrow>
    string \<Rightarrow> string \<Rightarrow> 'k \<Rightarrow> ust \<Rightarrow> (stream option \<times> 'k \<times> ust) option" where
  "fopen opn cls path mode k u =
     (case fopen_flags mode of None \<Rightarrow> Some (None, k, u)
      | Some (flags, wrt) \<Rightarrow>
         do { (d, k1) \<leftarrow> opn k path flags;
              if d < 0 then Some (None, k1, u)
              else do {
                (f, u1) \<leftarrow> malloc SIZEOF_FILE u;
                if f = 0 then do { (_, k2) \<leftarrow> cls k1 d; Some (None, k2, u1) }
                else do {
                  (b, u2) \<leftarrow> malloc (of_nat FILE_BUF_SIZE) u1;
                  if b = 0 then do { (_, k2) \<leftarrow> cls k1 d; Some (None, k2, free f u2) }
                  else Some (Some \<lparr>fd = d, is_write = wrt, fbuf = [], buf_size = FILE_BUF_SIZE, buf_pos = 0, s_addr = f, buf_addr = b\<rparr>, k1, u2) } } })"

text \<open>The loop of \<open>fwrite\<close>: the number of bytes taken, the stream and the state behind the descriptor.\<close>

partial_function (option) fwrite_loop ::
  "('k \<Rightarrow> int \<Rightarrow> u8 list \<Rightarrow> (int \<times> 'k) option) \<Rightarrow> u8 list \<Rightarrow> nat \<Rightarrow> stream \<Rightarrow> 'k \<Rightarrow> (nat \<times> stream \<times> 'k) option" where
  "fwrite_loop wr src written f k =
     (if written < length src
      then do {
        (ok, f1, k1) \<leftarrow>
          (if length (fbuf f) \<ge> buf_size f
           then do { (n, k1) \<leftarrow> wr k (fd f) (fbuf f); Some (if n < 0 then (False, f, k1) else (True, f\<lparr>fbuf := []\<rparr>, k1)) }
           else Some (True, f, k));
        if \<not> ok then Some (written, f, k1)
        else let chunk = min (buf_size f1 - length (fbuf f1)) (length src - written) in
          fwrite_loop wr src (written + chunk) (f1\<lparr>fbuf := fbuf f1 @ take chunk (drop written src)\<rparr>) k1 }
      else Some (written, f, k))"

text \<open>\<open>src\<close> holds the bytes at the pointer: reading beyond them is undefined.\<close>

definition fwrite :: "('k \<Rightarrow> int \<Rightarrow> u8 list \<Rightarrow> (int \<times> 'k) option) \<Rightarrow> u8 list \<Rightarrow> u64 \<Rightarrow> u64 \<Rightarrow> stream \<Rightarrow> 'k \<Rightarrow> (nat \<times> stream \<times> 'k) option" where
  "fwrite wr src sz nmemb f k =
     (if \<not> is_write f \<or> sz = 0 \<or> nmemb = 0 then Some (0, f, k)
      else if unat (sz * nmemb) > length src then None
      else do { (written, f1, k1) \<leftarrow> fwrite_loop wr (take (unat (sz * nmemb)) src) 0 f k; Some (written div unat sz, f1, k1) })"

definition fclose :: "('k \<Rightarrow> int \<Rightarrow> u8 list \<Rightarrow> (int \<times> 'k) option) \<Rightarrow> ('k \<Rightarrow> int \<Rightarrow> (int \<times> 'k) option) \<Rightarrow> stream \<Rightarrow> 'k \<Rightarrow> ust \<Rightarrow> (int \<times> 'k \<times> ust) option" where
  "fclose wr cls f k u =
     do { (r1, k1) \<leftarrow> (if is_write f \<and> length (fbuf f) > 0
                        then do { (n, k1) \<leftarrow> wr k (fd f) (fbuf f); Some (if n < 0 then - 1 else 0, k1) }
                        else Some (0, k));
          (c, k2) \<leftarrow> cls k1 (fd f);
          Some (if c < 0 then - 1 else r1, k2, free (s_addr f) (free (buf_addr f) u)) }"

text \<open>\<open>rd k d n\<close> is a read of at most \<open>n\<close> bytes: the result and the bytes stored.\<close>

partial_function (option) fread_loop ::
  "('k \<Rightarrow> int \<Rightarrow> nat \<Rightarrow> (int \<times> u8 list \<times> 'k) option) \<Rightarrow> nat \<Rightarrow> u8 list \<Rightarrow> stream \<Rightarrow> 'k \<Rightarrow> (u8 list \<times> stream \<times> 'k) option" where
  "fread_loop rd want dst f k =
     (if length dst < want
      then do {
        (n, f1, k1) \<leftarrow>
          (if buf_pos f \<ge> length (fbuf f)
           then do { (n, bs, k1) \<leftarrow> rd k (fd f) (buf_size f);
                     Some (n, if n \<le> 0 then f else f\<lparr>fbuf := take (nat n) bs, buf_pos := 0\<rparr>, k1) }
           else Some (1, f, k));
        if n \<le> 0 then Some (dst, f1, k1)
        else let chunk = min (length (fbuf f1) - buf_pos f1) (want - length dst) in
          fread_loop rd want (dst @ take chunk (drop (buf_pos f1) (fbuf f1))) (f1\<lparr>buf_pos := buf_pos f1 + chunk\<rparr>) k1 }
      else Some (dst, f, k))"

definition fread :: "('k \<Rightarrow> int \<Rightarrow> nat \<Rightarrow> (int \<times> u8 list \<times> 'k) option) \<Rightarrow> u64 \<Rightarrow> u64 \<Rightarrow> stream \<Rightarrow> 'k \<Rightarrow> (nat \<times> u8 list \<times> stream \<times> 'k) option" where
  "fread rd sz nmemb f k =
     (if is_write f \<or> sz = 0 \<or> nmemb = 0 then Some (0, [], f, k)
      else do { (dst, f1, k1) \<leftarrow> fread_loop rd (unat (sz * nmemb)) [] f k; Some (length dst div unat sz, dst, f1, k1) })"

section \<open>The buffer of a formatted text\<close>

lemma digits_from_length: "1 < base \<Longrightarrow> unat v < unat base ^ n \<Longrightarrow> length (digits_from base v tmp) \<le> length tmp + n"
proof (induction n arbitrary: v tmp)
  case 0
  then show ?case by (subst digits_from.simps) (simp add: word_less_nat_alt)
next
  case (Suc n)
  have "unat (v div base) < unat base ^ n" using Suc.prems by (simp add: unat_div less_mult_imp_div_less mult.commute)
  from Suc.IH [OF Suc.prems(1) this, of "tmp @ [''0123456789abcdef'' ! unat (v mod base)]"] show ?case
    by (subst digits_from.simps) auto
qed

lemma format_uint_length: "10 \<le> base \<Longrightarrow> length (format_uint v base) \<le> 20"
proof -
  assume b: "10 \<le> base"
  then have "10 \<le> unat base" by (simp add: word_le_nat_alt)
  then have "10 ^ 20 \<le> unat base ^ 20" by (rule power_mono) simp
  moreover have "unat v < 2 ^ 64" using unsigned_less [of v] by simp
  ultimately have "unat v < unat base ^ 20" by simp
  moreover have "1 < base" using b by (simp add: word_less_nat_alt word_le_nat_alt)
  ultimately show ?thesis using digits_from_length [of base v 20 "[]"] by (auto simp: format_uint_def)
qed

lemma format_int_length: "format_int v 10 = Some s \<Longrightarrow> length s \<le> 21"
  using format_uint_length [of 10 "of_int v"] format_uint_length [of 10 "of_int (- v)"] by (auto simp: format_int_def split: if_splits)

lemma conversion_length:
  assumes "conversion c is_long pos args = Some (s, rest)" "pos < 992"
  shows "pos + length s \<le> 1023"
proof -
  have u: "pos + length (format_uint v 10) \<le> 1023" "pos + length (format_uint v 16) \<le> 1023" for v
    using format_uint_length [of 10 v] format_uint_length [of 16 v] assms(2) by simp_all
  show ?thesis
    using assms u
    by (auto simp: conversion_def Option.bind_eq_Some_conv split: if_splits list.splits va.splits option.splits dest!: format_int_length)
qed

lemma vprintf_loop_bounded: "vprintf_loop fmt args buf = Some out \<Longrightarrow> length buf \<le> 1023 \<Longrightarrow> length out \<le> 1023"
proof (induction fmt args buf rule: vprintf_loop.induct)
  case (1 fmt args buf)
  show ?case
    using 1 by (subst (asm) (3) vprintf_loop.simps) (auto split: list.splits if_splits option.splits prod.splits dest: conversion_length)
qed

text \<open>C33: \<open>vprintf\<close> of the C library never overruns its buffer of 1024 bytes: whatever the format and the arguments, the text it
  builds has at most 1023 characters, and the number it returns is exactly the number of bytes it hands to \<open>write\<close>.\<close>

theorem vprintf_in_buffer:
  assumes "vprintf wr fmt args k = Some (n, k1)"
  shows "\<exists>out r. n = length out \<and> length out \<le> 1023 \<and> wr k 1 (bytes_of out) = Some (r, k1)"
  using assms vprintf_loop_bounded [of fmt args "[]"] by (auto simp: vprintf_def Option.bind_eq_Some_conv)

theorem vprintf_in_buffer_witness:
  "\<exists>out r. 3 = length out \<and> length out \<le> 1023 \<and> (\<lambda>k d bs. Some (0 :: int, k @ bs)) [] (1 :: int) (bytes_of out) = Some (r, bytes_of ''-7!'')"
proof -
  have "char_of (33 :: nat) = CHR ''!''" by code_simp
  then have "vprintf (\<lambda>k d bs. Some (0 :: int, k @ bs)) ''%d%c'' [VInt (- 7), VInt 33] [] = Some (3, bytes_of ''-7!'')"
    by (simp add: vprintf_def vprintf_loop.simps long_prefix_def conversion_def format_int_def format_uint_def digits_from.simps)
  from vprintf_in_buffer [OF this] show ?thesis .
qed

section \<open>Buffered output\<close>

text \<open>What the library needs of a descriptor it writes to: the call returns, and it takes all the bytes or fails and takes none.\<close>

locale byte_sink =
  fixes wr :: "'k \<Rightarrow> int \<Rightarrow> u8 list \<Rightarrow> (int \<times> 'k) option"
    and sent :: "'k \<Rightarrow> u8 list"
    and limit :: nat
  assumes accepts: "length bs \<le> limit \<Longrightarrow>
    \<exists>n k'. wr k d bs = Some (n, k') \<and> (if n < 0 then sent k' = sent k else sent k' = sent k @ bs)"
begin

lemma write_cases:
  assumes "length bs \<le> limit"
  obtains (Failed) n k' where "wr k d bs = Some (n, k')" "n < 0" "sent k' = sent k"
    | (Sent) n k' where "wr k d bs = Some (n, k')" "0 \<le> n" "sent k' = sent k @ bs"
  using accepts [OF assms, of k d] by (metis linorder_not_less)

lemma fwrite_loop_returns:
  assumes "length (fbuf f) \<le> buf_size f" "0 < buf_size f" "buf_size f \<le> limit" "written \<le> length src"
  shows "\<exists>written' f' k'. fwrite_loop wr src written f k = Some (written', f', k') \<and>
    f' = f\<lparr>fbuf := fbuf f'\<rparr> \<and> length (fbuf f') \<le> buf_size f \<and> written \<le> written' \<and> written' \<le> length src \<and>
    sent k' @ fbuf f' = sent k @ fbuf f @ take (written' - written) (drop written src)"
  using assms
proof (induction "length src - written" arbitrary: written f k rule: less_induct)
  case less
  show ?case
  proof (cases "written < length src")
    case False
    then show ?thesis using less.prems by (subst fwrite_loop.simps) auto
  next
    case more: True
    have step: "\<exists>written' f' k'. fwrite_loop wr src (written + chunk) (g\<lparr>fbuf := fbuf g @ take chunk (drop written src)\<rparr>) k1 = Some (written', f', k') \<and>
        f' = g\<lparr>fbuf := fbuf f'\<rparr> \<and> length (fbuf f') \<le> buf_size g \<and> written \<le> written' \<and> written' \<le> length src \<and>
        sent k' @ fbuf f' = sent k1 @ fbuf g @ take (written' - written) (drop written src)"
      if c: "chunk = min (buf_size g - length (fbuf g)) (length src - written)" and g: "length (fbuf g) < buf_size g" "buf_size g = buf_size f"
      for chunk k1 and g :: stream
    proof -
      let ?g = "g\<lparr>fbuf := fbuf g @ take chunk (drop written src)\<rparr>"
      have "length src - (written + chunk) < length src - written" "length (fbuf ?g) \<le> buf_size ?g" "0 < buf_size ?g" "buf_size ?g \<le> limit"
        "written + chunk \<le> length src" using c g more less.prems by auto
      from less.hyps [OF this, of k1] obtain written' f' k' where
        r: "fwrite_loop wr src (written + chunk) ?g k1 = Some (written', f', k')" "f' = ?g\<lparr>fbuf := fbuf f'\<rparr>" "length (fbuf f') \<le> buf_size ?g"
          "written + chunk \<le> written'" "written' \<le> length src"
          "sent k' @ fbuf f' = sent k1 @ fbuf ?g @ take (written' - (written + chunk)) (drop (written + chunk) src)" by blast
      have "take (written' - written) (drop written src) = take chunk (drop written src) @ take (written' - (written + chunk)) (drop (written + chunk) src)"
        using r(4) take_add [of chunk "written' - (written + chunk)" "drop written src"] by (simp add: add.commute)
      then show ?thesis using r by auto
    qed
    show ?thesis
    proof (cases "buf_size f \<le> length (fbuf f)")
      case False
      then show ?thesis using step [OF refl, of f k] more by (subst fwrite_loop.simps) (simp add: Let_def)
    next
      case full: True
      then have len: "length (fbuf f) \<le> limit" using less.prems by simp
      show ?thesis
      using len
      proof (cases rule: write_cases [where bs = "fbuf f" and k = k and d = "fd f"])
        case (Failed n k')
        then show ?thesis using more full less.prems by (subst fwrite_loop.simps) auto
      next
        case (Sent n k')
        then show ?thesis using step [OF refl, of "f\<lparr>fbuf := []\<rparr>" k'] more full less.prems by (subst fwrite_loop.simps) (simp add: Let_def)
      qed
    qed
  qed
qed

text \<open>Without failures everything is taken.\<close>

lemma fwrite_loop_complete:
  assumes "\<And>k d bs n k'. wr k d bs = Some (n, k') \<Longrightarrow> length bs \<le> limit \<Longrightarrow> 0 \<le> n"
    and "length (fbuf f) \<le> buf_size f" "0 < buf_size f" "buf_size f \<le> limit" "written \<le> length src"
    and "fwrite_loop wr src written f k = Some (written', f', k')"
  shows "written' = length src"
  using assms(2-)
proof (induction "length src - written" arbitrary: written f k rule: less_induct)
  case less
  show ?case
  proof (cases "written < length src")
    case False
    then show ?thesis using less.prems by (subst (asm) fwrite_loop.simps) auto
  next
    case more: True
    have step: "written' = length src"
      if "fwrite_loop wr src (written + chunk) (g\<lparr>fbuf := fbuf g @ take chunk (drop written src)\<rparr>) k1 = Some (written', f', k')"
        "chunk = min (buf_size g - length (fbuf g)) (length src - written)" "length (fbuf g) < buf_size g" "buf_size g = buf_size f"
      for chunk k1 and g :: stream
      by (rule less.hyps [OF _ _ _ _ _ that(1)]) (use that more less.prems in auto)
    show ?thesis
    proof (cases "buf_size f \<le> length (fbuf f)")
      case False
      then show ?thesis using step [of _ f k] more less.prems(5) by (subst (asm) fwrite_loop.simps) (simp add: Let_def)
    next
      case full: True
      then have len: "length (fbuf f) \<le> limit" using less.prems by simp
      obtain n k1 where w: "wr k (fd f) (fbuf f) = Some (n, k1)" "0 \<le> n" using write_cases [OF len, of k "fd f"] assms(1) len by metis
      then show ?thesis using step [of _ "f\<lparr>fbuf := []\<rparr>" k1] more full less.prems by (subst (asm) (2) fwrite_loop.simps) (simp add: Let_def)
    qed
  qed
qed

end

lemma fold_serial_putchar: "fold serial_putchar bs io = io @ map (Pair COM1) bs"
  by (induction bs arbitrary: io) (simp_all add: serial_putchar_def)

lemma dev_serial_write_all:
  "length bs \<le> 512 \<Longrightarrow> dev_serial_write bs (of_nat (length bs)) io = Some (int (length bs), io @ map (Pair COM1) bs)"
  by (simp add: dev_serial_write_def fold_serial_putchar unat_of_nat signed_of_nat signed_take_bit_int_eq_self)

abbreviation serial_wr :: "io_trace \<Rightarrow> int \<Rightarrow> u8 list \<Rightarrow> (int \<times> io_trace) option" where
  "serial_wr io d bs \<equiv> dev_serial_write bs (of_nat (length bs)) io"

interpretation serial_sink: byte_sink serial_wr "map snd" 512
  by unfold_locales (simp add: dev_serial_write_all comp_def)

text \<open>C31: Writing through a stream to the serial device returns, takes every item and loses, repeats and reorders no byte: what
  has left the port followed by what is still buffered is what there was before followed by the data, at whatever
  points the buffer of 512 bytes was flushed, and closing the stream sends the rest.\<close>

theorem fwrite_fclose_transparent:
  assumes "is_write f" "buf_size f = FILE_BUF_SIZE" "length (fbuf f) \<le> FILE_BUF_SIZE"
    and "0 < unat sz" "0 < unat nmemb" "unat sz * unat nmemb < 2 ^ 64" "unat sz * unat nmemb \<le> length src"
  shows "\<exists>f1 io1. fwrite serial_wr src sz nmemb f io = Some (unat nmemb, f1, io1) \<and>
    length (fbuf f1) \<le> FILE_BUF_SIZE \<and>
    map snd io1 @ fbuf f1 = map snd io @ fbuf f @ take (unat sz * unat nmemb) src \<and>
    (\<exists>io2 u2. fclose serial_wr (\<lambda>io d. Some (0, io)) f1 io1 u = Some (0, io2, u2) \<and>
       map snd io2 = map snd io @ fbuf f @ take (unat sz * unat nmemb) src)"
proof -
  have sz: "sz \<noteq> 0" "nmemb \<noteq> 0" "unat (sz * nmemb) = unat sz * unat nmemb" using assms by (auto simp: unat_word_ariths)
  let ?src = "take (unat sz * unat nmemb) src"
  obtain w f1 io1 where r: "fwrite_loop serial_wr ?src 0 f io = Some (w, f1, io1)" "f1 = f\<lparr>fbuf := fbuf f1\<rparr>" "length (fbuf f1) \<le> buf_size f"
      "map snd io1 @ fbuf f1 = map snd io @ fbuf f @ take (w - 0) (drop 0 ?src)"
    using serial_sink.fwrite_loop_returns [of f 0 ?src io] assms by fastforce
  have w: "w = length ?src" using serial_sink.fwrite_loop_complete [OF _ _ _ _ _ r(1)] assms by (simp add: dev_serial_write_all)
  then have out: "map snd io1 @ fbuf f1 = map snd io @ fbuf f @ ?src" using r(4) assms(7) by (simp add: min_absorb2)
  have "is_write f1" using r(2) assms(1) by (metis stream.select_convs(2) stream.surjective stream.update_convs(3))
  then obtain io2 u2 where "fclose serial_wr (\<lambda>io d. Some (0, io)) f1 io1 u = Some (0, io2, u2)" "map snd io2 = map snd io @ fbuf f @ ?src"
    using r(3) assms(2) out by (cases "fbuf f1 = []") (simp_all add: fclose_def dev_serial_write_all comp_def)
  moreover have "fwrite serial_wr src sz nmemb f io = Some (unat nmemb, f1, io1)"
    using assms sz r(1) w by (simp add: fwrite_def)
  moreover have "length (fbuf f1) \<le> FILE_BUF_SIZE" using r(3) assms(2) by simp
  ultimately show ?thesis using out by blast
qed

theorem fwrite_fclose_transparent_witness:
  "\<exists>f1 io1. fwrite serial_wr [9, 8, 7, 6] 2 2 \<lparr>fd = 3, is_write = True, fbuf = [1, 2], buf_size = 512, buf_pos = 0, s_addr = 64, buf_addr = 128\<rparr> [] =
      Some (2, f1, io1) \<and> map snd io1 @ fbuf f1 = [1, 2, 9, 8, 7, 6]"
proof -
  let ?f = "\<lparr>fd = 3, is_write = True, fbuf = [1, 2], buf_size = 512, buf_pos = 0, s_addr = 64, buf_addr = 128\<rparr> :: stream"
  have "is_write ?f" "buf_size ?f = FILE_BUF_SIZE" "length (fbuf ?f) \<le> FILE_BUF_SIZE" "0 < unat (2 :: u64)"
    "unat (2 :: u64) * unat (2 :: u64) < 2 ^ 64" "unat (2 :: u64) * unat (2 :: u64) \<le> length [9, 8, 7, 6 :: u8]" by simp_all
  from fwrite_fclose_transparent [OF this(1-4,4-), of "[]"] obtain f1 io1 where
    "fwrite serial_wr [9, 8, 7, 6] 2 2 ?f [] = Some (unat (2 :: u64), f1, io1)"
    "map snd io1 @ fbuf f1 = map snd ([] :: io_trace) @ fbuf ?f @ take (unat (2 :: u64) * unat (2 :: u64)) [9, 8, 7, 6 :: u8]" by blast
  then show ?thesis by simp
qed

end
