(* ===== verification/Hello.thy ===== *)
theory Hello
  imports Stdio Libc_Calls
begin

text \<open>
  The test program \<open>src/apps/hello/hello.c\<close> with its start-up code \<open>src/libc/src/crt0.c\<close>, on the functions of the C library
  (\<open>Stdio\<close>, \<open>Umalloc\<close>, \<open>KString\<close>). The system calls are arguments, as in \<open>Stdio\<close>. The process has a kernel state behind its
  system calls, the blocks of its heap and its memory. The addresses of string literals and of local arrays are those
  the linker and the compiler choose. A test gives \<^term>\<open>Some status\<close> when the process has exited in it. Access through a null pointer,
  outside an array, and an argument of \<open>printf\<close> of another type than its conversion are undefined, so \<^term>\<open>None\<close>.
\<close>

section \<open>The process\<close>

record 'k syscalls =
  u_write :: "'k \<Rightarrow> int \<Rightarrow> u8 list \<Rightarrow> (int \<times> 'k) option"
  u_read :: "'k \<Rightarrow> int \<Rightarrow> nat \<Rightarrow> (int \<times> u8 list \<times> 'k) option"
  u_open :: "'k \<Rightarrow> string \<Rightarrow> u32 \<Rightarrow> (int \<times> 'k) option"
  u_close :: "'k \<Rightarrow> int \<Rightarrow> (int \<times> 'k) option"
  u_seek :: "'k \<Rightarrow> int \<Rightarrow> int \<Rightarrow> int \<Rightarrow> (int \<times> 'k) option"
  u_getpid :: "'k \<Rightarrow> (u64 \<times> 'k) option"
  u_yield :: "'k \<Rightarrow> 'k option"
  u_fork :: "'k \<Rightarrow> (u64 \<times> 'k) option"
  u_wait :: "'k \<Rightarrow> (int \<times> 'k) option"
  u_sleep :: "u32 \<Rightarrow> 'k \<Rightarrow> 'k option"
  u_usleep :: "u32 \<Rightarrow> 'k \<Rightarrow> 'k option"

record 'k app =
  kern :: 'k
  uheap :: ust
  umem :: mem

record addresses =
  lit :: "string \<Rightarrow> u64"
  v_buf :: u64
  v_dst :: u64

definition printf :: "'k syscalls \<Rightarrow> string \<Rightarrow> va list \<Rightarrow> 'k app \<Rightarrow> 'k app option" where
  "printf S fmt args a = do { (_, k) \<leftarrow> vprintf (u_write S) fmt args (kern a); Some (a\<lparr>kern := k\<rparr>) }"

text \<open>The string a pointer argument of \<open>%s\<close> stands for.\<close>

definition text_at :: "mem \<Rightarrow> u64 \<Rightarrow> string option" where
  "text_at m p = (if p = 0 then None else do { n \<leftarrow> strlen m p; Some (map (\<lambda>i. char_of (unat (m (p + of_nat i)))) [0..<unat n]) })"

definition array_text :: "u8 list \<Rightarrow> string" where
  "array_text bs = map (\<lambda>b. char_of (unat b)) (takeWhile (\<lambda>b. b \<noteq> 0) bs)"

section \<open>Arguments, formats, strings\<close>

definition test_argv :: "'k syscalls \<Rightarrow> int \<Rightarrow> string list \<Rightarrow> 'k app \<Rightarrow> 'k app option" where
  "test_argv S argc argv a =
     do { a1 \<leftarrow> printf S (''argc=%d'' @ newline) [VInt (of_int argc)] a;
          loop_over [0..<nat argc]
            (\<lambda>i a. if i < length argv then printf S (''argv[%d]=%s'' @ newline) [VInt (of_nat i), VStr (Some (argv ! i))] a else None) a1 }"

definition test_printf :: "'k syscalls \<Rightarrow> 'k app \<Rightarrow> 'k app option" where
  "test_printf S a =
     printf S (''int=%d neg=%d, hex=%lx str=%s char=%c pct=%%'' @ newline)
       [VInt 42, VInt (- 7), VLong 0xCAFE, VStr (Some ''world''), VInt (of_char (CHR ''Q''))] a"

definition test_string :: "addresses \<Rightarrow> 'k syscalls \<Rightarrow> 'k app \<Rightarrow> 'k app option" where
  "test_string E S a =
     do { m1 \<leftarrow> strcpy (umem a) (v_buf E) (lit E ''hello'');
          len \<leftarrow> strlen m1 (v_buf E);
          s1 \<leftarrow> text_at m1 (v_buf E);
          cmp_eq \<leftarrow> strcmp m1 (v_buf E) (lit E ''hello'');
          cmp_ne \<leftarrow> strcmp m1 (v_buf E) (lit E ''world'');
          a1 \<leftarrow> printf S (''strlen=%d strcpy=%s cmp_eq=%d cmp_ne=%d'' @ newline)
                  [VInt (ucast len), VStr (Some s1), VInt (of_int cmp_eq), VInt (of_int cmp_ne)] (a\<lparr>umem := m1\<rparr>);
          let m2 = (memset m1 (v_buf E) (of_char (CHR ''x'')) 4)(v_buf E + 4 := 0);
          s2 \<leftarrow> text_at m2 (v_buf E);
          a2 \<leftarrow> printf S (''memset=%s'' @ newline) [VStr (Some s2)] (a1\<lparr>umem := m2\<rparr>);
          let m3 = memcpy m2 (v_dst E) (lit E ''copy!'') 6;
          s3 \<leftarrow> text_at m3 (v_dst E);
          printf S (''memcpy=%s memcmp_eq=%d'' @ newline) [VStr (Some s3), VInt (of_int (memcmp m3 (v_dst E) (lit E ''copy!'') 6))] (a2\<lparr>umem := m3\<rparr>) }"

section \<open>Files\<close>

text \<open>\<open>getpid\<close> returns a \<open>long\<close>. The bytes a read stores are kept as a list; \<open>iobuf[rn] = 0\<close> with a negative \<open>rn\<close> is outside
  the array.\<close>

definition test_fileio :: "'k syscalls \<Rightarrow> 'k app \<Rightarrow> 'k app option" where
  "test_fileio S a =
     do { (me, k0) \<leftarrow> u_getpid S (kern a);
          a1 \<leftarrow> printf S (''pid=%d'' @ newline) [VLong me] (a\<lparr>kern := k0\<rparr>);
          (d, k1) \<leftarrow> u_open S (kern a1) ''/temp/trunc.txt'' O_RDONLY;
          a2 \<leftarrow> printf S (''open(trunc.txt)=%d'' @ newline) [VInt (of_int d)] (a1\<lparr>kern := k1\<rparr>);
          a3 \<leftarrow> (if d \<ge> 0
                 then do { (pos, k2) \<leftarrow> u_seek S (kern a2) d 0 0;
                           a3 \<leftarrow> printf S (''seek=%d'' @ newline) [VInt (of_int pos)] (a2\<lparr>kern := k2\<rparr>);
                           (_, k3) \<leftarrow> u_close S (kern a3) d;
                           Some (a3\<lparr>kern := k3\<rparr>) }
                 else Some a2);
          (wfd, k4) \<leftarrow> u_open S (kern a3) ''/temp/iotest.txt'' (O_WRONLY OR O_CREAT OR O_TRUNC);
          (wn, k5) \<leftarrow> u_write S k4 wfd (bytes_of ''roundtrip'');
          (_, k6) \<leftarrow> u_close S k5 wfd;
          a4 \<leftarrow> printf S (''file write: fd=%d n=%d'' @ newline) [VInt (of_int wfd), VInt (of_int wn)] (a3\<lparr>kern := k6\<rparr>);
          (rfd, k7) \<leftarrow> u_open S (kern a4) ''/temp/iotest.txt'' O_RDONLY;
          (rn, iobuf, k8) \<leftarrow> u_read S k7 rfd 9;
          if rn < 0 \<or> 16 \<le> rn then None
          else do {
            (_, k9) \<leftarrow> u_close S k8 rfd;
            a5 \<leftarrow> printf S (''file read: fd=%d n=%d data=%s'' @ newline)
                    [VInt (of_int rfd), VInt (of_int rn), VStr (Some (array_text (take (nat rn) iobuf)))] (a4\<lparr>kern := k9\<rparr>);
            (bad_fd, k10) \<leftarrow> u_open S (kern a5) ''/temp/does_not_exist.txt'' O_RDONLY;
            printf S (''open(missing)=%d'' @ newline) [VInt (of_int bad_fd)] (a5\<lparr>kern := k10\<rparr>) } }"

section \<open>Buffered files\<close>

text \<open>A literal written with \<open>fwrite\<close>, and the loop that reads a stream in pieces of 100 bytes into an array of \<open>cap\<close> bytes.\<close>

definition fwrite_lit :: "'k syscalls \<Rightarrow> string \<Rightarrow> stream \<times> 'k \<Rightarrow> (stream \<times> 'k) option" where
  "fwrite_lit S s = (\<lambda>(f, k). do { (_, f1, k1) \<leftarrow> fwrite (u_write S) (bytes_of s) 1 (of_nat (length s)) f k; Some (f1, k1) })"

partial_function (option) read_all ::
  "('k \<Rightarrow> int \<Rightarrow> nat \<Rightarrow> (int \<times> u8 list \<times> 'k) option) \<Rightarrow> nat \<Rightarrow> u8 list \<Rightarrow> stream \<Rightarrow> 'k \<Rightarrow> (u8 list \<times> stream \<times> 'k) option" where
  "read_all rd cap acc f k =
     do { (got, bs, f1, k1) \<leftarrow> fread rd 1 100 f k;
          if got > 0 then if length acc + length bs > cap then None else read_all rd cap (acc @ bs) f1 k1
          else Some (acc, f1, k1) }"

definition read_back :: "'k syscalls \<Rightarrow> nat \<Rightarrow> 'k app \<Rightarrow> (u8 list \<times> 'k app) option" where
  "read_back S cap a =
     do { (rf, k1, u1) \<leftarrow> fopen (u_open S) (u_close S) ''/temp/stdio_test.txt'' ''r'' (kern a) (uheap a);
          f \<leftarrow> rf;
          (buf, f1, k2) \<leftarrow> read_all (u_read S) cap [] f k1;
          if length buf \<ge> cap then None
          else do {
            (_, k3, u2) \<leftarrow> fclose (u_write S) (u_close S) f1 k2 u1;
            if length buf < 5 then None else Some (buf, a\<lparr>kern := k3, uheap := u2\<rparr>) } }"

definition char_args :: "u8 list \<Rightarrow> va list" where
  "char_args bs = map (\<lambda>b. VInt (scast b)) bs"

definition test_stdio :: "'k syscalls \<Rightarrow> 'k app \<Rightarrow> 'k app option" where
  "test_stdio S a =
     do { (wf, k1, u1) \<leftarrow> fopen (u_open S) (u_close S) ''/temp/stdio_test.txt'' ''w'' (kern a) (uheap a);
          a1 \<leftarrow> printf S (''fopen(w) ok=%d'' @ newline) [VInt (if wf \<noteq> None then 1 else 0)] (a\<lparr>kern := k1, uheap := u1\<rparr>);
          f \<leftarrow> wf;
          fk1 \<leftarrow> fwrite_lit S ''HEAD-'' (f, kern a1);
          fk2 \<leftarrow> loop_over [0..<60] (\<lambda>_. fwrite_lit S ''AAAAAAAAAA'') fk1;
          (f3, k3) \<leftarrow> fwrite_lit S ''-TAIL'' fk2;
          (_, k4, u2) \<leftarrow> fclose (u_write S) (u_close S) f3 k3 (uheap a1);
          (buf, a2) \<leftarrow> read_back S 700 (a1\<lparr>kern := k4, uheap := u2\<rparr>);
          a3 \<leftarrow> printf S (''stdio len=%d head=%c%c%c%c%c tail=%c%c%c%c%c'' @ newline)
                  (VInt (of_nat (length buf)) # char_args (take 5 buf) @ char_args (drop (length buf - 5) buf)) a2;
          (af, k5, u3) \<leftarrow> fopen (u_open S) (u_close S) ''/temp/stdio_test.txt'' ''a'' (kern a3) (uheap a3);
          g \<leftarrow> af;
          (g1, k6) \<leftarrow> fwrite_lit S ''+MORE'' (g, k5);
          (_, k7, u4) \<leftarrow> fclose (u_write S) (u_close S) g1 k6 u3;
          (more_buf, a4) \<leftarrow> read_back S 720 (a3\<lparr>kern := k7, uheap := u4\<rparr>);
          printf S (''append len=%d tail=%c%c%c%c%c'' @ newline)
            (VInt (of_nat (length more_buf)) # char_args (drop (length more_buf - 5) more_buf)) a4 }"

section \<open>The heap\<close>

definition alloc :: "u64 \<Rightarrow> 'k app \<Rightarrow> (u64 \<times> 'k app) option" where
  "alloc n a = do { (p, u) \<leftarrow> malloc n (uheap a); Some (p, a\<lparr>uheap := u\<rparr>) }"

definition release_block :: "u64 \<Rightarrow> 'k app \<Rightarrow> 'k app" where
  "release_block p a = a\<lparr>uheap := free p (uheap a)\<rparr>"

definition copy_lit :: "addresses \<Rightarrow> u64 \<Rightarrow> string \<Rightarrow> 'k app \<Rightarrow> 'k app option" where
  "copy_lit E p s a = (if p = 0 then None else do { m \<leftarrow> strcpy (umem a) p (lit E s); Some (a\<lparr>umem := m\<rparr>) })"

text \<open>The loop over the big block and its terminator.\<close>

definition fill_big :: "u64 \<Rightarrow> mem \<Rightarrow> mem" where
  "fill_big big m = (fold (\<lambda>i m. m(big + of_nat i := of_char (CHR ''z''))) [0..<9000] m)(big + 8999 := 0)"

definition test_malloc :: "addresses \<Rightarrow> 'k syscalls \<Rightarrow> 'k app \<Rightarrow> 'k app option" where
  "test_malloc E S a0 =
     do { (a, s1) \<leftarrow> alloc 32 a0;
          s2 \<leftarrow> copy_lit E a ''malloc works'' s1;
          ta \<leftarrow> text_at (umem s2) a;
          s3 \<leftarrow> printf S (''malloc a=%s'' @ newline) [VStr (Some ta)] s2;
          (b, s4) \<leftarrow> alloc 32 s3;
          s5 \<leftarrow> copy_lit E b ''second block'' s4;
          tb \<leftarrow> text_at (umem s5) b;
          still \<leftarrow> text_at (umem s5) a;
          s6 \<leftarrow> printf S (''malloc b=%s a_still=%s'' @ newline) [VStr (Some tb), VStr (Some still)] s5;
          (c, s7) \<leftarrow> alloc 32 (release_block a s6);
          s8 \<leftarrow> printf S (''reuse: c==a? %d'' @ newline) [VInt (if c = a then 1 else 0)] s7;
          s9 \<leftarrow> copy_lit E c ''reused block'' s8;
          tc \<leftarrow> text_at (umem s9) c;
          s10 \<leftarrow> printf S (''malloc c=%s'' @ newline) [VStr (Some tc)] s9;
          (big, s11) \<leftarrow> alloc 9000 s10;
          if big = 0 then None
          else do {
            let m = fill_big big (umem s11);
            len \<leftarrow> strlen m big;
            s12 \<leftarrow> printf S (''big len=%d first=%c last=%c'' @ newline)
                     [VInt (ucast len), VInt (scast (m big)), VInt (scast (m (big + 8998)))] (s11\<lparr>umem := m\<rparr>);
            (merged, s13) \<leftarrow> alloc 64 (release_block big (release_block c (release_block b s12)));
            s14 \<leftarrow> copy_lit E merged ''coalesced ok'' s13;
            tm \<leftarrow> text_at (umem s14) merged;
            s15 \<leftarrow> printf S (''coalesed=%s'' @ newline) [VStr (Some tm)] s14;
            Some (release_block merged s15) } }"

section \<open>Processes and time\<close>

definition test_proc :: "'k syscalls \<Rightarrow> 'k app \<Rightarrow> (int option \<times> 'k app) option" where
  "test_proc S a =
     do { k1 \<leftarrow> u_yield S (kern a);
          a1 \<leftarrow> printf S (''yield OK!'' @ newline) [] (a\<lparr>kern := k1\<rparr>);
          (child, k2) \<leftarrow> u_fork S (kern a1);
          (me, k3) \<leftarrow> u_getpid S k2;
          if child = 0
          then do { a2 \<leftarrow> printf S (''child pid=%d'' @ newline) [VLong me] (a1\<lparr>kern := k3\<rparr>); Some (Some 42, a2) }
          else do { a2 \<leftarrow> printf S (''parent pid=%d child=%d'' @ newline) [VLong me, VInt (ucast child)] (a1\<lparr>kern := k3\<rparr>);
                    (status, k4) \<leftarrow> u_wait S (kern a2);
                    a3 \<leftarrow> printf S (''wait returned=%d'' @ newline) [VInt (of_int status)] (a2\<lparr>kern := k4\<rparr>);
                    Some (None, a3) } }"

definition test_sleep :: "'k syscalls \<Rightarrow> 'k app \<Rightarrow> 'k app option" where
  "test_sleep S a =
     do { (me, k1) \<leftarrow> u_getpid S (kern a);
          a1 \<leftarrow> printf S (''pid=%d sleeping 1 second...'' @ newline) [VLong me] (a\<lparr>kern := k1\<rparr>);
          k2 \<leftarrow> u_sleep S 1 (kern a1);
          a2 \<leftarrow> printf S (''awake after sleep(1)'' @ newline) [] (a1\<lparr>kern := k2\<rparr>);
          a3 \<leftarrow> printf S (''sleeping 200ms via usleep...'' @ newline) [] a2;
          k3 \<leftarrow> u_usleep S 200000 (kern a3);
          printf S (''awake after usleep(200000)'' @ newline) [] (a3\<lparr>kern := k3\<rparr>) }"

section \<open>The program\<close>

type_synonym 'k test = "string \<times> (int \<Rightarrow> string list \<Rightarrow> 'k app \<Rightarrow> (int option \<times> 'k app) option) \<times> bool"

definition returns :: "'k app option \<Rightarrow> (int option \<times> 'k app) option" where
  "returns r = map_option (Pair None) r"

definition tests :: "addresses \<Rightarrow> 'k syscalls \<Rightarrow> 'k test list" where
  "tests E S =
     [(''argv'', \<lambda>argc argv a. returns (test_argv S argc argv a), True),
      (''printf'', \<lambda>argc argv a. returns (test_printf S a), True),
      (''string'', \<lambda>argc argv a. returns (test_string E S a), True),
      (''fileio'', \<lambda>argc argv a. returns (test_fileio S a), True),
      (''stdio'', \<lambda>argc argv a. returns (test_stdio S a), True),
      (''malloc'', \<lambda>argc argv a. returns (test_malloc E S a), True),
      (''proc'', \<lambda>argc argv a. test_proc S a, True),
      (''sleep'', \<lambda>argc argv a. returns (test_sleep S a), False)]"

definition run_test :: "'k syscalls \<Rightarrow> 'k test \<Rightarrow> int \<Rightarrow> string list \<Rightarrow> 'k app \<Rightarrow> (int option \<times> 'k app) option" where
  "run_test S t argc argv a = do { a1 \<leftarrow> printf S (''--- %s ---'' @ newline) [VStr (Some (fst t))] a; fst (snd t) argc argv a1 }"

fun run_all :: "'k syscalls \<Rightarrow> 'k test list \<Rightarrow> int \<Rightarrow> string list \<Rightarrow> 'k app \<Rightarrow> (int option \<times> 'k app) option" where
  "run_all S [] argc argv a = Some (None, a)"
| "run_all S (t # ts) argc argv a =
     (if snd (snd t)
      then do { (e, a1) \<leftarrow> run_test S t argc argv a;
                if e = None then run_all S ts argc argv a1 else Some (e, a1) }
      else run_all S ts argc argv a)"

definition unknown_test :: "'k syscalls \<Rightarrow> 'k test list \<Rightarrow> string \<Rightarrow> 'k app \<Rightarrow> 'k app option" where
  "unknown_test S ts which a =
     do { a1 \<leftarrow> printf S (''unknown test '' @ [CHR 0x27] @ ''%s'' @ [CHR 0x27] @ ''. available:'') [VStr (Some which)] a;
          a2 \<leftarrow> loop_over [0..<length ts] (\<lambda>i. printf S '' %s'' [VStr (Some (fst (ts ! i)))]) a1;
          printf S ('' all'' @ newline) [] a2 }"

definition main :: "addresses \<Rightarrow> 'k syscalls \<Rightarrow> int \<Rightarrow> string list \<Rightarrow> 'k app \<Rightarrow> (int option \<times> 'k app) option" where
  "main E S argc argv a =
     do { a1 \<leftarrow> printf S (''=== acornlib test ==='' @ newline) [] a;
          which \<leftarrow> (if argc > 1 then if 1 < length argv then Some (argv ! 1) else None else Some ''all'');
          (e, a2) \<leftarrow>
            (if which = ''all'' then run_all S (tests E S) argc argv a1
             else case List.find (\<lambda>t. fst t = which) (tests E S) of
                    Some t \<Rightarrow> run_test S t argc argv a1
                  | None \<Rightarrow> returns (unknown_test S (tests E S) which a1));
          if e = None then returns (printf S (''=== done ==='' @ newline) [] a2) else Some (e, a2) }"

text \<open>\<open>_start\<close>: the status the process exits with and the state it leaves.\<close>

definition start :: "addresses \<Rightarrow> 'k syscalls \<Rightarrow> int \<Rightarrow> string list \<Rightarrow> 'k app \<Rightarrow> (int \<times> 'k app) option" where
  "start E S argc argv a = do { (e, a1) \<leftarrow> main E S argc argv a; Some (case e of None \<Rightarrow> 0 | Some status \<Rightarrow> status, a1) }"

section \<open>Blocks of the heap\<close>

lemma heap_nonzero: "0 < unat b \<Longrightarrow> unat b + 20000 < 2 ^ 64 \<Longrightarrow> n < 20000 \<Longrightarrow> (b :: u64) + of_nat n \<noteq> 0"
  by (simp add: word_unat_eq_iff unat_word_ariths unat_of_nat)

lemma heap_run:
  assumes u: "heap_head u = 0" "heap_break u = b" and b: "0 < unat b" "unat b + 20000 < 2 ^ 64"
  shows "\<exists>u1 u2 u3 u4 u5. malloc 32 u = Some (b + 24, u1) \<and> malloc 32 u1 = Some (b + 80, u2) \<and> malloc 32 (free (b + 24) u2) = Some (b + 24, u3) \<and>
    malloc 9000 u3 = Some (b + 4120, u4) \<and> malloc 64 (free (b + 4120) (free (b + 24) (free (b + 80) u4))) = Some (b + 24, u5)"
proof -
  note nz = heap_nonzero [OF b]
  have z: "b \<noteq> 0" "b + 24 \<noteq> 0" "b + 80 \<noteq> 0" "b + 56 \<noteq> 0" "b + 112 \<noteq> 0" "b + 4096 \<noteq> 0" "b + 4120 \<noteq> 0"
    using nz [of 0] nz [of 24] nz [of 80] nz [of 56] nz [of 112] nz [of 4096] nz [of 4120] by simp_all
  have n: "b \<noteq> - 1" "b + 4096 \<noteq> - 1" using nz [of 1] nz [of 4097] by (auto simp: eq_neg_iff_add_eq_0 add.assoc)
  have r: "round8 32 = 32" "round8 9000 = 9000" "round8 64 = 64" by (simp_all add: round8_def)
  note d = malloc_def first_fit.simps heap_grow_def split_block_def upd_block_def free_def Let_def add.assoc
  define u1 where "u1 = u\<lparr>heap_head := b, heap_break := b + 4096,
    ublocks := (ublocks u)(b + 56 := \<lparr>ub_size = 4048, ub_next = 0, ub_free = True\<rparr>, b := \<lparr>ub_size = 32, ub_next = b + 56, ub_free = False\<rparr>)\<rparr>"
  have 1: "malloc 32 u = Some (b + 24, u1)" using malloc_first [OF u n(1), of 32] r by (simp add: u1_def add.commute [of 56])
  define u2 where "u2 = u1\<lparr>ublocks := (ublocks u)(b + 112 := \<lparr>ub_size = 4024, ub_next = 0, ub_free = True\<rparr>,
     b + 56 := \<lparr>ub_size = 32, ub_next = b + 112, ub_free = False\<rparr>, b := \<lparr>ub_size = 32, ub_next = b + 56, ub_free = False\<rparr>)\<rparr>"
  have 2: "malloc 32 u1 = Some (b + 80, u2)" using z r by (simp add: d u1_def u2_def fun_upd_twist)
  have 3: "malloc 32 (free (b + 24) u2) = Some (b + 24, u2)" using z r by (simp add: d u2_def u1_def fun_upd_twist)
  define u4 where "u4 = u2\<lparr>heap_break := b + 13120, ublocks := (ublocks u2)(b + 4096 := \<lparr>ub_size = 9000, ub_next = 0, ub_free = False\<rparr>,
     b + 112 := \<lparr>ub_size = 4024, ub_next = b + 4096, ub_free = True\<rparr>)\<rparr>"
  have 4: "malloc 9000 u2 = Some (b + 4120, u4)" using z r n by (simp add: d u4_def u2_def u1_def fun_upd_twist)
  have "\<exists>u5. malloc 64 (free (b + 4120) (free (b + 24) (free (b + 80) u4))) = Some (b + 24, u5)"
    using z r by (simp add: d u4_def u2_def u1_def)
  then show ?thesis using 1 2 3 4 by blast
qed


section \<open>Strings in heap blocks\<close>

lemma text_at_cstr: "cstr m p s \<Longrightarrow> p \<noteq> 0 \<Longrightarrow> length s < 2 ^ 63 \<Longrightarrow> text_at m p = Some s"
proof -
  assume a: "cstr m p s" "p \<noteq> 0" "length s < 2 ^ 63"
  have "(of_char c :: u8) = of_nat (of_char c)" for c by (simp add: of_char_def)
  then have "unat (of_char c :: u8) = of_char c" for c using nat_of_char_less_256 [of c] by (simp only: unat_of_nat) simp
  then have "char_of (unat (of_char c :: u8)) = c" for c by simp
  then have "map (\<lambda>i. char_of (unat (m (p + of_nat i)))) [0..<length s] = s"
    using cstr_nth [OF a(1)] by (intro nth_equalityI) simp_all
  then show ?thesis using a by (simp add: text_at_def strlen_cstr [OF a(1)] unat_of_nat_u64)
qed

text \<open>The first 20000 bytes from the start of the heap on hold no literal.\<close>

definition literals :: "addresses \<Rightarrow> u64 \<Rightarrow> string list \<Rightarrow> mem \<Rightarrow> bool" where
  "literals E b ss m \<longleftrightarrow> (\<forall>s \<in> set ss. cstr m (lit E s) s \<and> length s < 100 \<and> (\<forall>i \<le> length s. \<forall>n < 20000. lit E s + of_nat i \<noteq> b + of_nat n))"

lemma literals_keep: "literals E b ss m \<Longrightarrow> (\<And>a. (\<forall>n < 20000. a \<noteq> b + of_nat n) \<Longrightarrow> m' a = m a) \<Longrightarrow> literals E b ss m'"
  unfolding literals_def by (metis cstr_cong)

lemma same_offset: "n < 20000 \<Longrightarrow> k < 20000 \<Longrightarrow> (b :: u64) + of_nat n = b + of_nat k \<longleftrightarrow> n = k"
  using of_nat_u64_eq_iff [of n k] by simp

lemma copy_to_block:
  assumes l: "literals E b ss m" and s: "s \<in> set ss" and k: "k + 100 < 20000" and b: "0 < unat b" "unat b + 20000 < 2 ^ 64"
  shows "\<exists>m'. strcpy m (b + of_nat k) (lit E s) = Some m' \<and> literals E b ss m' \<and> cstr m' (b + of_nat k) s \<and> text_at m' (b + of_nat k) = Some s \<and>
    (\<forall>n < 20000. n < k \<or> k + 100 \<le> n \<longrightarrow> m' (b + of_nat n) = m (b + of_nat n))"
proof -
  have c: "cstr m (lit E s) s" "length s < 100" "\<And>i n. i \<le> length s \<Longrightarrow> n < 20000 \<Longrightarrow> lit E s + of_nat i \<noteq> b + of_nat n"
    using l s by (auto simp: literals_def)
  have at: "b + of_nat k + of_nat j = b + of_nat (k + j)" for j by (simp add: add.assoc)
  have "lit E s + of_nat i \<noteq> b + of_nat k + of_nat j" if "i \<le> length s" "j \<le> length s" for i j
    unfolding at using c(2) c(3) [of i "k + j"] k that by (simp del: of_nat_add)
  from strcpy_cstr [OF c(1) this] c(2) obtain m' where m: "strcpy m (b + of_nat k) (lit E s) = Some m'" "cstr m' (b + of_nat k) s"
    "\<And>x. (\<forall>j \<le> length s. x \<noteq> b + of_nat k + of_nat j) \<Longrightarrow> m' x = m x" by auto
  have nz: "b + of_nat k \<noteq> 0" using heap_nonzero [OF b, of k] k by simp
  have "literals E b ss m'"
  proof (rule literals_keep [OF l m(3)], intro allI impI)
    show "x \<noteq> b + of_nat k + of_nat j" if "\<forall>n < 20000. x \<noteq> b + of_nat n" "j \<le> length s" for x j
      unfolding at using that(1) [rule_format, of "k + j"] that(2) c(2) k by (simp del: of_nat_add)
  qed
  moreover have "m' (b + of_nat n) = m (b + of_nat n)" if "n < 20000" "n < k \<or> k + 100 \<le> n" for n
  proof (rule m(3), intro allI impI)
    show "b + of_nat n \<noteq> b + of_nat k + of_nat j" if "j \<le> length s" for j
      unfolding at using same_offset [of n "k + j" b] that \<open>n < 20000\<close> \<open>n < k \<or> k + 100 \<le> n\<close> c(2) k by (auto simp del: of_nat_add)
  qed
  ultimately show ?thesis using m(1,2) nz c(2) text_at_cstr [OF m(2) nz] by (intro exI [of _ m']) simp
qed

lemma fill_bytes: "fold (\<lambda>i m. m(p + of_nat i := v)) [0..<n] m a = (if \<exists>i < n. a = p + of_nat i then v else m a)"
  by (induction n) (auto simp: less_Suc_eq)

section \<open>Text on the console\<close>

text \<open>What a program needs of its standard output: the descriptor takes every text the library's buffer can hold.\<close>

locale console =
  fixes S :: "'k syscalls"
    and emit :: "u8 list \<Rightarrow> 'k \<Rightarrow> 'k"
    and ok :: "'k \<Rightarrow> bool"
  assumes write_out: "ok k \<Longrightarrow> length bs \<le> 1023 \<Longrightarrow> \<exists>n. u_write S k 1 bs = Some (n, emit bs k)"
    and emit_ok: "ok k \<Longrightarrow> ok (emit bs k)"
    and emit_emit: "emit ys (emit xs k) = emit (xs @ ys) k"
begin

lemma printf_out:
  assumes "ok (kern a)" "vprintf_loop fmt args [] = Some out"
  shows "printf S fmt args a = Some (a\<lparr>kern := emit (bytes_of out) (kern a)\<rparr>)"
proof -
  have "length (bytes_of out) \<le> 1023" using vprintf_loop_bounded [OF assms(2)] by (simp add: bytes_of_def)
  from write_out [OF assms(1) this] show ?thesis using assms(2) by (auto simp: printf_def vprintf_def)
qed

end

section \<open>The test of the heap\<close>

definition banner :: "string \<Rightarrow> string" where
  "banner which = ''=== acornlib test ==='' @ newline @ ''--- '' @ which @ '' ---'' @ newline"

definition malloc_literals :: "string list" where
  "malloc_literals = [''malloc works'', ''second block'', ''reused block'', ''coalesced ok'']"

definition malloc_text :: string where
  "malloc_text = ''malloc a=malloc works'' @ newline @ ''malloc b=second block a_still=malloc works'' @ newline @ ''reuse: c==a? 1'' @ newline @
     ''malloc c=reused block'' @ newline @ ''big len=8999 first=z last=z'' @ newline @ ''coalesed=coalesced ok'' @ newline"

lemmas formats = vprintf_loop.simps long_prefix_def conversion_def format_int_def format_uint_def digits_from.simps

lemma char_z: "char_of (122 :: nat) = CHR ''z''"
  by code_simp

lemma malloc_lines:
  "vprintf_loop (''malloc a=%s'' @ newline) [VStr (Some ''malloc works'')] [] = Some (''malloc a=malloc works'' @ newline)"
  "vprintf_loop (''malloc b=%s a_still=%s'' @ newline) [VStr (Some ''second block''), VStr (Some ''malloc works'')] [] =
     Some (''malloc b=second block a_still=malloc works'' @ newline)"
  "vprintf_loop (''reuse: c==a? %d'' @ newline) [VInt 1] [] = Some (''reuse: c==a? 1'' @ newline)"
  "vprintf_loop (''malloc c=%s'' @ newline) [VStr (Some ''reused block'')] [] = Some (''malloc c=reused block'' @ newline)"
  "vprintf_loop (''big len=%d first=%c last=%c'' @ newline) [VInt 8999, VInt 122, VInt 122] [] = Some (''big len=8999 first=z last=z'' @ newline)"
  "vprintf_loop (''coalesed=%s'' @ newline) [VStr (Some ''coalesced ok'')] [] = Some (''coalesed=coalesced ok'' @ newline)"
  by (simp_all add: formats char_z)

text \<open>The big block after the loop.\<close>

lemma big_block:
  assumes l: "literals E b ss m" and m: "m' = fill_big (b + 4120) m"
  shows "strlen m' (b + 4120) = Some 8999" "m' (b + 4120) = 122" "m' (b + 4120 + 8998) = 122" "literals E b ss m'"
proof -
  note m' = m [unfolded fill_big_def]
  have at: "b + 4120 + of_nat i = b + of_nat (4120 + i)" for i by (simp add: add.assoc)
  have z: "(of_char (CHR ''z'') :: u8) = 122" by code_simp
  have v: "m' (b + 4120 + of_nat i) = (if i = 8999 then 0 else 122)" if "i < 9000" for i
  proof -
    have "b + 4120 + of_nat i = b + 4120 + 8999 \<longleftrightarrow> i = 8999"
      using same_offset [of "4120 + i" "4120 + 8999" b] that unfolding at by (simp add: add.assoc)
    then show ?thesis unfolding m' fun_upd_apply fill_bytes z using that by auto
  qed
  have "cstr m' (b + 4120) (replicate 8999 (CHR ''z''))"
    using v v [of 8999] by (intro cstr_intro) (simp_all add: z del: replicate_Suc)
  from strlen_cstr [OF this] show "strlen m' (b + 4120) = Some 8999" by simp
  show "m' (b + 4120) = 122" "m' (b + 4120 + 8998) = 122" using v [of 0] v [of 8998] by simp_all
  show "literals E b ss m'"
  proof (rule literals_keep [OF l])
    fix a assume a: "\<forall>n < 20000. a \<noteq> b + of_nat n"
    have "a \<noteq> b + 4120 + of_nat i" if "i < 9000" for i unfolding at using a that by (simp del: of_nat_add)
    from this this [of 8999] show "m' a = m a" unfolding m' fun_upd_apply fill_bytes by auto
  qed
qed

context console
begin

lemma test_malloc_out:
  assumes k: "ok k" and u: "heap_head u = 0" "heap_break u = b" and b: "0 < unat b" "unat b + 20000 < 2 ^ 64" and l: "literals E b malloc_literals m"
  shows "\<exists>u' m'. test_malloc E S \<lparr>kern = k, uheap = u, umem = m\<rparr> = Some \<lparr>kern = emit (bytes_of malloc_text) k, uheap = u', umem = m'\<rparr>"
proof -
  obtain u1 u2 u3 u4 u5 where h: "malloc 32 u = Some (b + 24, u1)" "malloc 32 u1 = Some (b + 80, u2)" "malloc 32 (free (b + 24) u2) = Some (b + 24, u3)"
    "malloc 9000 u3 = Some (b + 4120, u4)" "malloc 64 (free (b + 4120) (free (b + 24) (free (b + 80) u4))) = Some (b + 24, u5)"
    using heap_run [OF u b] by blast
  note copy = copy_to_block [OF _ _ _ b, where ss = malloc_literals and E = E]
  have lits: "''malloc works'' \<in> set malloc_literals" "''second block'' \<in> set malloc_literals" "''reused block'' \<in> set malloc_literals" "''coalesced ok'' \<in> set malloc_literals"
    by (simp_all add: malloc_literals_def)
  have nz: "b + 24 \<noteq> 0" "b + 80 \<noteq> 0" "b + 4120 \<noteq> 0" using heap_nonzero [OF b, of 24] heap_nonzero [OF b, of 80] heap_nonzero [OF b, of 4120] by simp_all
  obtain m1 where m1: "strcpy m (b + 24) (lit E ''malloc works'') = Some m1" "literals E b malloc_literals m1" "cstr m1 (b + 24) ''malloc works''"
      "text_at m1 (b + 24) = Some ''malloc works''"
    using copy [OF l lits(1), of 24] by auto
  obtain m2 where m2: "strcpy m1 (b + 80) (lit E ''second block'') = Some m2" "literals E b malloc_literals m2" "text_at m2 (b + 80) = Some ''second block''"
      "\<And>n. n < 80 \<Longrightarrow> m2 (b + of_nat n) = m1 (b + of_nat n)"
    using copy [OF m1(2) lits(2), of 80] by auto
  have "cstr m2 (b + 24) ''malloc works''"
  proof (rule cstr_cong [OF m1(3)])
    show "m2 (b + 24 + of_nat i) = m1 (b + 24 + of_nat i)" if "i \<le> length ''malloc works''" for i
      using m2(4) [of "24 + i"] that by (simp add: add.assoc)
  qed
  then have still: "text_at m2 (b + 24) = Some ''malloc works''" using nz(1) by (rule text_at_cstr) simp
  obtain m3 where m3: "strcpy m2 (b + 24) (lit E ''reused block'') = Some m3" "literals E b malloc_literals m3" "text_at m3 (b + 24) = Some ''reused block''"
    using copy [OF m2(2) lits(3), of 24] by auto
  define m4 where "m4 = fill_big (b + 4120) m3"
  note big = big_block [OF m3(2) m4_def]
  obtain m5 where m5: "strcpy m4 (b + 24) (lit E ''coalesced ok'') = Some m5" "text_at m5 (b + 24) = Some ''coalesced ok''"
    using copy [OF big(4) lits(4), of 24] by auto
  have c: "(scast (122 :: u8) :: u32) = 122" "(ucast (8999 :: u64) :: u32) = 8999" by simp_all
  show ?thesis
    using nz k by (simp add: test_malloc_def alloc_def copy_lit_def release_block_def h m1 m2 still m3 big(1,2) big(3) [simplified] m5 m4_def [symmetric] malloc_lines c printf_out emit_ok emit_emit
      malloc_text_def bytes_of_append Let_def del: append.append_Cons append.append_Nil)
qed

lemma start_test:
  assumes k: "ok k" and t: "List.find (\<lambda>t. fst t = which) (tests E S) = Some (which, f, all)" "which \<noteq> ''all''"
    and h: "vprintf_loop (''--- %s ---'' @ newline) [VStr (Some which)] [] = Some (''--- '' @ which @ '' ---'' @ newline)"
    and r: "f 2 [prog, which] \<lparr>kern = emit (bytes_of (banner which)) k, uheap = u, umem = m\<rparr> =
      Some (None, \<lparr>kern = emit (bytes_of out) (emit (bytes_of (banner which)) k), uheap = u', umem = m'\<rparr>)"
  shows "start E S 2 [prog, which] \<lparr>kern = k, uheap = u, umem = m\<rparr> =
    Some (0, \<lparr>kern = emit (bytes_of (banner which @ out @ ''=== done ==='' @ newline)) k, uheap = u', umem = m'\<rparr>)"
proof -
  have l: "vprintf_loop (''=== acornlib test ==='' @ newline) [] [] = Some (''=== acornlib test ==='' @ newline)"
    "vprintf_loop (''=== done ==='' @ newline) [] [] = Some (''=== done ==='' @ newline)" by (simp_all add: formats)
  show ?thesis
    using t k r by (simp add: start_def main_def run_test_def returns_def printf_out emit_ok emit_emit l h bytes_of_append banner_def
      del: append.append_Cons append.append_Nil)
qed

lemma start_malloc:
  assumes k: "ok k" and u: "heap_head u = 0" "heap_break u = b" and b: "0 < unat b" "unat b + 20000 < 2 ^ 64" and l: "literals E b malloc_literals m"
  shows "\<exists>u' m'. start E S 2 [prog, ''malloc''] \<lparr>kern = k, uheap = u, umem = m\<rparr> =
    Some (0, \<lparr>kern = emit (bytes_of (banner ''malloc'' @ malloc_text @ ''=== done ==='' @ newline)) k, uheap = u', umem = m'\<rparr>)"
proof -
  have h: "vprintf_loop (''--- %s ---'' @ newline) [VStr (Some ''malloc'')] [] = Some (''--- '' @ ''malloc'' @ '' ---'' @ newline)" by (simp add: formats)
  have t: "List.find (\<lambda>t. fst t = ''malloc'') (tests E S) = Some (''malloc'', \<lambda>argc argv a. returns (test_malloc E S a), True)" by (simp add: tests_def)
  from test_malloc_out [OF emit_ok [OF k] u b l] obtain u' m' where
    "test_malloc E S \<lparr>kern = emit (bytes_of (banner ''malloc'')) k, uheap = u, umem = m\<rparr> =
      Some \<lparr>kern = emit (bytes_of malloc_text) (emit (bytes_of (banner ''malloc'')) k), uheap = u', umem = m'\<rparr>" by blast
  then have r: "returns (test_malloc E S \<lparr>kern = emit (bytes_of (banner ''malloc'')) k, uheap = u, umem = m\<rparr>) =
      Some (None, \<lparr>kern = emit (bytes_of malloc_text) (emit (bytes_of (banner ''malloc'')) k), uheap = u', umem = m'\<rparr>)"
    by (simp only: returns_def option.map)
  from start_test [OF k t _ h r, of prog] show ?thesis by auto
qed

end

section \<open>The program on the kernel\<close>

text \<open>The file calls of the library are the operations of the VFS; the calls that switch processes are left open.\<close>

definition kernel_calls :: "'a dst_scheme syscalls \<Rightarrow> 'a dst_scheme syscalls" where
  "kernel_calls T = T\<lparr>
     u_write := \<lambda>w d bs. vfs_write fs_table w d (Some bs) (of_nat (length bs)),
     u_read := \<lambda>w d n. vfs_read fs_table w d True (of_nat n),
     u_open := \<lambda>w path flags. vfs_open fs_table w path flags,
     u_close := \<lambda>w d. vfs_close fs_table w d,
     u_seek := \<lambda>w d offset whence. vfs_seek w d (of_int offset) whence\<rparr>"

text \<open>Descriptor 1 is open for writing on the display, as the kernel sets it up.\<close>

definition stdout_display :: "'a dst_scheme \<Rightarrow> bool" where
  "stdout_display w \<longleftrightarrow> (\<exists>fl ino d. vfs_get_file w 1 \<noteq> 0 \<and> files w (vfs_get_file w 1) = Some fl \<and> f_flags fl \<noteq> O_RDONLY \<and> f_inode fl \<noteq> 0 \<and>
     inodes w (f_inode fl) = Some ino \<and> i_ops ino = Some DEVFS \<and> device_of w (vfs_get_file w 1) = Some (Some d) \<and> dev_write d = Some W_DISPLAY)"

definition on_display :: "u8 list \<Rightarrow> 'a dst_scheme \<Rightarrow> 'a dst_scheme" where
  "on_display bs w = w\<lparr>screen := fold vga_putchar bs (screen w)\<rparr>"

lemma on_display_frame:
  "vfs_get_file (on_display bs w) d = vfs_get_file w d" "files (on_display bs w) = files w" "inodes (on_display bs w) = inodes w"
  "devinodes (on_display bs w) = devinodes w" "device_table (on_display bs w) = device_table w"
  by (simp_all add: fun_eq_iff on_display_def vfs_get_file_def files_def inodes_def devinodes_def)

lemma on_display_device: "device_of (on_display bs w) f = device_of w f"
  unfolding device_of_def on_display_frame ..

interpretation display: console "kernel_calls T" on_display stdout_display for T :: "'a dst_scheme syscalls"
proof unfold_locales
  show "\<exists>n. u_write (kernel_calls T) k 1 bs = Some (n, on_display bs k)" if "stdout_display k" "length bs \<le> 1023" for k bs
    using that by (auto simp: stdout_display_def kernel_calls_def on_display_def vfs_write_def file_op_def inode_op_def devfs_write_def
      dev_display_write_def Let_def unat_of_nat)
  show "stdout_display (on_display bs k)" if "stdout_display k" for k bs
    using that unfolding stdout_display_def on_display_frame on_display_device .
  show "on_display ys (on_display xs k) = on_display (xs @ ys) k" for xs ys k by (simp add: on_display_def)
qed

lemma pid_mismatch:
  "printf S (''pid=%d'' @ newline) [VLong x] a = None" "printf S (''pid=%d sleeping 1 second...'' @ newline) [VLong x] a = None"
  "printf S (''child pid=%d'' @ newline) [VLong x] a = None" "printf S (''parent pid=%d child=%d'' @ newline) [VLong x, y] a = None"
  by (simp_all add: printf_def vprintf_def formats)

lemma pid_tests: "test_fileio S a = None" "test_proc S a = None" "test_sleep S a = None"
  unfolding test_fileio_def test_proc_def test_sleep_def pid_mismatch
  by (simp_all add: Option.bind_eq_None_conv split: prod.split)

section \<open>The test of the string functions\<close>

definition string_literals :: "string list" where
  "string_literals = [''hello'', ''world'', ''copy!'']"

definition string_text :: string where
  "string_text = ''strlen=5 strcpy=hello cmp_eq=0 cmp_ne=-15'' @ newline @ ''memset=xxxx'' @ newline @ ''memcpy=copy! memcmp_eq=0'' @ newline"

lemma string_lines:
  "vprintf_loop (''strlen=%d strcpy=%s cmp_eq=%d cmp_ne=%d'' @ newline) [VInt 5, VStr (Some ''hello''), VInt 0, VInt (- 15)] [] =
     Some (''strlen=5 strcpy=hello cmp_eq=0 cmp_ne=-15'' @ newline)"
  "vprintf_loop (''memset=%s'' @ newline) [VStr (Some ''xxxx'')] [] = Some (''memset=xxxx'' @ newline)"
  "vprintf_loop (''memcpy=%s memcmp_eq=%d'' @ newline) [VStr (Some ''copy!''), VInt 0] [] = Some (''memcpy=copy! memcmp_eq=0'' @ newline)"
  by (simp_all add: formats)

definition first_text :: "string \<Rightarrow> string" where
  "first_text prog = ''--- argv ---'' @ newline @ ''argc=1'' @ newline @ ''argv[0]='' @ prog @ newline @ ''--- printf ---'' @ newline @
     ''int=42 neg=-7, hex=cafe str=world char=Q pct=%'' @ newline @ ''--- string ---'' @ newline @ string_text"

lemma first_lines:
  assumes "length prog < 900"
  shows "vprintf_loop (''--- %s ---'' @ newline) [VStr (Some ''argv'')] [] = Some (''--- argv ---'' @ newline)"
    "vprintf_loop (''argc=%d'' @ newline) [VInt 1] [] = Some (''argc=1'' @ newline)"
    "vprintf_loop (''argv[%d]=%s'' @ newline) [VInt 0, VStr (Some prog)] [] = Some (''argv[0]='' @ prog @ newline)"
    "vprintf_loop (''--- %s ---'' @ newline) [VStr (Some ''printf'')] [] = Some (''--- printf ---'' @ newline)"
    "vprintf_loop (''int=%d neg=%d, hex=%lx str=%s char=%c pct=%%'' @ newline) [VInt 42, VInt (- 7), VLong 0xCAFE, VStr (Some ''world''), VInt 81] [] =
       Some (''int=42 neg=-7, hex=cafe str=world char=Q pct=%'' @ newline)"
    "vprintf_loop (''--- %s ---'' @ newline) [VStr (Some ''string'')] [] = Some (''--- string ---'' @ newline)"
proof -
  have "char_of (81 :: nat) = CHR ''Q''" by code_simp
  then show "vprintf_loop (''int=%d neg=%d, hex=%lx str=%s char=%c pct=%%'' @ newline) [VInt 42, VInt (- 7), VLong 0xCAFE, VStr (Some ''world''), VInt 81] [] =
       Some (''int=42 neg=-7, hex=cafe str=world char=Q pct=%'' @ newline)" by (simp add: formats)
qed (use assms in \<open>simp_all add: formats\<close>)

lemma word_offset: "(a :: u64) - p < of_nat n \<Longrightarrow> \<exists>i < n. a = p + of_nat i"
proof -
  assume "a - p < of_nat n"
  moreover have "unat (of_nat n :: u64) \<le> n" by (simp add: unat_of_nat)
  ultimately show ?thesis by (intro exI [of _ "unat (a - p)"]) (simp add: word_less_nat_alt)
qed

lemma fill_array:
  assumes l: "literals E b ss m" and k: "k + 100 < 20000" and m: "m' = (memset m (b + of_nat k) (of_char (CHR ''x'')) 4)(b + of_nat k + 4 := 0)"
  shows "cstr m' (b + of_nat k) ''xxxx''" "literals E b ss m'"
proof -
  have x: "ucast (of_char (CHR ''x'') :: u32) = (of_char (CHR ''x'') :: u8)" by code_simp
  have m': "m' = (\<lambda>a. if a - (b + of_nat k) < 4 then of_char (CHR ''x'') else m a)(b + of_nat k + 4 := 0)"
    unfolding m memset_def fill_loop x ..
  show "cstr m' (b + of_nat k) ''xxxx''" unfolding m' by (simp add: add.assoc)
  have at: "b + of_nat k + of_nat i = b + of_nat (k + i)" for i by (simp add: add.assoc)
  show "literals E b ss m'"
  proof (rule literals_keep [OF l])
    fix a assume a: "\<forall>n < 20000. a \<noteq> b + of_nat n"
    have far: "a \<noteq> b + of_nat k + of_nat i" if "i \<le> 4" for i unfolding at using a that k by (simp del: of_nat_add)
    then have "\<not> a - (b + of_nat k) < of_nat 4" using word_offset [of a "b + of_nat k" 4] by (metis less_imp_le_nat)
    then show "m' a = m a" using far [of 4] unfolding m' by simp
  qed
qed

lemma copy_array:
  assumes l: "literals E b ss m" and k: "k + 100 < 20000" and s: "''copy!'' \<in> set ss"
  defines "m' \<equiv> memcpy m (b + of_nat k) (lit E ''copy!'') 6"
  shows "cstr m' (b + of_nat k) ''copy!''" "memcmp m' (b + of_nat k) (lit E ''copy!'') 6 = 0"
proof -
  let ?d = "b + of_nat k" and ?l = "lit E ''copy!''"
  have c: "cstr m ?l ''copy!''" "\<And>i n. i \<le> 5 \<Longrightarrow> n < 20000 \<Longrightarrow> ?l + of_nat i \<noteq> b + of_nat n" using l s by (auto simp: literals_def)
  have sep: "?d + i \<noteq> ?l + j" if "i < 6" "j < 6" for i j
    using c(2) [of "unat j" "k + unat i"] that k by (simp add: word_less_nat_alt add.assoc eq_commute)
  then have m': "m' = (\<lambda>a. if a - ?d < 6 then m (?l + (a - ?d)) else m a)"
    unfolding m'_def memcpy_def by (intro copy_loop) (simp add: separate_def)
  show "cstr m' ?d ''copy!''" using c(1) unfolding m' by (simp add: add.assoc)
  have "m' (?d + j) = m' (?l + j)" if "j < 6" for j
  proof -
    have "\<not> ?l + j - ?d < 6" using sep [of "?l + j - ?d" j] that by auto
    then show ?thesis using that unfolding m' by simp
  qed
  then show "memcmp m' ?d ?l 6 = 0" by (simp add: memcmp_def memcmp_loop_eq)
qed

context console
begin

lemma test_string_out:
  assumes k: "ok k" and b: "0 < unat b" "unat b + 20000 < 2 ^ 64" and l: "literals E b string_literals m"
    and v: "v_buf E = b + of_nat i" "v_dst E = b + of_nat j" "i + 100 < 20000" "j + 100 < 20000"
  shows "\<exists>m'. test_string E S \<lparr>kern = k, uheap = u, umem = m\<rparr> = Some \<lparr>kern = emit (bytes_of string_text) k, uheap = u, umem = m'\<rparr>"
proof -
  have lits: "''hello'' \<in> set string_literals" "''world'' \<in> set string_literals" "''copy!'' \<in> set string_literals" by (simp_all add: string_literals_def)
  have nz: "v_buf E \<noteq> 0" "v_dst E \<noteq> 0" using heap_nonzero [OF b, of i] heap_nonzero [OF b, of j] v by simp_all
  obtain m1 where m1: "strcpy m (v_buf E) (lit E ''hello'') = Some m1" "literals E b string_literals m1" "cstr m1 (v_buf E) ''hello''" "text_at m1 (v_buf E) = Some ''hello''"
    using copy_to_block [OF l lits(1) v(3) b] v(1) by auto
  have c: "cstr m1 (lit E ''hello'') ''hello''" "cstr m1 (lit E ''world'') ''world''" using m1(2) lits by (auto simp: literals_def)
  have eq: "strcmp m1 (v_buf E) (lit E ''hello'') = Some 0" using strcmp_cstr [OF m1(3) c(1)] by auto
  have "uint (of_char (CHR ''h'') :: u8) = 104" "uint (of_char (CHR ''w'') :: u8) = 119" by code_simp+
  then have ne: "strcmp m1 (v_buf E) (lit E ''world'') = Some (- 15)" using m1(3) c(2) by (subst strcmp.simps) simp
  define m2 where "m2 = (memset m1 (v_buf E) 120 4)(v_buf E + 4 := 0)"
  then have m2x: "m2 = (memset m1 (b + of_nat i) (of_char (CHR ''x'')) 4)(b + of_nat i + 4 := 0)" using v(1) by simp
  have m2: "text_at m2 (v_buf E) = Some ''xxxx''" "literals E b string_literals m2"
    using fill_array [OF m1(2) v(3) m2x] text_at_cstr [OF _ nz(1), of m2] v(1) by auto
  define m3 where "m3 = memcpy m2 (v_dst E) (lit E ''copy!'') 6"
  have m3: "text_at m3 (v_dst E) = Some ''copy!''" "memcmp m3 (v_dst E) (lit E ''copy!'') 6 = 0"
    using copy_array [OF m2(2) v(4) lits(3)] text_at_cstr [OF _ nz(2), of m3] v(2) by (auto simp: m3_def)
  have w: "(ucast (5 :: u64) :: u32) = 5" by simp
  show ?thesis
    using k by (simp add: test_string_def m1(1,4) strlen_cstr [OF m1(3)] eq ne m2(1) m3 m2_def [symmetric] m3_def [symmetric] string_lines w Let_def
      printf_out emit_ok emit_emit string_text_def bytes_of_append del: append.append_Cons append.append_Nil)
qed

lemma first_tests_out:
  assumes k: "ok k" and b: "0 < unat b" "unat b + 20000 < 2 ^ 64" and l: "literals E b string_literals m"
    and v: "v_buf E = b + of_nat i" "v_dst E = b + of_nat j" "i + 100 < 20000" "j + 100 < 20000" and p: "length prog < 900"
  shows "\<exists>m'. run_all S (take 3 (tests E S)) 1 [prog] \<lparr>kern = k, uheap = u, umem = m\<rparr> =
    Some (None, \<lparr>kern = emit (bytes_of (first_text prog)) k, uheap = u, umem = m'\<rparr>)"
proof -
  let ?x = "bytes_of (''--- argv ---'' @ newline @ ''argc=1'' @ newline @ ''argv[0]='' @ prog @ newline @ ''--- printf ---'' @ newline @
     ''int=42 neg=-7, hex=cafe str=world char=Q pct=%'' @ newline @ ''--- string ---'' @ newline)"
  have one: "[0..<nat 1] = [0]" by simp
  have argv: "test_argv S 1 [prog] \<lparr>kern = emit x k, uheap = u, umem = m\<rparr> =
      Some \<lparr>kern = emit (x @ bytes_of (''argc=1'' @ newline @ ''argv[0]='' @ prog @ newline)) k, uheap = u, umem = m\<rparr>" for x
    using k unfolding test_argv_def one
    by (simp add: first_lines [OF p] printf_out emit_ok emit_emit bytes_of_append del: append.append_Cons append.append_Nil)
  have prnt: "test_printf S \<lparr>kern = emit x k, uheap = u, umem = m\<rparr> =
      Some \<lparr>kern = emit (x @ bytes_of (''int=42 neg=-7, hex=cafe str=world char=Q pct=%'' @ newline)) k, uheap = u, umem = m\<rparr>" for x
    using k unfolding test_printf_def
    by (simp add: first_lines [OF p] printf_out emit_ok emit_emit bytes_of_append del: append.append_Cons append.append_Nil)
  obtain m' where str: "test_string E S \<lparr>kern = emit ?x k, uheap = u, umem = m\<rparr> = Some \<lparr>kern = emit (bytes_of string_text) (emit ?x k), uheap = u, umem = m'\<rparr>"
    using test_string_out [OF emit_ok [OF k] b l v] by blast
  show ?thesis
    using k str by (intro exI [of _ m']) (simp add: tests_def run_test_def returns_def argv prnt first_lines [OF p] printf_out emit_ok emit_emit
      first_text_def bytes_of_append del: append.append_Cons append.append_Nil)
qed

end

lemma run_all_stops:
  assumes "\<And>argc argv a. \<exists>r. fst (snd t) argc argv a = returns r" "\<And>a. run_all S ts argc argv a = None"
  shows "run_all S (t # ts) argc argv a = None"
proof -
  have "run_test S t argc argv a = Some (e, a') \<Longrightarrow> e = None" for e a'
    using assms(1) by (auto simp: run_test_def returns_def Option.bind_eq_Some_conv) (metis Pair_inject option.map_disc_iff option.sel option.map_sel option.distinct(1))
  then show ?thesis using assms(2) by (cases "run_test S t argc argv a") auto
qed

lemma run_all_undefined: "run_all S (tests E S) argc argv a = None"
proof -
  have f: "run_all S ((''fileio'', \<lambda>argc argv a. returns (test_fileio S a), True) # ts) argc argv a = None" for ts a
    by (auto simp: run_test_def returns_def pid_tests Option.bind_eq_None_conv)
  show ?thesis unfolding tests_def by (rule run_all_stops, force, rule run_all_stops, force, rule run_all_stops, force, rule f)
qed

text \<open>A machine with descriptor 1 on the display, and the literals in pages of 256 bytes below the heap.\<close>

definition display_machine :: dst where
  "display_machine = boot_machine\<lparr>file_table := (replicate VFS_MAX_FDS 0)[1 := 0x100], device_table := [\<lparr>dev_name = ''display'', dev_read = None, dev_write = Some W_DISPLAY\<rparr>],
     objs := [0x100 \<mapsto> OFile \<lparr>f_inode = 0x200, f_position = 0, f_flags = O_WRONLY, f_ref_count = 1, f_private = 0\<rparr>,
              0x200 \<mapsto> OInode (zero_inode\<lparr>i_ops := Some DEVFS, i_private := 0x300\<rparr>), 0x300 \<mapsto> ODevInode \<lparr>di_device = Some 0\<rparr>]\<rparr>"

lemma display_machine_stdout: "stdout_display display_machine"
  unfolding stdout_display_def
  by (simp add: display_machine_def vfs_get_file_def device_of_def files_def inodes_def devinodes_def)

text \<open>System calls that do nothing but what \<^const>\<open>kernel_calls\<close> puts in their place.\<close>

definition idle_calls :: "dst syscalls" where
  "idle_calls = \<lparr>u_write = \<lambda>_ _ _. None, u_read = \<lambda>_ _ _. None, u_open = \<lambda>_ _ _. None, u_close = \<lambda>_ _. None, u_seek = \<lambda>_ _ _ _. None,
     u_getpid = \<lambda>w. Some (1, w), u_yield = Some, u_fork = \<lambda>_. None, u_wait = \<lambda>_. None, u_sleep = \<lambda>_. Some, u_usleep = \<lambda>_. Some\<rparr>"

definition literal_memory :: mem where
  "literal_memory a = (let page = unat a div 256; i = unat a mod 256; s = (if 16 \<le> page \<and> page < 23 then (malloc_literals @ string_literals) ! (page - 16) else [])
     in if i < length s then of_char (s ! i) else 0)"

definition literal_addresses :: addresses where
  "literal_addresses = \<lparr>lit = \<lambda>s. if s = ''malloc works'' then 0x1000 else if s = ''second block'' then 0x1100 else if s = ''reused block'' then 0x1200
     else if s = ''coalesced ok'' then 0x1300 else if s = ''hello'' then 0x1400 else if s = ''world'' then 0x1500 else 0x1600, v_buf = 0x10000, v_dst = 0x10100\<rparr>"

lemma literal_memory_ok: "literals literal_addresses 0x10000 malloc_literals literal_memory" "literals literal_addresses 0x10000 string_literals literal_memory"
proof -
  have "cstr literal_memory 0x1000 ''malloc works''" "cstr literal_memory 0x1100 ''second block''" "cstr literal_memory 0x1200 ''reused block''" "cstr literal_memory 0x1300 ''coalesced ok''"
    "cstr literal_memory 0x1400 ''hello''" "cstr literal_memory 0x1500 ''world''" "cstr literal_memory 0x1600 ''copy!''"
    by (simp_all add: literal_memory_def malloc_literals_def string_literals_def Let_def)
  moreover have "x + of_nat i \<noteq> (0x10000 :: u64) + of_nat n" if "x \<le> 0x1600" "i \<le> 12" "n < 20000" for x i n
    using that by (simp add: word_unat_eq_iff word_le_nat_alt unat_word_ariths unat_of_nat)
  ultimately show "literals literal_addresses 0x10000 malloc_literals literal_memory" "literals literal_addresses 0x10000 string_literals literal_memory"
    by (simp_all add: literals_def malloc_literals_def string_literals_def literal_addresses_def)
qed

definition empty_heap :: ust where
  "empty_heap = \<lparr>ublocks = \<lambda>_. \<lparr>ub_size = 0, ub_next = 0, ub_free = False\<rparr>, heap_head = 0, heap_break = 0x10000\<rparr>"

text \<open>Run without arguments, the test program has undefined behaviour. Its first three tests print what they should: the arguments, the
  conversions of \<open>printf\<close>, and the results of the string functions. The next test starts with \<open>printf("pid=%d", getpid())\<close>, where \<open>getpid\<close>
  returns a \<open>long\<close> and the conversion takes an \<open>int\<close>; so the whole run has no defined result.\<close>

theorem hello_all_undefined:
  assumes "stdout_display w" "0 < unat b" "unat b + 20000 < 2 ^ 64" "literals E b string_literals m"
    "v_buf E = b + of_nat i" "v_dst E = b + of_nat j" "i + 100 < 20000" "j + 100 < 20000" "length prog < 900"
  shows "(\<exists>m'. run_all (kernel_calls T) (take 3 (tests E (kernel_calls T))) 1 [prog] \<lparr>kern = w, uheap = u, umem = m\<rparr> =
      Some (None, \<lparr>kern = on_display (bytes_of (first_text prog)) w, uheap = u, umem = m'\<rparr>)) \<and>
    start E (kernel_calls T) 1 [prog] \<lparr>kern = w, uheap = u, umem = m\<rparr> = None"
proof
  show "\<exists>m'. run_all (kernel_calls T) (take 3 (tests E (kernel_calls T))) 1 [prog] \<lparr>kern = w, uheap = u, umem = m\<rparr> =
      Some (None, \<lparr>kern = on_display (bytes_of (first_text prog)) w, uheap = u, umem = m'\<rparr>)"
    using display.first_tests_out [OF assms] .
  show "start E (kernel_calls T) 1 [prog] \<lparr>kern = w, uheap = u, umem = m\<rparr> = None"
    by (simp add: start_def main_def run_all_undefined Option.bind_eq_None_conv)
qed

text \<open>C10: The test of the heap passes on the kernel. With descriptor 1 on the display, an empty heap that can grow and the literals of the
  program outside it, \<open>hello malloc\<close> prints on the screen, line by line, what the author of the test expects: both strings are kept, the freed block
  is used again, the block of 9000 bytes holds its 8999 characters and the freed blocks are merged. The process exits with status 0.\<close>

theorem hello_malloc_passes:
  assumes "stdout_display w" "heap_head u = 0" "heap_break u = b" "0 < unat b" "unat b + 20000 < 2 ^ 64" "literals E b malloc_literals m"
  shows "\<exists>u' m'. start E (kernel_calls T) 2 [prog, ''malloc''] \<lparr>kern = w, uheap = u, umem = m\<rparr> =
    Some (0, \<lparr>kern = on_display (bytes_of (banner ''malloc'' @ malloc_text @ ''=== done ==='' @ newline)) w, uheap = u', umem = m'\<rparr>)"
  using display.start_malloc [OF assms] .

theorem hello_malloc_passes_witness:
  "\<exists>u' m'. start literal_addresses (kernel_calls idle_calls) 2 [''hello.elf'', ''malloc''] \<lparr>kern = display_machine, uheap = empty_heap, umem = literal_memory\<rparr> =
    Some (0, \<lparr>kern = on_display (bytes_of (banner ''malloc'' @ malloc_text @ ''=== done ==='' @ newline)) display_machine, uheap = u', umem = m'\<rparr>)"
proof -
  have "heap_head empty_heap = 0" "heap_break empty_heap = 0x10000" by (simp_all add: empty_heap_def)
  from hello_malloc_passes [OF display_machine_stdout this _ _ literal_memory_ok(1)] show ?thesis by simp
qed

end
