(* ===== verification/Stdio_Trip.thy ===== *)
theory Stdio_Trip
  imports Hello File_Trip
begin

text \<open>
  Files through the C library: a stream of \<open>src/libc/src/stdio.c\<close> opened on a path, written, closed, opened again and read, on the
  kernel's VFS and shadowFS. The two locales are what the buffering of the library needs of a descriptor; the kernel's descriptors are
  their instances.
\<close>

section \<open>Writing through a buffer\<close>

text \<open>\<open>holds c n k\<close>: the file behind the descriptor holds \<open>c\<close> and takes \<open>n\<close> more buffers.\<close>

locale file_sink =
  fixes wr :: "'k \<Rightarrow> int \<Rightarrow> u8 list \<Rightarrow> (int \<times> 'k) option"
    and d :: int
    and holds :: "u8 list \<Rightarrow> nat \<Rightarrow> 'k \<Rightarrow> bool"
  assumes takes: "holds c (Suc n) k \<Longrightarrow> length bs \<le> FILE_BUF_SIZE \<Longrightarrow> length c + length bs < 2 ^ 31 \<Longrightarrow>
    \<exists>k'. wr k d bs = Some (int (length bs), k') \<and> holds (c @ bs) n k'"
begin

lemma fwrite_loop_all:
  assumes "fd f = d" "buf_size f = FILE_BUF_SIZE" "length (fbuf f) \<le> FILE_BUF_SIZE" "written \<le> length src" "holds c n k"
    and "length (fbuf f) + (length src - written) \<le> FILE_BUF_SIZE * n" "length c + length (fbuf f) + (length src - written) < 2 ^ 31"
  shows "\<exists>b c' n' k'. fwrite_loop wr src written f k = Some (length src, f\<lparr>fbuf := b\<rparr>, k') \<and> length b \<le> FILE_BUF_SIZE \<and> holds c' n' k' \<and>
    c' @ b = c @ fbuf f @ drop written src \<and> length b \<le> FILE_BUF_SIZE * n'"
  using assms
proof (induction "length src - written" arbitrary: written f c n k rule: less_induct)
  case less
  show ?case
  proof (cases "written < length src")
    case False
    then have "fwrite_loop wr src written f k = Some (length src, f\<lparr>fbuf := fbuf f\<rparr>, k)" using less.prems by (subst fwrite_loop.simps) simp
    then show ?thesis using False less.prems by (intro exI [of _ "fbuf f"] exI [of _ c] exI [of _ n] exI [of _ k]) simp
  next
    case more: True
    have step: "\<exists>b c' n' k'. fwrite_loop wr src (written + chunk) (f\<lparr>fbuf := p @ take chunk (drop written src)\<rparr>) k1 = Some (length src, f\<lparr>fbuf := b\<rparr>, k') \<and>
        length b \<le> FILE_BUF_SIZE \<and> holds c' n' k' \<and> c' @ b = c1 @ p @ drop written src \<and> length b \<le> FILE_BUF_SIZE * n'"
      if c: "chunk = min (FILE_BUF_SIZE - length p) (length src - written)" and p: "length p < FILE_BUF_SIZE" and h: "holds c1 n1 k1"
        "length p + (length src - written) \<le> FILE_BUF_SIZE * n1" "length c1 + length p + (length src - written) < 2 ^ 31"
      for chunk p c1 n1 k1
    proof -
      let ?f = "f\<lparr>fbuf := p @ take chunk (drop written src)\<rparr>"
      have l: "length src - (written + chunk) < length src - written" "length (fbuf ?f) \<le> FILE_BUF_SIZE" "written + chunk \<le> length src"
        "length (fbuf ?f) + (length src - (written + chunk)) = length p + (length src - written)" using c p more by auto
      have d: "take chunk (drop written src) @ drop (written + chunk) src = drop written src" by (metis append_take_drop_id drop_drop add.commute)
      from less.hyps [OF l(1), of ?f c1 n1 k1] l h less.prems(1,2) show ?thesis by (auto simp: d)
    qed
    show ?thesis
    proof (cases "length (fbuf f) \<ge> FILE_BUF_SIZE")
      case False
      then show ?thesis using step [OF refl, of "fbuf f" c n k] less.prems more by (subst fwrite_loop.simps) (simp add: Let_def)
    next
      case full: True
      then have "length (fbuf f) = FILE_BUF_SIZE" using less.prems by simp
      moreover obtain n1 where n: "n = Suc n1" using less.prems(6) more full by (cases n) auto
      moreover have "length c + length (fbuf f) < 2 ^ 31" using less.prems(7) by simp
      ultimately obtain k1 where k: "wr k d (fbuf f) = Some (int (length (fbuf f)), k1)" "holds (c @ fbuf f) n1 k1"
        using takes [of c n1 k "fbuf f"] less.prems by auto
      then show ?thesis using step [OF refl, of "[]" "c @ fbuf f" n1 k1] less.prems more full n by (subst fwrite_loop.simps) (simp add: Let_def)
    qed
  qed
qed

lemma fwrite_all:
  assumes "fd f = d" "is_write f" "buf_size f = FILE_BUF_SIZE" "fbuf f = []" "holds [] n k" "length src \<le> FILE_BUF_SIZE * n" "length src < 2 ^ 31"
  shows "\<exists>b c' n' k'. fwrite wr src 1 (of_nat (length src)) f k = Some (length src, f\<lparr>fbuf := b\<rparr>, k') \<and> length b \<le> FILE_BUF_SIZE \<and> holds c' n' k' \<and>
    c' @ b = src \<and> length b \<le> FILE_BUF_SIZE * n'"
proof (cases "src = []")
  case True
  then show ?thesis using assms by (intro exI [of _ "[]"] exI [of _ n] exI [of _ k]) (simp add: fwrite_def)
next
  case False
  have l: "unat (of_nat (length src) :: u64) = length src" using assms(7) by (simp add: unat_of_nat)
  then have "(of_nat (length src) :: u64) \<noteq> 0" using False by (metis length_0_conv unat_0)
  then show ?thesis using fwrite_loop_all [of f 0 src "[]" n k] assms l by (auto simp: fwrite_def)
qed

lemma fclose_all:
  assumes "fd f = d" "is_write f" "length (fbuf f) \<le> FILE_BUF_SIZE" "holds c n k" "length (fbuf f) \<le> FILE_BUF_SIZE * n" "length c + length (fbuf f) < 2 ^ 31"
    and close: "\<And>n k. holds (c @ fbuf f) n k \<Longrightarrow> \<exists>k'. cls k d = Some (0, k') \<and> P k'"
  shows "\<exists>k'. fclose wr cls f k u = Some (0, k', free (s_addr f) (free (buf_addr f) u)) \<and> P k'"
proof (cases "fbuf f = []")
  case True
  then show ?thesis using close [of n k] assms(1,4) by (auto simp: fclose_def)
next
  case False
  then obtain n1 where n: "n = Suc n1" using assms(5) by (cases n) auto
  with takes [of c n1 k "fbuf f"] assms obtain k1 where "wr k d (fbuf f) = Some (int (length (fbuf f)), k1)" "holds (c @ fbuf f) n1 k1" by auto
  then show ?thesis using False close [of n1 k1] assms(1,2) by (auto simp: fclose_def)
qed

end

section \<open>Reading through a buffer\<close>

text \<open>\<open>rest c k\<close>: the bytes from the position of the descriptor to the end of the file are \<open>c\<close>.\<close>

locale file_source =
  fixes rd :: "'k \<Rightarrow> int \<Rightarrow> nat \<Rightarrow> (int \<times> u8 list \<times> 'k) option"
    and d :: int
    and rest :: "u8 list \<Rightarrow> 'k \<Rightarrow> bool"
  assumes gives: "rest c k \<Longrightarrow> n \<le> FILE_BUF_SIZE \<Longrightarrow> \<exists>k'. rd k d n = Some (int (length (take n c)), take n c, k') \<and> rest (drop n c) k'"
begin

lemma fread_loop_all:
  assumes "fd f = d" "buf_size f = FILE_BUF_SIZE" "length dst \<le> want" "buf_pos f \<le> length (fbuf f)" "rest c k"
  shows "\<exists>f' k'. fread_loop rd want dst f k = Some (dst @ take (want - length dst) (drop (buf_pos f) (fbuf f) @ c), f', k')"
  using assms
proof (induction "want - length dst" arbitrary: dst f c k rule: less_induct)
  case less
  show ?case
  proof (cases "length dst < want")
    case False
    then show ?thesis using less.prems by (subst fread_loop.simps) simp
  next
    case more: True
    have step: "\<exists>f' k'. fread_loop rd want (dst @ take chunk (drop p b)) (f\<lparr>fbuf := b, buf_pos := p + chunk\<rparr>) k1 = Some (dst @ take (want - length dst) (drop p b @ c1), f', k')"
      if c: "chunk = min (length b - p) (want - length dst)" and b: "p < length b" and h: "rest c1 k1" for chunk p b c1 k1
    proof -
      let ?dst = "dst @ take chunk (drop p b)" and ?f = "f\<lparr>fbuf := b, buf_pos := p + chunk\<rparr>"
      have l: "want - length ?dst < want - length dst" "length ?dst \<le> want" "buf_pos ?f \<le> length (fbuf ?f)" "length ?dst = length dst + chunk" using c b more by auto
      have "take chunk (drop p b) @ take (want - length ?dst) (drop (p + chunk) b @ c1) = take (want - length dst) (drop p b @ c1)"
        using take_add [of chunk "want - length ?dst" "drop p b @ c1"] c l(4) more by (simp add: add.commute)
      with less.hyps [OF l(1), of ?f c1 k1] l(2,3) h less.prems(1,2) show ?thesis by auto
    qed
    show ?thesis
    proof (cases "buf_pos f < length (fbuf f)")
      case True
      then show ?thesis using step [OF refl True less.prems(5)] more by (subst fread_loop.simps) (simp add: Let_def)
    next
      case False
      then have at: "drop (buf_pos f) (fbuf f) = []" by simp
      obtain k1 t r where k: "rd k d FILE_BUF_SIZE = Some (int (length t), t, k1)" "rest r k1" and c: "c = t @ r" "t = [] \<longleftrightarrow> c = []"
        using gives [OF less.prems(5), of FILE_BUF_SIZE] by (metis append_take_drop_id le_refl less_numeral_extra(3) take_eq_Nil zero_less_numeral)
      show ?thesis
      proof (cases "t = []")
        case True
        then have "c = []" using c(2) by simp
        then show ?thesis using True k(1) less.prems(1,2) more False by (subst fread_loop.simps) simp
      next
        case t: False
        then have "0 < length t" by simp
        from step [OF refl this k(2)] k(1) less.prems(1,2) more False t show ?thesis
          unfolding at c(1) by (subst fread_loop.simps) (simp add: Let_def del: take_append)
      qed
    qed
  qed
qed

lemma fread_all:
  assumes "fd f = d" "\<not> is_write f" "buf_size f = FILE_BUF_SIZE" "fbuf f = []" "buf_pos f = 0" "rest c k"
  shows "\<exists>f' k'. fread rd 1 n f k = Some (min (unat n) (length c), take (unat n) c, f', k')"
  using fread_loop_all [of f "[]" "unat n" c k] assms by (auto simp: fread_def min.commute)

end

section \<open>The kernel's descriptors\<close>

text \<open>Descriptor \<open>j\<close> is open for writing on the file \<open>mp/name\<close> of a shadowFS, which holds \<open>c\<close>; memory and quota allow \<open>n\<close> more blocks. \<open>tab\<close> is the
  descriptor table without it.\<close>

definition writing :: "string \<Rightarrow> nat \<Rightarrow> string \<Rightarrow> u64 list \<Rightarrow> nat \<Rightarrow> u8 list \<Rightarrow> nat \<Rightarrow> 'a dst_scheme \<Rightarrow> bool" where
  "writing mp i name tab j c n w \<longleftrightarrow> (\<exists>f fl a ino bs root ds m. vfs_inv w \<and> j < VFS_MAX_FDS \<and> file_table w = tab[j := f] \<and> length tab = VFS_MAX_FDS \<and> f \<noteq> 0 \<and>
     files w f = Some fl \<and> f_inode fl = a \<and> f_flags fl \<noteq> O_RDONLY \<and> stored w a ino bs c \<and> i_sb ino = Some i \<and> shadow_dir w mp i root ds m \<and> ds \<noteq> [] \<and>
     find_inode ds name = a \<and> vfs_find_mount w (mp @ slash # name) = Some i \<and> enough w n \<and> unat (m_used m) + 24 * n < unat (quota m))"

text \<open>The file \<open>mp/name\<close> holds \<open>c\<close> and the descriptor table is \<open>tab\<close>.\<close>

definition saved :: "string \<Rightarrow> nat \<Rightarrow> string \<Rightarrow> u64 list \<Rightarrow> u8 list \<Rightarrow> 'a dst_scheme \<Rightarrow> bool" where
  "saved mp i name tab c w \<longleftrightarrow> (\<exists>a ino bs root ds m. vfs_inv w \<and> file_table w = tab \<and> stored w a ino bs c \<and> shadow_dir w mp i root ds m \<and>
     find_inode ds name = a \<and> vfs_find_mount w (mp @ slash # name) = Some i \<and> heap_room (heap w) 109)"

definition reading :: "nat \<Rightarrow> u8 list \<Rightarrow> 'a dst_scheme \<Rightarrow> bool" where
  "reading j rest w \<longleftrightarrow> (\<exists>f fl a ino bs c. j < VFS_MAX_FDS \<and> file_table w ! j = f \<and> f \<noteq> 0 \<and> files w f = Some fl \<and> f_inode fl = a \<and> f_flags fl \<noteq> O_WRONLY \<and>
     stored w a ino bs c \<and> unat (f_position fl) \<le> length c \<and> rest = drop (unat (f_position fl)) c)"

abbreviation k_write :: "'a dst_scheme \<Rightarrow> int \<Rightarrow> u8 list \<Rightarrow> (int \<times> 'a dst_scheme) option" where
  "k_write \<equiv> \<lambda>w d bs. vfs_write fs_table w d (Some bs) (of_nat (length bs))"

abbreviation k_read :: "'a dst_scheme \<Rightarrow> int \<Rightarrow> nat \<Rightarrow> (int \<times> u8 list \<times> 'a dst_scheme) option" where
  "k_read \<equiv> \<lambda>w d n. vfs_read fs_table w d True (of_nat n)"

lemma write_more:
  assumes "writing mp i name tab j c (Suc n) w" "length bs \<le> FILE_BUF_SIZE" "length c + length bs < 2 ^ 31"
  shows "\<exists>w'. k_write w (int j) bs = Some (int (length bs), w') \<and> writing mp i name tab j (c @ bs) n w'"
proof -
  from assms(1) obtain f fl a ino blk root ds m where
    h: "vfs_inv w" "j < VFS_MAX_FDS" "file_table w = tab[j := f]" "length tab = VFS_MAX_FDS" "f \<noteq> 0" "files w f = Some fl" "f_inode fl = a" "f_flags fl \<noteq> O_RDONLY"
      "stored w a ino blk c" "i_sb ino = Some i" "shadow_dir w mp i root ds m" "ds \<noteq> []" "find_inode ds name = a" "vfs_find_mount w (mp @ slash # name) = Some i"
      "enough w (Suc n)" "unat (m_used m) + 24 * Suc n < unat (quota m)"
    unfolding writing_def by (elim exE conjE) (rule that)
  let ?k = "(length bs + 4095) div 4096"
  have k: "?k \<le> 1" using assms(2) by simp
  have t: "file_table w ! j = f" using h(2-4) by simp
  have en: "enough w (n + ?k)" using enough_mono [OF h(15), of "n + ?k"] k by simp
  have q: "unat (m_used m) + 24 * ?k < unat (quota m)" using h(16) k by simp
  from write_file [OF h(1,2) t h(5-12) assms(3) en q] obtain w' fl' ino' bs' m' where
    w: "k_write w (int j) bs = Some (int (length bs), w')" "stored w' a ino' bs' (c @ bs)" "files w' f = Some fl'" "f_inode fl' = a" "shadow_dir w' mp i root ds m'"
      "vfs_inv w'" "file_table w' = file_table w" "enough w' n" "same_mounts w w'" "f_flags fl' = f_flags fl" "i_sb ino' = Some i"
      "unat (m_used m') \<le> unat (m_used m) + 24 * ?k" "quota m' = quota m" by (elim exE conjE) (rule that)
  have "vfs_find_mount w' (mp @ slash # name) = Some i" using h(14) w(9) mount_cong [of w' w] by (simp add: same_mounts_def)
  moreover have "unat (m_used m') + 24 * n < unat (quota m')" using w(12,13) h(16) k by simp
  ultimately have "writing mp i name tab j (c @ bs) n w'"
    unfolding writing_def using w(2-8,10,11) h(2-5,8,12,13)
    by (intro exI [of _ f] exI [of _ fl'] exI [of _ a] exI [of _ ino'] exI [of _ bs'] exI [of _ root] exI [of _ ds] exI [of _ m']) simp
  then show ?thesis using w(1) by blast
qed

lemma close_saved:
  assumes "writing mp i name tab j c n w" "tab ! j = 0"
  shows "\<exists>w'. vfs_close fs_table w (int j) = Some (0, w') \<and> saved mp i name tab c w'"
proof -
  from assms(1) obtain f fl a ino blk root ds m where
    h: "vfs_inv w" "j < VFS_MAX_FDS" "file_table w = tab[j := f]" "length tab = VFS_MAX_FDS" "f \<noteq> 0" "files w f = Some fl" "f_inode fl = a"
      "stored w a ino blk c" "shadow_dir w mp i root ds m" "find_inode ds name = a" "vfs_find_mount w (mp @ slash # name) = Some i" "enough w n"
    unfolding writing_def by (elim exE conjE) (rule that)
  have t: "file_table w ! j = f" using h(2-4) by simp
  have "heap_room (heap w) 109" using h(12) heap_room_mono by (auto simp: enough_def)
  from close_stored [OF h(1,2) t h(5-9) this] obtain w' where
    w: "vfs_close fs_table w (int j) = Some (0, w')" "vfs_inv w'" "file_table w' = (file_table w)[j := 0]" "stored w' a ino blk c" "shadow_dir w' mp i root ds m"
      "same_mounts w w'" "heap_room (heap w') 109" by blast
  have "file_table w' = tab" using w(3) h(3) assms(2) by (metis list_update_id list_update_overwrite)
  moreover have "vfs_find_mount w' (mp @ slash # name) = Some i" using h(11) w(6) mount_cong [of w' w] by (simp add: same_mounts_def)
  ultimately show ?thesis using w(1,2,4,5,7) h(10) unfolding saved_def by blast
qed

lemma read_more:
  assumes "reading j c w" "n \<le> FILE_BUF_SIZE"
  shows "\<exists>w'. k_read w (int j) n = Some (int (length (take n c)), take n c, w') \<and> reading j (drop n c) w'"
proof -
  from assms(1) obtain f fl a ino bs all where
    h: "j < VFS_MAX_FDS" "file_table w ! j = f" "f \<noteq> 0" "files w f = Some fl" "f_inode fl = a" "f_flags fl \<noteq> O_WRONLY" "stored w a ino bs all"
      "unat (f_position fl) \<le> length all" "c = drop (unat (f_position fl)) all"
    unfolding reading_def by (elim exE conjE) (rule that)
  have n: "unat (of_nat n :: u32) = n" using assms(2) by (simp add: unat_of_nat)
  from read_file [OF h(1-7), of "of_nat n"] obtain w' ino' where
    r: "k_read w (int j) n = Some (int (length (take n c)), take n c, w')" "files w' f = Some (fl\<lparr>f_position := f_position fl + of_nat (length (take n c))\<rparr>)"
      "stored w' a ino' bs all" "file_table w' = file_table w" unfolding n h(9) by blast
  have "length all < 2 ^ 31" using h(7) unfolding stored_def by blast
  then have p: "unat (f_position fl + of_nat (length (take n c)) :: u32) = unat (f_position fl) + length (take n c)"
    using h(8,9) by (simp add: unat_word_ariths unat_of_nat)
  have "drop (unat (f_position fl) + length (take n c)) all = drop n c" using h(9) by (simp add: min_def add.commute)
  then have "reading j (drop n c) w'"
    unfolding reading_def using r(2-4) h(1-3,5,6,8,9) p
    by (intro exI [of _ f] exI [of _ "fl\<lparr>f_position := f_position fl + of_nat (length (take n c))\<rparr>"] exI [of _ a] exI [of _ ino'] exI [of _ bs] exI [of _ all]) simp
  then show ?thesis using r(1) by blast
qed

interpretation file_out: file_sink k_write "int j" "writing mp i name tab j" for mp i name tab j
  by unfold_locales (rule write_more)

interpretation file_in: file_source k_read "int j" "reading j" for j
  by unfold_locales (rule read_more)

section \<open>Opening\<close>

text \<open>The two blocks of a stream on an empty heap, released and allocated again.\<close>

lemma stream_blocks:
  assumes u: "heap_head u = 0" "heap_break u = b" and b: "0 < unat b" "unat b + 20000 < 2 ^ 64"
  shows "\<exists>u1 u2 u3 u4. malloc SIZEOF_FILE u = Some (b + 24, u1) \<and> malloc (of_nat FILE_BUF_SIZE) u1 = Some (b + 96, u2) \<and>
    malloc SIZEOF_FILE (free (b + 24) (free (b + 96) u2)) = Some (b + 24, u3) \<and> malloc (of_nat FILE_BUF_SIZE) u3 = Some (b + 96, u4)"
proof -
  note nz = heap_nonzero [OF b]
  have z: "b \<noteq> 0" "b + 24 \<noteq> 0" "b + 72 \<noteq> 0" "b + 96 \<noteq> 0" "b + 608 \<noteq> 0" using nz [of 0] nz [of 24] nz [of 72] nz [of 96] nz [of 608] by simp_all
  have n: "b \<noteq> - 1" using nz [of 1] by (auto simp: eq_neg_iff_add_eq_0)
  have r: "round8 48 = 48" "round8 512 = 512" by (simp_all add: round8_def)
  note d = malloc_def first_fit.simps split_block_def upd_block_def free_def Let_def add.assoc
  define u1 where "u1 = u\<lparr>heap_head := b, heap_break := b + 4096,
    ublocks := (ublocks u)(b + 72 := \<lparr>ub_size = 4048, ub_next = 0, ub_free = True\<rparr>, b := \<lparr>ub_size = 48, ub_next = b + 72, ub_free = False\<rparr>)\<rparr>"
  have 1: "malloc 48 u = Some (b + 24, u1)" using malloc_first [OF u n, of 48] r by (simp add: u1_def add.commute [of 72])
  define u2 where "u2 = u1\<lparr>ublocks := (ublocks u)(b + 608 := \<lparr>ub_size = 4024, ub_next = 0, ub_free = True\<rparr>,
     b + 72 := \<lparr>ub_size = 512, ub_next = b + 608, ub_free = False\<rparr>, b := \<lparr>ub_size = 48, ub_next = b + 72, ub_free = False\<rparr>)\<rparr>"
  have 2: "malloc 512 u1 = Some (b + 96, u2)" using z r by (simp add: d u1_def u2_def fun_upd_twist)
  have "\<exists>u3 u4. malloc 48 (free (b + 24) (free (b + 96) u2)) = Some (b + 24, u3) \<and> malloc 512 u3 = Some (b + 96, u4)"
    using z r by (simp add: d u2_def u1_def)
  then show ?thesis using 1 2 by auto
qed

abbreviation a_stream :: "nat \<Rightarrow> bool \<Rightarrow> u64 \<Rightarrow> stream" where
  "a_stream j wrt b \<equiv> \<lparr>fd = int j, is_write = wrt, fbuf = [], buf_size = FILE_BUF_SIZE, buf_pos = 0, s_addr = b + 24, buf_addr = b + 96\<rparr>"

lemma open_writing:
  assumes inv: "vfs_inv w" and d: "shadow_dir w mp i root ds m" and p: "vfs_find_mount w (mp @ slash # name) = Some i"
    and n: "file_name name" "name \<notin> set (names ds)" and q: "unat (m_used m) + 144 + 24 * n < unat (quota m)"
    and room: "heap_room (heap w) (525 + 104 * n)" "pmm_wf (pages w)" "n \<le> card (pmm_avail (pages w))"
    and j: "alloc_fd_from (file_table w) 3 = int j" "j < VFS_MAX_FDS"
  shows "\<exists>w1. vfs_open fs_table w (mp @ slash # name) 21 = Some (int j, w1) \<and> writing mp i name (file_table w) j [] n w1"
proof -
  have fl: "(21 :: u32) AND O_CREAT \<noteq> 0" "(21 :: u32) AND O_APPEND = 0" by simp_all
  have mq: "m_used m < quota m" using q by (simp add: word_less_nat_alt)
  have hr: "heap_room (heap w) ((109 + 104 * n) + 416)" using room(1) by (simp add: ac_simps)
  from open_new [OF inv d p n mq hr _ fl j(1) room(2)] obtain w1 f a ino ds' where
    o: "vfs_open fs_table w (mp @ slash # name) 21 = Some (int j, w1)" "file_table w1 = (file_table w)[j := f]" "f \<noteq> 0" "files w1 f = Some (fresh_file a 21)"
      "stored w1 a ino [] []" "i_sb ino = Some i" "entries ds' = entries ds @ [(name, a)]"
      "shadow_dir w1 mp i root ds' (m\<lparr>next_inode_num := next_inode_num m + 1, m_used := m_used m + SIZEOF_ENTRY\<rparr>)"
      "heap_room (heap w1) (109 + 104 * n)" "pages w1 = pages w" "same_mounts w w1" by auto
  let ?m = "m\<lparr>next_inode_num := next_inode_num m + 1, m_used := m_used m + SIZEOF_ENTRY\<rparr>"
  have "unat (quota m) < 2 ^ 32" by (rule order_less_le_trans [OF unsigned_less]) simp
  then have q1: "unat (m_used ?m) + 24 * n < unat (quota ?m)" using q by (simp add: unat_word_ariths)
  have "name \<notin> fst ` set (entries ds)" using n(2) by (simp add: names_entries)
  then have a: "find_inode ds' name = a" by (simp add: find_inode_entries o(7) assoc_inode_append)
  have "vfs_inv w1" "length (file_table w) = VFS_MAX_FDS" using kernel_fs.open_tab [OF inv o(1)] inv by (simp_all add: vfs_inv_def vfs_tab_def)
  moreover have "vfs_find_mount w1 (mp @ slash # name) = Some i" using p o(11) mount_cong [of w1 w] by (simp add: same_mounts_def)
  moreover have "ds' \<noteq> []" using o(7) by auto
  moreover have "enough w1 n" using o(9,10) room(3) by (simp add: enough_def)
  ultimately have "writing mp i name (file_table w) j [] n w1"
    unfolding writing_def using o(2-6,8) j(2) a q1
    by (intro exI [of _ f] exI [of _ "fresh_file a 21"] exI [of _ a] exI [of _ ino] exI [of _ "[]"] exI [of _ root] exI [of _ ds'] exI [of _ ?m]) simp
  then show ?thesis using o(1) by blast
qed

lemma open_reading:
  assumes s: "saved mp i name tab c w" and n: "file_name name" and j: "alloc_fd_from tab 3 = int j" "j < VFS_MAX_FDS" "length tab = VFS_MAX_FDS"
  shows "\<exists>w1. vfs_open fs_table w (mp @ slash # name) 0 = Some (int j, w1) \<and> reading j c w1"
proof -
  from s obtain a ino bs root ds m where
    h: "vfs_inv w" "file_table w = tab" "stored w a ino bs c" "shadow_dir w mp i root ds m" "find_inode ds name = a" "vfs_find_mount w (mp @ slash # name) = Some i"
      "heap_room (heap w) 109" unfolding saved_def by (elim exE conjE) (rule that)
  from open_old [OF h(1,4,6) n h(5,3), of 5 0 j] h(2,7) j(1) obtain w1 f where
    o: "vfs_open fs_table w (mp @ slash # name) 0 = Some (int j, w1)" "file_table w1 = tab[j := f]" "f \<noteq> 0" "files w1 f = Some (fresh_file a 0)" "stored w1 a ino bs c" by auto
  have "reading j c w1" unfolding reading_def using o(2-5) j(2,3) by (intro exI [of _ f] exI [of _ "fresh_file a 0"] exI [of _ a] exI [of _ ino] exI [of _ bs] exI [of _ c]) simp
  then show ?thesis using o(1) by blast
qed

section \<open>The round trip\<close>

text \<open>C1: What a program writes to a file through the C library it reads back through the C library. On a shadowFS mounted at \<open>mp\<close>, for a new name
  in its root directory, an empty heap of the process, a free descriptor, and memory and quota for one block per buffer: \<open>fopen\<close> with mode \<open>w\<close> succeeds, \<open>fwrite\<close> takes all
  bytes, \<open>fclose\<close> succeeds, \<open>fopen\<close> of the same path with mode \<open>r\<close> succeeds and reuses the blocks of the closed stream, and \<open>fread\<close> of \<open>k\<close> bytes returns the first \<open>k\<close> bytes
  written, at whatever points the buffer of 512 bytes was flushed and refilled.\<close>

theorem stdio_file_round_trip:
  assumes inv: "vfs_inv w" and d: "shadow_dir w mp i root ds m" and p: "vfs_find_mount w (mp @ slash # name) = Some i"
    and n: "file_name name" "name \<notin> set (names ds)" and src: "length src \<le> FILE_BUF_SIZE * n" "length src < 2 ^ 31"
    and q: "unat (m_used m) + 144 + 24 * n < unat (quota m)"
    and room: "heap_room (heap w) (525 + 104 * n)" "pmm_wf (pages w)" "n \<le> card (pmm_avail (pages w))"
    and fd: "\<exists>j. 3 \<le> j \<and> j < VFS_MAX_FDS \<and> file_table w ! j = 0"
    and u: "heap_head u = 0" "heap_break u = b" "0 < unat b" "unat b + 20000 < 2 ^ 64"
  shows "\<exists>f w1 u1 f1 w2 w3 u2 g w4 u3 g1 w5.
    fopen (vfs_open fs_table) (vfs_close fs_table) (mp @ slash # name) ''w'' w u = Some (Some f, w1, u1) \<and>
    fwrite k_write src 1 (of_nat (length src)) f w1 = Some (length src, f1, w2) \<and>
    fclose k_write (vfs_close fs_table) f1 w2 u1 = Some (0, w3, u2) \<and>
    fopen (vfs_open fs_table) (vfs_close fs_table) (mp @ slash # name) ''r'' w3 u2 = Some (Some g, w4, u3) \<and>
    fread k_read 1 k g w4 = Some (min (unat k) (length src), take (unat k) src, g1, w5)"
proof -
  let ?path = "mp @ slash # name"
  obtain j where j: "alloc_fd_from (file_table w) 3 = int j" "j < VFS_MAX_FDS" "file_table w ! j = 0"
    using alloc_fd_from_spec [of "file_table w" 3] fd by metis
  have len: "length (file_table w) = VFS_MAX_FDS" using inv by (simp add: vfs_inv_def vfs_tab_def)
  obtain u1 u2 u3 u4 where h: "malloc SIZEOF_FILE u = Some (b + 24, u1)" "malloc (of_nat FILE_BUF_SIZE) u1 = Some (b + 96, u2)"
    "malloc SIZEOF_FILE (free (b + 24) (free (b + 96) u2)) = Some (b + 24, u3)" "malloc (of_nat FILE_BUF_SIZE) u3 = Some (b + 96, u4)"
    using stream_blocks [OF u] by blast
  have nz: "b + 24 \<noteq> 0" "b + 96 \<noteq> 0" using heap_nonzero [OF u(3,4), of 24] heap_nonzero [OF u(3,4), of 96] by simp_all
  obtain w1 where o: "vfs_open fs_table w ?path 21 = Some (int j, w1)" "writing mp i name (file_table w) j [] n w1"
    using open_writing [OF inv d p n q room j(1,2)] by blast
  let ?f = "a_stream j True b"
  have f: "fopen (vfs_open fs_table) (vfs_close fs_table) ?path ''w'' w u = Some (Some ?f, w1, u2)" using o(1) h nz by (simp add: fopen_def fopen_flags_def)
  from file_out.fwrite_all [OF _ _ _ _ o(2) src, of ?f] obtain bs c n' w2 where
    wr: "fwrite k_write src 1 (of_nat (length src)) ?f w1 = Some (length src, ?f\<lparr>fbuf := bs\<rparr>, w2)" "length bs \<le> FILE_BUF_SIZE" "writing mp i name (file_table w) j c n' w2"
      "c @ bs = src" "length bs \<le> FILE_BUF_SIZE * n'" by auto
  have "length c + length bs < 2 ^ 31" using src(2) wr(4) by auto
  have cl: "\<exists>w'. vfs_close fs_table v (int j) = Some (0, w') \<and> saved mp i name (file_table w) src w'" if "writing mp i name (file_table w) j (c @ bs) n v" for n v
    using close_saved [OF that j(3)] unfolding wr(4) .
  obtain w3 where c: "fclose k_write (vfs_close fs_table) (?f\<lparr>fbuf := bs\<rparr>) w2 u2 = Some (0, w3, free (b + 24) (free (b + 96) u2))" "saved mp i name (file_table w) src w3"
    using file_out.fclose_all [OF _ _ _ wr(3), of "?f\<lparr>fbuf := bs\<rparr>" "vfs_close fs_table" "saved mp i name (file_table w) src" u2] cl \<open>length c + length bs < 2 ^ 31\<close> wr(2,5) by fastforce
  obtain w4 where r: "vfs_open fs_table w3 ?path 0 = Some (int j, w4)" "reading j src w4" using open_reading [OF c(2) n(1) j(1,2) len] by blast
  have g: "fopen (vfs_open fs_table) (vfs_close fs_table) ?path ''r'' w3 (free (b + 24) (free (b + 96) u2)) = Some (Some (a_stream j False b), w4, u4)"
    using r(1) h nz by (simp add: fopen_def fopen_flags_def)
  obtain g1 w5 where "fread k_read 1 k (a_stream j False b) w4 = Some (min (unat k) (length src), take (unat k) src, g1, w5)"
    using file_in.fread_all [OF _ _ _ _ _ r(2), of "a_stream j False b" k] by auto
  then show ?thesis using f wr(1) c(1) g by blast
qed

theorem stdio_file_round_trip_witness:
  "\<exists>w f w1 u1 f1 w2 w3 u2 g w4 u3 g1 w5. fs_reachable w \<and>
    fopen (vfs_open fs_table) (vfs_close fs_table) ''/temp/a'' ''w'' w empty_heap = Some (Some f, w1, u1) \<and>
    fwrite k_write [72, 105] 1 2 f w1 = Some (2, f1, w2) \<and> fclose k_write (vfs_close fs_table) f1 w2 u1 = Some (0, w3, u2) \<and>
    fopen (vfs_open fs_table) (vfs_close fs_table) ''/temp/a'' ''r'' w3 u2 = Some (Some g, w4, u3) \<and> fread k_read 1 100 g w4 = Some (2, [72, 105], g1, w5)"
proof -
  obtain w root where w: "fs_reachable w" "shadow_dir w ''/temp'' 0 root [] \<lparr>quota = 8192, m_used = 0, next_inode_num = 2, root_inode = root\<rparr>"
      "vfs_find_mount w ''/temp/a'' = Some 0" "heap_room (heap w) 9000" "pages w = small_pmm" "file_table w = replicate VFS_MAX_FDS 0"
    using temp_mounted by blast
  have r: "heap_room (heap w) (525 + 104 * 1)" "pmm_wf (pages w)" "1 \<le> card (pmm_avail (pages w))"
    using heap_room_mono [OF w(4)] card_mono [of "pmm_avail small_pmm" "{4096}"] small_avail(2) w(5) by (simp_all add: pmm_wf_def small_pmm_def)
  have p: "vfs_find_mount w (''/temp'' @ slash # ''a'') = Some 0" using w(3) by simp
  have fd: "\<exists>j. 3 \<le> j \<and> j < VFS_MAX_FDS \<and> file_table w ! j = 0" using w(6) by (intro exI [of _ 3]) simp
  have u: "heap_head empty_heap = 0" "heap_break empty_heap = 0x10000" by (simp_all add: empty_heap_def)
  from stdio_file_round_trip [OF reachable_inv [OF w(1)] w(2) p _ _ _ _ _ r fd u, of "[72, 105]" 100] obtain f w1 u1 f1 w2 w3 u2 g w4 u3 g1 w5 where
    "fopen (vfs_open fs_table) (vfs_close fs_table) (''/temp'' @ slash # ''a'') ''w'' w empty_heap = Some (Some f, w1, u1)"
    "fwrite k_write [72, 105] 1 (of_nat (length [72, 105 :: u8])) f w1 = Some (length [72, 105 :: u8], f1, w2)" "fclose k_write (vfs_close fs_table) f1 w2 u1 = Some (0, w3, u2)"
    "fopen (vfs_open fs_table) (vfs_close fs_table) (''/temp'' @ slash # ''a'') ''r'' w3 u2 = Some (Some g, w4, u3)"
    "fread k_read 1 100 g w4 = Some (min (unat (100 :: u64)) (length [72, 105 :: u8]), take (unat (100 :: u64)) [72, 105], g1, w5)"
    by (auto simp: file_name_def)
  then show ?thesis using w(1) by auto
qed

end
