(* ===== verification/Spec2Isabelle.thy ===== *)
theory Spec2Isabelle
  imports Boot Program_Start Shell_Trip Stdio_Trip
begin

text \<open>
  Verification of AcornOS, a small 64-bit operating system in C: a kernel with physical and virtual memory,
  a heap, processes with a round-robin scheduler, three file systems behind a virtual file system, device drivers, an ELF
  loader, system calls, a command shell that runs in the kernel, and a C library for programs.

  \<^bold>\<open>How the code is modelled.\<close> Every C function is a HOL function on an explicit state. Integers are words of their C width, so
  additions wrap around as in C. The states form one chain of extensible records, each theory adding the variables of
  its files: \<open>kost\<close> (kernel heap and the objects on it), \<open>vst\<close> (mount and descriptor tables), \<open>sst\<close> (pages and
  their contents), \<open>ast\<close> (address spaces), \<open>pst\<close> (processes), \<open>dst\<close> (devices), \<open>kst\<close> (descriptor tables). A result of
  option type is \<^term>\<open>None\<close> where the code panics, has undefined behaviour or does not come back; error codes are values. Structs of the file
  systems are typed objects at the addresses kmalloc returns, so aliasing, release and reuse of memory are those of the code.
  A call that gives the processor away is modelled up to that point, and the round of the loop it continues with as a
  definition of its own. Diagnostic messages on the serial port are left out; what is printed on the screen is modelled.

  \<^bold>\<open>Theories.\<close>
  \<^item> \<open>Acorn_Prelude\<close>: word types, counting loops, shared lemmas. \<open>KString\<close>: \<open>kernel/core/string.h\<close> and \<open>libc/src/string.c\<close> on a byte memory.
  \<^item> \<open>Pmm\<close>: \<open>kernel/memory/pmm.c\<close>; locale \<open>page_allocator\<close> is what its clients rely on. \<open>Kheap\<close>: \<open>kernel/memory/mem.c\<close>, a
    refinement of first-fit allocation on a list of blocks; locale \<open>allocator\<close>.
  \<^item> \<open>Paging\<close>, \<open>Page_Tables\<close>: \<open>paging.c\<close>, four-level tables stored in the pages of the physical memory.
  \<^item> \<open>Kobjects\<close>, \<open>Klist\<close>: the structs of the file systems and the linked lists among them.
  \<^item> \<open>Vfs\<close>: \<open>vfs.c\<close>; locale \<open>fs_driver\<close> is the contract of a file system. \<open>Shadowfs\<close>, \<open>Shadow_Dir\<close>, \<open>Shadow_File\<close>, \<open>Shadow_Boot\<close>:
    \<open>shadowfs.c\<close>, its directories and files as lists. \<open>Devfs\<close>, \<open>Procfs\<close>: \<open>devfs.c\<close>, \<open>procfs.c\<close>. \<open>System\<close>: the three together as instances of
    \<open>fs_driver\<close>, and the states file operations reach. \<open>File_Trip\<close>: a file from its path to its pages.
  \<^item> \<open>Kprintf\<close>, \<open>Rtc\<close>, \<open>Drivers\<close>, \<open>Keyboard\<close>: formatted output, clock, screen, serial port, timer, null and random devices, keyboard.
  \<^item> \<open>Scheduler\<close>, \<open>Process\<close>: \<open>scheduler.c\<close>, \<open>process.c\<close> and the context switch; locale \<open>process_queue\<close>. \<open>Interrupts\<close>: \<open>gdt.c\<close>, \<open>tss.c\<close>,
    \<open>idt.c\<close>, \<open>pic.c\<close>. \<open>Elf\<close>: \<open>elf.c\<close>, \<open>process_spawn\<close> and \<open>process_exec\<close>. \<open>Syscall\<close>: \<open>syscall.c\<close>.
    \<open>Argv\<close>: the argument vector from the loader to the program. \<open>Program_Start\<close>: what the loader leaves in the address space of a program.
  \<^item> \<open>Shell\<close>: \<open>apps/shell/shell.c\<close>. \<open>Boot\<close>: \<open>kernel/core/kernel.c\<close>. \<open>Faults\<close>: \<open>panic.c\<close>, the exception handlers and the reports of the kernel.
    \<open>Shell_Trip\<close>: commands of the shell on the files below them.
  \<^item> \<open>Umalloc\<close>, \<open>Stdio\<close>, \<open>Libc_Calls\<close>: the C library's \<open>malloc.c\<close>, \<open>stdio.c\<close> (locale \<open>byte_sink\<close>) and \<open>syscall.c\<close>.
    \<open>Hello\<close>: \<open>apps/hello/hello.c\<close> and \<open>crt0.c\<close> (locale \<open>console\<close> is what a program needs of its standard output). \<open>Stdio_Trip\<close>:
    a file through the streams of the library (locales \<open>file_sink\<close>, \<open>file_source\<close>).

  \<^bold>\<open>What is shown.\<close> Memory: pages and heap blocks that are handed out are usable, disjoint and not handed out twice, first fit is
  followed exactly, mapping a page changes one translation in one address space, a cloned address space is empty and separate. Files: path
  resolution and the choice of the mount, shadowFS files and directories as lists of bytes and names with reading, writing at the end, creation and
  quota, a round trip through open, write, close, open and read, and, for all operations of all three file systems in any order, the consistency and typing of
  descriptors, open files and heap objects; \<open>cat\<close> shows a file, and no shell command but \<open>run\<close> leaks a descriptor.
  Processes: the run queue is a list, the scheduler is fair, a waiting parent is woken, hardware interrupts keep the scheduler consistent, a program reads the arguments it was started with, and
  the shell gets the processor within one round of the queue the boot builds. Text and time: the formatters implement an unbounded specification within their buffers, the calendar is
  the Gregorian one and the clock is read right in all modes except at noon and midnight in 12-hour mode. Interfaces: the file calls of the C library
  with non-null buffers and paths and at most 4096 bytes are the operations of the kernel, its buffering is transparent, what is written with \<open>fwrite\<close> is read back with \<open>fread\<close>, and the tests of the test program are followed down to the screen.

  Where the code does not do what it should, a theorem states what it does: overlapping blocks after a split in \<open>malloc.c\<close>, the kernel image handed out by the
  page allocator, writes that ignore the position of the file, program headers ignored by the ELF loader, a lost wake-up of the keyboard reader, timer interrupts that
  are not acknowledged when the tick switches, mount prefixes without a component boundary, noon and midnight swapped by the clock, sleeping a tick too short, a panic
  whose report is undefined after the banner, conversions narrower than their arguments.

  \<^bold>\<open>Bounds and loops.\<close> Loops with a bound in the code recurse structurally or with a proved measure. Loops along lists in memory and
  loops that depend on a device are \<open>partial_function (option)\<close>; for those the theorems show that they return (under the
  heap and list invariants) before saying what they return. The walk of the run queue is bounded by the size of the process table, as in the code.

  \<^bold>\<open>Not modelled.\<close> Assembly other than the context switch (boot sector, interrupt and system call entry): it
  saves and restores registers. \<open>usermode.c\<close>, which nothing calls. The processes of \<open>kernel.c\<close> that are never started (\<open>child_process\<close>, \<open>exec_target\<close>, \<open>exec_test\<close>), the idle loop, and
  diagnostic messages on the serial port. Port access is a trace of writes and a list of the values read; the processor's caches, the TLB and what
  devices do behind their ports are outside the model.
\<close>

end
